(* ===== verification/Prelude.thy ===== *)
theory Prelude
  imports Main "HOL-Library.Word" "HOL-Library.AList"
begin

text \<open>
  Shared vocabulary of the development: the machine integers of the Rust source and the
  checked and saturating operations it uses on them, \<open>Result\<close> values, the slice, string and
  UTF-8 operations of the standard library, and \<open>HashMap\<close> as an association list whose order
  stands for the unspecified iteration order. The target is a 64-bit platform: \<open>usize\<close> values are
  natural numbers bounded by \<open>usize_max\<close>, and conversions between \<open>u64\<close> and \<open>usize\<close> are exact.
\<close>

unbundle bit_operations_syntax

named_theorems rust_arith \<open>values of the checked and saturating operations, read through unat\<close>
named_theorems rust_text \<open>behaviour of the string and slice operations\<close>

type_synonym u8 = "8 word"
type_synonym u16 = "16 word"
type_synonym u32 = "32 word"
type_synonym u64 = "64 word"
type_synonym u128 = "128 word"
type_synonym bytes = "u8 list"
type_synonym str = "u8 list"

text \<open>
  The value of code that contains a panicking expression (an index, a range, an \<open>expect\<close>):
  \<open>None\<close> is the panic.
\<close>

type_synonym 'a may_panic = "'a option"

section \<open>Results\<close>

datatype ('a, 'e) result = Ok 'a | Err 'e

text \<open>The question-mark operator, \<open>map_err\<close>, \<open>ok_or\<close> and \<open>is_err\<close>.\<close>

fun try_bind :: "('a, 'e) result \<Rightarrow> ('a \<Rightarrow> ('b, 'e) result) \<Rightarrow> ('b, 'e) result" where
  "try_bind (Ok x) f = f x"
| "try_bind (Err e) f = Err e"

fun map_err :: "('e \<Rightarrow> 'f) \<Rightarrow> ('a, 'e) result \<Rightarrow> ('a, 'f) result" where
  "map_err f (Ok x) = Ok x"
| "map_err f (Err e) = Err (f e)"

fun ok_or :: "'a option \<Rightarrow> 'e \<Rightarrow> ('a, 'e) result" where
  "ok_or (Some x) e = Ok x"
| "ok_or None e = Err e"

fun is_ok :: "('a, 'e) result \<Rightarrow> bool" where
  "is_ok (Ok x) = True"
| "is_ok (Err e) = False"

abbreviation is_err :: "('a, 'e) result \<Rightarrow> bool" where
  "is_err r \<equiv> \<not> is_ok r"

lemma try_bind_Ok_iff: "try_bind r f = Ok y \<longleftrightarrow> (\<exists>x. r = Ok x \<and> f x = Ok y)"
  by (cases r) auto

lemma try_bind_Err_iff:
  "try_bind r f = Err e \<longleftrightarrow> r = Err e \<or> (\<exists>x. r = Ok x \<and> f x = Err e)"
  by (cases r) auto

lemma ok_or_iff [simp]:
  "ok_or m e = Ok x \<longleftrightarrow> m = Some x"
  "ok_or m e = Err e' \<longleftrightarrow> m = None \<and> e' = e"
  by (cases m; auto)+

lemma map_err_iff [simp]:
  "map_err f r = Ok x \<longleftrightarrow> r = Ok x"
  "map_err f r = Err e' \<longleftrightarrow> (\<exists>e. r = Err e \<and> e' = f e)"
  by (cases r; auto)+

lemma is_ok_iff: "is_ok r \<longleftrightarrow> (\<exists>x. r = Ok x)"
  by (cases r) auto

section \<open>Checked and saturating arithmetic\<close>

text \<open>Overflow of an unsigned addition shows as a sum below an operand.\<close>

definition checked_add :: "'n::len word \<Rightarrow> 'n word \<Rightarrow> 'n word option" where
  "checked_add a b = (let s = a + b in if s < a then None else Some s)"

definition checked_sub :: "'n::len word \<Rightarrow> 'n word \<Rightarrow> 'n word option" where
  "checked_sub a b = (if a < b then None else Some (a - b))"

definition checked_mul :: "'n::len word \<Rightarrow> 'n word \<Rightarrow> 'n word option" where
  "checked_mul a b = (if unat a * unat b \<le> unat (-1 :: 'n word) then Some (a * b) else None)"

definition saturating_add :: "'n::len word \<Rightarrow> 'n word \<Rightarrow> 'n word" where
  "saturating_add a b = (case checked_add a b of Some s \<Rightarrow> s | None \<Rightarrow> - 1)"

definition saturating_sub :: "'n::len word \<Rightarrow> 'n word \<Rightarrow> 'n word" where
  "saturating_sub a b = (case checked_sub a b of Some d \<Rightarrow> d | None \<Rightarrow> 0)"

definition saturating_mul :: "'n::len word \<Rightarrow> 'n word \<Rightarrow> 'n word" where
  "saturating_mul a b = (case checked_mul a b of Some p \<Rightarrow> p | None \<Rightarrow> - 1)"

lemma unat_max_word: "unat (- 1 :: 'n::len word) = 2 ^ LENGTH('n) - 1"
  by (simp add: unsigned_minus_1_eq_mask mask_eq_exp_minus_1)

lemma unat_le_max: "unat w \<le> unat (- 1 :: 'n word)" for w :: "'n::len word"
  using max_word_max [of w] by (simp only: word_le_nat_alt)

lemma le_max_iff: "n \<le> unat (- 1 :: 'n::len word) \<longleftrightarrow> n < 2 ^ LENGTH('n)"
proof -
  have "(0::nat) < 2 ^ LENGTH('n)" by simp
  then show ?thesis unfolding unat_max_word by linarith
qed

lemma unat_add_no_overflow: "a \<le> a + b \<Longrightarrow> unat (a + b) = unat a + unat b"
  by (simp add: no_olen_add_nat unat_add_lem)

lemma checked_add_Some [rust_arith]:
  "checked_add a b = Some c \<longleftrightarrow> unat c = unat a + unat b"
proof
  assume "checked_add a b = Some c"
  then have "a \<le> a + b" and "c = a + b"
    by (auto simp: checked_add_def Let_def split: if_splits)
  then show "unat c = unat a + unat b"
    by (simp add: unat_add_no_overflow)
next
  assume c: "unat c = unat a + unat b"
  then have "unat a + unat b < 2 ^ LENGTH('a)"
    by (metis unsigned_less)
  then have "unat (a + b) = unat a + unat b" and "a \<le> a + b"
    by (simp_all add: unat_add_lem no_olen_add_nat)
  with c show "checked_add a b = Some c"
    by (simp add: checked_add_def Let_def word_unat_eq_iff not_less)
qed

lemma checked_add_None [rust_arith]:
  "checked_add a b = None \<longleftrightarrow> unat (- 1 :: 'n word) < unat a + unat b" for a b :: "'n::len word"
proof -
  have "checked_add a b = None \<longleftrightarrow> \<not> a \<le> a + b"
    by (auto simp: checked_add_def Let_def)
  also have "\<dots> \<longleftrightarrow> \<not> unat a + unat b < 2 ^ LENGTH('n)"
    by (simp add: no_olen_add_nat)
  finally show ?thesis by (simp add: le_max_iff [symmetric] not_le)
qed

lemma checked_sub_Some [rust_arith]:
  "checked_sub a b = Some c \<longleftrightarrow> unat b \<le> unat a \<and> unat c = unat a - unat b"
  by (auto simp: checked_sub_def word_less_nat_alt unat_sub_if' word_le_nat_alt
      intro: word_unat_eq_iff[THEN iffD2])

lemma checked_sub_None [rust_arith]: "checked_sub a b = None \<longleftrightarrow> unat a < unat b"
  by (auto simp: checked_sub_def word_less_nat_alt)

lemma unat_mul_no_overflow:
  "unat a * unat b \<le> unat (- 1 :: 'n word) \<Longrightarrow> unat (a * b) = unat a * unat b" for a b :: "'n::len word"
  by (simp add: le_max_iff unat_mult_lem)

lemma checked_mul_Some [rust_arith]:
  "checked_mul a b = Some c \<longleftrightarrow> unat c = unat a * unat b"
proof
  assume "checked_mul a b = Some c"
  then show "unat c = unat a * unat b"
    by (auto simp: checked_mul_def unat_mul_no_overflow split: if_splits)
next
  assume c: "unat c = unat a * unat b"
  then have "unat a * unat b \<le> unat (- 1 :: 'a word)"
    using unat_le_max [of c] by simp
  with c show "checked_mul a b = Some c"
    by (simp add: checked_mul_def unat_mul_no_overflow word_unat_eq_iff)
qed

lemma checked_mul_None [rust_arith]:
  "checked_mul a b = None \<longleftrightarrow> unat (- 1 :: 'n word) < unat a * unat b" for a b :: "'n::len word"
  by (auto simp: checked_mul_def)

text \<open>The same function over binary integers, for evaluation.\<close>

lemma checked_mul_code [code]:
  "checked_mul a b = (if uint a * uint b \<le> uint (- 1 :: 'n word) then Some (a * b) else None)"
  for a b :: "'n::len word"
proof -
  have "unat a * unat b \<le> unat (- 1 :: 'n word) \<longleftrightarrow> uint a * uint b \<le> uint (- 1 :: 'n word)"
    by (simp only: uint_nat of_nat_mult [symmetric] of_nat_le_iff)
  then show ?thesis by (simp only: checked_mul_def)
qed

lemma unat_saturating_add [rust_arith]:
  "unat (saturating_add a b) = min (unat a + unat b) (unat (- 1 :: 'n word))" for a b :: "'n::len word"
proof (cases "checked_add a b")
  case None
  then have "unat (- 1 :: 'n word) < unat a + unat b" by (simp only: checked_add_None)
  with None show ?thesis by (simp add: saturating_add_def)
next
  case (Some c)
  then have "unat c = unat a + unat b" by (simp only: checked_add_Some)
  with Some show ?thesis using unat_le_max [of c] by (simp add: saturating_add_def)
qed

lemma unat_saturating_sub [rust_arith]: "unat (saturating_sub a b) = unat a - unat b"
proof (cases "checked_sub a b")
  case None
  then have "unat a < unat b" by (simp only: checked_sub_None)
  with None show ?thesis by (simp add: saturating_sub_def)
next
  case (Some c)
  then have "unat c = unat a - unat b" by (simp only: checked_sub_Some)
  with Some show ?thesis by (simp add: saturating_sub_def)
qed

lemma unat_saturating_mul [rust_arith]:
  "unat (saturating_mul a b) = min (unat a * unat b) (unat (- 1 :: 'n word))" for a b :: "'n::len word"
proof (cases "checked_mul a b")
  case None
  then have "unat (- 1 :: 'n word) < unat a * unat b" by (simp only: checked_mul_None)
  with None show ?thesis by (simp add: saturating_mul_def)
next
  case (Some c)
  then have "unat c = unat a * unat b" by (simp only: checked_mul_Some)
  with Some show ?thesis using unat_le_max [of c] by (simp add: saturating_mul_def)
qed

lemma unat_word_min [rust_arith]: "unat (min a b) = min (unat a) (unat b)"
  by (simp add: min_def word_le_nat_alt)

lemma unat_word_max [rust_arith]: "unat (max a b) = max (unat a) (unat b)"
  by (simp add: max_def word_le_nat_alt)

lemma unat_of_nat_small [rust_arith]:
  "n \<le> unat (- 1 :: 'n word) \<Longrightarrow> unat (of_nat n :: 'n::len word) = n"
  by (simp add: le_max_iff unat_of_nat)

section \<open>Sizes\<close>

definition usize_max :: nat where
  "usize_max = 2 ^ 64 - 1"

definition usize_saturating_add :: "nat \<Rightarrow> nat \<Rightarrow> nat" where
  "usize_saturating_add a b = min (a + b) usize_max"

text \<open>Big-endian integers, as \<open>from_be_bytes\<close> and \<open>to_be_bytes\<close> lay them out.\<close>

definition be_value :: "bytes \<Rightarrow> nat" where
  "be_value bs = foldl (\<lambda>acc b. acc * 256 + unat b) 0 bs"

definition be_bytes16 :: "nat \<Rightarrow> bytes" where
  "be_bytes16 n = [of_nat (n div 256), of_nat n]"

definition be_bytes32 :: "nat \<Rightarrow> bytes" where
  "be_bytes32 n = [of_nat (n div 16777216), of_nat (n div 65536), of_nat (n div 256), of_nat n]"

lemma unat_of_nat8: "unat (of_nat n :: u8) = n mod 256"
  by (simp add: unat_of_nat)

lemma be_value_bytes16 [simp]: "n < 65536 \<Longrightarrow> be_value (be_bytes16 n) = n"
  by (simp add: be_value_def be_bytes16_def unat_of_nat8)

lemma be_value_bytes32 [simp]:
  assumes "n < 4294967296"
  shows "be_value (be_bytes32 n) = n"
proof -
  have top: "n div 256 div 256 div 256 mod 256 = n div 256 div 256 div 256"
    using assms by (simp add: div_mult2_eq [symmetric])
  have "be_value (be_bytes32 n) =
      ((n div 256 div 256 div 256 mod 256 * 256 + n div 256 div 256 mod 256) * 256
        + n div 256 mod 256) * 256 + n mod 256"
    by (simp add: be_value_def be_bytes32_def unat_of_nat8 div_mult2_eq [symmetric])
  then show ?thesis by (simp only: top div_mult_mod_eq)
qed

text \<open>Three bytes, as in a TLS handshake header.\<close>

definition be_bytes24 :: "nat \<Rightarrow> bytes" where
  "be_bytes24 n = [of_nat (n div 65536), of_nat (n div 256), of_nat n]"

lemma be_value_bytes24 [simp]:
  assumes "n < 16777216"
  shows "be_value (be_bytes24 n) = n"
proof -
  have top: "n div 256 div 256 mod 256 = n div 256 div 256"
    using assms by (simp add: div_mult2_eq [symmetric])
  have "be_value (be_bytes24 n) =
      (n div 256 div 256 mod 256 * 256 + n div 256 mod 256) * 256 + n mod 256"
    by (simp add: be_value_def be_bytes24_def unat_of_nat8 div_mult2_eq [symmetric])
  then show ?thesis by (simp only: top div_mult_mod_eq)
qed

lemma length_be_bytes [simp]: "length (be_bytes24 n) = 3" "length (be_bytes16 n) = 2" "length (be_bytes32 n) = 4"
  by (simp_all add: be_bytes16_def be_bytes24_def be_bytes32_def)

lemma be_value_snoc: "be_value (bs @ [b]) = be_value bs * 256 + unat b"
  by (simp add: be_value_def)

lemma unat_u8_less: "unat (b :: u8) < 256"
  using unsigned_less [of b] by simp

lemma be_value_less: "be_value bs < 256 ^ length bs"
proof (induction bs rule: rev_induct)
  case (snoc b bs)
  have "unat b < 256" by (rule unat_u8_less)
  moreover from snoc have "be_value bs + 1 \<le> 256 ^ length bs" by simp
  then have "(be_value bs + 1) * 256 \<le> 256 ^ length bs * 256" by (rule mult_le_mono1)
  ultimately show ?case by (simp add: be_value_snoc)
qed (simp add: be_value_def)

lemma be_value_Cons2: "be_value [a, b] = unat a * 256 + unat b"
  by (simp add: be_value_def)

section \<open>Slices\<close>

text \<open>
  \<open>get_range i j xs\<close> is \<open>xs.get(i..j)\<close>: \<open>None\<close> when the range is not inside the slice.
  \<open>get_at i xs\<close> is \<open>xs.get(i)\<close>. The indexing expressions \<open>xs[i..j]\<close> and \<open>xs[i]\<close> panic
  exactly where these are \<open>None\<close>.
\<close>

definition get_range :: "nat \<Rightarrow> nat \<Rightarrow> 'a list \<Rightarrow> 'a list option" where
  "get_range i j xs = (if i \<le> j \<and> j \<le> length xs then Some (take (j - i) (drop i xs)) else None)"

definition get_at :: "nat \<Rightarrow> 'a list \<Rightarrow> 'a option" where
  "get_at i xs = (if i < length xs then Some (xs ! i) else None)"

lemma get_range_Some [rust_text]:
  "get_range i j xs = Some ys \<longleftrightarrow> i \<le> j \<and> j \<le> length xs \<and> ys = take (j - i) (drop i xs)"
  by (auto simp: get_range_def)

lemma get_range_None [rust_text]: "get_range i j xs = None \<longleftrightarrow> j < i \<or> length xs < j"
  by (auto simp: get_range_def)

lemma get_at_Some [rust_text]: "get_at i xs = Some x \<longleftrightarrow> i < length xs \<and> x = xs ! i"
  by (auto simp: get_at_def)

lemma get_at_None [rust_text]: "get_at i xs = None \<longleftrightarrow> length xs \<le> i"
  by (auto simp: get_at_def)

lemma get_range_mid:
  "i = length a \<Longrightarrow> j = length a + length b \<Longrightarrow> get_range i j (a @ b @ c) = Some b"
  by (simp add: get_range_def)

lemma get_at_mid: "i = length a \<Longrightarrow> get_at i (a @ x # c) = Some x"
  by (simp add: get_at_def)

lemma get_at_append1: "i < length xs \<Longrightarrow> get_at i (xs @ ys) = get_at i xs"
  by (simp add: get_at_def nth_append)

lemma get_range_append1: "j \<le> length xs \<Longrightarrow> get_range i j (xs @ ys) = get_range i j xs"
  by (auto simp: get_range_def)

definition starts_with :: "'a list \<Rightarrow> 'a list \<Rightarrow> bool" where
  "starts_with xs p \<longleftrightarrow> take (length p) xs = p"

definition ends_with :: "'a list \<Rightarrow> 'a list \<Rightarrow> bool" where
  "ends_with xs p \<longleftrightarrow> length p \<le> length xs \<and> drop (length xs - length p) xs = p"

definition strip_prefix :: "'a list \<Rightarrow> 'a list \<Rightarrow> 'a list option" where
  "strip_prefix p xs = (if starts_with xs p then Some (drop (length p) xs) else None)"

definition strip_suffix :: "'a list \<Rightarrow> 'a list \<Rightarrow> 'a list option" where
  "strip_suffix p xs = (if ends_with xs p then Some (take (length xs - length p) xs) else None)"

lemma starts_with_iff [rust_text]: "starts_with xs p \<longleftrightarrow> (\<exists>ys. xs = p @ ys)"
  unfolding starts_with_def by (metis append_eq_conv_conj)

lemma starts_with_length: "starts_with xs p \<Longrightarrow> length p \<le> length xs"
  by (auto simp: starts_with_iff)

lemma starts_with_append: "length p \<le> length xs \<Longrightarrow> starts_with (xs @ ys) p = starts_with xs p"
  by (simp add: starts_with_def)

lemma ends_with_iff [rust_text]: "ends_with xs p \<longleftrightarrow> (\<exists>ys. xs = ys @ p)"
proof
  assume "ends_with xs p"
  then have "xs = take (length xs - length p) xs @ p"
    by (metis ends_with_def append_take_drop_id)
  then show "\<exists>ys. xs = ys @ p" by blast
qed (auto simp: ends_with_def)

lemma strip_suffix_Some [rust_text]: "strip_suffix p xs = Some ys \<longleftrightarrow> xs = ys @ p"
proof
  assume "strip_suffix p xs = Some ys"
  then have "ends_with xs p" and "ys = take (length xs - length p) xs"
    by (auto simp: strip_suffix_def split: if_splits)
  then show "xs = ys @ p" by (auto simp: ends_with_iff)
qed (auto simp: strip_suffix_def ends_with_iff)

lemma strip_prefix_Some [rust_text]: "strip_prefix p xs = Some ys \<longleftrightarrow> xs = p @ ys"
  by (auto simp: strip_prefix_def starts_with_iff)

text \<open>\<open>xs.windows(p.len()).position(|w| w == p)\<close>: the first offset at which \<open>p\<close> occurs.\<close>

fun find_window :: "'a list \<Rightarrow> 'a list \<Rightarrow> nat option" where
  "find_window p [] = (if p = [] then Some 0 else None)"
| "find_window p (x # xs) =
     (if starts_with (x # xs) p then Some 0 else map_option Suc (find_window p xs))"

lemma find_window_Some:
  "find_window p xs = Some n \<Longrightarrow> n + length p \<le> length xs \<and> take (length p) (drop n xs) = p"
proof (induction xs arbitrary: n)
  case (Cons x xs)
  then show ?case
    using starts_with_length [of "x # xs" p]
    by (auto simp: starts_with_def split: if_splits)
qed (auto split: if_splits)

lemma find_window_append:
  "find_window p xs = Some n \<Longrightarrow> find_window p (xs @ ys) = Some n"
proof (induction xs arbitrary: n)
  case Nil
  then show ?case by (cases ys) (auto simp: starts_with_def split: if_splits)
next
  case (Cons x xs)
  have "length p \<le> length (x # xs)"
    using find_window_Some [OF Cons.prems] by simp
  then have "starts_with (x # xs @ ys) p = starts_with (x # xs) p"
    using starts_with_append [of p "x # xs" ys] by simp
  with Cons show ?case by (auto split: if_splits)
qed

text \<open>\<open>iter.find_map(f)\<close>.\<close>

fun find_map :: "('a \<Rightarrow> 'b option) \<Rightarrow> 'a list \<Rightarrow> 'b option" where
  "find_map f [] = None"
| "find_map f (x # xs) = (case f x of Some y \<Rightarrow> Some y | None \<Rightarrow> find_map f xs)"

lemma find_map_Some: "find_map f xs = Some y \<Longrightarrow> \<exists>x \<in> set xs. f x = Some y"
  by (induction xs) (auto split: option.splits)

section \<open>Runs\<close>

text \<open>The sum of what each step of a run yields, measured in the state the step starts from.\<close>

fun run_total :: "('s \<Rightarrow> 'a \<Rightarrow> 's) \<Rightarrow> ('s \<Rightarrow> 'a \<Rightarrow> nat) \<Rightarrow> 's \<Rightarrow> 'a list \<Rightarrow> nat" where
  "run_total step yield s [] = 0"
| "run_total step yield s (a # as) = yield s a + run_total step yield (step s a) as"

text \<open>The operations of a run that are accepted in the state they meet.\<close>

fun run_accepted :: "('s \<Rightarrow> 'a \<Rightarrow> 's) \<Rightarrow> ('s \<Rightarrow> 'a \<Rightarrow> bool) \<Rightarrow> 's \<Rightarrow> 'a list \<Rightarrow> 'a list" where
  "run_accepted step accepts s [] = []"
| "run_accepted step accepts s (a # as) =
     (if accepts s a then [a] else []) @ run_accepted step accepts (step s a) as"

end
