(* ===== verification/Rust_Text.thy ===== *)
theory Rust_Text
  imports Prelude
begin

text \<open>
  The text operations of the Rust standard library that the sources call. A \<open>str\<close> is its UTF-8
  byte sequence, so lengths and offsets count bytes as they do in Rust. \<open>from_utf8\<close> accepts exactly
  the well-formed sequences (no overlong forms, no surrogates, nothing above U+10FFFF).
\<close>

definition str_lit :: "string \<Rightarrow> str" where
  "str_lit s = map of_char s"

section \<open>ASCII\<close>

definition is_ascii_digit :: "u8 \<Rightarrow> bool" where
  "is_ascii_digit b \<longleftrightarrow> 48 \<le> b \<and> b \<le> 57"

definition is_ascii_upper :: "u8 \<Rightarrow> bool" where
  "is_ascii_upper b \<longleftrightarrow> 65 \<le> b \<and> b \<le> 90"

definition is_ascii_lower :: "u8 \<Rightarrow> bool" where
  "is_ascii_lower b \<longleftrightarrow> 97 \<le> b \<and> b \<le> 122"

definition is_ascii_alphanumeric :: "u8 \<Rightarrow> bool" where
  "is_ascii_alphanumeric b \<longleftrightarrow> is_ascii_digit b \<or> is_ascii_upper b \<or> is_ascii_lower b"

definition is_ascii :: "str \<Rightarrow> bool" where
  "is_ascii s \<longleftrightarrow> list_all (\<lambda>b. b < 128) s"

definition ascii_lower :: "u8 \<Rightarrow> u8" where
  "ascii_lower b = (if is_ascii_upper b then b + 32 else b)"

definition to_ascii_lowercase :: "str \<Rightarrow> str" where
  "to_ascii_lowercase s = map ascii_lower s"

definition eq_ignore_ascii_case :: "str \<Rightarrow> str \<Rightarrow> bool" where
  "eq_ignore_ascii_case s t \<longleftrightarrow> to_ascii_lowercase s = to_ascii_lowercase t"

lemmas ascii_defs = is_ascii_digit_def is_ascii_upper_def is_ascii_lower_def
  is_ascii_alphanumeric_def ascii_lower_def

lemma ascii_lower_not_upper: "\<not> is_ascii_upper (ascii_lower b)"
proof (cases "is_ascii_upper b")
  case True
  then have "65 \<le> unat b" and "unat b \<le> 90"
    by (simp_all add: is_ascii_upper_def word_le_nat_alt)
  then have "unat (b + 32) = unat b + 32"
    by (simp add: unat_word_ariths)
  with True show ?thesis
    using \<open>65 \<le> unat b\<close> by (simp add: ascii_lower_def is_ascii_upper_def word_le_nat_alt)
qed (simp add: ascii_lower_def)

lemma ascii_lower_idem [simp]: "ascii_lower (ascii_lower b) = ascii_lower b"
  using ascii_lower_not_upper [of b] by (simp add: ascii_lower_def [of "ascii_lower b"])

lemma to_ascii_lowercase_idem [simp]:
  "to_ascii_lowercase (to_ascii_lowercase s) = to_ascii_lowercase s"
  by (simp add: to_ascii_lowercase_def comp_def)

lemma length_to_ascii_lowercase [simp]: "length (to_ascii_lowercase s) = length s"
  by (simp add: to_ascii_lowercase_def)

lemma eq_ignore_ascii_case_refl [simp]: "eq_ignore_ascii_case s s"
  by (simp add: eq_ignore_ascii_case_def)

section \<open>UTF-8\<close>

definition utf8_cont :: "u8 \<Rightarrow> bool" where
  "utf8_cont b \<longleftrightarrow> 128 \<le> b \<and> b \<le> 191"

text \<open>The number of bytes of the well-formed character at the front, 0 when there is none.\<close>

definition utf8_len3 :: "u8 \<Rightarrow> u8 \<Rightarrow> u8 \<Rightarrow> bool" where
  "utf8_len3 a b c \<longleftrightarrow> utf8_cont c \<and>
     (a = 0xE0 \<and> 0xA0 \<le> b \<and> b \<le> 0xBF \<or>
      0xE1 \<le> a \<and> a \<le> 0xEC \<and> utf8_cont b \<or>
      a = 0xED \<and> 0x80 \<le> b \<and> b \<le> 0x9F \<or>
      0xEE \<le> a \<and> a \<le> 0xEF \<and> utf8_cont b)"

definition utf8_len4 :: "u8 \<Rightarrow> u8 \<Rightarrow> u8 \<Rightarrow> u8 \<Rightarrow> bool" where
  "utf8_len4 a b c d \<longleftrightarrow> utf8_cont c \<and> utf8_cont d \<and>
     (a = 0xF0 \<and> 0x90 \<le> b \<and> b \<le> 0xBF \<or>
      0xF1 \<le> a \<and> a \<le> 0xF3 \<and> utf8_cont b \<or>
      a = 0xF4 \<and> 0x80 \<le> b \<and> b \<le> 0x8F)"

definition utf8_char_len :: "bytes \<Rightarrow> nat" where
  "utf8_char_len bs = (case bs of
     [] \<Rightarrow> 0
   | a # r1 \<Rightarrow> if a < 0x80 then 1 else (case r1 of
       [] \<Rightarrow> 0
     | b # r2 \<Rightarrow> if 0xC2 \<le> a \<and> a \<le> 0xDF \<and> utf8_cont b then 2 else (case r2 of
         [] \<Rightarrow> 0
       | c # r3 \<Rightarrow> if utf8_len3 a b c then 3 else (case r3 of
           [] \<Rightarrow> 0
         | d # _ \<Rightarrow> if utf8_len4 a b c d then 4 else 0))))"

lemma utf8_char_len_le: "utf8_char_len bs \<le> length bs"
  by (auto simp: utf8_char_len_def split: list.split)

function utf8_valid :: "bytes \<Rightarrow> bool" where
  "utf8_valid bs =
     (if bs = [] then True
      else if utf8_char_len bs = 0 then False
      else utf8_valid (drop (utf8_char_len bs) bs))"
  by pat_completeness auto
termination
  by (relation "measure length") auto

declare utf8_valid.simps [simp del]

definition from_utf8 :: "bytes \<Rightarrow> str option" where
  "from_utf8 bs = (if utf8_valid bs then Some bs else None)"

lemma utf8_valid_Nil [simp]: "utf8_valid []"
  by (simp add: utf8_valid.simps)

lemma utf8_valid_Cons_ascii [simp]: "b < 128 \<Longrightarrow> utf8_valid (b # bs) = utf8_valid bs"
  by (subst utf8_valid.simps) (simp add: utf8_char_len_def)

lemma is_ascii_utf8_valid: "is_ascii s \<Longrightarrow> utf8_valid s"
  by (induction s) (auto simp: is_ascii_def)

section \<open>Splitting and trimming\<close>

text \<open>\<open>s.split(c)\<close> for a one-byte separator: always at least one piece.\<close>

fun split_on :: "u8 \<Rightarrow> str \<Rightarrow> str list" where
  "split_on c [] = [[]]"
| "split_on c (x # xs) =
     (if x = c then [] # split_on c xs
      else (case split_on c xs of [] \<Rightarrow> [[x]] | p # ps \<Rightarrow> (x # p) # ps))"

lemma split_on_not_Nil [simp]: "split_on c s \<noteq> []"
  by (induction s) (auto split: list.splits)

lemma split_on_no_sep: "c \<notin> set s \<Longrightarrow> split_on c s = [s]"
  by (induction s) auto

lemma split_on_append: "c \<notin> set p \<Longrightarrow> split_on c (p @ c # s) = p # split_on c s"
  by (induction p) auto

lemma split_on_parts: "p \<in> set (split_on c s) \<Longrightarrow> c \<notin> set p \<and> set p \<subseteq> set s"
proof (induction s arbitrary: p)
  case (Cons x xs)
  then show ?case
    by (cases "split_on c xs") (fastforce split: if_splits)+
qed auto

lemma split_on_bytes: "x \<in> set s \<Longrightarrow> x \<noteq> c \<Longrightarrow> \<exists>p \<in> set (split_on c s). x \<in> set p"
proof (induction s)
  case (Cons y ys)
  then show ?case
    by (cases "split_on c ys") (auto split: if_splits)
qed simp

text \<open>\<open>s.split_once(c)\<close> and \<open>s.rsplit_once(c)\<close>.\<close>

fun split_once :: "u8 \<Rightarrow> str \<Rightarrow> (str \<times> str) option" where
  "split_once c [] = None"
| "split_once c (x # xs) =
     (if x = c then Some ([], xs)
      else map_option (\<lambda>(a, b). (x # a, b)) (split_once c xs))"

definition rsplit_once :: "u8 \<Rightarrow> str \<Rightarrow> (str \<times> str) option" where
  "rsplit_once c s = map_option (\<lambda>(a, b). (rev b, rev a)) (split_once c (rev s))"

lemma split_once_Some [rust_text]:
  "split_once c s = Some (a, b) \<longleftrightarrow> s = a @ c # b \<and> c \<notin> set a"
proof (induction s arbitrary: a)
  case (Cons x xs)
  then show ?case by (cases a) auto
qed auto

lemma split_once_None [rust_text]: "split_once c s = None \<longleftrightarrow> c \<notin> set s"
  by (induction s) auto

lemma rsplit_once_Some [rust_text]:
  "rsplit_once c s = Some (a, b) \<longleftrightarrow> s = a @ c # b \<and> c \<notin> set b"
proof
  assume "rsplit_once c s = Some (a, b)"
  then have "split_once c (rev s) = Some (rev b, rev a)"
    by (auto simp: rsplit_once_def)
  then have "rev s = rev b @ c # rev a" and "c \<notin> set b"
    by (auto simp: split_once_Some)
  then show "s = a @ c # b \<and> c \<notin> set b"
    by (metis append.assoc append_Cons append_Nil rev.simps(2) rev_append rev_rev_ident)
next
  assume "s = a @ c # b \<and> c \<notin> set b"
  then have "split_once c (rev s) = Some (rev b, rev a)"
    by (auto simp: split_once_Some)
  then show "rsplit_once c s = Some (a, b)"
    by (simp add: rsplit_once_def)
qed

text \<open>\<open>s.split("\r\n")\<close>.\<close>

fun split_crlf :: "str \<Rightarrow> str list" where
  "split_crlf [] = [[]]"
| "split_crlf [x] = [[x]]"
| "split_crlf (x # y # zs) =
     (if x = 13 \<and> y = 10 then [] # split_crlf zs
      else (case split_crlf (y # zs) of [] \<Rightarrow> [[x]] | p # ps \<Rightarrow> (x # p) # ps))"

lemma split_crlf_not_Nil [simp]: "split_crlf s \<noteq> []"
  by (induction s rule: split_crlf.induct) (auto split: list.splits)

text \<open>
  \<open>trim\<close> removes the characters with the Unicode \<open>White_Space\<close> property from both ends. Each
  is recognised by its UTF-8 encoding; on well-formed text no proper suffix of a character is
  itself an encoding, so looking at the last bytes finds the last character.
\<close>

definition unicode_ws :: "str list" where
  "unicode_ws =
     [[9], [10], [11], [12], [13], [32], [0xC2, 0x85], [0xC2, 0xA0], [0xE1, 0x9A, 0x80],
      [0xE2, 0x80, 0x80], [0xE2, 0x80, 0x81], [0xE2, 0x80, 0x82], [0xE2, 0x80, 0x83],
      [0xE2, 0x80, 0x84], [0xE2, 0x80, 0x85], [0xE2, 0x80, 0x86], [0xE2, 0x80, 0x87],
      [0xE2, 0x80, 0x88], [0xE2, 0x80, 0x89], [0xE2, 0x80, 0x8A], [0xE2, 0x80, 0xA8],
      [0xE2, 0x80, 0xA9], [0xE2, 0x80, 0xAF], [0xE2, 0x81, 0x9F], [0xE3, 0x80, 0x80]]"

function trim_start :: "str \<Rightarrow> str" where
  "trim_start s =
     (case find (\<lambda>w. starts_with s w) unicode_ws of
        None \<Rightarrow> s | Some w \<Rightarrow> trim_start (drop (length w) s))"
  by pat_completeness auto
termination
proof (relation "measure length")
  fix s w
  assume w: "find (starts_with s) unicode_ws = Some w"
  then have "w \<in> set unicode_ws" and "starts_with s w"
    by (auto simp: find_Some_iff)
  then have "w \<noteq> []" and "length w \<le> length s"
    by (auto simp: unicode_ws_def dest: starts_with_length)
  then show "(drop (length w) s, s) \<in> measure length"
    by (cases s) auto
qed simp

declare trim_start.simps [simp del]

function trim_end :: "str \<Rightarrow> str" where
  "trim_end s =
     (case find (\<lambda>w. ends_with s w) unicode_ws of
        None \<Rightarrow> s | Some w \<Rightarrow> trim_end (take (length s - length w) s))"
  by pat_completeness auto
termination
proof (relation "measure length")
  fix s w
  assume w: "find (ends_with s) unicode_ws = Some w"
  then have "w \<in> set unicode_ws" and "ends_with s w"
    by (auto simp: find_Some_iff)
  then have "w \<noteq> []" and "length w \<le> length s"
    by (auto simp: unicode_ws_def ends_with_def)
  then show "(take (length s - length w) s, s) \<in> measure length"
    by (cases w) auto
qed simp

declare trim_end.simps [simp del]

definition trim :: "str \<Rightarrow> str" where
  "trim s = trim_end (trim_start s)"

section \<open>Decimal numbers\<close>

text \<open>
  \<open>s.parse::<uN>()\<close>: an optional plus sign, then at least one decimal digit; leading zeros are
  accepted and values above the maximum are rejected.
\<close>

fun dec_value :: "nat \<Rightarrow> nat \<Rightarrow> str \<Rightarrow> nat option" where
  "dec_value m acc [] = Some acc"
| "dec_value m acc (b # bs) =
     (if is_ascii_digit b \<and> acc * 10 + unat (b - 48) \<le> m
      then dec_value m (acc * 10 + unat (b - 48)) bs else None)"

definition parse_unsigned :: "nat \<Rightarrow> str \<Rightarrow> nat option" where
  "parse_unsigned m s = (case s of
     [] \<Rightarrow> None
   | b # bs \<Rightarrow> if b = 43 then (if bs = [] then None else dec_value m 0 bs) else dec_value m 0 s)"

lemma dec_value_bound: "dec_value m acc s = Some n \<Longrightarrow> acc \<le> m \<Longrightarrow> n \<le> m"
  by (induction m acc s rule: dec_value.induct) (auto split: if_splits)

lemma parse_unsigned_bound: "parse_unsigned m s = Some n \<Longrightarrow> n \<le> m"
  by (auto simp: parse_unsigned_def dest: dec_value_bound split: list.splits if_splits)

section \<open>Paths\<close>

definition is_absolute :: "str \<Rightarrow> bool" where
  "is_absolute path = starts_with path [47]"

text \<open>\<open>base.join(path)\<close> for a relative path.\<close>

definition path_join :: "str \<Rightarrow> str \<Rightarrow> str" where
  "path_join base path =
     (if is_absolute path then path
      else base @ (if base \<noteq> [] \<and> last base \<noteq> 47 then [47] else []) @ path)"

lemma path_join_absolute: "is_absolute base \<Longrightarrow> is_absolute (path_join base path)"
  by (auto simp: path_join_def is_absolute_def starts_with_iff)

end
