(* ===== verification/Frame.thy ===== *)
theory Frame
  imports Rust_Text
begin

text \<open>
  The length-prefixed frames of the policy control stream (\<^verbatim>\<open>policy-local/src/frame.rs\<close>). The
  decoder is a state machine fed one byte at a time; \<open>push\<close> runs it over a chunk and keeps its
  state on errors too, as the mutable reference of the source does.
\<close>

datatype frame_error = Frame_Length | Frame_Utf8

record frame_decoder =
  fd_buffer :: bytes
  fd_expected :: "nat option"
  fd_limit :: nat

definition decoder_new :: "nat \<Rightarrow> (frame_decoder, frame_error) result" where
  "decoder_new limit =
     (if limit = 0 then Err Frame_Length
      else Ok \<lparr>fd_buffer = [], fd_expected = None, fd_limit = limit\<rparr>)"

text \<open>The header check inside the loop of \<open>push\<close>.\<close>

definition read_header :: "frame_decoder \<Rightarrow> (frame_decoder, frame_error) result" where
  "read_header d =
     (if fd_expected d = None \<and> 4 \<le> length (fd_buffer d)
      then let len = be_value (take 4 (fd_buffer d))
           in if len = 0 \<or> fd_limit d < len then Err Frame_Length
              else Ok (d\<lparr>fd_expected := Some len\<rparr>)
      else Ok d)"

text \<open>One iteration of the loop: an error, no frame yet, or a finished frame.\<close>

definition push_byte ::
  "frame_decoder \<Rightarrow> u8 \<Rightarrow> (str option, frame_error) result \<times> frame_decoder" where
  "push_byte d b =
     (if usize_saturating_add (fd_limit d) 4 \<le> length (fd_buffer d) then (Err Frame_Length, d)
      else let d1 = d\<lparr>fd_buffer := fd_buffer d @ [b]\<rparr>
      in case read_header d1 of
           Err e \<Rightarrow> (Err e, d1)
         | Ok d2 \<Rightarrow> (case fd_expected d2 of
             None \<Rightarrow> (Ok None, d2)
           | Some len \<Rightarrow>
               if length (fd_buffer d2) < len + 4 then (Ok None, d2)
               else let payload = take len (drop 4 (fd_buffer d2));
                        d3 = d2\<lparr>fd_buffer := drop (4 + len) (fd_buffer d2), fd_expected := None\<rparr>
                    in case from_utf8 payload of
                         None \<Rightarrow> (Err Frame_Utf8, d3)
                       | Some frame \<Rightarrow> (Ok (Some frame), d3)))"

fun push_loop ::
  "str list \<Rightarrow> frame_decoder \<Rightarrow> bytes \<Rightarrow> (str list, frame_error) result \<times> frame_decoder" where
  "push_loop frames d [] = (Ok frames, d)"
| "push_loop frames d (b # bs) =
     (case push_byte d b of
        (Err e, d') \<Rightarrow> (Err e, d')
      | (Ok None, d') \<Rightarrow> push_loop frames d' bs
      | (Ok (Some f), d') \<Rightarrow> push_loop (frames @ [f]) d' bs)"

definition push :: "frame_decoder \<Rightarrow> bytes \<Rightarrow> (str list, frame_error) result \<times> frame_decoder" where
  "push d input = push_loop [] d input"

definition encode_frame :: "str \<Rightarrow> nat \<Rightarrow> (bytes, frame_error) result" where
  "encode_frame input limit =
     (if input = [] \<or> limit < length input \<or> 4294967295 < length input then Err Frame_Length
      else Ok (be_bytes32 (length input) @ input))"

text \<open>Feeding a list of chunks, stopping at the first error.\<close>

fun push_chunks ::
  "frame_decoder \<Rightarrow> bytes list \<Rightarrow> (str list, frame_error) result \<times> frame_decoder" where
  "push_chunks d [] = (Ok [], d)"
| "push_chunks d (c # cs) =
     (case push d c of
        (Err e, d') \<Rightarrow> (Err e, d')
      | (Ok fs, d') \<Rightarrow> (case push_chunks d' cs of
          (Err e, d'') \<Rightarrow> (Err e, d'')
        | (Ok gs, d'') \<Rightarrow> (Ok (fs @ gs), d'')))"

section \<open>The decoder invariant\<close>

definition decoder_inv :: "frame_decoder \<Rightarrow> bool" where
  "decoder_inv d \<longleftrightarrow> 0 < fd_limit d \<and>
     (case fd_expected d of
        None \<Rightarrow> length (fd_buffer d) < 4
      | Some n \<Rightarrow> 0 < n \<and> n \<le> fd_limit d \<and> n < 2 ^ 32 \<and>
          4 \<le> length (fd_buffer d) \<and> length (fd_buffer d) < n + 4)"

lemma be_value_take4: "be_value (take 4 bs) < 2 ^ 32"
proof -
  have "be_value (take 4 bs) < 256 ^ length (take 4 bs)" by (rule be_value_less)
  also have "\<dots> \<le> 256 ^ (4::nat)" by (rule power_increasing) auto
  finally show ?thesis by simp
qed

lemma decoder_inv_new: "decoder_new limit = Ok d \<Longrightarrow> decoder_inv d"
  by (auto simp: decoder_new_def decoder_inv_def split: if_splits)

lemma decoder_inv_room:
  "decoder_inv d \<Longrightarrow> \<not> usize_saturating_add (fd_limit d) 4 \<le> length (fd_buffer d)"
  by (auto simp: decoder_inv_def usize_saturating_add_def usize_max_def split: option.splits)

lemma read_header_cases:
  assumes "read_header d = Ok d'"
  shows "fd_buffer d' = fd_buffer d" "fd_limit d' = fd_limit d"
    "fd_expected d' = None \<Longrightarrow> fd_expected d = None \<and> length (fd_buffer d) < 4"
    "fd_expected d' = Some n \<Longrightarrow> fd_expected d = Some n \<or> fd_expected d = None \<and>
       0 < n \<and> n \<le> fd_limit d \<and> n < 2 ^ 32 \<and> 4 \<le> length (fd_buffer d)"
  using assms be_value_take4 [of "fd_buffer d"]
  by (auto simp: read_header_def Let_def split: if_splits)

lemma push_byte_inv:
  assumes inv: "decoder_inv d" and step: "push_byte d b = (Ok r, d')"
  shows "decoder_inv d'" "fd_limit d' = fd_limit d"
proof -
  let ?d1 = "d\<lparr>fd_buffer := fd_buffer d @ [b]\<rparr>"
  from step decoder_inv_room [OF inv] obtain d2 where d2: "read_header ?d1 = Ok d2"
    by (auto simp: push_byte_def Let_def split: if_splits result.splits)
  note hdr = read_header_cases [OF d2, simplified]
  have "decoder_inv d' \<and> fd_limit d' = fd_limit d"
  proof (cases "fd_expected d2")
    case None
    with step d2 decoder_inv_room [OF inv] have "d' = d2"
      by (auto simp: push_byte_def Let_def)
    with None hdr inv show ?thesis by (auto simp: decoder_inv_def)
  next
    case (Some n)
    with inv hdr(4) [OF Some] have n: "0 < n" "n \<le> fd_limit d" "n < 2 ^ 32"
      and len: "4 \<le> length (fd_buffer d2)" "length (fd_buffer d2) \<le> n + 4"
      using hdr(1) by (auto simp: decoder_inv_def split: option.splits)
    with Some step d2 decoder_inv_room [OF inv] hdr inv show ?thesis
      by (auto simp: push_byte_def decoder_inv_def Let_def split: if_splits option.splits)
  qed
  then show "decoder_inv d'" "fd_limit d' = fd_limit d" by auto
qed

section \<open>Chunking does not matter\<close>

lemma push_loop_acc:
  "push_loop frames d bs =
     (case push_loop [] d bs of (Err e, d') \<Rightarrow> (Err e, d') | (Ok fs, d') \<Rightarrow> (Ok (frames @ fs), d'))"
proof (induction bs arbitrary: frames d)
  case (Cons b bs)
  obtain r d' where step: "push_byte d b = (r, d')" by force
  show ?case
  proof (cases r)
    case (Ok f)
    show ?thesis
    proof (cases f)
      case None
      with Ok step Cons.IH [of frames d'] show ?thesis by simp
    next
      case (Some s)
      from Cons.IH [of "frames @ [s]" d'] Cons.IH [of "[s]" d'] Ok Some step show ?thesis
        by (auto split: prod.splits result.splits)
    qed
  qed (use step in simp)
qed simp

lemma push_loop_append:
  "push_loop frames d (xs @ ys) =
     (case push_loop frames d xs of (Err e, d') \<Rightarrow> (Err e, d') | (Ok fs, d') \<Rightarrow> push_loop fs d' ys)"
  by (induction xs arbitrary: frames d) (auto split: prod.splits result.splits option.splits)

lemma push_append:
  "push d (xs @ ys) =
     (case push d xs of
        (Err e, d') \<Rightarrow> (Err e, d')
      | (Ok fs, d') \<Rightarrow> (case push d' ys of
          (Err e, d'') \<Rightarrow> (Err e, d'') | (Ok gs, d'') \<Rightarrow> (Ok (fs @ gs), d'')))"
proof -
  obtain r d' where xs: "push_loop [] d xs = (r, d')" by force
  show ?thesis
  proof (cases r)
    case (Ok fs)
    with xs show ?thesis
      using push_loop_acc [of fs d' ys] by (simp add: push_def push_loop_append)
  next
    case (Err e)
    with xs show ?thesis by (simp add: push_def push_loop_append)
  qed
qed

lemma push_chunks_concat: "push_chunks d cs = push d (concat cs)"
proof (induction cs arbitrary: d)
  case (Cons c cs)
  show ?case
    by (simp add: push_append Cons.IH split: prod.splits result.splits)
qed (simp add: push_def)

lemma push_inv:
  assumes "decoder_inv d" and "push_loop frames d bs = (Ok fs, d')"
  shows "decoder_inv d' \<and> fd_limit d' = fd_limit d"
  using assms
proof (induction bs arbitrary: frames d)
  case (Cons b bs)
  from Cons.prems(2) obtain f d1 where step: "push_byte d b = (Ok f, d1)"
    by (auto split: prod.splits result.splits)
  note inv1 = push_byte_inv [OF Cons.prems(1) step]
  from Cons.prems(2) step obtain frames' where "push_loop frames' d1 bs = (Ok fs, d')"
    by (cases f) auto
  with Cons.IH [OF inv1(1)] inv1(2) show ?case by simp
qed simp

section \<open>Decoding what was encoded\<close>

definition decoder_at :: "nat \<Rightarrow> str \<Rightarrow> nat \<Rightarrow> frame_decoder" where
  "decoder_at limit s k = \<lparr>fd_buffer = take k (be_bytes32 (length s) @ s),
     fd_expected = (if k < 4 then None else Some (length s)), fd_limit = limit\<rparr>"

definition encodable :: "nat \<Rightarrow> str \<Rightarrow> bool" where
  "encodable limit s \<longleftrightarrow> s \<noteq> [] \<and> length s \<le> limit \<and> length s < 4294967296 \<and> utf8_valid s"

lemma decoder_at_room:
  "encodable limit s \<Longrightarrow> k < length s + 4 \<Longrightarrow> \<not> usize_saturating_add limit 4 \<le> length (fd_buffer (decoder_at limit s k))"
  by (auto simp: encodable_def decoder_at_def usize_saturating_add_def usize_max_def)

lemma decoder_at_header:
  "encodable limit s \<Longrightarrow> k < length s + 4 \<Longrightarrow>
     read_header ((decoder_at limit s k)
       \<lparr>fd_buffer := take (Suc k) (be_bytes32 (length s) @ s)\<rparr>) =
     Ok \<lparr>fd_buffer = take (Suc k) (be_bytes32 (length s) @ s),
         fd_expected = (if Suc k < 4 then None else Some (length s)), fd_limit = limit\<rparr>"
  by (auto simp: encodable_def read_header_def decoder_at_def Let_def min_def)

lemma push_byte_at:
  assumes s: "encodable limit s" and k: "k < length s + 4"
  shows "push_byte (decoder_at limit s k) ((be_bytes32 (length s) @ s) ! k) =
    (if Suc k = length s + 4 then (Ok (Some s), decoder_at limit s 0)
     else (Ok None, decoder_at limit s (Suc k)))"
proof -
  have buf: "fd_buffer (decoder_at limit s k) @ [(be_bytes32 (length s) @ s) ! k] =
      take (Suc k) (be_bytes32 (length s) @ s)"
    using k by (simp add: decoder_at_def take_Suc_conv_app_nth [symmetric] del: take_append)
  show ?thesis
    unfolding push_byte_def Let_def buf
    using decoder_at_room [OF s k] decoder_at_header [OF s k] s k
    by (auto simp: encodable_def decoder_at_def from_utf8_def min_def)
qed

lemma push_loop_at:
  assumes s: "encodable limit s"
  shows "k < length s + 4 \<Longrightarrow>
     push_loop fs (decoder_at limit s k) (drop k (be_bytes32 (length s) @ s)) =
       (Ok (fs @ [s]), decoder_at limit s 0)"
proof (induction "length s + 4 - k" arbitrary: k)
  case (Suc m)
  let ?e = "be_bytes32 (length s) @ s"
  have drop: "drop k ?e = ?e ! k # drop (Suc k) ?e"
    using Suc.prems by (intro Cons_nth_drop_Suc [symmetric]) simp
  show ?case
  proof (cases "Suc k = length s + 4")
    case True
    then have "drop (Suc k) ?e = []" by simp
    with True show ?thesis by (simp only: drop push_loop.simps push_byte_at [OF s Suc.prems]) simp
  next
    case False
    have "push_loop fs (decoder_at limit s (Suc k)) (drop (Suc k) ?e) =
        (Ok (fs @ [s]), decoder_at limit s 0)"
      using False Suc.prems Suc.hyps(2) by (intro Suc.hyps(1)) simp_all
    with False show ?thesis
      by (simp only: drop push_loop.simps push_byte_at [OF s Suc.prems] if_False prod.case
          result.case option.case)
  qed
qed simp

lemma push_loop_partial:
  assumes s: "encodable limit s"
  shows "k < length s + 4 \<Longrightarrow>
     push_loop fs (decoder_at limit s 0) (take k (be_bytes32 (length s) @ s)) = (Ok fs, decoder_at limit s k)"
proof (induction k)
  case (Suc k)
  have "take (Suc k) (be_bytes32 (length s) @ s) =
      take k (be_bytes32 (length s) @ s) @ [(be_bytes32 (length s) @ s) ! k]"
    using Suc.prems by (intro take_Suc_conv_app_nth) simp
  with Suc push_byte_at [OF s, of k] show ?case
    by (simp only: push_loop_append) simp
qed simp

lemma push_encoded:
  assumes "encode_frame s limit = Ok e" and "utf8_valid s"
  shows "push_loop fs \<lparr>fd_buffer = [], fd_expected = None, fd_limit = limit\<rparr> e =
    (Ok (fs @ [s]), \<lparr>fd_buffer = [], fd_expected = None, fd_limit = limit\<rparr>)"
proof -
  from assms have "encodable limit s" and e: "e = be_bytes32 (length s) @ s"
    by (auto simp: encode_frame_def encodable_def split: if_splits)
  from push_loop_at [OF this(1), of 0 fs] e show ?thesis
    by (simp add: decoder_at_def)
qed

lemma push_encoded_list:
  assumes "list_all2 (\<lambda>s e. encode_frame s limit = Ok e \<and> utf8_valid s) frames es"
  shows "push_loop fs \<lparr>fd_buffer = [], fd_expected = None, fd_limit = limit\<rparr> (concat es) =
    (Ok (fs @ frames), \<lparr>fd_buffer = [], fd_expected = None, fd_limit = limit\<rparr>)"
  using assms
proof (induction frames es arbitrary: fs rule: list_all2_induct)
  case (Cons s ss e es)
  from Cons(1) have "push_loop fs \<lparr>fd_buffer = [], fd_expected = None, fd_limit = limit\<rparr> e =
    (Ok (fs @ [s]), \<lparr>fd_buffer = [], fd_expected = None, fd_limit = limit\<rparr>)"
    by (intro push_encoded) auto
  with Cons(3) show ?case by (simp add: push_loop_append)
qed simp

section \<open>Bounded memory and sticky length errors\<close>

definition buffer_bounded :: "frame_decoder \<Rightarrow> bool" where
  "buffer_bounded d \<longleftrightarrow> length (fd_buffer d) \<le> fd_limit d + 4 \<and>
     (\<forall>n. fd_expected d = Some n \<longrightarrow> n \<le> fd_limit d)"

lemma push_byte_bounded:
  "buffer_bounded d \<Longrightarrow> buffer_bounded (snd (push_byte d b)) \<and>
     fd_limit (snd (push_byte d b)) = fd_limit d"
proof (cases "usize_saturating_add (fd_limit d) 4 \<le> length (fd_buffer d)")
  case True
  assume "buffer_bounded d"
  with True show ?thesis by (simp add: push_byte_def)
next
  case False
  assume bounded: "buffer_bounded d"
  let ?d1 = "d\<lparr>fd_buffer := fd_buffer d @ [b]\<rparr>"
  from False have len: "length (fd_buffer ?d1) \<le> fd_limit d + 4"
    by (simp add: usize_saturating_add_def)
  show ?thesis
  proof (cases "read_header ?d1")
    case (Err e)
    with False len bounded show ?thesis by (simp add: push_byte_def buffer_bounded_def)
  next
    case (Ok d2)
    note hdr = read_header_cases [OF Ok, simplified]
    have "\<forall>n. fd_expected d2 = Some n \<longrightarrow> n \<le> fd_limit d"
      using hdr(4) bounded by (auto simp: buffer_bounded_def)
    with False Ok len hdr(1,2) show ?thesis
      by (simp add: push_byte_def buffer_bounded_def Let_def split: option.splits) linarith
  qed
qed

lemma push_loop_bounded:
  "buffer_bounded d \<Longrightarrow> buffer_bounded (snd (push_loop fs d bs)) \<and>
     fd_limit (snd (push_loop fs d bs)) = fd_limit d"
proof (induction bs arbitrary: fs d)
  case (Cons b bs)
  obtain r d' where step: "push_byte d b = (r, d')" by force
  then have "buffer_bounded d'" and "fd_limit d' = fd_limit d"
    using push_byte_bounded [OF Cons.prems, of b] by auto
  with step Cons.IH [of d'] show ?case
    by (auto split: result.splits option.splits)
qed simp

text \<open>A decoder that holds a rejected header.\<close>

definition rejected :: "frame_decoder \<Rightarrow> bool" where
  "rejected d \<longleftrightarrow> fd_expected d = None \<and> 4 \<le> length (fd_buffer d) \<and>
     (be_value (take 4 (fd_buffer d)) = 0 \<or> fd_limit d < be_value (take 4 (fd_buffer d)))"

lemma push_byte_rejected:
  "rejected d \<Longrightarrow> \<exists>d'. push_byte d b = (Err Frame_Length, d') \<and> rejected d'"
  by (auto simp: push_byte_def read_header_def rejected_def Let_def)

lemma push_byte_Length:
  "decoder_inv d \<Longrightarrow> push_byte d b = (Err Frame_Length, d') \<Longrightarrow> rejected d'"
  using decoder_inv_room [of d]
  by (auto simp: push_byte_def read_header_def rejected_def Let_def split: if_splits option.splits)

lemma push_loop_Length:
  "decoder_inv d \<Longrightarrow> push_loop fs d bs = (Err Frame_Length, d') \<Longrightarrow> rejected d'"
proof (induction bs arbitrary: fs d)
  case (Cons b bs)
  obtain r d1 where step: "push_byte d b = (r, d1)" by force
  show ?case
  proof (cases r)
    case (Ok f)
    with step have "decoder_inv d1" using push_byte_inv(1) [OF Cons.prems(1)] by blast
    with Cons.IH Cons.prems(2) step Ok show ?thesis by (cases f) auto
  next
    case (Err e)
    with step Cons.prems show ?thesis by (auto dest: push_byte_Length)
  qed
qed simp

section \<open>Properties\<close>

text \<open>C5. A stream made of any number of encoded frames, cut into chunks at any places, is decoded to
  exactly the original frames in order, and the decoder ends in its initial state.
\<close>

theorem frame_stream_roundtrip:
  assumes "decoder_new limit = Ok d"
    and "list_all2 (\<lambda>s e. encode_frame s limit = Ok e \<and> utf8_valid s) frames es"
    and "concat chunks = concat es"
  shows "push_chunks d chunks = (Ok frames, d)"
proof -
  from assms(1) have "d = \<lparr>fd_buffer = [], fd_expected = None, fd_limit = limit\<rparr>"
    by (auto simp: decoder_new_def split: if_splits)
  with push_encoded_list [OF assms(2), of "[]"] assms(3) show ?thesis
    by (simp add: push_chunks_concat push_def)
qed

theorem frame_stream_roundtrip_witness:
  "\<exists>d. decoder_new 16 = Ok d \<and>
     push_chunks d [[0, 0], [0, 3, 111, 110, 101, 0, 0, 0], [3, 116, 119], [111]] =
       (Ok [str_lit ''one'', str_lit ''two''], d)"
proof -
  obtain d where d: "decoder_new 16 = Ok d" by (simp add: decoder_new_def)
  have one: "encode_frame (str_lit ''one'') 16 = Ok [0, 0, 0, 3, 111, 110, 101]"
    and two: "encode_frame (str_lit ''two'') 16 = Ok [0, 0, 0, 3, 116, 119, 111]"
    by (simp_all add: encode_frame_def str_lit_def be_bytes32_def)
  have "utf8_valid (str_lit ''one'')" "utf8_valid (str_lit ''two'')"
    by (simp_all add: str_lit_def)
  with one two frame_stream_roundtrip [OF d, where frames = "[str_lit ''one'', str_lit ''two'']"
      and es = "[[0, 0, 0, 3, 111, 110, 101], [0, 0, 0, 3, 116, 119, 111]]"
      and chunks = "[[0, 0], [0, 3, 111, 110, 101, 0, 0, 0], [3, 116, 119], [111]]"] d
  show ?thesis by simp
qed

text \<open>Whatever a peer sends, across any number of calls and also after errors, the decoder never
  buffers more than the configured limit plus the four header bytes.
\<close>

theorem frame_buffer_never_exceeds_limit:
  assumes "decoder_new limit = Ok d"
  shows "length (fd_buffer (foldl (\<lambda>d c. snd (push d c)) d chunks)) \<le> limit + 4"
proof -
  have "buffer_bounded (foldl (\<lambda>d c. snd (push d c)) d' chunks) \<and>
      fd_limit (foldl (\<lambda>d c. snd (push d c)) d' chunks) = fd_limit d'"
    if "buffer_bounded d'" for d'
    using that
  proof (induction chunks arbitrary: d')
    case (Cons c cs)
    then show ?case using push_loop_bounded [of d' "[]" c] by (simp add: push_def)
  qed simp
  from this [of d] assms show ?thesis
    by (auto simp: decoder_new_def buffer_bounded_def split: if_splits)
qed

theorem frame_buffer_never_exceeds_limit_witness:
  "\<exists>d. decoder_new 16 = Ok d \<and>
     length (fd_buffer (foldl (\<lambda>d c. snd (push d c)) d [[0, 0, 0, 99], [1, 2, 3], [4]])) \<le> 16 + 4"
  using frame_buffer_never_exceeds_limit [of 16 _ "[[0, 0, 0, 99], [1, 2, 3], [4]]"]
  by (simp add: decoder_new_def)

text \<open>Once a zero or oversized length was rejected, the decoder rejects all further input with the
  same error: a peer cannot resynchronise the stream at a place of its choosing.
\<close>

theorem frame_length_error_is_sticky:
  assumes "decoder_new limit = Ok d" and "push_chunks d chunks = (Err Frame_Length, d')" and "input \<noteq> []"
  shows "fst (push d' input) = Err Frame_Length"
proof -
  from assms(1) have "decoder_inv d" by (rule decoder_inv_new)
  with assms(2) have "rejected d'"
    by (auto simp: push_chunks_concat push_def intro: push_loop_Length)
  moreover obtain b bs where "input = b # bs"
    using assms(3) by (cases input) auto
  ultimately show ?thesis
    using push_byte_rejected [of d' b] by (auto simp: push_def)
qed

theorem frame_length_error_is_sticky_witness:
  "\<exists>d d'. decoder_new 16 = Ok d \<and> push_chunks d [[0, 0], [0, 17]] = (Err Frame_Length, d') \<and>
     fst (push d' [0, 0, 0, 1, 65]) = Err Frame_Length"
proof -
  obtain d where d: "decoder_new 16 = Ok d" by (simp add: decoder_new_def)
  then have "\<exists>d'. push_chunks d [[0, 0], [0, 17]] = (Err Frame_Length, d')"
    by (auto simp: decoder_new_def push_def push_byte_def read_header_def be_value_def
        usize_saturating_add_def usize_max_def)
  with d frame_length_error_is_sticky [OF d, of "[[0, 0], [0, 17]]" _ "[0, 0, 0, 1, 65]"]
  show ?thesis by blast
qed

end
