(* ===== verification/Accounting.thy ===== *)
theory Accounting
  imports Prelude
begin

text \<open>
  Quota accounts and token buckets (\<^verbatim>\<open>policy-local/src/accounting.rs\<close>). An account debits blocks of
  credit from durable storage before traffic may use them; a bucket limits a rate with integer
  arithmetic. All values are 64-bit words and every overflow check of the source is a branch here.
  The locales state what the rest of the module relies on: an account never accepts more than its
  cap, and a meter never grants more than its burst plus what time has produced.
\<close>

datatype quota_error = Quota_Invalid | Quota_State | Quota_Exhausted | Quota_Overflow | Quota_Clock

section \<open>Quota accounts\<close>

record quota_account =
  limit_bytes :: "u64 option"
  durable_charged :: u64
  credit_remaining :: u64
  block_bytes :: u64
  debit_pending :: bool
  refund_pending :: bool

definition quota_new :: "u64 option \<Rightarrow> u64 \<Rightarrow> u64 \<Rightarrow> (quota_account, quota_error) result" where
  "quota_new limit charged block =
     (if block = 0 \<or> (case limit of None \<Rightarrow> False | Some l \<Rightarrow> l < charged) then Err Quota_Invalid
      else Ok \<lparr>limit_bytes = limit, durable_charged = charged, credit_remaining = 0,
               block_bytes = block, debit_pending = False, refund_pending = False\<rparr>)"

definition request_credit :: "quota_account \<Rightarrow> (u64, quota_error) result \<times> quota_account" where
  "request_credit q =
     (if credit_remaining q \<noteq> 0 \<or> debit_pending q \<or> refund_pending q then (Err Quota_State, q)
      else let available = (case limit_bytes q of
                 Some l \<Rightarrow> saturating_sub l (durable_charged q) | None \<Rightarrow> block_bytes q);
               amount = min available (block_bytes q)
           in if amount = 0 then (Err Quota_Exhausted, q)
              else (Ok amount, q\<lparr>debit_pending := True\<rparr>))"

definition commit_credit :: "quota_account \<Rightarrow> u64 \<Rightarrow> (unit, quota_error) result \<times> quota_account" where
  "commit_credit q amount =
     (if \<not> debit_pending q \<or> amount = 0 \<or> block_bytes q < amount then (Err Quota_State, q)
      else case checked_add (durable_charged q) amount of
        None \<Rightarrow> (Err Quota_Overflow, q)
      | Some next \<Rightarrow>
          if (case limit_bytes q of None \<Rightarrow> False | Some l \<Rightarrow> l < next) then (Err Quota_Exhausted, q)
          else (Ok (), q\<lparr>durable_charged := next, credit_remaining := amount,
                         debit_pending := False\<rparr>))"

definition fail_credit :: "quota_account \<Rightarrow> quota_account" where
  "fail_credit q = q\<lparr>debit_pending := False, credit_remaining := 0\<rparr>"

definition charge :: "quota_account \<Rightarrow> u64 \<Rightarrow> (unit, quota_error) result \<times> quota_account" where
  "charge q accepted =
     (if credit_remaining q < accepted then (Err Quota_Exhausted, q)
      else (Ok (), q\<lparr>credit_remaining := credit_remaining q - accepted\<rparr>))"

definition request_refund :: "quota_account \<Rightarrow> (u64, quota_error) result \<times> quota_account" where
  "request_refund q =
     (if debit_pending q \<or> refund_pending q then (Err Quota_State, q)
      else let refund = credit_remaining q
           in if refund = 0 then (Err Quota_State, q)
              else (Ok refund, q\<lparr>refund_pending := True\<rparr>))"

definition commit_refund :: "quota_account \<Rightarrow> u64 \<Rightarrow> (unit, quota_error) result \<times> quota_account" where
  "commit_refund q refund =
     (if \<not> refund_pending q \<or> refund = 0 \<or> refund \<noteq> credit_remaining q then (Err Quota_State, q)
      else case checked_sub (durable_charged q) refund of
        None \<Rightarrow> (Err Quota_State, q)
      | Some rest \<Rightarrow> (Ok (), q\<lparr>durable_charged := rest, credit_remaining := 0,
                              refund_pending := False\<rparr>))"

definition checkpoint_refund :: "quota_account \<Rightarrow> (u64, quota_error) result \<times> quota_account" where
  "checkpoint_refund q = (case request_refund q of
     (Err e, q') \<Rightarrow> (Err e, q')
   | (Ok refund, q') \<Rightarrow> (case commit_refund q' refund of
       (Err e, q'') \<Rightarrow> (Err e, q'') | (Ok u, q'') \<Rightarrow> (Ok refund, q'')))"

definition fail_refund :: "quota_account \<Rightarrow> quota_account" where
  "fail_refund q = q\<lparr>refund_pending := False, credit_remaining := 0\<rparr>"

lemmas quota_defs = request_credit_def commit_credit_def fail_credit_def charge_def
  request_refund_def commit_refund_def checkpoint_refund_def fail_refund_def

text \<open>The public operations as one alphabet, for statements about arbitrary call sequences.\<close>

datatype quota_op =
    RequestCredit | CommitCredit u64 | FailCredit | Charge u64
  | RequestRefund | CommitRefund u64 | CheckpointRefund | FailRefund

fun quota_step :: "quota_account \<Rightarrow> quota_op \<Rightarrow> quota_account" where
  "quota_step q RequestCredit = snd (request_credit q)"
| "quota_step q (CommitCredit n) = snd (commit_credit q n)"
| "quota_step q FailCredit = fail_credit q"
| "quota_step q (Charge n) = snd (charge q n)"
| "quota_step q RequestRefund = snd (request_refund q)"
| "quota_step q (CommitRefund n) = snd (commit_refund q n)"
| "quota_step q CheckpointRefund = snd (checkpoint_refund q)"
| "quota_step q FailRefund = fail_refund q"

text \<open>The bytes an operation lets through.\<close>

fun quota_accepted :: "quota_account \<Rightarrow> quota_op \<Rightarrow> nat" where
  "quota_accepted q (Charge n) = (if is_ok (fst (charge q n)) then unat n else 0)"
| "quota_accepted q _ = 0"

definition quota_inv :: "quota_account \<Rightarrow> bool" where
  "quota_inv q \<longleftrightarrow> block_bytes q \<noteq> 0 \<and>
     (\<forall>l. limit_bytes q = Some l \<longrightarrow> durable_charged q \<le> l) \<and>
     credit_remaining q \<le> durable_charged q \<and>
     credit_remaining q \<le> block_bytes q \<and>
     (debit_pending q \<longrightarrow> credit_remaining q = 0 \<and> \<not> refund_pending q)"

text \<open>What the account has really sold: the durable charge without the credit still in memory.\<close>

definition quota_used :: "quota_account \<Rightarrow> nat" where
  "quota_used q = unat (durable_charged q) - unat (credit_remaining q)"

definition quota_cap :: "quota_account \<Rightarrow> nat option" where
  "quota_cap q = map_option unat (limit_bytes q)"

section \<open>The contract of a metered account\<close>

locale metered_account =
  fixes inv :: "'q \<Rightarrow> bool" and used :: "'q \<Rightarrow> nat" and cap :: "'q \<Rightarrow> nat option"
    and step :: "'q \<Rightarrow> 'op \<Rightarrow> 'q" and accepted :: "'q \<Rightarrow> 'op \<Rightarrow> nat"
  assumes inv_step: "inv q \<Longrightarrow> inv (step q a)"
    and used_step: "inv q \<Longrightarrow> used q + accepted q a \<le> used (step q a)"
    and cap_step: "cap (step q a) = cap q"
    and used_cap: "inv q \<Longrightarrow> cap q = Some c \<Longrightarrow> used q \<le> c"
begin

lemma inv_run: "inv q \<Longrightarrow> inv (foldl step q as)"
  by (induction as arbitrary: q) (auto simp: inv_step)

lemma used_run: "inv q \<Longrightarrow> used q + run_total step accepted q as \<le> used (foldl step q as)"
proof (induction as arbitrary: q)
  case (Cons a as)
  from Cons.IH [OF inv_step [OF Cons.prems, of a]] used_step [OF Cons.prems, of a] show ?case
    by simp
qed simp

lemma cap_run: "cap (foldl step q as) = cap q"
  by (induction as arbitrary: q) (auto simp: cap_step)

lemma accepted_le_cap:
  assumes "inv q" and "cap q = Some c"
  shows "used q + run_total step accepted q as \<le> c"
proof -
  have "used q + run_total step accepted q as \<le> used (foldl step q as)"
    using assms(1) by (rule used_run)
  also have "\<dots> \<le> c"
    using assms by (intro used_cap) (simp_all add: inv_run cap_run)
  finally show ?thesis .
qed

end

text \<open>An account without failures loses nothing: what is used is what was accepted.\<close>

locale exact_account = metered_account +
  fixes normal :: "'b \<Rightarrow> bool"
  assumes used_exact: "inv q \<Longrightarrow> normal a \<Longrightarrow> used (step q a) = used q + accepted q a"
begin

lemma used_run_exact:
  "inv q \<Longrightarrow> list_all normal as \<Longrightarrow> used (foldl step q as) = used q + run_total step accepted q as"
  by (induction as arbitrary: q) (auto simp: used_exact inv_step)

end

section \<open>The quota account meets the contract\<close>

lemmas quota_arith = quota_defs quota_inv_def quota_used_def word_le_nat_alt word_less_nat_alt
  unat_eq_0 checked_add_Some checked_add_None checked_sub_Some checked_sub_None

lemma quota_new_inv: "quota_new limit charged block = Ok q \<Longrightarrow> quota_inv q"
  by (auto simp: quota_new_def quota_inv_def split: if_splits option.splits)

lemma request_credit_inv: "quota_inv q \<Longrightarrow> quota_inv (snd (request_credit q))"
  by (auto simp: request_credit_def quota_inv_def Let_def split: option.splits)

lemma commit_credit_inv: "quota_inv q \<Longrightarrow> quota_inv (snd (commit_credit q n))"
  by (auto simp: quota_arith not_less split: option.splits)

lemma charge_inv: "quota_inv q \<Longrightarrow> quota_inv (snd (charge q n))"
  by (auto simp: quota_arith unat_sub_if')

lemma request_refund_inv: "quota_inv q \<Longrightarrow> quota_inv (snd (request_refund q))"
  by (auto simp: request_refund_def quota_inv_def Let_def)

lemma commit_refund_inv: "quota_inv q \<Longrightarrow> quota_inv (snd (commit_refund q n))"
  by (auto simp: quota_arith split: option.splits)

lemma fail_credit_inv: "quota_inv q \<Longrightarrow> quota_inv (fail_credit q)"
  by (auto simp: fail_credit_def quota_inv_def)

lemma fail_refund_inv: "quota_inv q \<Longrightarrow> quota_inv (fail_refund q)"
  by (auto simp: fail_refund_def quota_inv_def)

lemma checkpoint_refund_cases:
  obtains "snd (checkpoint_refund q) = snd (request_refund q)"
  | n where "snd (checkpoint_refund q) = snd (commit_refund (snd (request_refund q)) n)"
proof -
  obtain r q1 where req: "request_refund q = (r, q1)" by force
  show ?thesis
  proof (cases r)
    case (Err e)
    with req show ?thesis by (intro that(1)) (simp add: checkpoint_refund_def)
  next
    case (Ok n)
    obtain r2 q2 where com: "commit_refund q1 n = (r2, q2)" by force
    with Ok req show ?thesis
      by (intro that(2) [of n]) (cases r2; simp add: checkpoint_refund_def)
  qed
qed

lemma checkpoint_refund_inv: "quota_inv q \<Longrightarrow> quota_inv (snd (checkpoint_refund q))"
  by (cases q rule: checkpoint_refund_cases) (simp_all add: request_refund_inv commit_refund_inv)

lemmas quota_op_invs = request_credit_inv commit_credit_inv charge_inv request_refund_inv
  commit_refund_inv fail_credit_inv fail_refund_inv checkpoint_refund_inv

lemma quota_step_inv: "quota_inv q \<Longrightarrow> quota_inv (quota_step q a)"
  by (cases a) (simp_all add: quota_op_invs)

fun quota_normal :: "quota_op \<Rightarrow> bool" where
  "quota_normal FailCredit = False"
| "quota_normal FailRefund = False"
| "quota_normal _ = True"

lemma request_used:
  "quota_used (snd (request_credit q)) = quota_used q"
  "quota_used (snd (request_refund q)) = quota_used q"
  by (simp_all add: request_credit_def request_refund_def quota_used_def Let_def)

lemma commit_credit_used: "quota_inv q \<Longrightarrow> quota_used (snd (commit_credit q n)) = quota_used q"
  by (auto simp: quota_arith split: option.splits)

lemma charge_used:
  "quota_inv q \<Longrightarrow> quota_used (snd (charge q n)) =
     quota_used q + (if is_ok (fst (charge q n)) then unat n else 0)"
  by (auto simp: quota_arith unat_sub_if')

lemma commit_refund_used: "quota_inv q \<Longrightarrow> quota_used (snd (commit_refund q n)) = quota_used q"
  by (auto simp: quota_arith split: option.splits)

lemma checkpoint_refund_used: "quota_inv q \<Longrightarrow> quota_used (snd (checkpoint_refund q)) = quota_used q"
  by (cases q rule: checkpoint_refund_cases)
    (simp_all add: request_used request_refund_inv commit_refund_used)

lemma quota_step_used_exact:
  "quota_inv q \<Longrightarrow> quota_normal a \<Longrightarrow> quota_used (quota_step q a) = quota_used q + quota_accepted q a"
  by (cases a)
    (simp_all add: request_used commit_credit_used charge_used commit_refund_used
      checkpoint_refund_used)

lemma quota_step_used:
  "quota_inv q \<Longrightarrow> quota_used q + quota_accepted q a \<le> quota_used (quota_step q a)"
proof (cases "quota_normal a")
  case True
  assume "quota_inv q"
  with True show ?thesis by (simp add: quota_step_used_exact)
next
  case False
  then consider "a = FailCredit" | "a = FailRefund" by (cases a) auto
  then show ?thesis
    by cases (simp_all add: fail_credit_def fail_refund_def quota_used_def)
qed

lemma limit_bytes_kept:
  "limit_bytes (snd (request_credit q)) = limit_bytes q"
  "limit_bytes (snd (commit_credit q n)) = limit_bytes q"
  "limit_bytes (fail_credit q) = limit_bytes q"
  "limit_bytes (snd (charge q n)) = limit_bytes q"
  "limit_bytes (snd (request_refund q)) = limit_bytes q"
  "limit_bytes (snd (commit_refund q n)) = limit_bytes q"
  "limit_bytes (fail_refund q) = limit_bytes q"
  by (simp_all add: quota_defs Let_def split: option.split)

lemma limit_bytes_checkpoint: "limit_bytes (snd (checkpoint_refund q)) = limit_bytes q"
  by (cases q rule: checkpoint_refund_cases) (simp_all add: limit_bytes_kept)

lemma quota_step_cap: "quota_cap (quota_step q a) = quota_cap q"
  by (cases a) (simp_all add: quota_cap_def limit_bytes_kept limit_bytes_checkpoint)

lemma quota_used_cap: "quota_inv q \<Longrightarrow> quota_cap q = Some c \<Longrightarrow> quota_used q \<le> c"
  by (auto simp: quota_inv_def quota_cap_def quota_used_def word_le_nat_alt)

interpretation quota: exact_account quota_inv quota_used quota_cap quota_step quota_accepted quota_normal
  by unfold_locales
    (simp_all add: quota_step_inv quota_step_used quota_step_cap quota_used_cap quota_step_used_exact)

section \<open>Token buckets\<close>

record token_bucket =
  tb_rate :: u64
  tb_burst :: u64
  tb_tokens :: u64
  tb_last_nanos :: u64
  tb_fractional :: u64

definition bucket_new :: "u64 \<Rightarrow> u64 \<Rightarrow> u64 \<Rightarrow> (token_bucket, quota_error) result" where
  "bucket_new rate burst now =
     (if rate = 0 \<or> burst = 0 then Err Quota_Invalid
      else Ok \<lparr>tb_rate = rate, tb_burst = burst, tb_tokens = burst, tb_last_nanos = now,
               tb_fractional = 0\<rparr>)"

definition bucket_produced :: "token_bucket \<Rightarrow> u64 \<Rightarrow> u64 option" where
  "bucket_produced b now =
     Option.bind (checked_mul (now - tb_last_nanos b) (tb_rate b))
       (\<lambda>value. checked_add value (tb_fractional b))"

definition refill :: "token_bucket \<Rightarrow> u64 \<Rightarrow> (unit, quota_error) result \<times> token_bucket" where
  "refill b now =
     (if now < tb_last_nanos b then (Err Quota_Clock, b)
      else case bucket_produced b now of
        None \<Rightarrow> (Err Quota_Overflow, b)
      | Some produced \<Rightarrow>
          (Ok (), b\<lparr>tb_fractional := produced mod 1000000000,
                    tb_tokens := min (saturating_add (tb_tokens b) (produced div 1000000000)) (tb_burst b),
                    tb_last_nanos := now\<rparr>))"

definition bucket_take :: "token_bucket \<Rightarrow> u64 \<Rightarrow> u64 \<Rightarrow> (u64, quota_error) result \<times> token_bucket" where
  "bucket_take b requested now = (case refill b now of
     (Err e, b') \<Rightarrow> (Err e, b')
   | (Ok u, b') \<Rightarrow> let granted = min requested (tb_tokens b')
                in (Ok granted, b'\<lparr>tb_tokens := tb_tokens b' - granted\<rparr>))"

definition nanos_until :: "token_bucket \<Rightarrow> u64 \<Rightarrow> u64 \<Rightarrow> (u64, quota_error) result \<times> token_bucket" where
  "nanos_until b bytes now = (case refill b now of
     (Err e, b') \<Rightarrow> (Err e, b')
   | (Ok u, b') \<Rightarrow>
       if bytes \<le> tb_tokens b' then (Ok 0, b')
       else (case checked_mul (bytes - tb_tokens b') 1000000000 of
               None \<Rightarrow> (Err Quota_Overflow, b')
             | Some numerator \<Rightarrow> (case checked_add numerator (tb_rate b' - 1) of
                 None \<Rightarrow> (Err Quota_Overflow, b')
               | Some rounded \<Rightarrow> (Ok (rounded div tb_rate b'), b'))))"

definition bucket_refund :: "token_bucket \<Rightarrow> u64 \<Rightarrow> token_bucket" where
  "bucket_refund b bytes =
     b\<lparr>tb_tokens := min (saturating_add (tb_tokens b) bytes) (tb_burst b)\<rparr>"

definition bucket_available :: "token_bucket \<Rightarrow> u64 \<Rightarrow> (u64, quota_error) result \<times> token_bucket" where
  "bucket_available b now = (case refill b now of
     (Err e, b') \<Rightarrow> (Err e, b') | (Ok u, b') \<Rightarrow> (Ok (tb_tokens b'), b'))"

datatype bucket_op = Take u64 u64 | Until u64 u64 | Refund u64 | Available u64

fun bucket_step :: "token_bucket \<Rightarrow> bucket_op \<Rightarrow> token_bucket" where
  "bucket_step b (Take n now) = snd (bucket_take b n now)"
| "bucket_step b (Until n now) = snd (nanos_until b n now)"
| "bucket_step b (Refund n) = bucket_refund b n"
| "bucket_step b (Available now) = snd (bucket_available b now)"

fun bucket_granted :: "token_bucket \<Rightarrow> bucket_op \<Rightarrow> nat" where
  "bucket_granted b (Take n now) = (case fst (bucket_take b n now) of Ok g \<Rightarrow> unat g | Err e \<Rightarrow> 0)"
| "bucket_granted b _ = 0"

fun bucket_returned :: "token_bucket \<Rightarrow> bucket_op \<Rightarrow> nat" where
  "bucket_returned b (Refund n) = unat n"
| "bucket_returned b _ = 0"

definition bucket_inv :: "token_bucket \<Rightarrow> bool" where
  "bucket_inv b \<longleftrightarrow> tb_rate b \<noteq> 0 \<and> tb_burst b \<noteq> 0 \<and> tb_tokens b \<le> tb_burst b \<and>
     tb_fractional b < 1000000000"

text \<open>The content of the bucket in billionths of a byte, the unit in which refills are exact.\<close>

definition bucket_level :: "token_bucket \<Rightarrow> nat" where
  "bucket_level b = unat (tb_tokens b) * 1000000000 + unat (tb_fractional b)"

section \<open>The contract of a rate meter\<close>

locale rate_meter =
  fixes inv :: "'m \<Rightarrow> bool" and level :: "'m \<Rightarrow> nat" and rate :: "'m \<Rightarrow> nat" and clock :: "'m \<Rightarrow> nat"
    and step :: "'m \<Rightarrow> 'op \<Rightarrow> 'm" and granted :: "'m \<Rightarrow> 'op \<Rightarrow> nat" and returned :: "'m \<Rightarrow> 'op \<Rightarrow> nat"
    and scale :: nat
  assumes inv_step: "inv m \<Longrightarrow> inv (step m a)"
    and rate_step: "rate (step m a) = rate m"
    and clock_step: "clock m \<le> clock (step m a)"
    and level_step: "inv m \<Longrightarrow>
      level (step m a) + scale * granted m a \<le>
        level m + scale * returned m a + rate m * (clock (step m a) - clock m)"
begin

lemma inv_run: "inv m \<Longrightarrow> inv (foldl step m as)"
  by (induction as arbitrary: m) (auto simp: inv_step)

lemma clock_run: "clock m \<le> clock (foldl step m as)"
proof (induction as arbitrary: m)
  case (Cons a as)
  from clock_step [of m a] Cons.IH [of "step m a"] show ?case by simp
qed simp

lemma level_run:
  "inv m \<Longrightarrow>
     level (foldl step m as) + scale * run_total step granted m as \<le>
       level m + scale * run_total step returned m as +
         rate m * (clock (foldl step m as) - clock m)"
proof (induction as arbitrary: m)
  case (Cons a as)
  let ?m = "step m a" and ?e = "foldl step (step m a) as"
  have "clock ?e - clock m = (clock ?e - clock ?m) + (clock ?m - clock m)"
    using clock_step [of m a] clock_run [of ?m as] by simp
  then have "rate m * (clock ?e - clock m) =
      rate ?m * (clock ?e - clock ?m) + rate m * (clock ?m - clock m)"
    by (simp add: rate_step distrib_left)
  with Cons.IH [OF inv_step [OF Cons.prems, of a]] level_step [OF Cons.prems, of a] show ?case
    by (simp add: distrib_left)
qed simp

end

section \<open>The token bucket meets the contract\<close>

lemma bucket_new_inv: "bucket_new rate burst now = Ok b \<Longrightarrow> bucket_inv b"
  by (auto simp: bucket_new_def bucket_inv_def split: if_splits)

lemma bucket_produced_Some:
  "bucket_produced b now = Some p \<Longrightarrow> tb_last_nanos b \<le> now \<Longrightarrow>
     unat p = (unat now - unat (tb_last_nanos b)) * unat (tb_rate b) + unat (tb_fractional b)"
  by (auto simp: bucket_produced_def bind_eq_Some_conv checked_mul_Some checked_add_Some
      unat_sub_if' word_le_nat_alt)

lemma bucket_produced_None:
  assumes "tb_last_nanos b \<le> now"
  shows "bucket_produced b now = None \<longleftrightarrow>
     unat (- 1 :: u64) < (unat now - unat (tb_last_nanos b)) * unat (tb_rate b) + unat (tb_fractional b)"
proof (cases "checked_mul (now - tb_last_nanos b) (tb_rate b)")
  case None
  with assms show ?thesis
    by (simp add: bucket_produced_def) (simp add: checked_mul_None unat_sub_if' word_le_nat_alt)
next
  case (Some v)
  with assms have "unat v = (unat now - unat (tb_last_nanos b)) * unat (tb_rate b)"
    by (simp add: checked_mul_Some unat_sub_if' word_le_nat_alt)
  with Some show ?thesis by (simp add: bucket_produced_def checked_add_None)
qed

lemma refill_Ok:
  assumes "refill b now = (Ok u, b')" and "bucket_inv b"
  shows "bucket_inv b'" "tb_rate b' = tb_rate b" "tb_burst b' = tb_burst b" "tb_last_nanos b' = now"
    "tb_last_nanos b \<le> now"
    "bucket_level b' \<le> bucket_level b + unat (tb_rate b) * (unat now - unat (tb_last_nanos b))"
proof -
  from assms(1) obtain p where p: "bucket_produced b now = Some p" and now: "tb_last_nanos b \<le> now"
    and b': "b' = b\<lparr>tb_fractional := p mod 1000000000,
      tb_tokens := min (saturating_add (tb_tokens b) (p div 1000000000)) (tb_burst b),
      tb_last_nanos := now\<rparr>"
    by (auto simp: refill_def split: if_splits option.splits)
  show "tb_rate b' = tb_rate b" "tb_burst b' = tb_burst b" "tb_last_nanos b' = now"
    "tb_last_nanos b \<le> now"
    using b' now by simp_all
  have "p mod 1000000000 < 1000000000"
    by (simp add: word_mod_less_divisor)
  with assms(2) b' show "bucket_inv b'" by (simp add: bucket_inv_def)
  have frac: "unat (tb_fractional b') = unat p mod 1000000000"
    using b' by (simp add: unat_mod)
  have "unat (tb_tokens b') \<le> unat (tb_tokens b) + unat p div 1000000000"
    using b' by (simp add: unat_word_min unat_saturating_add unat_div)
  then have "bucket_level b' \<le> (unat (tb_tokens b) + unat p div 1000000000) * 1000000000 + unat p mod 1000000000"
    unfolding bucket_level_def frac by (intro add_mono mult_le_mono1 order_refl)
  also have "\<dots> = unat (tb_tokens b) * 1000000000 + unat p"
    by (simp add: distrib_right)
  finally show "bucket_level b' \<le> bucket_level b + unat (tb_rate b) * (unat now - unat (tb_last_nanos b))"
    by (simp add: bucket_level_def bucket_produced_Some [OF p now] mult.commute)
qed

lemma refill_Err: "refill b now = (Err e, b') \<Longrightarrow> b' = b"
  by (auto simp: refill_def split: if_splits option.splits)

lemma bucket_refund_inv: "bucket_inv b \<Longrightarrow> bucket_inv (bucket_refund b n)"
  by (simp add: bucket_inv_def bucket_refund_def)

lemma bucket_refund_level: "bucket_level (bucket_refund b n) \<le> bucket_level b + 1000000000 * unat n"
proof -
  have "unat (tb_tokens (bucket_refund b n)) \<le> unat (tb_tokens b) + unat n"
    by (simp add: bucket_refund_def unat_word_min unat_saturating_add)
  moreover have "tb_fractional (bucket_refund b n) = tb_fractional b"
    by (simp add: bucket_refund_def)
  ultimately show ?thesis by (simp add: bucket_level_def)
qed

text \<open>Each timed operation is a refill, from which only \<^const>\<open>bucket_take\<close> then removes tokens.\<close>

lemma bucket_take_cases:
  obtains e where "bucket_take b n now = (Err e, b)"
  | u b' where "refill b now = (Ok u, b')"
      "bucket_take b n now = (Ok (min n (tb_tokens b')), b'\<lparr>tb_tokens := tb_tokens b' - min n (tb_tokens b')\<rparr>)"
proof -
  obtain r b' where r: "refill b now = (r, b')" by force
  show ?thesis
  proof (cases r)
    case (Err e)
    with r show ?thesis by (intro that(1)) (auto simp: bucket_take_def dest: refill_Err)
  next
    case (Ok u)
    with r show ?thesis by (intro that(2)) (auto simp: bucket_take_def Let_def)
  qed
qed

lemma refill_snd:
  assumes "bucket_inv b"
  shows "bucket_inv (snd (refill b now))" "tb_rate (snd (refill b now)) = tb_rate b"
    "tb_last_nanos b \<le> tb_last_nanos (snd (refill b now))"
    "bucket_level (snd (refill b now)) \<le>
       bucket_level b + unat (tb_rate b) * (unat (tb_last_nanos (snd (refill b now))) - unat (tb_last_nanos b))"
proof -
  obtain r b' where r: "refill b now = (r, b')" by force
  have "bucket_inv b' \<and> tb_rate b' = tb_rate b \<and> tb_last_nanos b \<le> tb_last_nanos b' \<and>
      bucket_level b' \<le> bucket_level b + unat (tb_rate b) * (unat (tb_last_nanos b') - unat (tb_last_nanos b))"
  proof (cases r)
    case (Ok u)
    from refill_Ok [OF r [unfolded Ok] assms] show ?thesis by simp
  next
    case (Err e)
    with r assms show ?thesis by (auto dest: refill_Err)
  qed
  with r show "bucket_inv (snd (refill b now))" "tb_rate (snd (refill b now)) = tb_rate b"
    "tb_last_nanos b \<le> tb_last_nanos (snd (refill b now))"
    "bucket_level (snd (refill b now)) \<le>
       bucket_level b + unat (tb_rate b) * (unat (tb_last_nanos (snd (refill b now))) - unat (tb_last_nanos b))"
    by simp_all
qed

lemma bucket_available_snd: "snd (bucket_available b now) = snd (refill b now)"
  by (cases "refill b now"; cases "fst (refill b now)") (auto simp: bucket_available_def)

lemma nanos_until_snd: "snd (nanos_until b n now) = snd (refill b now)"
  by (cases "refill b now"; cases "fst (refill b now)") (auto simp: nanos_until_def split: option.splits)

lemma bucket_step_rate: "tb_rate (bucket_step b a) = tb_rate b"
proof -
  have "tb_rate (snd (refill b now)) = tb_rate b" for now
    by (simp add: refill_def split: option.splits)
  moreover from this have "tb_rate (snd (bucket_take b n now)) = tb_rate b" for n now
    by (cases rule: bucket_take_cases [where b = b and n = n and now = now]) (auto, metis snd_conv)
  ultimately show ?thesis
    by (cases a) (simp_all add: bucket_available_snd nanos_until_snd bucket_refund_def)
qed

lemma bucket_step_clock: "tb_last_nanos b \<le> tb_last_nanos (bucket_step b a)"
proof -
  have r: "tb_last_nanos b \<le> tb_last_nanos (snd (refill b now))" for now
    by (simp add: refill_def not_less split: option.splits)
  moreover have "tb_last_nanos b \<le> tb_last_nanos (snd (bucket_take b n now))" for n now
    using r [of now] by (cases rule: bucket_take_cases [where b = b and n = n and now = now]) auto
  ultimately show ?thesis
    by (cases a) (simp_all add: bucket_available_snd nanos_until_snd bucket_refund_def)
qed

lemma bucket_take_step:
  assumes "bucket_inv b"
  shows "bucket_inv (snd (bucket_take b n now))"
    "bucket_level (snd (bucket_take b n now)) + 1000000000 * bucket_granted b (Take n now) \<le>
       bucket_level b + unat (tb_rate b) * (unat (tb_last_nanos (snd (bucket_take b n now))) - unat (tb_last_nanos b))"
proof -
  have "bucket_inv (snd (bucket_take b n now)) \<and>
    bucket_level (snd (bucket_take b n now)) + 1000000000 * bucket_granted b (Take n now) \<le>
       bucket_level b + unat (tb_rate b) * (unat (tb_last_nanos (snd (bucket_take b n now))) - unat (tb_last_nanos b))"
  proof (cases rule: bucket_take_cases [where b = b and n = n and now = now])
    case (1 e)
    with assms show ?thesis by simp
  next
    case (2 u b')
    let ?g = "min n (tb_tokens b')"
    have g: "unat ?g \<le> unat (tb_tokens b')" by (simp add: unat_word_min)
    then have "unat (tb_tokens b' - ?g) = unat (tb_tokens b') - unat ?g"
      by (simp add: unat_sub_if')
    with g have "bucket_level (snd (bucket_take b n now)) + 1000000000 * unat ?g = bucket_level b'"
      by (simp add: 2(2) bucket_level_def diff_mult_distrib)
    moreover have "tb_tokens b' - ?g \<le> tb_tokens b'"
      using g by (simp add: word_le_nat_alt unat_sub_if')
    ultimately show ?thesis
      using refill_Ok [OF 2(1) assms] by (auto simp: 2(2) bucket_inv_def)
  qed
  then show "bucket_inv (snd (bucket_take b n now))"
    "bucket_level (snd (bucket_take b n now)) + 1000000000 * bucket_granted b (Take n now) \<le>
       bucket_level b + unat (tb_rate b) * (unat (tb_last_nanos (snd (bucket_take b n now))) - unat (tb_last_nanos b))"
    by blast+
qed

lemma bucket_step_inv: "bucket_inv b \<Longrightarrow> bucket_inv (bucket_step b a)"
  by (cases a) (simp_all add: bucket_take_step refill_snd bucket_refund_inv bucket_available_snd nanos_until_snd)

lemma bucket_step_level:
  assumes "bucket_inv b"
  shows "bucket_level (bucket_step b a) + 1000000000 * bucket_granted b a \<le>
     bucket_level b + 1000000000 * bucket_returned b a +
       unat (tb_rate b) * (unat (tb_last_nanos (bucket_step b a)) - unat (tb_last_nanos b))"
proof (cases a)
  case (Take n now)
  with bucket_take_step(2) [OF assms, of n now] show ?thesis by simp
next
  case (Refund n)
  with bucket_refund_level [of b n] show ?thesis by (simp add: bucket_refund_def)
qed (use refill_snd(4) [OF assms] in \<open>simp_all add: bucket_available_snd nanos_until_snd\<close>)

interpretation bucket: rate_meter bucket_inv bucket_level "\<lambda>b. unat (tb_rate b)"
  "\<lambda>b. unat (tb_last_nanos b)" bucket_step bucket_granted bucket_returned 1000000000
  by unfold_locales
    (simp_all add: bucket_step_inv bucket_step_rate bucket_step_level bucket_step_clock
      flip: word_le_nat_alt)

section \<open>Waiting long enough\<close>

lemma ceiling_div_le: "0 < (r::nat) \<Longrightarrow> m \<le> ((m + (r - 1)) div r) * r"
proof -
  assume r: "0 < r"
  let ?x = "m + (r - 1)"
  have "?x = (?x div r) * r + ?x mod r" by simp
  moreover have "?x mod r \<le> r - 1" using r by (simp add: less_Suc_eq_le [symmetric])
  ultimately show ?thesis by linarith
qed

lemma nanos_until_Ok:
  assumes "nanos_until b bytes now = (Ok d, b')"
  obtains u where "refill b now = (Ok u, b')" and "bytes \<le> tb_tokens b'" and "d = 0"
  | u where "refill b now = (Ok u, b')" and "tb_tokens b' < bytes"
      and "unat d = ((unat bytes - unat (tb_tokens b')) * 1000000000 + unat (tb_rate b' - 1)) div unat (tb_rate b')"
proof -
  obtain r b1 where r: "refill b now = (r, b1)" by force
  with assms obtain u where u: "r = Ok u" by (cases r) (auto simp: nanos_until_def)
  show ?thesis
  proof (cases "bytes \<le> tb_tokens b1")
    case True
    with assms r u show ?thesis by (intro that(1)) (auto simp: nanos_until_def)
  next
    case False
    have "nanos_until b bytes now =
        (case checked_mul (bytes - tb_tokens b1) 1000000000 of
           None \<Rightarrow> (Err Quota_Overflow, b1)
         | Some numerator \<Rightarrow> (case checked_add numerator (tb_rate b1 - 1) of
             None \<Rightarrow> (Err Quota_Overflow, b1)
           | Some rounded \<Rightarrow> (Ok (rounded div tb_rate b1), b1)))"
      by (simp only: nanos_until_def r u False if_False result.case prod.case)
    with assms obtain numer where num1: "checked_mul (bytes - tb_tokens b1) 1000000000 = Some numer"
      and "(Ok d, b') = (case checked_add numer (tb_rate b1 - 1) of
             None \<Rightarrow> (Err Quota_Overflow, b1)
           | Some rounded \<Rightarrow> (Ok (rounded div tb_rate b1), b1))"
      by (cases "checked_mul (bytes - tb_tokens b1) 1000000000")
        (simp_all only: option.case prod.inject result.distinct simp_thms)
    then obtain rounded where num2: "checked_add numer (tb_rate b1 - 1) = Some rounded"
      and d: "d = rounded div tb_rate b1" "b' = b1"
      by (cases "checked_add numer (tb_rate b1 - 1)")
        (simp_all only: option.case prod.inject result.inject result.distinct simp_thms)
    note num = num1 num2
    from False have "unat (bytes - tb_tokens b1) = unat bytes - unat (tb_tokens b1)"
      by (simp add: unat_sub_if' word_le_nat_alt)
    with num have "unat rounded = (unat bytes - unat (tb_tokens b1)) * unat (1000000000 :: u64) + unat (tb_rate b1 - 1)"
      by (simp only: checked_mul_Some checked_add_Some)
    then have "unat d = ((unat bytes - unat (tb_tokens b1)) * 1000000000 + unat (tb_rate b1 - 1)) div unat (tb_rate b1)"
      by (simp add: d(1) unat_div)
    with False r u d(2) show ?thesis by (intro that(2)) (simp_all only: not_le)
  qed
qed

lemma refill_enough:
  assumes "refill b later = (Ok u, b')" and "bytes \<le> tb_burst b"
    and "(unat bytes - unat (tb_tokens b)) * 1000000000 \<le>
           (unat later - unat (tb_last_nanos b)) * unat (tb_rate b)"
  shows "bytes \<le> tb_tokens b'"
proof -
  from assms(1) obtain p where p: "bucket_produced b later = Some p" and late: "tb_last_nanos b \<le> later"
    and b': "tb_tokens b' = min (saturating_add (tb_tokens b) (p div 1000000000)) (tb_burst b)"
    by (auto simp: refill_def split: if_splits option.splits)
  from assms(3) have "(unat bytes - unat (tb_tokens b)) * 1000000000 \<le> unat p"
    by (simp add: bucket_produced_Some [OF p late])
  then have "unat bytes - unat (tb_tokens b) \<le> unat p div 1000000000"
    by (simp add: less_eq_div_iff_mult_less_eq)
  then have "unat bytes \<le> unat (saturating_add (tb_tokens b) (p div 1000000000))"
    using unat_le_max [of bytes] by (simp add: unat_saturating_add unat_div)
  with assms(2) b' show ?thesis by (simp add: word_le_nat_alt unat_word_min)
qed

section \<open>Properties\<close>

text \<open>C1. However the operations of a limited quota account are called, and whatever they
  answer, the bytes accepted by \<^const>\<open>charge\<close> together with the bytes already charged
  when the account was opened never exceed the limit.\<close>

theorem quota_never_overspent:
  assumes "quota_new (Some limit) charged block = Ok q"
  shows "unat charged + run_total quota_step quota_accepted q ops \<le> unat limit"
proof -
  from assms have "quota_used q = unat charged" "quota_cap q = Some (unat limit)"
    by (auto simp: quota_new_def quota_used_def quota_cap_def split: if_splits)
  with quota.accepted_le_cap [OF quota_new_inv [OF assms], of "unat limit" ops] show ?thesis by simp
qed

definition example_quota :: quota_account where
  "example_quota = \<lparr>limit_bytes = Some 100, durable_charged = 40, credit_remaining = 0,
     block_bytes = 50, debit_pending = False, refund_pending = False\<rparr>"

theorem quota_never_overspent_witness:
  "quota_new (Some 100) 40 50 = Ok example_quota \<and>
   unat (40 :: u64) + run_total quota_step quota_accepted example_quota
     [RequestCredit, CommitCredit 50, Charge 30, Charge 30, Charge 20] \<le> unat (100 :: u64) \<and>
   run_total quota_step quota_accepted example_quota
     [RequestCredit, CommitCredit 50, Charge 30, Charge 30, Charge 20] = 50"
proof -
  have new: "quota_new (Some 100) 40 50 = Ok example_quota" by code_simp
  moreover have "run_total quota_step quota_accepted example_quota
     [RequestCredit, CommitCredit 50, Charge 30, Charge 30, Charge 20] = 50" by code_simp
  ultimately show ?thesis using quota_never_overspent [OF new] by blast
qed

text \<open>As long as no storage failure is reported, accounting is exact: the durable
  charge minus the credit still held in memory is the initial charge plus the bytes accepted.\<close>

theorem quota_accounting_exact:
  assumes "quota_new limit charged block = Ok q" and "list_all quota_normal ops"
  shows "unat (durable_charged (foldl quota_step q ops)) =
     unat charged + run_total quota_step quota_accepted q ops +
       unat (credit_remaining (foldl quota_step q ops))"
proof -
  let ?q = "foldl quota_step q ops"
  from assms(1) have q: "quota_inv q" "quota_used q = unat charged"
    by (auto simp: quota_new_inv) (auto simp: quota_new_def quota_used_def split: if_splits)
  from quota.used_run_exact [OF q(1) assms(2)] q(2)
  have "quota_used ?q = unat charged + run_total quota_step quota_accepted q ops" by simp
  moreover have "unat (credit_remaining ?q) \<le> unat (durable_charged ?q)"
    using quota.inv_run [OF q(1), of ops] by (simp add: quota_inv_def word_le_nat_alt)
  ultimately show ?thesis by (simp add: quota_used_def)
qed

theorem quota_accounting_exact_witness:
  "quota_new (Some 100) 40 50 = Ok example_quota \<and>
   unat (durable_charged (foldl quota_step example_quota
     [RequestCredit, CommitCredit 50, Charge 30, RequestRefund, CommitRefund 20, RequestCredit,
      CommitCredit 30])) = 40 + 30 + 30"
proof -
  let ?ops = "[RequestCredit, CommitCredit 50, Charge 30, RequestRefund, CommitRefund 20,
    RequestCredit, CommitCredit 30]"
  have new: "quota_new (Some 100) 40 50 = Ok example_quota" by code_simp
  moreover have "list_all quota_normal ?ops" by simp
  moreover have "run_total quota_step quota_accepted example_quota ?ops = 30"
    "credit_remaining (foldl quota_step example_quota ?ops) = 30" by code_simp+
  ultimately show ?thesis using quota_accounting_exact [OF new, of ?ops] by simp
qed

text \<open>C2. Rate limit: over any sequence of calls on a fresh bucket, in any order and with
  any clock readings, the bytes granted (in billionths) are at most one burst, plus the bytes handed
  back by refunds, plus the rate times the time that has passed on the bucket's clock.\<close>

theorem bucket_rate_limit:
  assumes "bucket_new rate burst now = Ok b"
  shows "1000000000 * run_total bucket_step bucket_granted b ops \<le>
     1000000000 * unat burst + 1000000000 * run_total bucket_step bucket_returned b ops +
       unat rate * (unat (tb_last_nanos (foldl bucket_step b ops)) - unat now)"
proof -
  from assms have "bucket_level b = 1000000000 * unat burst" "tb_rate b = rate" "tb_last_nanos b = now"
    by (auto simp: bucket_new_def bucket_level_def split: if_splits)
  with bucket.level_run [OF bucket_new_inv [OF assms], of ops] show ?thesis by simp
qed

definition example_bucket :: token_bucket where
  "example_bucket = \<lparr>tb_rate = 3, tb_burst = 10, tb_tokens = 10, tb_last_nanos = 5, tb_fractional = 0\<rparr>"

theorem bucket_rate_limit_witness:
  "bucket_new 3 10 5 = Ok example_bucket \<and>
   run_total bucket_step bucket_granted example_bucket
     [Take 8 5, Take 8 400000005, Refund 1, Take 8 1000000005] = 14 \<and>
   (1000000000 :: nat) * 14 \<le> 1000000000 * 10 + 1000000000 * 1 + 3 * (1000000005 - 5)"
proof -
  let ?ops = "[Take 8 5, Take 8 400000005, Refund 1, Take 8 1000000005]"
  have new: "bucket_new 3 10 5 = Ok example_bucket" by code_simp
  moreover have "run_total bucket_step bucket_granted example_bucket ?ops = 14"
    "run_total bucket_step bucket_returned example_bucket ?ops = 1"
    "tb_last_nanos (foldl bucket_step example_bucket ?ops) = 1000000005" by code_simp+
  ultimately show ?thesis using bucket_rate_limit [OF new, of ?ops] by simp
qed

text \<open>The delay reported by \<^const>\<open>nanos_until\<close> suffices: a request of no more than
  the burst is granted in full at every later call that is at least the reported delay away, provided
  the refill of that call does not fail.\<close>

theorem nanos_until_sufficient:
  assumes "bucket_inv b" and "nanos_until b bytes now = (Ok delay, b1)" and "bytes \<le> tb_burst b"
    and "unat now + unat delay \<le> unat later" and "bucket_take b1 bytes later = (Ok granted, b2)"
  shows "granted = bytes"
proof -
  from assms(5) obtain u b' where r: "refill b1 later = (Ok u, b')" and g: "granted = min bytes (tb_tokens b')"
    by (cases rule: bucket_take_cases [where b = b1 and n = bytes and now = later]) auto
  from assms(2) obtain v where v: "refill b now = (Ok v, b1)"
    by (cases rule: nanos_until_Ok) auto
  note b1 = refill_Ok [OF v assms(1)]
  have pos: "0 < unat (tb_rate b1)" using b1(1) by (simp add: bucket_inv_def word_greater_zero_iff unat_gt_0)
  have "(unat bytes - unat (tb_tokens b1)) * 1000000000 \<le> unat delay * unat (tb_rate b1)"
    using assms(2)
  proof (cases rule: nanos_until_Ok)
    case (2 u)
    have "unat (tb_rate b1 - 1) = unat (tb_rate b1) - 1" using pos by (simp add: unat_sub_if')
    with 2(3) ceiling_div_le [OF pos] show ?thesis by simp
  qed (simp add: word_le_nat_alt)
  also have "\<dots> \<le> (unat later - unat now) * unat (tb_rate b1)"
    using assms(4) by (intro mult_le_mono1) simp
  finally have "bytes \<le> tb_tokens b'"
    using refill_enough [OF r, of bytes] assms(3) b1 by simp
  with g show ?thesis by (simp add: min_def)
qed

theorem nanos_until_sufficient_witness:
  "bucket_inv (example_bucket\<lparr>tb_tokens := 2\<rparr>) \<and>
   nanos_until (example_bucket\<lparr>tb_tokens := 2\<rparr>) 9 5 =
     (Ok 2333333334, example_bucket\<lparr>tb_tokens := 2\<rparr>) \<and>
   fst (bucket_take (example_bucket\<lparr>tb_tokens := 2\<rparr>) 9 2333333339) = Ok 9"
proof -
  let ?b = "example_bucket\<lparr>tb_tokens := 2\<rparr>"
  have 1: "bucket_inv ?b" by code_simp
  have 2: "nanos_until ?b 9 5 = (Ok 2333333334, ?b)" by code_simp
  have 3: "is_ok (fst (bucket_take ?b 9 2333333339))" by code_simp
  then obtain g b2 where g: "bucket_take ?b 9 2333333339 = (Ok g, b2)"
    by (cases "bucket_take ?b 9 2333333339"; cases "fst (bucket_take ?b 9 2333333339)") auto
  have "g = 9" by (rule nanos_until_sufficient [OF 1 2 _ _ g]) (simp_all add: example_bucket_def)
  with 1 2 g show ?thesis by simp
qed

text \<open>A refill that overflows leaves the bucket as it was, so the bucket never recovers:
  every call at a later clock reading fails in the same way. (A rate of one gigabyte per second
  overflows after an idle time of about 18.4 seconds.)\<close>

theorem bucket_overflow_is_permanent:
  assumes "refill b now = (Err Quota_Overflow, b')" and "now \<le> later"
  shows "bucket_take b bytes later = (Err Quota_Overflow, b) \<and>
    nanos_until b bytes later = (Err Quota_Overflow, b) \<and>
    bucket_available b later = (Err Quota_Overflow, b)"
proof -
  from assms(1) have last: "tb_last_nanos b \<le> now" and none: "bucket_produced b now = None"
    by (auto simp: refill_def not_less split: if_splits option.splits)
  then have later: "tb_last_nanos b \<le> later" using assms(2) by simp
  have "(unat now - unat (tb_last_nanos b)) * unat (tb_rate b)
      \<le> (unat later - unat (tb_last_nanos b)) * unat (tb_rate b)"
    using assms(2) by (intro mult_le_mono1 diff_le_mono) (simp add: word_le_nat_alt)
  with none have "bucket_produced b later = None"
    unfolding bucket_produced_None [OF last] bucket_produced_None [OF later] by linarith
  with later have "refill b later = (Err Quota_Overflow, b)" by (simp add: refill_def)
  then show ?thesis by (simp add: bucket_take_def nanos_until_def bucket_available_def)
qed

theorem bucket_overflow_is_permanent_witness:
  "bucket_take (example_bucket\<lparr>tb_rate := 1000000000\<rparr>) 1 36000000000 =
     (Err Quota_Overflow, example_bucket\<lparr>tb_rate := 1000000000\<rparr>)"
proof -
  have "refill (example_bucket\<lparr>tb_rate := 1000000000\<rparr>) 18446744079 =
      (Err Quota_Overflow, example_bucket\<lparr>tb_rate := 1000000000\<rparr>)" by code_simp
  from bucket_overflow_is_permanent [OF this, of 36000000000 1] show ?thesis by simp
qed

end
