(* ===== verification/Sniff.thy ===== *)
theory Sniff
  imports Rust_Text
begin

text \<open>
  The traffic classifier (\<^verbatim>\<open>policy-local/src/sniff.rs\<close>): what the first bytes of a stream or datagram
  show about the protocol, and the host name in a TLS ClientHello or an HTTP/1 request. The
  outer option of a result is a panic of an index expression; the theorems show there is none.
\<close>

datatype observed =
    Tls "str option"
  | Http "str option"
  | Ssh
  | Quic
  | Unknown

datatype classification = NeedMore | Complete observed

section \<open>Helpers\<close>

definition incomplete :: "bool \<Rightarrow> classification" where
  "incomplete complete = (if complete then Complete Unknown else NeedMore)"

definition be_u16 :: "bytes \<Rightarrow> nat \<Rightarrow> nat option" where
  "be_u16 input offset = map_option be_value (get_range offset (offset + 2) input)"

definition be_u24 :: "bytes \<Rightarrow> nat \<Rightarrow> nat option" where
  "be_u24 input offset = map_option be_value (get_range offset (offset + 3) input)"

definition valid_label :: "str \<Rightarrow> bool" where
  "valid_label l \<longleftrightarrow> l \<noteq> [] \<and> length l \<le> 63 \<and> \<not> starts_with l [45] \<and> \<not> ends_with l [45] \<and>
     list_all (\<lambda>b. is_ascii_alphanumeric b \<or> b = 45) l"

definition valid_domain :: "str \<Rightarrow> bool" where
  "valid_domain d \<longleftrightarrow> d \<noteq> [] \<and> length d \<le> 253 \<and> is_ascii d \<and> list_all valid_label (split_on 46 d)"

definition valid_name :: "str \<Rightarrow> str option" where
  "valid_name name = (let lower = to_ascii_lowercase name in if valid_domain lower then Some lower else None)"

section \<open>TLS\<close>

function sni_names :: "bytes \<Rightarrow> nat \<Rightarrow> str option may_panic" where
  "sni_names extension offset =
     (if offset + 3 \<le> length extension then
        case get_at offset extension of
          None \<Rightarrow> None
        | Some kind \<Rightarrow> (case be_u16 extension (offset + 1) of
            None \<Rightarrow> Some None
          | Some len \<Rightarrow> (case get_range (offset + 3) (offset + 3 + len) extension of
              None \<Rightarrow> Some None
            | Some name \<Rightarrow>
                if kind = 0 then Some (Option.bind (from_utf8 name) valid_name)
                else sni_names extension (offset + 3 + len)))
      else Some None)"
  by pat_completeness auto
termination
  by (relation "measure (\<lambda>(extension, offset). length extension - offset)") auto

declare sni_names.simps [simp del]

definition parse_sni :: "bytes \<Rightarrow> str option may_panic" where
  "parse_sni extension = (case be_u16 extension 0 of
     None \<Rightarrow> Some None
   | Some list_length \<Rightarrow>
       if list_length + 2 \<noteq> length extension then Some None else sni_names extension 2)"

abbreviation tls_without_name :: "classification may_panic" where
  "tls_without_name \<equiv> Some (Complete (Tls None))"

function tls_extensions :: "bytes \<Rightarrow> nat \<Rightarrow> nat \<Rightarrow> classification may_panic" where
  "tls_extensions hello offset extensions_end =
     (if offset + 4 \<le> extensions_end then
        let kind = (case be_u16 hello offset of None \<Rightarrow> 65535 | Some k \<Rightarrow> k);
            len = (case be_u16 hello (offset + 2) of None \<Rightarrow> 0 | Some l \<Rightarrow> l)
        in case get_range (offset + 4) (usize_saturating_add (offset + 4) len) hello of
             None \<Rightarrow> tls_without_name
           | Some extension \<Rightarrow>
               if kind = 0 then map_option (\<lambda>sni. Complete (Tls sni)) (parse_sni extension)
               else tls_extensions hello (offset + 4 + len) extensions_end
      else tls_without_name)"
  by pat_completeness auto
termination
  by (relation "measure (\<lambda>(hello, offset, extensions_end). extensions_end - offset)") auto

declare tls_extensions.simps [simp del]

text \<open>The body of a ClientHello: past the session id, the cipher suites and the compression
  methods to the extensions. The offsets stay far below \<^const>\<open>usize_max\<close>, so the source's
  checked additions do not fail.\<close>

definition client_hello :: "bytes \<Rightarrow> classification may_panic" where
  "client_hello hello = (case get_at 34 hello of
     None \<Rightarrow> tls_without_name
   | Some session_length \<Rightarrow> let offset = 35 + unat session_length in
   (case be_u16 hello offset of
     None \<Rightarrow> tls_without_name
   | Some cipher_length \<Rightarrow> let offset = offset + (2 + cipher_length) in
   (case get_at offset hello of
     None \<Rightarrow> tls_without_name
   | Some compression_length \<Rightarrow> let offset = offset + (1 + unat compression_length) in
   (case be_u16 hello offset of
     None \<Rightarrow> tls_without_name
   | Some extensions_length \<Rightarrow>
       let extensions_end = offset + 2 + extensions_length in
       if extensions_end \<le> length hello then tls_extensions hello (offset + 2) extensions_end
       else tls_without_name))))"

definition classify_tls :: "bytes \<Rightarrow> bool \<Rightarrow> classification may_panic" where
  "classify_tls prefix complete = (case be_u16 prefix 3 of
     None \<Rightarrow> Some (incomplete complete)
   | Some record_length \<Rightarrow>
       let record_end = usize_saturating_add 5 record_length in
       if length prefix < record_end then Some (incomplete complete)
       else (case get_range 5 record_end prefix of
         None \<Rightarrow> None
       | Some tls_record \<Rightarrow>
           if get_at 0 tls_record \<noteq> Some 1 then tls_without_name
           else (case be_u24 tls_record 1 of
             None \<Rightarrow> tls_without_name
           | Some handshake_length \<Rightarrow>
               if length tls_record < usize_saturating_add handshake_length 4 then tls_without_name
               else Option.bind (get_range 4 (4 + handshake_length) tls_record) client_hello)))"

section \<open>HTTP\<close>

definition normalize_host :: "str \<Rightarrow> str option" where
  "normalize_host value =
     (if starts_with value [91]
      then (case split_once 93 value of
              None \<Rightarrow> None | Some (h, _) \<Rightarrow> valid_name (dropWhile (\<lambda>b. b = 91) h))
      else valid_name (hd (split_on 58 value)))"

definition host_line :: "str \<Rightarrow> str option" where
  "host_line line = (case split_once 58 line of
     None \<Rightarrow> None
   | Some (name, value) \<Rightarrow>
       if eq_ignore_ascii_case name (str_lit ''host'') then normalize_host (trim value) else None)"

definition classify_http :: "bytes \<Rightarrow> bool \<Rightarrow> classification may_panic" where
  "classify_http prefix complete = (case find_window [13, 10, 13, 10] prefix of
     None \<Rightarrow> Some (incomplete complete)
   | Some end \<Rightarrow> (case get_range 0 (end + 4) prefix of
       None \<Rightarrow> None
     | Some raw \<Rightarrow> (case from_utf8 raw of
         None \<Rightarrow> Some (Complete Unknown)
       | Some header \<Rightarrow> (case split_crlf header of
           [] \<Rightarrow> Some (Complete Unknown)
         | request # lines \<Rightarrow>
             if \<not> ends_with request (str_lit '' HTTP/1.0'') \<and> \<not> ends_with request (str_lit '' HTTP/1.1'')
             then Some (Complete Unknown)
             else Some (Complete (Http (find_map host_line lines)))))))"

definition http_methods :: "bytes list" where
  "http_methods = map str_lit
     [''GET '', ''POST '', ''PUT '', ''HEAD '', ''DELETE '', ''OPTIONS '', ''PATCH '', ''TRACE '', ''CONNECT '']"

definition looks_like_http :: "bytes \<Rightarrow> bool" where
  "looks_like_http prefix \<longleftrightarrow>
     list_ex (\<lambda>m. starts_with m prefix \<or> starts_with prefix m) http_methods"

section \<open>The classifiers\<close>

definition classify_tcp :: "bytes \<Rightarrow> bool \<Rightarrow> classification may_panic" where
  "classify_tcp prefix complete =
     (if starts_with prefix (str_lit ''SSH-'') then
        Some (if find_window [13, 10] prefix \<noteq> None then Complete Ssh else incomplete complete)
      else if get_at 0 prefix = Some 0x16 then classify_tls prefix complete
      else if looks_like_http prefix then classify_http prefix complete
      else if complete \<or> 8 \<le> length prefix then Some (Complete Unknown)
      else Some NeedMore)"

definition classify_udp :: "bytes \<Rightarrow> observed" where
  "classify_udp prefix = (case prefix of
     [] \<Rightarrow> Unknown | b # _ \<Rightarrow> if b AND 0xC0 = 0xC0 then Quic else Unknown)"

section \<open>No panic\<close>

lemma be_u16_less: "be_u16 input offset = Some n \<Longrightarrow> n < 65536"
  using be_value_less [of "take 2 (drop offset input)"]
  by (auto simp: be_u16_def get_range_Some)

lemma be_u24_less: "be_u24 input offset = Some n \<Longrightarrow> n < 16777216"
  using be_value_less [of "take 3 (drop offset input)"]
  by (auto simp: be_u24_def get_range_Some)

lemma usize_small: "a + b \<le> 4294967296 \<Longrightarrow> usize_saturating_add a b = a + b"
  by (simp add: usize_saturating_add_def usize_max_def)

lemma sni_names_total: "sni_names extension offset \<noteq> None"
proof (induction extension offset rule: sni_names.induct)
  case (1 extension offset)
  then show ?case
    by (subst sni_names.simps) (auto simp: get_at_None split: option.split)
qed

lemma parse_sni_total: "parse_sni extension \<noteq> None"
  using sni_names_total [of extension 2] by (auto simp: parse_sni_def split: option.split)

lemma tls_extensions_Complete: "\<exists>n. tls_extensions hello offset e = Some (Complete (Tls n))"
proof (induction hello offset e rule: tls_extensions.induct)
  case (1 hello offset e)
  then show ?case
    using parse_sni_total by (subst tls_extensions.simps) (auto simp: Let_def split: option.split)
qed

lemma client_hello_Complete: "\<exists>n. client_hello hello = Some (Complete (Tls n))"
  using tls_extensions_Complete by (auto simp: client_hello_def Let_def split: option.split)

lemma handshake_slice:
  assumes "be_u24 r 1 = Some n" and "\<not> length r < usize_saturating_add n 4"
  shows "get_range 4 (4 + n) r = Some (take n (drop 4 r))"
  using assms usize_small [of n 4] be_u24_less [OF assms(1)] by (simp add: get_range_def)

lemma record_slice:
  assumes "be_u16 prefix 3 = Some n" and "\<not> length prefix < usize_saturating_add 5 n"
  shows "get_range 5 (usize_saturating_add 5 n) prefix = Some (take n (drop 5 prefix))"
  using assms usize_small [of 5 n] be_u16_less [OF assms(1)] by (simp add: get_range_def)

lemma classify_tls_cases:
  obtains "classify_tls prefix complete = Some (incomplete complete)"
  | n where "classify_tls prefix complete = Some (Complete (Tls n))"
proof (cases "be_u16 prefix 3")
  case None
  then show ?thesis by (intro that(1)) (simp add: classify_tls_def)
next
  case (Some n)
  show ?thesis
  proof (cases "length prefix < usize_saturating_add 5 n")
    case True
    with Some show ?thesis by (intro that(1)) (simp add: classify_tls_def)
  next
    case False
    let ?rec = "take n (drop 5 prefix)"
    show ?thesis
    proof (cases "get_at 0 ?rec = Some 1 \<and> (\<exists>h. be_u24 ?rec 1 = Some h \<and>
        \<not> length ?rec < usize_saturating_add h 4)")
      case True
      then obtain h where "be_u24 ?rec 1 = Some h" "\<not> length ?rec < usize_saturating_add h 4"
        by blast
      moreover obtain m where "client_hello (take h (drop 4 ?rec)) = Some (Complete (Tls m))"
        using client_hello_Complete by blast
      ultimately have "classify_tls prefix complete = Some (Complete (Tls m))"
        using Some False True record_slice [OF Some False] handshake_slice
        by (simp add: classify_tls_def Let_def)
      then show ?thesis by (rule that(2))
    next
      case no: False
      have "classify_tls prefix complete = Some (Complete (Tls None))"
        using Some False no record_slice [OF Some False]
        by (auto simp: classify_tls_def Let_def split: option.split)
      then show ?thesis by (rule that(2))
    qed
  qed
qed

lemma http_header_slice:
  "find_window [13, 10, 13, 10] prefix = Some e \<Longrightarrow> get_range 0 (e + 4) prefix = Some (take (e + 4) prefix)"
  by (auto simp: get_range_def dest: find_window_Some)

lemma classify_http_cases:
  obtains "classify_http prefix complete = Some (incomplete complete)"
  | "classify_http prefix complete = Some (Complete Unknown)"
  | host where "classify_http prefix complete = Some (Complete (Http host))"
proof (cases "find_window [13, 10, 13, 10] prefix")
  case None
  then show ?thesis by (intro that(1)) (simp add: classify_http_def)
next
  case (Some e)
  then have "classify_http prefix complete = Some (Complete Unknown) \<or>
      (\<exists>host. classify_http prefix complete = Some (Complete (Http host)))"
    by (simp add: classify_http_def http_header_slice split: option.split list.split)
  with that(2,3) show ?thesis by blast
qed

section \<open>Later bytes do not change a decision\<close>

lemma be_u16_append: "be_u16 p i = Some n \<Longrightarrow> be_u16 (p @ q) i = Some n"
  by (auto simp: be_u16_def get_range_Some)

lemma classify_tls_stable:
  assumes "classify_tls p False = Some (Complete ob)"
  shows "classify_tls (p @ q) complete = Some (Complete ob)"
proof -
  from assms obtain n where n: "be_u16 p 3 = Some n"
    by (cases "be_u16 p 3") (auto simp: classify_tls_def incomplete_def)
  with assms have len: "\<not> length p < usize_saturating_add 5 n"
    by (auto simp: classify_tls_def incomplete_def)
  note n' = be_u16_append [OF n, of q]
  from len have len': "\<not> length (p @ q) < usize_saturating_add 5 n" by simp
  have "5 + n \<le> length p" using len usize_small [of 5 n] be_u16_less [OF n] by simp
  then have "take n (drop 5 (p @ q)) = take n (drop 5 p)" by simp
  with record_slice [OF n' len']
  have "get_range 5 (usize_saturating_add 5 n) (p @ q) = Some (take n (drop 5 p))" by (simp only:)
  with assms n n' len len' record_slice [OF n len] show ?thesis
    by (simp only: classify_tls_def option.case Let_def if_False)
qed

lemma classify_http_stable:
  assumes "classify_http p False = Some (Complete ob)"
  shows "classify_http (p @ q) complete = Some (Complete ob)"
proof -
  from assms obtain e where e: "find_window [13, 10, 13, 10] p = Some e"
    by (cases "find_window [13, 10, 13, 10] p") (auto simp: classify_http_def incomplete_def)
  note e' = find_window_append [OF e, of q]
  have "e + 4 \<le> length p" using find_window_Some [OF e] by simp
  then have "take (e + 4) (p @ q) = take (e + 4) p" by simp
  with http_header_slice [OF e'] have "get_range 0 (e + 4) (p @ q) = Some (take (e + 4) p)"
    by (simp only:)
  with assms e e' http_header_slice [OF e] show ?thesis
    by (simp only: classify_http_def option.case)
qed

lemma http_methods_facts:
  "m \<in> set http_methods \<Longrightarrow> 4 \<le> length m \<and> length m \<le> 8 \<and> 13 \<notin> set m"
  by (auto simp: http_methods_def str_lit_def)

lemma looks_like_http_cases:
  "looks_like_http p \<longleftrightarrow> (\<exists>m \<in> set http_methods. starts_with m p) \<or> (\<exists>m \<in> set http_methods. starts_with p m)"
  by (auto simp: looks_like_http_def list_ex_iff)

lemma find_window_first: "find_window (c # w) p = Some e \<Longrightarrow> c \<in> set p"
proof -
  assume e: "find_window (c # w) p = Some e"
  then have "c \<in> set (take (length (c # w)) (drop e p))"
    using find_window_Some [OF e] by simp
  then show "c \<in> set p" by (meson in_set_dropD in_set_takeD)
qed

lemma looks_like_http_append:
  assumes "8 \<le> length p"
  shows "looks_like_http (p @ q) = looks_like_http p"
proof -
  have short: "length m \<le> length p" if "m \<in> set http_methods" for m
    using http_methods_facts [OF that] assms by simp
  have "starts_with (p @ q) m = starts_with p m" if "m \<in> set http_methods" for m
    using short [OF that] by (rule starts_with_append)
  moreover have "starts_with p m" if "m \<in> set http_methods" "starts_with m (p @ q)" for m
    using short [OF that(1)] starts_with_length [OF that(2)] that(2)
    by (auto simp: starts_with_iff)
  moreover have "starts_with p m" if "m \<in> set http_methods" "starts_with m p" for m
    using short [OF that(1)] starts_with_length [OF that(2)] that(2)
    by (auto simp: starts_with_iff)
  ultimately show ?thesis unfolding looks_like_http_cases by blast
qed

lemma classify_http_long:
  assumes "looks_like_http p" and "classify_http p False = Some (Complete ob)"
  shows "4 \<le> length p" and "looks_like_http (p @ q)"
proof -
  from assms(2) obtain e where "find_window [13, 10, 13, 10] p = Some e"
    by (cases "find_window [13, 10, 13, 10] p") (auto simp: classify_http_def incomplete_def)
  then have "13 \<in> set p" by (rule find_window_first)
  then have "\<not> starts_with m p" if "m \<in> set http_methods" for m
    using http_methods_facts [OF that] by (auto simp: starts_with_iff)
  with assms(1) obtain m where m: "m \<in> set http_methods" "starts_with p m"
    by (auto simp: looks_like_http_cases)
  from http_methods_facts [OF m(1)] starts_with_length [OF m(2)] show "4 \<le> length p" by simp
  from m(2) have "starts_with (p @ q) m" by (auto simp: starts_with_iff)
  with m(1) show "looks_like_http (p @ q)" by (auto simp: looks_like_http_cases)
qed

lemma ssh_append: "4 \<le> length p \<Longrightarrow> starts_with (p @ q) (str_lit ''SSH-'') = starts_with p (str_lit ''SSH-'')"
  by (rule starts_with_append) (simp add: str_lit_def)

section \<open>Names\<close>

lemma valid_name_Some: "valid_name s = Some n \<Longrightarrow> valid_domain n \<and> to_ascii_lowercase n = n"
  by (auto simp: valid_name_def Let_def split: if_splits)

lemma sni_names_valid:
  "sni_names extension offset = Some (Some n) \<Longrightarrow> valid_domain n \<and> to_ascii_lowercase n = n"
proof (induction extension offset rule: sni_names.induct)
  case (1 extension offset)
  from 1(2) show ?case
    by (subst (asm) sni_names.simps)
      (auto simp: bind_eq_Some_conv split: if_splits option.splits dest: valid_name_Some 1(1))
qed

lemma parse_sni_valid: "parse_sni extension = Some (Some n) \<Longrightarrow> valid_domain n \<and> to_ascii_lowercase n = n"
  by (auto simp: parse_sni_def split: option.splits if_splits dest: sni_names_valid)

lemma tls_extensions_valid:
  "tls_extensions hello offset e = Some (Complete (Tls (Some n))) \<Longrightarrow>
     valid_domain n \<and> to_ascii_lowercase n = n"
proof (induction hello offset e rule: tls_extensions.induct)
  case (1 hello offset e)
  let ?k = "case be_u16 hello offset of None \<Rightarrow> 65535 | Some k \<Rightarrow> k"
  let ?l = "case be_u16 hello (offset + 2) of None \<Rightarrow> 0 | Some l \<Rightarrow> l"
  note unfolded = "1.prems" [unfolded tls_extensions.simps [of hello offset e] Let_def]
  from unfolded have in_range: "offset + 4 \<le> e" by (rule contrapos_pp) simp
  with unfolded obtain ext where ext: "get_range (offset + 4) (usize_saturating_add (offset + 4) ?l) hello = Some ext"
    by (cases "get_range (offset + 4) (usize_saturating_add (offset + 4) ?l) hello") simp_all
  show ?case
  proof (cases "?k = 0")
    case True
    with unfolded in_range ext parse_sni_valid show ?thesis by auto
  next
    case False
    with unfolded in_range ext have "tls_extensions hello (offset + 4 + ?l) e = Some (Complete (Tls (Some n)))"
      by simp
    with "1.IH" [OF in_range refl refl ext False] show ?thesis .
  qed
qed

lemma client_hello_either:
  "client_hello hello = tls_without_name \<or> (\<exists>i e. client_hello hello = tls_extensions hello i e)"
  unfolding client_hello_def Let_def
  by (cases "get_at 34 hello"; simp; rename_tac a; case_tac "be_u16 hello (35 + unat a)"; simp)
    (auto split: option.split)

lemma client_hello_valid:
  "client_hello hello = Some (Complete (Tls (Some n))) \<Longrightarrow> valid_domain n \<and> to_ascii_lowercase n = n"
  using client_hello_either [of hello] tls_extensions_valid by auto

lemma classify_tls_valid:
  "classify_tls prefix complete = Some (Complete (Tls (Some n))) \<Longrightarrow>
     valid_domain n \<and> to_ascii_lowercase n = n"
  by (auto simp: classify_tls_def incomplete_def Let_def bind_eq_Some_conv
      split: option.splits if_splits dest: client_hello_valid)

lemma normalize_host_valid: "normalize_host v = Some n \<Longrightarrow> valid_domain n \<and> to_ascii_lowercase n = n"
  by (auto simp: normalize_host_def split: if_splits option.splits dest: valid_name_Some)

lemma host_line_valid: "host_line line = Some n \<Longrightarrow> valid_domain n \<and> to_ascii_lowercase n = n"
  by (auto simp: host_line_def split: option.splits if_splits dest: normalize_host_valid)

lemma classify_http_valid:
  "classify_http prefix complete = Some (Complete (Http (Some n))) \<Longrightarrow>
     valid_domain n \<and> to_ascii_lowercase n = n"
  by (auto simp: classify_http_def incomplete_def split: option.splits if_splits list.splits
      dest!: find_map_Some dest: host_line_valid)

section \<open>Well-formed ClientHello messages\<close>

text \<open>The wire format of RFC 8446 with the server name extension of RFC 6066.\<close>

definition extension_bytes :: "nat \<times> bytes \<Rightarrow> bytes" where
  "extension_bytes = (\<lambda>(kind, body). be_bytes16 kind @ be_bytes16 (length body) @ body)"

definition server_name_body :: "bytes \<Rightarrow> bytes" where
  "server_name_body host =
     be_bytes16 (length host + 3) @ [0] @ be_bytes16 (length host) @ host"

definition hello_bytes :: "bytes \<Rightarrow> bytes \<Rightarrow> bytes \<Rightarrow> bytes \<Rightarrow> bytes \<Rightarrow> bytes" where
  "hello_bytes fixed session ciphers compression extensions =
     fixed @ [of_nat (length session)] @ session @ be_bytes16 (length ciphers) @ ciphers @
     [of_nat (length compression)] @ compression @ be_bytes16 (length extensions) @ extensions"

definition hello_record :: "bytes \<Rightarrow> bytes \<Rightarrow> bytes" where
  "hello_record version hello =
     [0x16] @ version @ be_bytes16 (length hello + 4) @ [1] @ be_bytes24 (length hello) @ hello"

lemma be_u16_mid:
  "i = length a \<Longrightarrow> n < 65536 \<Longrightarrow> be_u16 (a @ be_bytes16 n @ c) i = Some n"
  by (simp add: be_u16_def get_range_mid)

lemma be_u24_mid:
  "i = length a \<Longrightarrow> n < 16777216 \<Longrightarrow> be_u24 (a @ be_bytes24 n @ c) i = Some n"
  by (simp add: be_u24_def get_range_mid)

lemma parse_sni_server_name:
  assumes "length host + 3 < 65536" and "utf8_valid host" and "valid_domain (to_ascii_lowercase host)"
  shows "parse_sni (server_name_body host) = Some (Some (to_ascii_lowercase host))"
proof -
  let ?l = "be_bytes16 (length host + 3)"
  let ?e = "server_name_body host"
  have 1: "be_u16 ?e 0 = Some (length host + 3)"
    using be_u16_mid [of 0 "[]" "length host + 3" "[0] @ be_bytes16 (length host) @ host"] assms(1)
    by (simp add: server_name_body_def)
  have 2: "get_at 2 ?e = Some 0"
    using get_at_mid [of 2 ?l 0 "be_bytes16 (length host) @ host"] by (simp add: server_name_body_def)
  have 3: "be_u16 ?e 3 = Some (length host)"
    using be_u16_mid [of 3 "?l @ [0]" "length host" host] assms(1) by (simp add: server_name_body_def)
  have 4: "get_range 5 (5 + length host) ?e = Some host"
    using get_range_mid [of 5 "?l @ [0] @ be_bytes16 (length host)" "5 + length host" host "[]"]
    by (simp add: server_name_body_def)
  have "length ?e = length host + 5" by (simp add: server_name_body_def)
  with 1 2 3 4 assms(2,3) show ?thesis
    by (simp add: parse_sni_def sni_names.simps [of ?e 2] from_utf8_def valid_name_def Let_def)
qed

lemma tls_extensions_step:
  assumes hello: "hello = pre @ extension_bytes (k, b) @ post" and "k < 65536" and "length b < 65536"
    and "length hello < 65536" and "length pre + 4 \<le> e"
  shows "tls_extensions hello (length pre) e =
     (if k = 0 then map_option (\<lambda>sni. Complete (Tls sni)) (parse_sni b)
      else tls_extensions hello (length pre + 4 + length b) e)"
proof -
  have 1: "be_u16 hello (length pre) = Some k"
    using be_u16_mid [of "length pre" pre k "be_bytes16 (length b) @ b @ post"] assms
    by (simp add: extension_bytes_def)
  have 2: "be_u16 hello (length pre + 2) = Some (length b)"
    using be_u16_mid [of "length pre + 2" "pre @ be_bytes16 k" "length b" "b @ post"] assms
    by (simp add: extension_bytes_def)
  have 3: "get_range (length pre + 4) (length pre + 4 + length b) hello = Some b"
    using get_range_mid [of "length pre + 4" "pre @ be_bytes16 k @ be_bytes16 (length b)"
        "length pre + 4 + length b" b post] assms
    by (simp add: extension_bytes_def)
  then have "usize_saturating_add (length pre + 4) (length b) = length pre + 4 + length b"
    using assms(4) by (intro usize_small) (simp add: get_range_Some)
  with 1 2 3 assms(5) show ?thesis by (simp add: tls_extensions.simps [of hello "length pre" e])
qed

lemma tls_extensions_finds_name:
  assumes "hello = pre @ concat (map extension_bytes exts) @ extension_bytes (0, body) @ rest"
    and "list_all (\<lambda>(k, b). 0 < k \<and> k < 65536 \<and> length b < 65536) exts" and "length body < 65536"
    and "length hello < 65536" and "e = length hello" and "parse_sni body = Some (Some n)"
  shows "tls_extensions hello (length pre) e = Some (Complete (Tls (Some n)))"
  using assms(1,2)
proof (induction exts arbitrary: pre)
  case Nil
  then have hello: "hello = pre @ extension_bytes (0, body) @ rest" by simp
  then have "length pre + 4 \<le> e" using assms(5) by (simp add: extension_bytes_def)
  from tls_extensions_step [OF hello _ assms(3,4) this] assms(6) show ?case by simp
next
  case (Cons x exts)
  obtain k b where x: "x = (k, b)" by force
  let ?post = "concat (map extension_bytes exts) @ extension_bytes (0, body) @ rest"
  let ?pre = "pre @ extension_bytes x"
  from Cons.prems x have hello: "hello = pre @ extension_bytes (k, b) @ ?post"
    and kb: "0 < k" "k < 65536" "length b < 65536" by simp_all
  then have "length pre + 4 \<le> e" using assms(5) by (simp add: extension_bytes_def)
  moreover have "length ?pre = length pre + 4 + length b" by (simp add: x extension_bytes_def)
  moreover from kb(1) have "k \<noteq> 0" by simp
  ultimately have "tls_extensions hello (length pre) e = tls_extensions hello (length ?pre) e"
    using tls_extensions_step [OF hello kb(2,3) assms(4), of e] by (simp only: if_False)
  also have "\<dots> = Some (Complete (Tls (Some n)))"
    using Cons.prems by (intro Cons.IH) simp_all
  finally show ?case .
qed

lemma client_hello_finds_name:
  assumes "length fixed = 34" and "length session < 256" and "length compression < 256"
    and "extensions = concat (map extension_bytes exts) @ extension_bytes (0, body) @ rest"
    and "list_all (\<lambda>(k, b). 0 < k \<and> k < 65536 \<and> length b < 65536) exts"
    and "length (hello_bytes fixed session ciphers compression extensions) < 65536"
    and "parse_sni body = Some (Some n)"
  shows "client_hello (hello_bytes fixed session ciphers compression extensions) =
     Some (Complete (Tls (Some n)))"
proof -
  let ?hello = "hello_bytes fixed session ciphers compression extensions"
  let ?s = "fixed @ [of_nat (length session)] @ session"
  let ?c = "?s @ be_bytes16 (length ciphers) @ ciphers"
  let ?m = "?c @ [of_nat (length compression)] @ compression"
  let ?pre = "?m @ be_bytes16 (length extensions)"
  have small: "length ciphers < 65536" "length extensions < 65536" "length body < 65536"
    using assms(4,6) by (simp_all add: hello_bytes_def extension_bytes_def)
  have 1: "get_at 34 ?hello = Some (of_nat (length session))"
    using get_at_mid [of 34 fixed] assms(1) by (simp add: hello_bytes_def)
  have 2: "be_u16 ?hello (35 + length session) = Some (length ciphers)"
    using be_u16_mid [of "35 + length session" ?s "length ciphers"] small(1) assms(1)
    by (simp add: hello_bytes_def)
  have 3: "get_at (35 + length session + (2 + length ciphers)) ?hello = Some (of_nat (length compression))"
    using get_at_mid [of "35 + length session + (2 + length ciphers)" ?c] assms(1)
    by (simp add: hello_bytes_def)
  have 4: "be_u16 ?hello (35 + length session + (2 + length ciphers) + (1 + length compression)) =
      Some (length extensions)"
    using be_u16_mid [of "35 + length session + (2 + length ciphers) + (1 + length compression)" ?m
        "length extensions" extensions] small(2) assms(1)
    by (simp add: hello_bytes_def)
  have pre: "?hello = ?pre @ concat (map extension_bytes exts) @ extension_bytes (0, body) @ rest"
    by (simp add: hello_bytes_def assms(4))
  have len: "length ?pre = 35 + length session + (2 + length ciphers) + (1 + length compression) + 2"
    using assms(1) by simp
  have stop: "length ?pre + length extensions = length ?hello" by (simp add: hello_bytes_def)
  have "unat (of_nat (length session) :: u8) = length session"
    "unat (of_nat (length compression) :: u8) = length compression"
    using assms(2,3) by (simp_all add: unat_of_nat8)
  with 1 2 3 4 len stop have "client_hello ?hello = tls_extensions ?hello (length ?pre) (length ?hello)"
    by (simp add: client_hello_def Let_def)
  also have "\<dots> = Some (Complete (Tls (Some n)))"
    using assms(5,6,7) small(3) by (intro tls_extensions_finds_name [OF pre]) simp_all
  finally show ?thesis .
qed

section \<open>Properties\<close>

lemma classify_tcp_decides:
  "\<exists>c. classify_tcp prefix complete = Some c \<and> (complete = True \<longrightarrow> c \<noteq> NeedMore)"
  by (cases rule: classify_tls_cases [of prefix complete]; cases rule: classify_http_cases [of prefix complete])
    (auto simp: classify_tcp_def incomplete_def)

text \<open>The classifier never panics, whatever the bytes, and at the end of input
  (\<open>complete\<close>) it always decides instead of asking for more.\<close>

theorem classify_tcp_total:
  "classify_tcp prefix complete \<noteq> None \<and> (\<exists>ob. classify_tcp prefix True = Some (Complete ob))"
  using classify_tcp_decides [of prefix complete] classify_tcp_decides [of prefix True]
  by (metis classification.exhaust option.distinct(1))

text \<open>C30. A decision taken on a prefix is final: with more bytes, and at the end of input,
  the classifier gives the same answer.\<close>

theorem classify_tcp_stable:
  assumes "classify_tcp p False = Some (Complete ob)"
  shows "classify_tcp (p @ q) complete = Some (Complete ob)"
proof (cases "starts_with p (str_lit ''SSH-'')")
  case True
  then have "starts_with (p @ q) (str_lit ''SSH-'')" by (auto simp: starts_with_iff)
  moreover from True assms obtain e where "find_window [13, 10] p = Some e" "ob = Ssh"
    by (auto simp: classify_tcp_def incomplete_def split: if_splits)
  ultimately show ?thesis by (simp add: classify_tcp_def find_window_append)
next
  case no_ssh: False
  show ?thesis
  proof (cases "get_at 0 p = Some 0x16")
    case True
    with no_ssh assms have tls: "classify_tls p False = Some (Complete ob)" by (simp add: classify_tcp_def)
    then have "5 \<le> length p"
      by (cases "be_u16 p 3") (auto simp: classify_tls_def incomplete_def be_u16_def get_range_Some)
    moreover have "get_at 0 (p @ q) = Some 0x16"
      using True by (auto simp: get_at_def nth_append split: if_splits)
    ultimately show ?thesis
      using no_ssh by (simp add: classify_tcp_def ssh_append classify_tls_stable [OF tls])
  next
    case no_tls: False
    show ?thesis
    proof (cases "looks_like_http p")
      case True
      with no_ssh no_tls assms have http: "classify_http p False = Some (Complete ob)"
        by (simp add: classify_tcp_def)
      note long = classify_http_long [OF True http]
      then have "get_at 0 (p @ q) = get_at 0 p" by (intro get_at_append1) linarith
      with long no_ssh no_tls show ?thesis
        by (simp add: classify_tcp_def ssh_append classify_http_stable [OF http])
    next
      case False
      with no_ssh no_tls assms have "8 \<le> length p" "ob = Unknown"
        by (auto simp: classify_tcp_def split: if_splits)
      moreover from this have "get_at 0 (p @ q) = get_at 0 p" by (intro get_at_append1) linarith
      ultimately show ?thesis
        using False no_ssh no_tls by (simp add: classify_tcp_def ssh_append looks_like_http_append)
    qed
  qed
qed

theorem classify_tcp_stable_witness:
  "classify_tcp (str_lit ''SSH-2.0-x'' @ [13, 10]) False = Some (Complete Ssh) \<and>
   classify_tcp ((str_lit ''SSH-2.0-x'' @ [13, 10]) @ [0, 1, 2]) True = Some (Complete Ssh)"
proof -
  have "classify_tcp (str_lit ''SSH-2.0-x'' @ [13, 10]) False = Some (Complete Ssh)" by code_simp
  with classify_tcp_stable [OF this] show ?thesis by blast
qed

text \<open>Every host name the classifier reports, from TLS or from HTTP, is a syntactically
  valid domain name in lower case, so that rules can compare names bytewise.\<close>

theorem classified_names_valid:
  assumes "classify_tcp prefix complete = Some (Complete (Tls (Some n))) \<or>
           classify_tcp prefix complete = Some (Complete (Http (Some n)))"
  shows "valid_domain n \<and> to_ascii_lowercase n = n"
  using assms
proof
  assume "classify_tcp prefix complete = Some (Complete (Tls (Some n)))"
  then have "classify_tls prefix complete = Some (Complete (Tls (Some n)))"
    by (cases rule: classify_http_cases [of prefix complete])
      (auto simp: classify_tcp_def incomplete_def split: if_splits)
  then show ?thesis by (rule classify_tls_valid)
next
  assume "classify_tcp prefix complete = Some (Complete (Http (Some n)))"
  then have "classify_http prefix complete = Some (Complete (Http (Some n)))"
    by (cases rule: classify_tls_cases [of prefix complete])
      (auto simp: classify_tcp_def incomplete_def split: if_splits)
  then show ?thesis by (rule classify_http_valid)
qed

definition example_request :: bytes where
  "example_request = str_lit ''GET / HTTP/1.1'' @ [13, 10] @ str_lit ''Host: Ab.c:80'' @ [13, 10, 13, 10]"

theorem classified_names_valid_witness:
  "classify_tcp example_request False = Some (Complete (Http (Some (str_lit ''ab.c'')))) \<and>
   valid_domain (str_lit ''ab.c'')"
proof -
  have "classify_tcp example_request False = Some (Complete (Http (Some (str_lit ''ab.c''))))" by code_simp
  with classified_names_valid [of example_request False "str_lit ''ab.c''"] show ?thesis by blast
qed

text \<open>C28. A well-formed TLS ClientHello record whose first server name extension carries
  the host name \<open>host\<close> is classified as TLS with that name in lower case, whatever the other
  fields are, whichever other extensions come before and after it, and whatever bytes follow.\<close>

theorem client_hello_sni_found:
  assumes "length version = 2" and "length fixed = 34" and "length session < 256"
    and "length compression < 256"
    and "list_all (\<lambda>(k, b). 0 < k \<and> k < 65536 \<and> length b < 65536) exts"
    and "extensions = concat (map extension_bytes exts) @ extension_bytes (0, server_name_body host) @ rest"
    and "hello = hello_bytes fixed session ciphers compression extensions"
    and "length hello + 4 < 65536"
    and "valid_domain (to_ascii_lowercase host)" and "is_ascii host"
  shows "classify_tcp (hello_record version hello @ more) complete =
     Some (Complete (Tls (Some (to_ascii_lowercase host))))"
proof -
  let ?p = "hello_record version hello @ more"
  let ?r = "[1] @ be_bytes24 (length hello) @ hello"
  have "length host + 3 < 65536"
    using assms(6,7,8) by (simp add: hello_bytes_def extension_bytes_def server_name_body_def)
  then have "parse_sni (server_name_body host) = Some (Some (to_ascii_lowercase host))"
    using assms(9,10) by (intro parse_sni_server_name is_ascii_utf8_valid)
  then have ch: "client_hello hello = Some (Complete (Tls (Some (to_ascii_lowercase host))))"
    using assms(8) unfolding assms(7)
    by (intro client_hello_finds_name [OF assms(2,3,4,6,5)]) simp_all
  have 1: "be_u16 ?p 3 = Some (length hello + 4)"
    using be_u16_mid [of 3 "[0x16] @ version" "length hello + 4" "?r @ more"] assms(1,8)
    by (simp add: hello_record_def)
  have 2: "get_range 5 (5 + (length hello + 4)) ?p = Some ?r"
    using get_range_mid [of 5 "[0x16] @ version @ be_bytes16 (length hello + 4)" "5 + (length hello + 4)" ?r more]
      assms(1) by (simp add: hello_record_def)
  have 3: "get_at 0 ?r = Some 1" by (simp add: get_at_def)
  have 4: "be_u24 ?r 1 = Some (length hello)"
    using be_u24_mid [of 1 "[1]" "length hello" hello] assms(8) by simp
  have 5: "get_range 4 (4 + length hello) ?r = Some hello"
    using get_range_mid [of 4 "[1] @ be_bytes24 (length hello)" "4 + length hello" hello "[]"] by simp
  have len: "5 + (length hello + 4) \<le> length ?p" "length ?r = 4 + length hello"
    using assms(1) by (simp_all add: hello_record_def)
  have sat: "usize_saturating_add 5 (length hello + 4) = 5 + (length hello + 4)"
    "usize_saturating_add (length hello) 4 = length hello + 4"
    using assms(8) by (simp_all add: usize_small)
  have "classify_tls ?p complete = client_hello hello"
    unfolding classify_tls_def using 1 2 3 4 5 len sat by (simp add: Let_def)
  moreover have "\<not> starts_with ?p (str_lit ''SSH-'')" "get_at 0 ?p = Some 0x16"
    by (simp_all add: hello_record_def starts_with_def str_lit_def get_at_def)
  ultimately show ?thesis using ch by (simp add: classify_tcp_def)
qed

definition example_hello :: bytes where
  "example_hello = hello_bytes (replicate 34 0) [] [0x13, 1] [0]
     (extension_bytes (10, [1, 2]) @ extension_bytes (0, server_name_body (str_lit ''Ab.c'')))"

theorem client_hello_sni_found_witness:
  "length example_hello + 4 < 65536 \<and> valid_domain (str_lit ''ab.c'') \<and>
   classify_tcp (hello_record [3, 3] example_hello @ [7]) False =
     Some (Complete (Tls (Some (str_lit ''ab.c''))))"
proof -
  have len: "length example_hello + 4 < 65536"
    by (simp add: example_hello_def hello_bytes_def extension_bytes_def server_name_body_def str_lit_def)
  have lower: "to_ascii_lowercase (str_lit ''Ab.c'') = str_lit ''ab.c''" by code_simp
  moreover have dom: "valid_domain (str_lit ''ab.c'')" by code_simp
  moreover have "is_ascii (str_lit ''Ab.c'')" by code_simp
  ultimately have "classify_tcp (hello_record [3, 3] example_hello @ [7]) False =
      Some (Complete (Tls (Some (to_ascii_lowercase (str_lit ''Ab.c'')))))"
    using len
    by (intro client_hello_sni_found [where exts = "[(10, [1, 2])]" and rest = "[]" and
          fixed = "replicate 34 0" and session = "[]" and ciphers = "[0x13, 1]" and compression = "[0]"])
      (simp_all add: example_hello_def)
  with len dom lower show ?thesis by simp
qed

end
