(* ===== verification/Users.thy ===== *)
theory Users
  imports Rust_Text "HOL-Library.Product_Lexorder" "HOL-Library.Multiset"
begin

text \<open>
  Identifiers, user specifications and stored records (\<^verbatim>\<open>policy-local/src/admin.rs\<close>): hexadecimal
  identifiers, the limits and weekly access windows of a user, and the conversion of a user record
  to and from its stored form. The postcard codec is a parameter, an encoder and a decoder.
\<close>

datatype admin_error =
    Admin_Invalid | Admin_ClientLimit | Admin_Sequence | Admin_State | Admin_Random | Admin_Encode

section \<open>Hexadecimal identifiers\<close>

definition hex_digits :: bytes where
  "hex_digits = str_lit ''0123456789abcdef''"

definition hex_digit :: "u8 \<Rightarrow> u8" where
  "hex_digit n = hex_digits ! unat n"

fun encode_hex :: "bytes \<Rightarrow> str" where
  "encode_hex [] = []"
| "encode_hex (b # bs) = hex_digit (drop_bit 4 b) # hex_digit (b AND 0x0f) # encode_hex bs"

definition decode_nibble :: "u8 \<Rightarrow> (u8, admin_error) result" where
  "decode_nibble b =
     (if 48 \<le> b \<and> b \<le> 57 then Ok (b - 48)
      else if 97 \<le> b \<and> b \<le> 102 then Ok (b - 97 + 10)
      else Err Admin_Invalid)"

definition decode_pair :: "u8 \<Rightarrow> u8 \<Rightarrow> (u8, admin_error) result" where
  "decode_pair a b =
     try_bind (decode_nibble a) (\<lambda>high.
     try_bind (decode_nibble b) (\<lambda>low.
       ok_or (Option.bind (checked_mul high 16) (\<lambda>h. checked_add h low)) Admin_Invalid))"

fun decode_pairs :: "str \<Rightarrow> (bytes, admin_error) result" where
  "decode_pairs (a # b # rest) =
     try_bind (decode_pair a b) (\<lambda>x. try_bind (decode_pairs rest) (\<lambda>xs. Ok (x # xs)))"
| "decode_pairs [] = Ok []"
| "decode_pairs [a] = Err Admin_Invalid"

definition decode_hex :: "nat \<Rightarrow> str \<Rightarrow> (bytes, admin_error) result" where
  "decode_hex n input =
     (if length input \<noteq> n * 2 \<or> \<not> is_ascii input then Err Admin_Invalid else decode_pairs input)"

text \<open>\<open>UserId\<close>, \<open>CredentialDigest\<close> and \<open>Credential\<close>: arrays of 16 and 32 bytes.\<close>

definition user_id_parse :: "str \<Rightarrow> (bytes, admin_error) result" where
  "user_id_parse input = decode_hex 16 input"

definition user_id_hex :: "bytes \<Rightarrow> str" where
  "user_id_hex i = encode_hex i"

definition credential_digest_parse :: "str \<Rightarrow> (bytes, admin_error) result" where
  "credential_digest_parse input = decode_hex 32 input"

definition credential_digest_hex :: "bytes \<Rightarrow> str" where
  "credential_digest_hex d = encode_hex d"

definition credential_parse_hex :: "str \<Rightarrow> (bytes, admin_error) result" where
  "credential_parse_hex input = decode_hex 32 input"

text \<open>The digest of a credential, for a given SHA-256.\<close>

definition credential_digest_id :: "(bytes \<Rightarrow> bytes) \<Rightarrow> bytes \<Rightarrow> bytes" where
  "credential_digest_id sha256 credential = sha256 credential"

section \<open>User specifications\<close>

datatype user_status = Enabled | Disabled
datatype expiration = Expiration_Unlimited | AtUtc u64
datatype byte_limit = Bytes_Unlimited | Bytes_Limited u64
datatype rate_limit = Rate_Unlimited | Rate_Limited u64
datatype count_limit = Count_Unlimited | Count_Limited u32

datatype weekday = Monday | Tuesday | Wednesday | Thursday | Friday | Saturday | Sunday

record weekly_window =
  ww_weekday :: weekday
  ww_start_second :: u32
  ww_end_second :: u32

datatype weekly_access = Weekly_Unlimited | Weekly_Windows "weekly_window list"

record user_spec =
  us_status :: user_status
  us_expiration :: expiration
  us_quota :: byte_limit
  us_upload_rate :: rate_limit
  us_download_rate :: rate_limit
  us_combined_rate :: rate_limit
  us_burst_bytes :: u64
  us_max_sessions :: count_limit
  us_max_flows :: count_limit
  us_weekly_access :: weekly_access
  us_weight :: u32
  us_group :: str
  us_rule_profile :: str

text \<open>The derived order of the days and their numbers.\<close>

fun weekday_number :: "weekday \<Rightarrow> u8" where
  "weekday_number Monday = 0"
| "weekday_number Tuesday = 1"
| "weekday_number Wednesday = 2"
| "weekday_number Thursday = 3"
| "weekday_number Friday = 4"
| "weekday_number Saturday = 5"
| "weekday_number Sunday = 6"

lemma weekday_number_inject [simp]: "weekday_number a = weekday_number b \<longleftrightarrow> a = b"
  by (cases a; cases b) simp_all

instantiation weekday :: linorder
begin

definition less_eq_weekday :: "weekday \<Rightarrow> weekday \<Rightarrow> bool" where
  "less_eq_weekday a b \<longleftrightarrow> weekday_number a \<le> weekday_number b"

definition less_weekday :: "weekday \<Rightarrow> weekday \<Rightarrow> bool" where
  "less_weekday a b \<longleftrightarrow> weekday_number a < weekday_number b"

instance
  by standard (auto simp: less_eq_weekday_def less_weekday_def less_le)

end

definition weekday_from_u8 :: "u8 \<Rightarrow> (weekday, admin_error) result" where
  "weekday_from_u8 v =
     (if v = 0 then Ok Monday else if v = 1 then Ok Tuesday else if v = 2 then Ok Wednesday
      else if v = 3 then Ok Thursday else if v = 4 then Ok Friday else if v = 5 then Ok Saturday
      else if v = 6 then Ok Sunday else Err Admin_Encode)"

definition weekday_from_unix_days :: "u64 \<Rightarrow> weekday" where
  "weekday_from_unix_days days = (let r = (days + 3) mod 7 in
     if r = 0 then Monday else if r = 1 then Tuesday else if r = 2 then Wednesday
     else if r = 3 then Thursday else if r = 4 then Friday else if r = 5 then Saturday else Sunday)"

definition window_matches :: "weekly_window \<Rightarrow> weekday \<Rightarrow> u32 \<Rightarrow> bool" where
  "window_matches w day second \<longleftrightarrow>
     ww_weekday w = day \<and> ww_start_second w \<le> second \<and> second < ww_end_second w"

fun weekly_allows :: "weekly_access \<Rightarrow> u64 \<Rightarrow> bool" where
  "weekly_allows Weekly_Unlimited unix_seconds = True"
| "weekly_allows (Weekly_Windows entries) unix_seconds =
     list_ex (\<lambda>w. window_matches w (weekday_from_unix_days (unix_seconds div 86400))
       (ucast (unix_seconds mod 86400))) entries"

definition window_key :: "weekly_window \<Rightarrow> weekday \<times> u32 \<times> u32" where
  "window_key w = (ww_weekday w, ww_start_second w, ww_end_second w)"

fun windows_ordered :: "(weekday \<times> u32 \<times> u32) list \<Rightarrow> bool" where
  "windows_ordered [] = True"
| "windows_ordered [(day, start, stop)] = (start < stop \<and> stop \<le> 86400)"
| "windows_ordered ((d, s, e) # (day, start, stop) # rest) =
     (s < e \<and> e \<le> 86400 \<and> (d \<noteq> day \<or> e \<le> start) \<and> windows_ordered ((day, start, stop) # rest))"

fun weekly_valid :: "weekly_access \<Rightarrow> bool" where
  "weekly_valid Weekly_Unlimited = True"
| "weekly_valid (Weekly_Windows entries) =
     (if entries = [] \<or> 168 < length entries then False
      else windows_ordered (sort (map window_key entries)))"

definition user_spec_validate :: "user_spec \<Rightarrow> (unit, admin_error) result" where
  "user_spec_validate s =
     (if us_weight s = 0 \<or> us_burst_bytes s < 65507 \<or> us_group s = [] \<or> 64 < length (us_group s) \<or>
         us_rule_profile s = [] \<or> 64 < length (us_rule_profile s) \<or>
         us_quota s = Bytes_Limited 0 \<or> us_upload_rate s = Rate_Limited 0 \<or>
         us_download_rate s = Rate_Limited 0 \<or> us_combined_rate s = Rate_Limited 0 \<or>
         us_max_sessions s = Count_Limited 0 \<or> us_max_flows s = Count_Limited 0 \<or>
         \<not> weekly_valid (us_weekly_access s)
      then Err Admin_Invalid else Ok ())"

section \<open>Records\<close>

record user_record =
  ur_id :: str
  ur_spec :: user_spec
  ur_revision :: u64
  ur_durable_charged_bytes :: u64
  ur_upload_bytes :: u64
  ur_download_bytes :: u64
  ur_max_observed_utc :: u64

record credential_record =
  cr_digest :: str
  cr_user_id :: str
  cr_revoked :: bool
  cr_revision :: u64

datatype stored_expiration = Stored_Expiration_Unlimited | Stored_AtUtc u64
datatype stored_byte_limit = Stored_Bytes_Unlimited | Stored_Bytes_Limited u64
datatype stored_rate_limit = Stored_Rate_Unlimited | Stored_Rate_Limited u64
datatype stored_count_limit = Stored_Count_Unlimited | Stored_Count_Limited u32

record stored_weekly_window =
  sw_weekday :: u8
  sw_start_second :: u32
  sw_end_second :: u32

datatype stored_weekly_access = Stored_Weekly_Unlimited | Stored_Weekly_Windows "stored_weekly_window list"

record stored_user_record =
  su_id :: str
  su_status :: user_status
  su_expiration :: stored_expiration
  su_quota :: stored_byte_limit
  su_upload_rate :: stored_rate_limit
  su_download_rate :: stored_rate_limit
  su_combined_rate :: stored_rate_limit
  su_burst_bytes :: u64
  su_max_sessions :: stored_count_limit
  su_max_flows :: stored_count_limit
  su_weekly_access :: stored_weekly_access
  su_weight :: u32
  su_group :: str
  su_rule_profile :: str
  su_revision :: u64
  su_durable_charged_bytes :: u64
  su_upload_bytes :: u64
  su_download_bytes :: u64
  su_max_observed_utc :: u64

fun stored_expiration_of :: "expiration \<Rightarrow> stored_expiration" where
  "stored_expiration_of Expiration_Unlimited = Stored_Expiration_Unlimited"
| "stored_expiration_of (AtUtc t) = Stored_AtUtc t"

fun runtime_expiration :: "stored_expiration \<Rightarrow> expiration" where
  "runtime_expiration Stored_Expiration_Unlimited = Expiration_Unlimited"
| "runtime_expiration (Stored_AtUtc t) = AtUtc t"

fun stored_bytes :: "byte_limit \<Rightarrow> stored_byte_limit" where
  "stored_bytes Bytes_Unlimited = Stored_Bytes_Unlimited"
| "stored_bytes (Bytes_Limited n) = Stored_Bytes_Limited n"

fun runtime_bytes :: "stored_byte_limit \<Rightarrow> byte_limit" where
  "runtime_bytes Stored_Bytes_Unlimited = Bytes_Unlimited"
| "runtime_bytes (Stored_Bytes_Limited n) = Bytes_Limited n"

fun stored_rate :: "rate_limit \<Rightarrow> stored_rate_limit" where
  "stored_rate Rate_Unlimited = Stored_Rate_Unlimited"
| "stored_rate (Rate_Limited n) = Stored_Rate_Limited n"

fun runtime_rate :: "stored_rate_limit \<Rightarrow> rate_limit" where
  "runtime_rate Stored_Rate_Unlimited = Rate_Unlimited"
| "runtime_rate (Stored_Rate_Limited n) = Rate_Limited n"

fun stored_count :: "count_limit \<Rightarrow> stored_count_limit" where
  "stored_count Count_Unlimited = Stored_Count_Unlimited"
| "stored_count (Count_Limited n) = Stored_Count_Limited n"

fun runtime_count :: "stored_count_limit \<Rightarrow> count_limit" where
  "runtime_count Stored_Count_Unlimited = Count_Unlimited"
| "runtime_count (Stored_Count_Limited n) = Count_Limited n"

definition stored_window :: "weekly_window \<Rightarrow> stored_weekly_window" where
  "stored_window w = \<lparr>sw_weekday = weekday_number (ww_weekday w), sw_start_second = ww_start_second w,
     sw_end_second = ww_end_second w\<rparr>"

definition runtime_window :: "stored_weekly_window \<Rightarrow> (weekly_window, admin_error) result" where
  "runtime_window w = try_bind (weekday_from_u8 (sw_weekday w)) (\<lambda>day.
     Ok \<lparr>ww_weekday = day, ww_start_second = sw_start_second w, ww_end_second = sw_end_second w\<rparr>)"

fun runtime_windows :: "stored_weekly_window list \<Rightarrow> (weekly_window list, admin_error) result" where
  "runtime_windows [] = Ok []"
| "runtime_windows (w # ws) =
     try_bind (runtime_window w) (\<lambda>x. try_bind (runtime_windows ws) (\<lambda>xs. Ok (x # xs)))"

fun stored_weekly :: "weekly_access \<Rightarrow> stored_weekly_access" where
  "stored_weekly Weekly_Unlimited = Stored_Weekly_Unlimited"
| "stored_weekly (Weekly_Windows entries) = Stored_Weekly_Windows (map stored_window entries)"

fun runtime_weekly :: "stored_weekly_access \<Rightarrow> (weekly_access, admin_error) result" where
  "runtime_weekly Stored_Weekly_Unlimited = Ok Weekly_Unlimited"
| "runtime_weekly (Stored_Weekly_Windows stored) =
     try_bind (runtime_windows stored) (\<lambda>entries. let access = Weekly_Windows entries in
       if weekly_valid access then Ok access else Err Admin_Encode)"

definition stored_user :: "user_record \<Rightarrow> stored_user_record" where
  "stored_user u = (let s = ur_spec u in
     \<lparr>su_id = ur_id u, su_status = us_status s, su_expiration = stored_expiration_of (us_expiration s),
      su_quota = stored_bytes (us_quota s), su_upload_rate = stored_rate (us_upload_rate s),
      su_download_rate = stored_rate (us_download_rate s),
      su_combined_rate = stored_rate (us_combined_rate s), su_burst_bytes = us_burst_bytes s,
      su_max_sessions = stored_count (us_max_sessions s), su_max_flows = stored_count (us_max_flows s),
      su_weekly_access = stored_weekly (us_weekly_access s), su_weight = us_weight s,
      su_group = us_group s, su_rule_profile = us_rule_profile s, su_revision = ur_revision u,
      su_durable_charged_bytes = ur_durable_charged_bytes u, su_upload_bytes = ur_upload_bytes u,
      su_download_bytes = ur_download_bytes u, su_max_observed_utc = ur_max_observed_utc u\<rparr>)"

definition encode_user_record ::
  "(stored_user_record \<Rightarrow> bytes option) \<Rightarrow> user_record \<Rightarrow> (bytes, admin_error) result" where
  "encode_user_record to_allocvec u = ok_or (to_allocvec (stored_user u)) Admin_Encode"

definition runtime_user :: "stored_user_record \<Rightarrow> (user_record, admin_error) result" where
  "runtime_user s = try_bind (runtime_weekly (su_weekly_access s)) (\<lambda>weekly. Ok
     \<lparr>ur_id = su_id s,
      ur_spec = \<lparr>us_status = su_status s, us_expiration = runtime_expiration (su_expiration s),
        us_quota = runtime_bytes (su_quota s), us_upload_rate = runtime_rate (su_upload_rate s),
        us_download_rate = runtime_rate (su_download_rate s),
        us_combined_rate = runtime_rate (su_combined_rate s), us_burst_bytes = su_burst_bytes s,
        us_max_sessions = runtime_count (su_max_sessions s), us_max_flows = runtime_count (su_max_flows s),
        us_weekly_access = weekly, us_weight = su_weight s, us_group = su_group s,
        us_rule_profile = su_rule_profile s\<rparr>,
      ur_revision = su_revision s, ur_durable_charged_bytes = su_durable_charged_bytes s,
      ur_upload_bytes = su_upload_bytes s, ur_download_bytes = su_download_bytes s,
      ur_max_observed_utc = su_max_observed_utc s\<rparr>)"

definition decode_user_record ::
  "(bytes \<Rightarrow> stored_user_record option) \<Rightarrow> bytes \<Rightarrow> (user_record, admin_error) result" where
  "decode_user_record from_bytes input =
     try_bind (ok_or (from_bytes input) Admin_Encode) runtime_user"

text \<open>What the sources rely on of a postcard encoder and decoder.\<close>

definition codec_ok :: "('a \<Rightarrow> bytes option) \<Rightarrow> (bytes \<Rightarrow> 'a option) \<Rightarrow> bool" where
  "codec_ok enc dec \<longleftrightarrow> (\<forall>x b. enc x = Some b \<longrightarrow> dec b = Some x)"

section \<open>Hexadecimal text\<close>

lemma hex_digit_unat: "v < 16 \<Longrightarrow> unat (hex_digit v) = (if v < 10 then 48 + unat v else 87 + unat v)"
proof -
  assume "v < 16"
  then have "unat v < 16" by (simp add: word_less_nat_alt)
  moreover have "list_all (\<lambda>n. unat (hex_digits ! n) = (if n < 10 then 48 + n else 87 + n)) [0..<16]"
    by code_simp
  ultimately show ?thesis by (simp add: list_all_iff hex_digit_def word_less_nat_alt)
qed

lemma hex_digit_ascii: "v < 16 \<Longrightarrow> hex_digit v < 128"
  using hex_digit_unat [of v] by (simp add: word_less_nat_alt split: if_splits)

lemma decode_nibble_hex_digit: "v < 16 \<Longrightarrow> decode_nibble (hex_digit v) = Ok v"
  using hex_digit_unat [of v]
  by (auto simp: decode_nibble_def word_le_nat_alt word_less_nat_alt word_unat_eq_iff unat_sub_if'
      unat_word_ariths split: if_splits)

lemma decode_nibble_Ok: "decode_nibble c = Ok v \<Longrightarrow> v < 16 \<and> hex_digit v = c"
proof -
  assume v: "decode_nibble c = Ok v"
  then have "unat v < 16 \<and> (if unat v < 10 then 48 + unat v else 87 + unat v) = unat c"
    by (auto simp: decode_nibble_def word_le_nat_alt unat_sub_if' unat_word_ariths split: if_splits)
  then have "v < 16" and "(if v < 10 then 48 + unat v else 87 + unat v) = unat c"
    by (simp_all add: word_less_nat_alt)
  with hex_digit_unat [of v] show ?thesis by (simp add: word_unat_eq_iff)
qed

lemma unat_low_nibble: "unat (b AND 0x0f) = unat b mod 16" for b :: u8
proof -
  have "(0x0f :: u8) = mask 4" by (simp add: mask_eq_exp_minus_1)
  then have "b AND 0x0f = take_bit 4 b" by (simp only: take_bit_eq_mask)
  then show ?thesis by (simp add: take_bit_eq_mod unat_mod)
qed

lemma unat_high_nibble: "unat (drop_bit 4 b) = unat b div 16" for b :: u8
  by (simp add: drop_bit_eq_div unat_div)

lemma nibbles:
  fixes h l :: u8
  assumes "h < 16" and "l < 16"
  shows "unat (h * 16 + l) = unat h * 16 + unat l" "checked_mul h 16 = Some (h * 16)"
    "checked_add (h * 16) l = Some (h * 16 + l)"
    "drop_bit 4 (h * 16 + l) = h" "(h * 16 + l) AND 0x0f = l"
proof -
  from assms have hl: "unat h < 16" "unat l < 16" by (simp_all add: word_less_nat_alt)
  then have h16: "unat (h * 16) = unat h * 16" by (simp add: unat_word_ariths)
  with hl show eq: "unat (h * 16 + l) = unat h * 16 + unat l" by (simp add: unat_word_ariths)
  show "checked_mul h 16 = Some (h * 16)" by (simp add: checked_mul_Some h16)
  show "checked_add (h * 16) l = Some (h * 16 + l)" by (simp add: checked_add_Some eq h16)
  show "drop_bit 4 (h * 16 + l) = h" "(h * 16 + l) AND 0x0f = l"
    using hl by (simp_all add: word_unat_eq_iff unat_high_nibble unat_low_nibble eq)
qed

lemma hex_byte: "decode_pair (hex_digit (drop_bit 4 b)) (hex_digit (b AND 0x0f)) = Ok b"
proof -
  have small: "drop_bit 4 b < 16" "b AND 0x0f < 16"
    using unat_u8_less [of b] by (simp_all add: word_less_nat_alt unat_high_nibble unat_low_nibble)
  have "unat (drop_bit 4 b * 16 + (b AND 0x0f)) = unat b"
    by (simp only: nibbles(1) [OF small] unat_high_nibble unat_low_nibble div_mult_mod_eq)
  then have "drop_bit 4 b * 16 + (b AND 0x0f) = b" by (simp only: word_unat_eq_iff)
  with small show ?thesis by (simp add: decode_pair_def decode_nibble_hex_digit nibbles)
qed

lemma decode_pair_Ok:
  assumes "decode_pair a b = Ok x"
  shows "a = hex_digit (drop_bit 4 x) \<and> b = hex_digit (x AND 0x0f)"
proof -
  from assms obtain h l where hl: "decode_nibble a = Ok h" "decode_nibble b = Ok l"
    and x: "Option.bind (checked_mul h 16) (\<lambda>h. checked_add h l) = Some x"
    by (auto simp: decode_pair_def try_bind_Ok_iff)
  from x have "x = h * 16 + l"
    by (auto simp: bind_eq_Some_conv checked_mul_def checked_add_def Let_def split: if_splits)
  with hl nibbles(4,5) [of h l] decode_nibble_Ok [of a h] decode_nibble_Ok [of b l] show ?thesis by auto
qed

lemma decode_encode_pairs: "decode_pairs (encode_hex bs) = Ok bs"
  by (induction bs) (simp_all add: hex_byte)

lemma encode_decode_pairs: "decode_pairs s = Ok bs \<Longrightarrow> s = encode_hex bs"
proof (induction s arbitrary: bs rule: decode_pairs.induct)
  case (1 a b rest)
  then show ?case by (auto simp: try_bind_Ok_iff dest: decode_pair_Ok)
qed auto

lemma length_encode_hex [simp]: "length (encode_hex bs) = length bs * 2"
  by (induction bs) auto

lemma is_ascii_encode_hex: "is_ascii (encode_hex bs)"
proof (induction bs)
  case (Cons b bs)
  have "hex_digit (drop_bit 4 b) < 128" "hex_digit (b AND 0x0f) < 128"
    using unat_u8_less [of b]
    by (intro hex_digit_ascii; simp add: word_less_nat_alt unat_high_nibble unat_low_nibble)+
  with Cons show ?case by (simp add: is_ascii_def)
qed (simp add: is_ascii_def)

lemma decode_hex_iff: "decode_hex n s = Ok bs \<longleftrightarrow> length bs = n \<and> s = encode_hex bs"
  by (auto simp: decode_hex_def is_ascii_encode_hex decode_encode_pairs dest: encode_decode_pairs)

section \<open>Weekly windows\<close>

text \<open>The reference notion: no two entries of the list overlap.\<close>

definition windows_disjoint :: "weekday \<times> u32 \<times> u32 \<Rightarrow> weekday \<times> u32 \<times> u32 \<Rightarrow> bool" where
  "windows_disjoint = (\<lambda>(d, s, e) (d', s', e'). d \<noteq> d' \<or> e \<le> s' \<or> e' \<le> s)"

definition window_in_day :: "weekday \<times> u32 \<times> u32 \<Rightarrow> bool" where
  "window_in_day = (\<lambda>(d, s, e). s < e \<and> e \<le> 86400)"

lemma windows_disjoint_sym: "windows_disjoint a b \<Longrightarrow> windows_disjoint b a"
  by (auto simp: windows_disjoint_def)

lemma sorted_wrt_mset:
  assumes sym: "\<And>a b. R a b \<Longrightarrow> R b a"
  shows "mset xs = mset ys \<Longrightarrow> sorted_wrt R xs \<Longrightarrow> sorted_wrt R ys"
proof (induction xs arbitrary: ys)
  case (Cons x xs)
  from Cons.prems(1) have "x \<in> set ys" by (metis list.set_intros(1) set_mset_mset)
  then obtain as bs where ys: "ys = as @ x # bs" by (meson split_list)
  with Cons.prems have "mset xs = mset (as @ bs)" by simp
  with Cons have "sorted_wrt R (as @ bs)" "\<forall>y \<in> set (as @ bs). R x y"
    by (simp, metis list.simps(15) insert_iff set_mset_mset sorted_wrt.simps(2))
  with sym show ?case by (auto simp: ys sorted_wrt_append)
qed simp

lemma windows_ordered_iff:
  "sorted ws \<Longrightarrow> windows_ordered ws \<longleftrightarrow> list_all window_in_day ws \<and> sorted_wrt windows_disjoint ws"
proof (induction ws rule: windows_ordered.induct)
  case (3 d s e day start stop rest)
  let ?w = "(day, start, stop)"
  from 3 have IH: "windows_ordered (?w # rest) \<longleftrightarrow>
      list_all window_in_day (?w # rest) \<and> sorted_wrt windows_disjoint (?w # rest)" by simp
  from "3.prems" have le: "\<forall>v \<in> set (?w # rest). (d, s, e) \<le> v" and le2: "\<forall>v \<in> set rest. ?w \<le> v" by auto
  show ?case
  proof
    assume ord: "windows_ordered ((d, s, e) # ?w # rest)"
    then have w: "window_in_day (d, s, e)" "d \<noteq> day \<or> e \<le> start" and rest: "windows_ordered (?w # rest)"
      by (auto simp: window_in_day_def)
    have "windows_disjoint (d, s, e) v" if v: "v \<in> set (?w # rest)" for v
    proof -
      obtain d' s' e' where v': "v = (d', s', e')" by (metis prod_cases3)
      show ?thesis
      proof (cases "d = d'")
        case True
        from le le2 v v' True have "d = day" by (auto simp: less_eq_prod_def)
        with w have "e \<le> start" by simp
        also have "start \<le> s'" using le2 v v' True \<open>d = day\<close> by (auto simp: less_eq_prod_def)
        finally show ?thesis by (simp add: v' windows_disjoint_def)
      qed (simp add: v' windows_disjoint_def)
    qed
    with w rest IH show "list_all window_in_day ((d, s, e) # ?w # rest) \<and>
        sorted_wrt windows_disjoint ((d, s, e) # ?w # rest)" by simp
  next
    assume all: "list_all window_in_day ((d, s, e) # ?w # rest) \<and>
        sorted_wrt windows_disjoint ((d, s, e) # ?w # rest)"
    then have "windows_ordered (?w # rest)" using IH by simp
    moreover have "d \<noteq> day \<or> e \<le> start"
      using all le by (auto simp: windows_disjoint_def window_in_day_def less_eq_prod_def)
    ultimately show "windows_ordered ((d, s, e) # ?w # rest)"
      using all by (simp add: window_in_day_def)
  qed
qed (auto simp: window_in_day_def)

lemma weekly_valid_windows:
  "weekly_valid (Weekly_Windows entries) \<longleftrightarrow>
     entries \<noteq> [] \<and> length entries \<le> 168 \<and> list_all window_in_day (map window_key entries) \<and>
     sorted_wrt windows_disjoint (map window_key entries)"
proof -
  let ?ws = "map window_key entries"
  have "sorted_wrt windows_disjoint (sort ?ws) \<longleftrightarrow> sorted_wrt windows_disjoint ?ws"
    using sorted_wrt_mset [of windows_disjoint, OF windows_disjoint_sym] by (metis mset_sort)
  moreover have "list_all window_in_day (sort ?ws) \<longleftrightarrow> list_all window_in_day ?ws"
    by (simp add: list_all_iff)
  ultimately have "windows_ordered (sort ?ws) \<longleftrightarrow>
      list_all window_in_day ?ws \<and> sorted_wrt windows_disjoint ?ws"
    by (simp only: windows_ordered_iff [OF sorted_sort])
  then show ?thesis by auto
qed

lemma disjoint_not_both:
  "windows_disjoint (window_key v) (window_key w) \<Longrightarrow> window_matches v day s \<Longrightarrow> \<not> window_matches w day s"
  by (auto simp: windows_disjoint_def window_key_def window_matches_def)

section \<open>Stored records\<close>

lemma runtime_stored_scalars [simp]:
  "runtime_expiration (stored_expiration_of e) = e" "runtime_bytes (stored_bytes q) = q"
  "runtime_rate (stored_rate r) = r" "runtime_count (stored_count c) = c"
     apply (cases e; simp)
    apply (cases q; simp)
   apply (cases r; simp)
  apply (cases c; simp)
  done

lemma weekday_from_number [simp]: "weekday_from_u8 (weekday_number d) = Ok d"
  by (cases d) (simp_all add: weekday_from_u8_def)

lemma runtime_stored_windows: "runtime_windows (map stored_window ws) = Ok ws"
  by (induction ws) (simp_all add: runtime_window_def stored_window_def)

lemma runtime_stored_weekly:
  "runtime_weekly (stored_weekly w) = (if weekly_valid w then Ok w else Err Admin_Encode)"
  by (cases w) (simp_all add: runtime_stored_windows Let_def)

lemma runtime_stored_user:
  "runtime_user (stored_user u) =
     (if weekly_valid (us_weekly_access (ur_spec u)) then Ok u else Err Admin_Encode)"
  by (simp add: runtime_user_def stored_user_def Let_def runtime_stored_weekly)

section \<open>Properties\<close>

text \<open>The textual forms of identifiers are canonical: a string parses as a user id
  (a credential digest, a credential) exactly when it is the printed form of a 16-byte (32-byte)
  array, and then it parses to that array. So two different strings never name the same user.\<close>

theorem identifiers_canonical:
  "(user_id_parse s = Ok i \<longleftrightarrow> length i = 16 \<and> s = user_id_hex i) \<and>
   (credential_digest_parse s = Ok i \<longleftrightarrow> length i = 32 \<and> s = credential_digest_hex i) \<and>
   (credential_parse_hex s = Ok i \<longleftrightarrow> length i = 32 \<and> s = encode_hex i)"
  by (simp add: user_id_parse_def credential_digest_parse_def credential_parse_hex_def
      user_id_hex_def credential_digest_hex_def decode_hex_iff)

text \<open>The one-pass check of the sorted windows is the intended one: a list of weekly
  windows is valid exactly when it has 1 to 168 entries, each is a non-empty range of one day, and
  no two entries, adjacent or not, overlap.\<close>

theorem weekly_valid_iff_disjoint:
  "weekly_valid (Weekly_Windows entries) \<longleftrightarrow>
     entries \<noteq> [] \<and> length entries \<le> 168 \<and>
     (\<forall>i < length entries. ww_start_second (entries ! i) < ww_end_second (entries ! i) \<and>
        ww_end_second (entries ! i) \<le> 86400) \<and>
     (\<forall>j < length entries. \<forall>i < j. ww_weekday (entries ! i) = ww_weekday (entries ! j) \<longrightarrow>
        ww_end_second (entries ! i) \<le> ww_start_second (entries ! j) \<or>
        ww_end_second (entries ! j) \<le> ww_start_second (entries ! i))"
proof -
  have "list_all window_in_day (map window_key entries) \<longleftrightarrow>
      (\<forall>i < length entries. ww_start_second (entries ! i) < ww_end_second (entries ! i) \<and>
        ww_end_second (entries ! i) \<le> 86400)"
    by (simp add: list_all_length window_in_day_def window_key_def)
  moreover have "sorted_wrt windows_disjoint (map window_key entries) \<longleftrightarrow>
      (\<forall>j < length entries. \<forall>i < j. ww_weekday (entries ! i) = ww_weekday (entries ! j) \<longrightarrow>
        ww_end_second (entries ! i) \<le> ww_start_second (entries ! j) \<or>
        ww_end_second (entries ! j) \<le> ww_start_second (entries ! i))"
    by (fastforce simp: sorted_wrt_iff_nth_less windows_disjoint_def window_key_def)
  ultimately show ?thesis unfolding weekly_valid_windows by blast
qed

definition example_windows :: "weekly_window list" where
  "example_windows =
     [\<lparr>ww_weekday = Friday, ww_start_second = 36000, ww_end_second = 72000\<rparr>,
      \<lparr>ww_weekday = Thursday, ww_start_second = 0, ww_end_second = 3600\<rparr>,
      \<lparr>ww_weekday = Friday, ww_start_second = 0, ww_end_second = 36000\<rparr>]"

theorem weekly_valid_iff_disjoint_witness:
  "weekly_valid (Weekly_Windows example_windows) \<and> length example_windows \<le> 168 \<and>
   (ww_end_second (example_windows ! 0) \<le> ww_start_second (example_windows ! 2) \<or>
    ww_end_second (example_windows ! 2) \<le> ww_start_second (example_windows ! 0))"
proof -
  have "weekly_valid (Weekly_Windows example_windows)" by code_simp
  moreover from this have
    "\<forall>j < length example_windows. \<forall>i < j. ww_weekday (example_windows ! i) = ww_weekday (example_windows ! j) \<longrightarrow>
        ww_end_second (example_windows ! i) \<le> ww_start_second (example_windows ! j) \<or>
        ww_end_second (example_windows ! j) \<le> ww_start_second (example_windows ! i)"
    "length example_windows \<le> 168"
    unfolding weekly_valid_iff_disjoint by blast+
  moreover have "length example_windows = 3" "ww_weekday (example_windows ! 0) = ww_weekday (example_windows ! 2)"
    by (simp_all add: example_windows_def)
  ultimately show ?thesis by auto
qed

text \<open>Under valid windows, at every moment that is allowed exactly one window allows it.\<close>

theorem weekly_allowed_by_one_window:
  assumes "weekly_valid (Weekly_Windows entries)" and "weekly_allows (Weekly_Windows entries) t"
  shows "\<exists>!i. i < length entries \<and>
    window_matches (entries ! i) (weekday_from_unix_days (t div 86400)) (ucast (t mod 86400))"
proof -
  let ?m = "\<lambda>w. window_matches w (weekday_from_unix_days (t div 86400)) (ucast (t mod 86400))"
  from assms(2) obtain i where i: "i < length entries" "?m (entries ! i)"
    by (auto simp: list_ex_length)
  have "j = i" if j: "j < length entries" "?m (entries ! j)" for j
  proof (rule ccontr)
    assume "j \<noteq> i"
    moreover from assms(1) have "sorted_wrt windows_disjoint (map window_key entries)"
      unfolding weekly_valid_windows by blast
    ultimately have "windows_disjoint (window_key (entries ! i)) (window_key (entries ! j))"
      using i(1) j(1) by (cases "i < j") (auto simp: sorted_wrt_iff_nth_less intro: windows_disjoint_sym)
    with disjoint_not_both i j show False by blast
  qed
  with i show ?thesis by blast
qed

theorem weekly_allowed_by_one_window_witness:
  "\<exists>!i. i < length example_windows \<and>
     window_matches (example_windows ! i) (weekday_from_unix_days (86400 div 86400)) (ucast (86400 mod 86400 :: u64))"
proof -
  have "weekly_valid (Weekly_Windows example_windows)" by code_simp
  moreover have "weekly_allows (Weekly_Windows example_windows) 86400"
    by (simp add: example_windows_def window_matches_def weekday_from_unix_days_def)
  ultimately show ?thesis by (rule weekly_allowed_by_one_window)
qed

text \<open>Stored user records: for every codec that decodes what it encodes, a stored
  record is read back as the same record when its weekly windows are valid, and is refused otherwise;
  nothing else is changed or lost.\<close>

theorem user_record_roundtrip:
  assumes "codec_ok to_allocvec from_bytes" and "encode_user_record to_allocvec u = Ok stored"
  shows "decode_user_record from_bytes stored =
    (if weekly_valid (us_weekly_access (ur_spec u)) then Ok u else Err Admin_Encode)"
proof -
  from assms have "from_bytes stored = Some (stored_user u)"
    by (auto simp: codec_ok_def encode_user_record_def)
  then show ?thesis by (simp add: decode_user_record_def runtime_stored_user)
qed

definition example_user :: user_record where
  "example_user =
     \<lparr>ur_id = encode_hex (replicate 16 7),
      ur_spec = \<lparr>us_status = Enabled, us_expiration = AtUtc 2000000000, us_quota = Bytes_Limited 1000,
        us_upload_rate = Rate_Unlimited, us_download_rate = Rate_Limited 100000,
        us_combined_rate = Rate_Unlimited, us_burst_bytes = 65507, us_max_sessions = Count_Limited 2,
        us_max_flows = Count_Unlimited, us_weekly_access = Weekly_Windows example_windows,
        us_weight = 1, us_group = str_lit ''staff'', us_rule_profile = str_lit ''default''\<rparr>,
      ur_revision = 3, ur_durable_charged_bytes = 10, ur_upload_bytes = 4, ur_download_bytes = 6,
      ur_max_observed_utc = 1700000000\<rparr>"

theorem user_record_roundtrip_witness:
  "decode_user_record (\<lambda>b. if b = [1] then Some (stored_user example_user) else None) [1] = Ok example_user"
proof -
  let ?enc = "\<lambda>x. if x = stored_user example_user then Some [1] else None"
  let ?dec = "\<lambda>b. if b = [1 :: u8] then Some (stored_user example_user) else None"
  have "codec_ok ?enc ?dec" by (simp add: codec_ok_def)
  moreover have "encode_user_record ?enc example_user = Ok [1]" by (simp add: encode_user_record_def)
  moreover have "weekly_valid (us_weekly_access (ur_spec example_user))"
    by (simp only: example_user_def user_record.simps user_spec.simps) code_simp
  ultimately show ?thesis using user_record_roundtrip [of ?enc ?dec example_user "[1]"] by simp
qed

end
