(* ===== verification/Hash_Map.thy ===== *)
theory Hash_Map
  imports Prelude
begin

text \<open>
  \<open>std::collections::HashMap\<close> as an association list with distinct keys. The list order stands for
  the iteration order, which Rust leaves unspecified. Clients rely on the laws of the locale
  \<open>hash_map\<close> only; \<open>hm\<close> is the interpretation on the operations below.
\<close>

type_synonym ('k, 'v) hashmap = "('k \<times> 'v) list"

definition hm_get :: "('k, 'v) hashmap \<Rightarrow> 'k \<Rightarrow> 'v option" where
  "hm_get m k = map_of m k"

definition hm_insert :: "'k \<Rightarrow> 'v \<Rightarrow> ('k, 'v) hashmap \<Rightarrow> ('k, 'v) hashmap" where
  "hm_insert k v m = AList.update k v m"

definition hm_remove :: "'k \<Rightarrow> ('k, 'v) hashmap \<Rightarrow> ('k, 'v) hashmap" where
  "hm_remove k m = AList.delete k m"

definition hm_len :: "('k, 'v) hashmap \<Rightarrow> nat" where
  "hm_len m = length m"

definition hm_contains :: "('k, 'v) hashmap \<Rightarrow> 'k \<Rightarrow> bool" where
  "hm_contains m k \<longleftrightarrow> hm_get m k \<noteq> None"

definition hm_wf :: "('k, 'v) hashmap \<Rightarrow> bool" where
  "hm_wf m \<longleftrightarrow> distinct (map fst m)"

locale hash_map =
  fixes wf :: "'m \<Rightarrow> bool" and get :: "'m \<Rightarrow> 'k \<Rightarrow> 'v option" and insert :: "'k \<Rightarrow> 'v \<Rightarrow> 'm \<Rightarrow> 'm"
    and remove :: "'k \<Rightarrow> 'm \<Rightarrow> 'm" and len :: "'m \<Rightarrow> nat" and empty :: 'm
  assumes wf_empty: "wf empty" and get_empty: "get empty k = None" and len_empty: "len empty = 0"
    and wf_insert: "wf m \<Longrightarrow> wf (insert k v m)"
    and wf_remove: "wf m \<Longrightarrow> wf (remove k m)"
    and get_insert: "get (insert k v m) l = (if l = k then Some v else get m l)"
    and get_remove: "get (remove k m) l = (if l = k then None else get m l)"
    and len_insert: "wf m \<Longrightarrow> len (insert k v m) = (if get m k = None then Suc (len m) else len m)"
    and len_remove: "wf m \<Longrightarrow> len (remove k m) = (if get m k = None then len m else len m - 1)"
    and len_pos: "get m k \<noteq> None \<Longrightarrow> 0 < len m"
begin

text \<open>A bounded table: inserting under the guard the sources use keeps the bound.\<close>

lemma len_insert_bounded:
  assumes "wf m" and "len m \<le> n" and "get m k \<noteq> None \<or> len m < n"
  shows "len (insert k v m) \<le> n"
  using assms by (auto simp: len_insert)

lemma len_remove_le: "wf m \<Longrightarrow> len (remove k m) \<le> len m"
  by (simp add: len_remove)

lemma len_remove_less: "wf m \<Longrightarrow> get m k \<noteq> None \<Longrightarrow> len (remove k m) < len m"
  using len_pos [of m k] by (auto simp: len_remove)

lemma remove_insert_get: "get (remove k (insert k v m)) l = get (remove k m) l"
  by (simp add: get_remove get_insert)

end

lemma hm_get_insert: "hm_get (hm_insert k v m) l = (if l = k then Some v else hm_get m l)"
  by (simp add: hm_get_def hm_insert_def AList.update_conv')

lemma hm_get_remove: "hm_get (hm_remove k m) l = (if l = k then None else hm_get m l)"
  by (simp add: hm_get_def hm_remove_def AList.delete_conv')

lemma hm_wf_insert: "hm_wf m \<Longrightarrow> hm_wf (hm_insert k v m)"
  by (simp add: hm_wf_def hm_insert_def AList.distinct_update)

lemma hm_wf_remove: "hm_wf m \<Longrightarrow> hm_wf (hm_remove k m)"
  by (simp add: hm_wf_def hm_remove_def AList.distinct_delete)

lemma length_update: "length (AList.update k v m) = (if k \<in> fst ` set m then length m else Suc (length m))"
  by (induction m) auto

lemma length_delete:
  "distinct (map fst m) \<Longrightarrow>
     length (AList.delete k m) = (if k \<in> fst ` set m then length m - 1 else length m)"
proof (induction m)
  case (Cons p m)
  then show ?case
    by (cases p; cases m) (auto simp: AList.delete_eq)
qed (simp add: AList.delete_eq)

lemma hm_get_None: "hm_get m k = None \<longleftrightarrow> k \<notin> fst ` set m"
  by (simp add: hm_get_def map_of_eq_None_iff)

lemma hm_get_Some: "hm_wf m \<Longrightarrow> hm_get m k = Some v \<longleftrightarrow> (k, v) \<in> set m"
  by (simp add: hm_get_def hm_wf_def)

interpretation hm: hash_map hm_wf hm_get hm_insert hm_remove hm_len "[]"
proof unfold_locales
  show "hm_wf m \<Longrightarrow> hm_len (hm_insert k v m) = (if hm_get m k = None then Suc (hm_len m) else hm_len m)" for m k v
    by (simp add: hm_len_def hm_insert_def hm_get_None length_update)
  show "hm_wf m \<Longrightarrow> hm_len (hm_remove k m) = (if hm_get m k = None then hm_len m else hm_len m - 1)" for m k
    by (simp add: hm_len_def hm_remove_def hm_get_None hm_wf_def length_delete)
  show "hm_get m k \<noteq> None \<Longrightarrow> 0 < hm_len m" for m k
    by (cases m) (simp_all add: hm_get_def hm_len_def)
qed (simp_all add: hm_wf_insert hm_wf_remove hm_get_insert hm_get_remove, simp_all add: hm_wf_def hm_get_def hm_len_def)

lemmas hm_simps [simp] = hm_get_insert hm_get_remove hm_wf_insert hm_wf_remove hm.get_empty hm.wf_empty hm.len_empty

text \<open>Retaining entries of a map.\<close>

definition hm_retain :: "('k \<Rightarrow> 'v \<Rightarrow> bool) \<Rightarrow> ('k, 'v) hashmap \<Rightarrow> ('k, 'v) hashmap" where
  "hm_retain p m = filter (\<lambda>(k, v). p k v) m"

lemma hm_wf_retain [simp]: "hm_wf m \<Longrightarrow> hm_wf (hm_retain p m)"
  by (simp add: hm_wf_def hm_retain_def distinct_map_filter)

lemma hm_get_retain:
  "hm_wf m \<Longrightarrow> hm_get (hm_retain p m) k = (case hm_get m k of None \<Rightarrow> None | Some v \<Rightarrow> if p k v then Some v else None)"
proof (induction m)
  case (Cons kv m)
  obtain k' v' where kv: "kv = (k', v')" by (cases kv)
  from Cons.prems kv have wf: "hm_wf m" and new: "k' \<notin> fst ` set m" by (simp_all add: hm_wf_def)
  from Cons.IH [OF wf] kv new show ?case
    by (auto simp: hm_get_def hm_retain_def map_of_eq_None_iff split: option.splits)
qed (simp add: hm_get_def hm_retain_def)

lemma hm_len_retain: "hm_len (hm_retain p m) \<le> hm_len m"
  by (simp add: hm_len_def hm_retain_def)

text \<open>Adding up a measure of the values of a map.\<close>

definition hm_sum :: "('v \<Rightarrow> nat) \<Rightarrow> ('k, 'v) hashmap \<Rightarrow> nat" where
  "hm_sum f m = (\<Sum>(k, v)\<leftarrow>m. f v)"

lemma hm_sum_Nil [simp]: "hm_sum f [] = 0"
  by (simp add: hm_sum_def)

lemma hm_sum_insert_new: "hm_get m k = None \<Longrightarrow> hm_sum f (hm_insert k v m) = hm_sum f m + f v"
  by (induction m) (auto simp: hm_sum_def hm_insert_def hm_get_def split: if_splits)

lemma hm_sum_insert_old: "hm_get m k = Some u \<Longrightarrow> hm_sum f (hm_insert k v m) + f u = hm_sum f m + f v"
  by (induction m) (auto simp: hm_sum_def hm_insert_def hm_get_def split: if_splits)

lemma hm_sum_remove: "hm_wf m \<Longrightarrow> hm_get m k = Some u \<Longrightarrow> hm_sum f (hm_remove k m) + f u = hm_sum f m"
proof (induction m)
  case (Cons p m)
  obtain l v where p: "p = (l, v)" by (cases p)
  from Cons.prems p have wf: "hm_wf m" and new: "l \<notin> fst ` set m" by (simp_all add: hm_wf_def)
  show ?case
  proof (cases "l = k")
    case True
    with new have "AList.delete k m = m" by (simp add: AList.delete_eq filter_id_conv) force
    with True p Cons.prems(2) show ?thesis by (simp add: hm_sum_def hm_remove_def hm_get_def)
  next
    case False
    with Cons.IH [OF wf] Cons.prems(2) p show ?thesis
      by (simp add: hm_sum_def hm_remove_def hm_get_def AList.delete_eq)
  qed
qed (simp add: hm_get_def)

lemma hm_sum_retain: "hm_sum f (hm_retain p m) + hm_sum f (hm_retain (\<lambda>k v. \<not> p k v) m) = hm_sum f m"
  by (induction m) (auto simp: hm_sum_def hm_retain_def)

lemma hm_sum_get_le: "hm_get m k = Some v \<Longrightarrow> f v \<le> hm_sum f m"
  by (induction m) (auto simp: hm_sum_def hm_get_def split: if_splits)

lemma hm_remove_None: "hm_get m k = None \<Longrightarrow> hm_remove k m = m"
  by (force simp: hm_get_None hm_remove_def AList.delete_eq filter_id_conv)

end
