(* ===== verification/Sequencer.thy ===== *)
theory Sequencer
  imports Users Hash_Map
begin

text \<open>
  Administrative requests and their sequencing (\<^verbatim>\<open>policy-local/src/admin.rs\<close>): the request type with its
  validation, and the sequencer that makes every numbered request of a client take effect once and
  answers a repeated request from its receipt. SHA-256, TOML and the receipt codec are parameters.
\<close>

section \<open>Requests\<close>

datatype rule_apply = Apply_New | Apply_Active

datatype control_request =
    UserCreate str u64 user_spec
  | UserUpdate str u64 str u64 user_spec
  | UserDisable str u64 str u64
  | UserDelete str u64 str u64
  | CredentialAdd str u64 str str
  | CredentialRevoke str u64 str
  | QuotaAdd str u64 str u64
  | QuotaNewPeriod str u64 str byte_limit
  | UsageGet str
  | SessionsList "str option"
  | SessionsDisconnect str u64 u64
  | RulesReplace str u64 str rule_apply str
  | MaintenanceBackup str

definition validate_client_id :: "str \<Rightarrow> (unit, admin_error) result" where
  "validate_client_id client =
     (if client = [] \<or> 64 < length client \<or>
         \<not> list_all (\<lambda>b. is_ascii_alphanumeric b \<or> b = 45 \<or> b = 95) client
      then Err Admin_Invalid else Ok ())"

fun request_sequence :: "control_request \<Rightarrow> (str \<times> u64) option" where
  "request_sequence (UserCreate client seq _) = Some (client, seq)"
| "request_sequence (UserUpdate client seq _ _ _) = Some (client, seq)"
| "request_sequence (UserDisable client seq _ _) = Some (client, seq)"
| "request_sequence (UserDelete client seq _ _) = Some (client, seq)"
| "request_sequence (CredentialAdd client seq _ _) = Some (client, seq)"
| "request_sequence (CredentialRevoke client seq _) = Some (client, seq)"
| "request_sequence (QuotaAdd client seq _ _) = Some (client, seq)"
| "request_sequence (QuotaNewPeriod client seq _ _) = Some (client, seq)"
| "request_sequence (SessionsDisconnect client seq _) = Some (client, seq)"
| "request_sequence (RulesReplace client seq _ _ _) = Some (client, seq)"
| "request_sequence (UsageGet _) = None"
| "request_sequence (SessionsList _) = None"
| "request_sequence (MaintenanceBackup _) = None"

definition discard :: "('a, 'e) result \<Rightarrow> (unit, 'e) result" where
  "discard r = try_bind r (\<lambda>_. Ok ())"

fun request_body_validate :: "control_request \<Rightarrow> (unit, admin_error) result" where
  "request_body_validate (UserCreate _ _ user) = user_spec_validate user"
| "request_body_validate (UserUpdate _ _ user_id _ user) =
     try_bind (user_spec_validate user) (\<lambda>_. discard (user_id_parse user_id))"
| "request_body_validate (UserDisable _ _ user_id _) = discard (user_id_parse user_id)"
| "request_body_validate (UserDelete _ _ user_id _) = discard (user_id_parse user_id)"
| "request_body_validate (QuotaNewPeriod _ _ user_id _) = discard (user_id_parse user_id)"
| "request_body_validate (UsageGet user_id) = discard (user_id_parse user_id)"
| "request_body_validate (SessionsList (Some user_id)) = discard (user_id_parse user_id)"
| "request_body_validate (CredentialAdd _ _ user_id digest) =
     try_bind (user_id_parse user_id) (\<lambda>_. discard (credential_digest_parse digest))"
| "request_body_validate (CredentialRevoke _ _ digest) = discard (credential_digest_parse digest)"
| "request_body_validate (QuotaAdd _ _ user_id bytes) =
     try_bind (user_id_parse user_id) (\<lambda>_. if bytes = 0 then Err Admin_Invalid else Ok ())"
| "request_body_validate (RulesReplace _ _ profile _ rules) =
     (if profile = [] \<or> 64 < length profile \<or> rules = [] \<or> 65536 < length rules
      then Err Admin_Invalid else Ok ())"
| "request_body_validate (SessionsDisconnect _ _ session_id) =
     (if session_id = 0 then Err Admin_Invalid else Ok ())"
| "request_body_validate (MaintenanceBackup destination) =
     (if 4096 < length destination \<or> \<not> starts_with destination [47] then Err Admin_Invalid else Ok ())"
| "request_body_validate (SessionsList None) = Ok ()"

definition request_validate :: "control_request \<Rightarrow> (unit, admin_error) result" where
  "request_validate r = (case request_sequence r of
     Some (client, seq) \<Rightarrow>
       try_bind (validate_client_id client) (\<lambda>_.
         if seq = 0 then Err Admin_Sequence else request_body_validate r)
   | None \<Rightarrow> request_body_validate r)"

definition request_parse ::
  "(str \<Rightarrow> control_request option) \<Rightarrow> bytes \<Rightarrow> (control_request, admin_error) result" where
  "request_parse toml input =
     try_bind (ok_or (from_utf8 input) Admin_Invalid) (\<lambda>text.
     try_bind (ok_or (toml text) Admin_Invalid) (\<lambda>request.
     try_bind (request_validate request) (\<lambda>_. Ok request)))"

section \<open>The sequencer\<close>

record receipt =
  rc_seq :: u64
  rc_request_hash :: bytes
  rc_response :: bytes

record admin_sequencer =
  sq_max_clients :: nat
  sq_clients :: "(str, receipt) hashmap"

datatype admin_decision = Execute bytes | Replay bytes

definition sequencer_new :: "nat \<Rightarrow> (admin_sequencer, admin_error) result" where
  "sequencer_new max_clients =
     (if max_clients = 0 then Err Admin_Invalid
      else Ok \<lparr>sq_max_clients = max_clients, sq_clients = []\<rparr>)"

definition sequencer_check ::
  "(bytes \<Rightarrow> bytes) \<Rightarrow> admin_sequencer \<Rightarrow> str \<Rightarrow> u64 \<Rightarrow> bytes \<Rightarrow> (admin_decision, admin_error) result" where
  "sequencer_check sha256 s client seq request =
     try_bind (validate_client_id client) (\<lambda>_. let request_hash = sha256 request in
       case hm_get (sq_clients s) client of
         None \<Rightarrow>
           if sq_max_clients s \<le> hm_len (sq_clients s) then Err Admin_ClientLimit
           else if seq = 1 then Ok (Execute request_hash)
           else Err Admin_Sequence
       | Some r \<Rightarrow>
           if seq = rc_seq r \<and> request_hash = rc_request_hash r then Ok (Replay (rc_response r))
           else if seq = rc_seq r + 1 then Ok (Execute request_hash)
           else Err Admin_Sequence)"

definition prepare_commit ::
  "(receipt \<Rightarrow> bytes option) \<Rightarrow> admin_sequencer \<Rightarrow> str \<Rightarrow> u64 \<Rightarrow> bytes \<Rightarrow> bytes \<Rightarrow> (bytes, admin_error) result" where
  "prepare_commit to_allocvec s client seq request_hash response =
     try_bind (validate_client_id client) (\<lambda>_.
     try_bind
       (case hm_get (sq_clients s) client of
          None \<Rightarrow>
            if sq_max_clients s \<le> hm_len (sq_clients s) then Err Admin_ClientLimit
            else if seq = 1 then Ok () else Err Admin_State
        | Some r \<Rightarrow> if seq = rc_seq r + 1 then Ok () else Err Admin_State) (\<lambda>_.
     ok_or (to_allocvec \<lparr>rc_seq = seq, rc_request_hash = request_hash, rc_response = response\<rparr>)
       Admin_Encode))"

definition apply_commit ::
  "(receipt \<Rightarrow> bytes option) \<Rightarrow> (bytes \<Rightarrow> receipt option) \<Rightarrow> admin_sequencer \<Rightarrow> str \<Rightarrow> bytes \<Rightarrow>
     (unit, admin_error) result \<times> admin_sequencer" where
  "apply_commit to_allocvec from_bytes s client encoded = (case from_bytes encoded of
     None \<Rightarrow> (Err Admin_Encode, s)
   | Some r \<Rightarrow> (case prepare_commit to_allocvec s client (rc_seq r) (rc_request_hash r) (rc_response r) of
       Err e \<Rightarrow> (Err e, s)
     | Ok _ \<Rightarrow> (Ok (), s\<lparr>sq_clients := hm_insert client r (sq_clients s)\<rparr>)))"

definition sequencer_commit ::
  "(receipt \<Rightarrow> bytes option) \<Rightarrow> (bytes \<Rightarrow> receipt option) \<Rightarrow> admin_sequencer \<Rightarrow> str \<Rightarrow> u64 \<Rightarrow> bytes \<Rightarrow> bytes \<Rightarrow>
     (bytes, admin_error) result \<times> admin_sequencer" where
  "sequencer_commit to_allocvec from_bytes s client seq request_hash response =
     (case prepare_commit to_allocvec s client seq request_hash response of
        Err e \<Rightarrow> (Err e, s)
      | Ok encoded \<Rightarrow> (case apply_commit to_allocvec from_bytes s client encoded of
          (Err e, s') \<Rightarrow> (Err e, s') | (Ok u, s') \<Rightarrow> (Ok encoded, s')))"

definition sequencer_restore ::
  "(bytes \<Rightarrow> receipt option) \<Rightarrow> admin_sequencer \<Rightarrow> str \<Rightarrow> bytes \<Rightarrow> (unit, admin_error) result \<times> admin_sequencer" where
  "sequencer_restore from_bytes s client encoded =
     (case validate_client_id client of
        Err e \<Rightarrow> (Err e, s)
      | Ok _ \<Rightarrow>
          if \<not> hm_contains (sq_clients s) client \<and> sq_max_clients s \<le> hm_len (sq_clients s)
          then (Err Admin_ClientLimit, s)
          else case from_bytes encoded of
            None \<Rightarrow> (Err Admin_Encode, s)
          | Some r \<Rightarrow> (Ok (), s\<lparr>sq_clients := hm_insert client r (sq_clients s)\<rparr>))"

section \<open>Invariant\<close>

text \<open>The table never grows beyond the configured number of clients, and every key is a valid
  client identifier.\<close>

definition sequencer_inv :: "admin_sequencer \<Rightarrow> bool" where
  "sequencer_inv s \<longleftrightarrow> hm_wf (sq_clients s) \<and> hm_len (sq_clients s) \<le> sq_max_clients s \<and>
     (\<forall>c. hm_contains (sq_clients s) c \<longrightarrow> is_ok (validate_client_id c))"

lemma sequencer_insert_inv:
  assumes "sequencer_inv s" and "is_ok (validate_client_id c)"
    and "hm_get (sq_clients s) c \<noteq> None \<or> hm_len (sq_clients s) < sq_max_clients s"
  shows "sequencer_inv (s\<lparr>sq_clients := hm_insert c r (sq_clients s)\<rparr>)"
  using assms hm.len_insert_bounded [of "sq_clients s" "sq_max_clients s" c r]
  by (auto simp: sequencer_inv_def hm_contains_def)

lemma prepare_commit_Ok:
  assumes "prepare_commit to_allocvec s client seq h resp = Ok b"
  shows "is_ok (validate_client_id client)"
    "hm_get (sq_clients s) client = None \<Longrightarrow> hm_len (sq_clients s) < sq_max_clients s \<and> seq = 1"
    "hm_get (sq_clients s) client = Some r \<Longrightarrow> seq = rc_seq r + 1"
    "to_allocvec \<lparr>rc_seq = seq, rc_request_hash = h, rc_response = resp\<rparr> = Some b"
  using assms
  by (auto simp: prepare_commit_def try_bind_Ok_iff is_ok_iff split: if_splits option.splits)

lemma apply_commit_cases:
  obtains e where "apply_commit to_allocvec from_bytes s client encoded = (Err e, s)"
  | r b where "from_bytes encoded = Some r"
      and "prepare_commit to_allocvec s client (rc_seq r) (rc_request_hash r) (rc_response r) = Ok b"
      and "apply_commit to_allocvec from_bytes s client encoded =
             (Ok (), s\<lparr>sq_clients := hm_insert client r (sq_clients s)\<rparr>)"
proof (cases "from_bytes encoded")
  case None
  then show ?thesis by (intro that(1)) (simp add: apply_commit_def)
next
  case (Some r)
  show ?thesis
  proof (cases "prepare_commit to_allocvec s client (rc_seq r) (rc_request_hash r) (rc_response r)")
    case (Ok b)
    with Some show ?thesis by (intro that(2)) (simp_all add: apply_commit_def)
  next
    case (Err e)
    with Some show ?thesis by (intro that(1)) (simp add: apply_commit_def)
  qed
qed

lemma apply_commit_inv:
  assumes "sequencer_inv s"
  shows "sequencer_inv (snd (apply_commit to_allocvec from_bytes s client encoded))"
proof (cases rule: apply_commit_cases [of to_allocvec from_bytes s client encoded])
  case (1 e)
  with assms show ?thesis by simp
next
  case (2 r b)
  from prepare_commit_Ok(1,2) [OF 2(2)] have "sequencer_inv (s\<lparr>sq_clients := hm_insert client r (sq_clients s)\<rparr>)"
    by (intro sequencer_insert_inv [OF assms]) auto
  with 2(3) show ?thesis by simp
qed

lemma sequencer_commit_inv:
  "sequencer_inv s \<Longrightarrow> sequencer_inv (snd (sequencer_commit to_allocvec from_bytes s client seq h resp))"
proof (cases "prepare_commit to_allocvec s client seq h resp")
  case (Ok b)
  assume "sequencer_inv s"
  then have "sequencer_inv (snd (apply_commit to_allocvec from_bytes s client b))" by (rule apply_commit_inv)
  with Ok show ?thesis
    by (cases "apply_commit to_allocvec from_bytes s client b"; cases "fst (apply_commit to_allocvec from_bytes s client b)")
      (auto simp: sequencer_commit_def)
qed (simp add: sequencer_commit_def)

lemma sequencer_restore_inv:
  assumes "sequencer_inv s"
  shows "sequencer_inv (snd (sequencer_restore from_bytes s client encoded))"
proof -
  have "sequencer_inv (s\<lparr>sq_clients := hm_insert client r (sq_clients s)\<rparr>)"
    if "is_ok (validate_client_id client)" "hm_contains (sq_clients s) client \<or> hm_len (sq_clients s) < sq_max_clients s" for r
    using that by (intro sequencer_insert_inv [OF assms]) (auto simp: hm_contains_def)
  with assms show ?thesis
    by (cases "validate_client_id client") (auto simp: sequencer_restore_def split: option.splits)
qed

section \<open>The contract of a sequenced log\<close>

lemma upt_Suc_map: "[0..<Suc n] = 0 # map Suc [0..<n]"
  by (subst upt_conv_Cons) (simp_all only: map_Suc_upt zero_less_Suc One_nat_def)

locale sequenced_log =
  fixes latest :: "'s \<Rightarrow> 'c \<Rightarrow> u64" and step :: "'s \<Rightarrow> 'op \<Rightarrow> 's" and accepts :: "'s \<Rightarrow> 'op \<Rightarrow> bool"
    and client :: "'op \<Rightarrow> 'c" and number :: "'op \<Rightarrow> u64"
  assumes accepted_number: "accepts s a \<Longrightarrow> number a = latest s (client a) + 1"
    and accepted_latest: "accepts s a \<Longrightarrow> latest (step s a) c = (if c = client a then number a else latest s c)"
    and refused_latest: "\<not> accepts s a \<Longrightarrow> latest (step s a) c = latest s c"
begin

lemma accepted_numbers:
  "map number (filter (\<lambda>a. client a = c) (run_accepted step accepts s as)) =
     map (\<lambda>i. latest s c + of_nat (Suc i)) [0..<length (filter (\<lambda>a. client a = c) (run_accepted step accepts s as))]"
proof (induction as arbitrary: s)
  case (Cons a as)
  note IH = Cons.IH [of "step s a"]
  show ?case
  proof (cases "accepts s a \<and> client a = c")
    case True
    from True have "latest (step s a) c = latest s c + 1" "number a = latest s c + 1"
      by (auto simp: accepted_latest accepted_number)
    with True IH show ?thesis by (simp add: upt_Suc_map comp_def add.assoc add.commute del: upt_Suc)
  next
    case False
    then have "latest (step s a) c = latest s c"
      by (cases "accepts s a") (auto simp: accepted_latest refused_latest)
    with False IH show ?thesis by auto
  qed
qed simp

end

text \<open>Calls of \<open>commit\<close> as operations: client, sequence number, request hash, response.\<close>

type_synonym commit_call = "str \<times> u64 \<times> bytes \<times> bytes"

definition sequencer_latest :: "admin_sequencer \<Rightarrow> str \<Rightarrow> u64" where
  "sequencer_latest s c = (case hm_get (sq_clients s) c of None \<Rightarrow> 0 | Some r \<Rightarrow> rc_seq r)"

definition commit_step ::
  "(receipt \<Rightarrow> bytes option) \<Rightarrow> (bytes \<Rightarrow> receipt option) \<Rightarrow> admin_sequencer \<Rightarrow> commit_call \<Rightarrow> admin_sequencer" where
  "commit_step enc dec s = (\<lambda>(c, seq, h, resp). snd (sequencer_commit enc dec s c seq h resp))"

definition commit_accepts ::
  "(receipt \<Rightarrow> bytes option) \<Rightarrow> (bytes \<Rightarrow> receipt option) \<Rightarrow> admin_sequencer \<Rightarrow> commit_call \<Rightarrow> bool" where
  "commit_accepts enc dec s = (\<lambda>(c, seq, h, resp). is_ok (fst (sequencer_commit enc dec s c seq h resp)))"

definition commit_client :: "commit_call \<Rightarrow> str" where
  "commit_client = (\<lambda>(c, seq, h, resp). c)"

definition commit_number :: "commit_call \<Rightarrow> u64" where
  "commit_number = (\<lambda>(c, seq, h, resp). seq)"

lemma prepare_commit_number:
  "prepare_commit enc s c seq h resp = Ok b \<Longrightarrow> seq = sequencer_latest s c + 1"
  by (cases "hm_get (sq_clients s) c")
    (auto simp: sequencer_latest_def dest: prepare_commit_Ok)

lemma sequencer_commit_cases:
  obtains e where "sequencer_commit enc dec s c seq h resp = (Err e, s)"
  | b r where "sequencer_commit enc dec s c seq h resp =
        (Ok b, s\<lparr>sq_clients := hm_insert c r (sq_clients s)\<rparr>)"
      and "prepare_commit enc s c seq h resp = Ok b" and "dec b = Some r"
      and "seq = sequencer_latest s c + 1" and "rc_seq r = sequencer_latest s c + 1"
proof (cases "prepare_commit enc s c seq h resp")
  case (Err e)
  then show ?thesis by (intro that(1)) (simp add: sequencer_commit_def)
next
  case (Ok b)
  show ?thesis
  proof (cases rule: apply_commit_cases [of enc dec s c b])
    case (1 e)
    with Ok show ?thesis by (intro that(1)) (simp add: sequencer_commit_def)
  next
    case (2 r b')
    with Ok show ?thesis
      by (intro that(2) [of b r]) (simp_all add: sequencer_commit_def prepare_commit_number)
  qed
qed

lemma latest_insert:
  "sequencer_latest (s\<lparr>sq_clients := hm_insert c r (sq_clients s)\<rparr>) d =
     (if d = c then rc_seq r else sequencer_latest s d)"
  by (simp add: sequencer_latest_def)

interpretation seq: sequenced_log sequencer_latest "commit_step enc dec" "commit_accepts enc dec"
  commit_client commit_number
proof unfold_locales
  fix s :: admin_sequencer and a :: commit_call and c' :: str
  obtain c n h resp where a: "a = (c, n, h, resp)" by (metis prod_cases4)
  show "commit_accepts enc dec s a \<Longrightarrow> commit_number a = sequencer_latest s (commit_client a) + 1"
    "commit_accepts enc dec s a \<Longrightarrow> sequencer_latest (commit_step enc dec s a) c' =
       (if c' = commit_client a then commit_number a else sequencer_latest s c')"
    "\<not> commit_accepts enc dec s a \<Longrightarrow> sequencer_latest (commit_step enc dec s a) c' = sequencer_latest s c'"
    by (cases rule: sequencer_commit_cases [of enc dec s c n h resp];
        simp add: a commit_accepts_def commit_step_def commit_number_def commit_client_def latest_insert)+
qed

section \<open>Properties\<close>

text \<open>C9. Exactly once, in order: whatever commits are attempted on a fresh sequencer,
  by whatever clients and with whatever codec, the sequence numbers accepted for one client are
  1, 2, 3 and so on without gap or repetition (modulo the 64-bit range).\<close>

theorem commits_numbered_consecutively:
  assumes "sequencer_new max_clients = Ok s"
  shows "map commit_number (filter (\<lambda>a. commit_client a = c)
           (run_accepted (commit_step enc dec) (commit_accepts enc dec) s calls)) =
         map (\<lambda>i. of_nat (Suc i)) [0..<length (filter (\<lambda>a. commit_client a = c)
           (run_accepted (commit_step enc dec) (commit_accepts enc dec) s calls))]"
proof -
  from assms have "sequencer_latest s c = 0"
    by (auto simp: sequencer_new_def sequencer_latest_def split: if_splits)
  with seq.accepted_numbers [of c enc dec s calls] show ?thesis by simp
qed

definition example_enc :: "receipt \<Rightarrow> bytes option" where
  "example_enc r = Some (be_bytes16 (unat (rc_seq r)) @ [of_nat (length (rc_request_hash r))] @ rc_request_hash r @ rc_response r)"

definition example_dec :: "bytes \<Rightarrow> receipt option" where
  "example_dec b = (case b of a1 # a2 # n # rest \<Rightarrow>
       Some \<lparr>rc_seq = of_nat (be_value [a1, a2]), rc_request_hash = take (unat n) rest, rc_response = drop (unat n) rest\<rparr>
     | _ \<Rightarrow> None)"

theorem commits_numbered_consecutively_witness:
  "sequencer_new 2 = Ok \<lparr>sq_max_clients = 2, sq_clients = []\<rparr> \<and>
   map commit_number (filter (\<lambda>a. commit_client a = [97])
     (run_accepted (commit_step example_enc example_dec) (commit_accepts example_enc example_dec)
        \<lparr>sq_max_clients = 2, sq_clients = []\<rparr>
        [([97], 1, [5], [6]), ([97], 1, [5], [6]), ([98], 1, [7], [8]), ([97], 3, [5], []), ([97], 2, [9], [])])) =
   [1, 2]"
proof -
  let ?s = "\<lparr>sq_max_clients = 2, sq_clients = []\<rparr>"
  let ?calls = "[([97], 1, [5], [6]), ([97], 1, [5], [6]), ([98], 1, [7], [8]), ([97], 3, [5], []), ([97], 2, [9], [])] :: commit_call list"
  let ?f = "filter (\<lambda>a. commit_client a = [97])
     (run_accepted (commit_step example_enc example_dec) (commit_accepts example_enc example_dec) ?s ?calls)"
  have new: "sequencer_new 2 = Ok ?s" by (simp add: sequencer_new_def)
  have len: "length ?f = 2" by code_simp
  have "map commit_number ?f = map (\<lambda>i. of_nat (Suc i)) [0..<length ?f]"
    by (rule commits_numbered_consecutively [OF new])
  also have "\<dots> = [1, 2]" unfolding len by (simp add: upt_rec)
  finally show ?thesis using new by blast
qed

text \<open>C12. What \<open>check\<close> allows, \<open>commit\<close> accepts, and the request is not executed
  again: after the commit the same request is answered with the recorded response, other clients
  are unaffected, and every other request with that number is refused.\<close>

theorem committed_request_is_replayed:
  assumes "codec_ok to_allocvec from_bytes"
    and "sequencer_check sha256 s client seq request = Ok (Execute request_hash)"
    and "to_allocvec \<lparr>rc_seq = seq, rc_request_hash = request_hash, rc_response = response\<rparr> = Some encoded"
  shows "\<exists>s'. sequencer_commit to_allocvec from_bytes s client seq request_hash response = (Ok encoded, s') \<and>
    sequencer_check sha256 s' client seq request = Ok (Replay response) \<and>
    (\<forall>other. sha256 other \<noteq> sha256 request \<longrightarrow> sequencer_check sha256 s' client seq other = Err Admin_Sequence) \<and>
    (\<forall>c. c \<noteq> client \<longrightarrow> hm_get (sq_clients s') c = hm_get (sq_clients s) c)"
proof -
  let ?r = "\<lparr>rc_seq = seq, rc_request_hash = request_hash, rc_response = response\<rparr>"
  let ?s' = "s\<lparr>sq_clients := hm_insert client ?r (sq_clients s)\<rparr>"
  from assms(2) have valid: "validate_client_id client = Ok ()" and h: "request_hash = sha256 request"
    by (auto simp: sequencer_check_def try_bind_Ok_iff Let_def split: option.splits if_splits)
  from assms(2,3) have prep: "prepare_commit to_allocvec s client seq request_hash response = Ok encoded"
    by (auto simp: sequencer_check_def prepare_commit_def valid Let_def split: option.splits if_splits)
  moreover from assms(1,3) have "from_bytes encoded = Some ?r" by (auto simp: codec_ok_def)
  ultimately have "sequencer_commit to_allocvec from_bytes s client seq request_hash response = (Ok encoded, ?s')"
    by (simp add: sequencer_commit_def apply_commit_def)
  moreover have "sequencer_check sha256 ?s' client seq request = Ok (Replay response)"
    by (simp add: sequencer_check_def valid h)
  moreover have "sequencer_check sha256 ?s' client seq other = Err Admin_Sequence"
    if "sha256 other \<noteq> sha256 request" for other
    using that by (simp add: sequencer_check_def valid h)
  ultimately show ?thesis by auto
qed

theorem committed_request_is_replayed_witness:
  "\<exists>enc dec s'. codec_ok enc dec \<and>
     sequencer_commit enc dec \<lparr>sq_max_clients = 1, sq_clients = []\<rparr> [97] 1 [3] [9] = (Ok [1], s') \<and>
     sequencer_check (\<lambda>b. [of_nat (length b)]) s' [97] 1 [1, 2, 3] = Ok (Replay [9])"
proof -
  let ?r = "\<lparr>rc_seq = 1, rc_request_hash = [3], rc_response = [9]\<rparr>"
  let ?enc = "\<lambda>r. if r = ?r then Some [1 :: u8] else None"
  let ?dec = "\<lambda>b. if b = [1 :: u8] then Some ?r else None"
  have codec: "codec_ok ?enc ?dec" by (simp add: codec_ok_def)
  have "sequencer_check (\<lambda>b. [of_nat (length b)]) \<lparr>sq_max_clients = 1, sq_clients = []\<rparr> [97] 1 [1, 2, 3]
      = Ok (Execute [3])" by code_simp
  from committed_request_is_replayed [OF codec this, of "[9]" "[1]"] codec show ?thesis by auto
qed

datatype sequencer_op = Commit_Call str u64 bytes bytes | Restore_Call str bytes

fun sequencer_step ::
  "(receipt \<Rightarrow> bytes option) \<Rightarrow> (bytes \<Rightarrow> receipt option) \<Rightarrow> admin_sequencer \<Rightarrow> sequencer_op \<Rightarrow> admin_sequencer" where
  "sequencer_step enc dec s (Commit_Call c n h resp) = snd (sequencer_commit enc dec s c n h resp)"
| "sequencer_step enc dec s (Restore_Call c b) = snd (sequencer_restore dec s c b)"

lemma sequencer_step_inv:
  "sequencer_inv s \<Longrightarrow> sequencer_inv (sequencer_step enc dec s a) \<and>
     sq_max_clients (sequencer_step enc dec s a) = sq_max_clients s"
proof (cases a)
  case (Commit_Call c n h resp)
  assume "sequencer_inv s"
  then have "sequencer_inv (snd (sequencer_commit enc dec s c n h resp))" by (rule sequencer_commit_inv)
  with Commit_Call show ?thesis
    by (cases rule: sequencer_commit_cases [of enc dec s c n h resp]) auto
next
  case (Restore_Call c b)
  assume "sequencer_inv s"
  then have "sequencer_inv (snd (sequencer_restore dec s c b))" by (rule sequencer_restore_inv)
  with Restore_Call show ?thesis
    by (cases "validate_client_id c") (auto simp: sequencer_restore_def split: option.splits)
qed

lemma sequencer_run_inv:
  "sequencer_inv s \<Longrightarrow> sequencer_inv (foldl (sequencer_step enc dec) s ops) \<and>
     sq_max_clients (foldl (sequencer_step enc dec) s ops) = sq_max_clients s"
  by (induction ops arbitrary: s) (auto simp: sequencer_step_inv)

text \<open>The table of administrative clients stays within the configured limit: under
  every sequence of commits and restores it has at most \<open>max_clients\<close> entries, one per client.\<close>

theorem sequencer_bounded:
  assumes "sequencer_new max_clients = Ok s"
  shows "hm_len (sq_clients (foldl (sequencer_step enc dec) s ops)) \<le> max_clients \<and>
    hm_wf (sq_clients (foldl (sequencer_step enc dec) s ops))"
proof -
  from assms have "sequencer_inv s" "sq_max_clients s = max_clients"
    by (auto simp: sequencer_new_def sequencer_inv_def hm_contains_def split: if_splits)
  with sequencer_run_inv [of s enc dec ops] show ?thesis by (auto simp: sequencer_inv_def)
qed

theorem sequencer_bounded_witness:
  "hm_len (sq_clients (foldl (sequencer_step example_enc example_dec) \<lparr>sq_max_clients = 1, sq_clients = []\<rparr>
     [Commit_Call [97] 1 [5] [6], Commit_Call [98] 1 [5] [6], Restore_Call [99] [0, 1, 0]])) \<le> 1"
  by (rule sequencer_bounded [THEN conjunct1]) (simp add: sequencer_new_def)

end
