(* ===== verification/Abi.thy ===== *)
theory Abi
  imports Prelude
begin

text \<open>
  The constants and the flow metadata of the host interface that the modules exchange with the host.
  The interface itself is not part of the repository; its constants are symbolic here and assumed
  distinct.
\<close>

datatype status =
    STATUS_OK | STATUS_PENDING | STATUS_INVALID | STATUS_DENIED | STATUS_UNSUPPORTED | STATUS_IO
  | STATUS_RESOURCE | STATUS_INTERNAL | STATUS_OTHER u32

datatype flow_kind = FLOW_TCP | FLOW_UDP | FLOW_OTHER u32

datatype address_type = ADDRESS_IPV4 | ADDRESS_IPV6 | ADDRESS_DOMAIN | ADDRESS_OTHER u32

record flow_metadata =
  fm_kind :: flow_kind
  fm_address_type :: address_type
  fm_address :: bytes
  fm_port :: u16

end
