(* ===== verification/Net_Addr.thy ===== *)
theory Net_Addr
  imports Rust_Text
begin

text \<open>
  \<open>std::net::IpAddr\<close> and its text syntax. Addresses are words of 32 and 128 bits (\<open>u32::from\<close>
  and \<open>u128::from\<close> are then the identity). The parser follows the standard library: decimal groups
  without leading zeros, hexadecimal groups of at most four digits, one \<open>::\<close>, an embedded IPv4
  tail, and the whole input consumed. Each reader returns the value and the remaining input, and a
  failing reader consumes nothing.
\<close>

datatype ip_addr = V4 u32 | V6 u128

section \<open>Readers\<close>

definition char_digit :: "nat \<Rightarrow> u8 \<Rightarrow> nat option" where
  "char_digit radix b =
     (let d = (if is_ascii_digit b then Some (unat b - 48)
               else if is_ascii_lower b then Some (unat b - 87)
               else if is_ascii_upper b then Some (unat b - 55)
               else None)
      in case d of Some v \<Rightarrow> if v < radix then Some v else None | None \<Rightarrow> None)"

fun read_digits :: "nat \<Rightarrow> nat \<Rightarrow> u32 \<Rightarrow> nat \<Rightarrow> str \<Rightarrow> (u32 \<times> nat \<times> str) option" where
  "read_digits radix max_digits acc count [] = Some (acc, count, [])"
| "read_digits radix max_digits acc count (b # bs) = (case char_digit radix b of
     None \<Rightarrow> Some (acc, count, b # bs)
   | Some d \<Rightarrow>
       if max_digits < Suc count then None
       else read_digits radix max_digits (acc * of_nat radix + of_nat d) (Suc count) bs)"

definition read_number :: "nat \<Rightarrow> nat \<Rightarrow> bool \<Rightarrow> u32 \<Rightarrow> str \<Rightarrow> (u32 \<times> str) option" where
  "read_number radix max_digits allow_zero_prefix max_value s =
     (case read_digits radix max_digits 0 0 s of
        None \<Rightarrow> None
      | Some (v, count, rest) \<Rightarrow>
          if count = 0 then None
          else if \<not> allow_zero_prefix \<and> starts_with s [48] \<and> 1 < count then None
          else if v \<le> max_value then Some (v, rest)
          else None)"

definition read_given_char :: "u8 \<Rightarrow> str \<Rightarrow> str option" where
  "read_given_char c s = (case s of b # bs \<Rightarrow> if b = c then Some bs else None | [] \<Rightarrow> None)"

definition read_separator :: "u8 \<Rightarrow> nat \<Rightarrow> (str \<Rightarrow> ('a \<times> str) option) \<Rightarrow> str \<Rightarrow> ('a \<times> str) option" where
  "read_separator sep index inner s =
     (if 0 < index then Option.bind (read_given_char sep s) inner else inner s)"

fun read_octets :: "nat \<Rightarrow> nat \<Rightarrow> str \<Rightarrow> (u32 list \<times> str) option" where
  "read_octets index 0 s = Some ([], s)"
| "read_octets index (Suc n) s =
     (case read_separator 46 index (read_number 10 3 False 255) s of
        None \<Rightarrow> None
      | Some (v, rest) \<Rightarrow> (case read_octets (Suc index) n rest of
          None \<Rightarrow> None | Some (vs, rest') \<Rightarrow> Some (v # vs, rest')))"

definition read_ipv4 :: "str \<Rightarrow> (u32 \<times> str) option" where
  "read_ipv4 s = map_option (\<lambda>(vs, rest). (foldl (\<lambda>a v. a * 256 + v) 0 vs, rest)) (read_octets 0 4 s)"

text \<open>\<open>read_groups limit i s\<close> reads the groups from index \<open>i\<close> on: the groups, whether an embedded
  IPv4 address ended them, and the rest.\<close>

fun read_groups :: "nat \<Rightarrow> nat \<Rightarrow> str \<Rightarrow> u32 list \<times> bool \<times> str" where
  "read_groups 0 index s = ([], False, s)"
| "read_groups (Suc left) index s =
     (case (if 0 < left then read_separator 58 index read_ipv4 s else None) of
        Some (a, rest) \<Rightarrow> ([drop_bit 16 a, take_bit 16 a], True, rest)
      | None \<Rightarrow> (case read_separator 58 index (read_number 16 4 True 65535) s of
          None \<Rightarrow> ([], False, s)
        | Some (g, rest) \<Rightarrow>
            (let (gs, embedded, rest') = read_groups left (Suc index) rest in (g # gs, embedded, rest'))))"

definition ipv6_of_groups :: "u32 list \<Rightarrow> u128" where
  "ipv6_of_groups gs = foldl (\<lambda>a g. a * 65536 + ucast g) 0 gs"

definition read_ipv6 :: "str \<Rightarrow> (u128 \<times> str) option" where
  "read_ipv6 s = (let (head, head_ipv4, rest) = read_groups 8 0 s in
     if length head = 8 then Some (ipv6_of_groups head, rest)
     else if head_ipv4 then None
     else Option.bind (read_given_char 58 rest) (\<lambda>rest1.
          Option.bind (read_given_char 58 rest1) (\<lambda>rest2.
            let (tail, _, rest3) = read_groups (8 - (length head + 1)) 0 rest2
            in Some (ipv6_of_groups (head @ replicate (8 - length head - length tail) 0 @ tail), rest3))))"

definition read_ip :: "str \<Rightarrow> (ip_addr \<times> str) option" where
  "read_ip s = (case read_ipv4 s of
     Some (a, rest) \<Rightarrow> Some (V4 a, rest)
   | None \<Rightarrow> map_option (\<lambda>(a, rest). (V6 a, rest)) (read_ipv6 s))"

definition parse_ip :: "str \<Rightarrow> ip_addr option" where
  "parse_ip s = (case read_ip s of Some (a, []) \<Rightarrow> Some a | _ \<Rightarrow> None)"

section \<open>Addresses from octets\<close>

definition word_of_octets :: "bytes \<Rightarrow> 'n::len word" where
  "word_of_octets bs = foldl (\<lambda>a b. a * 256 + ucast b) 0 bs"

definition ip_from_octets :: "bytes \<Rightarrow> ip_addr option" where
  "ip_from_octets bs =
     (if length bs = 4 then Some (V4 (word_of_octets bs))
      else if length bs = 16 then Some (V6 (word_of_octets bs)) else None)"

section \<open>CIDR notation\<close>

text \<open>\<open>address/prefix\<close> with a decimal \<open>u8\<close> prefix length, before the length is checked.\<close>

definition parse_cidr :: "str \<Rightarrow> (ip_addr \<times> nat) option" where
  "parse_cidr cidr = (case split_once 47 cidr of
     None \<Rightarrow> None
   | Some (address, prefix) \<Rightarrow> (case (parse_ip address, parse_unsigned 255 prefix) of
       (Some a, Some p) \<Rightarrow> Some (a, p) | _ \<Rightarrow> None))"

definition prefix_mask :: "nat \<Rightarrow> 'n::len word" where
  "prefix_mask prefix = (if prefix = 0 then 0 else push_bit (LENGTH('n) - prefix) (- 1))"

lemma prefix_mask_bit:
  "prefix \<le> LENGTH('n) \<Longrightarrow> bit (prefix_mask prefix :: 'n::len word) i \<longleftrightarrow> LENGTH('n) - prefix \<le> i \<and> i < LENGTH('n)"
  by (auto simp: prefix_mask_def bit_simps)

text \<open>Equal under the mask means equal leading bits.\<close>

lemma prefix_mask_eq:
  fixes a b :: "'n::len word"
  assumes "prefix \<le> LENGTH('n)"
  shows "a AND prefix_mask prefix = b AND prefix_mask prefix \<longleftrightarrow>
     drop_bit (LENGTH('n) - prefix) a = drop_bit (LENGTH('n) - prefix) b"
proof
  assume eq: "a AND prefix_mask prefix = b AND prefix_mask prefix"
  show "drop_bit (LENGTH('n) - prefix) a = drop_bit (LENGTH('n) - prefix) b"
  proof (rule bit_word_eqI)
    fix i
    assume "i < LENGTH('n)"
    from eq have "bit (a AND prefix_mask prefix) (LENGTH('n) - prefix + i) =
        bit (b AND prefix_mask prefix) (LENGTH('n) - prefix + i)" by simp
    then show "bit (drop_bit (LENGTH('n) - prefix) a) i = bit (drop_bit (LENGTH('n) - prefix) b) i"
      using assms by (auto simp: bit_simps prefix_mask_bit dest: bit_imp_le_length)
  qed
next
  assume eq: "drop_bit (LENGTH('n) - prefix) a = drop_bit (LENGTH('n) - prefix) b"
  have "bit a i = bit b i" if "LENGTH('n) - prefix \<le> i" for i
  proof -
    from eq have "bit (drop_bit (LENGTH('n) - prefix) a) (i - (LENGTH('n) - prefix)) =
        bit (drop_bit (LENGTH('n) - prefix) b) (i - (LENGTH('n) - prefix))" by simp
    with that show ?thesis by (simp add: bit_simps)
  qed
  then show "a AND prefix_mask prefix = b AND prefix_mask prefix"
    using assms by (intro bit_word_eqI) (auto simp: bit_simps prefix_mask_bit)
qed

end
