(* ===== verification/Config.thy ===== *)
theory Config
  imports Sniff Net_Addr
begin

text \<open>
  The options of the policy module and their validation (\<^verbatim>\<open>policy-local/src/config.rs\<close>). TOML parsing and
  the process environment are parameters; paths are their bytes.
\<close>

datatype config_error = Config_Utf8 | Config_Toml | Config_Invalid | Config_Secret

datatype secret_source = Secret_Toml str | Secret_Env str
datatype credential_transport = Protected
datatype unknown_action = Unknown_Allow | Unknown_Deny
datatype rule_action = Allow | Deny
datatype direction = Upload | Download | Both
datatype observed_protocol = Proto_Tls | Proto_Http | Proto_Ssh | Proto_Quic | Proto_Unknown | Proto_Any
datatype global_rate = Global_Unlimited | Global_Limited u64 u64

record storage_options =
  so_path :: str
  so_cache_bytes :: nat
  so_max_database_bytes :: u64
  so_queue_capacity :: nat
  so_accounting_block_bytes :: u64
  so_batch_max_delay_ms :: u64

record rule_entry =
  re_action :: rule_action
  re_direction :: direction
  re_protocol :: observed_protocol
  re_unavailable :: rule_action
  re_cidr :: "str option"
  re_port :: "u16 option"
  re_domain_exact :: "str option"
  re_domain_suffix :: "str option"
  re_tls_sni :: "str option"
  re_http_host :: "str option"
  re_user_group :: "str option"

record rules =
  rl_terminal :: rule_action
  rl_entries :: "rule_entry list"

record options =
  op_server_id :: str
  op_credential_transport :: credential_transport
  op_max_cached_users :: nat
  op_max_admin_clients :: nat
  op_max_control_frame_bytes :: nat
  op_status_interval_ms :: u64
  op_control_grace_ms :: u64
  op_sniff_bytes :: nat
  op_sniff_timeout_ms :: u64
  op_on_unknown_protocol :: unknown_action
  op_checkpoint_interval_ms :: u64
  op_storage :: storage_options
  op_global_rate :: global_rate
  op_rules :: rules
  op_client :: "secret_source option"

definition env_valid_name :: "str \<Rightarrow> bool" where
  "env_valid_name name \<longleftrightarrow> name \<noteq> [] \<and> length name \<le> 128 \<and>
     list_all (\<lambda>b. is_ascii_alphanumeric b \<or> b = 95) name"

fun secret_resolve :: "(str \<Rightarrow> str option) \<Rightarrow> secret_source \<Rightarrow> (str, config_error) result" where
  "secret_resolve env (Secret_Toml v) = Ok v"
| "secret_resolve env (Secret_Env name) =
     (if env_valid_name name then ok_or (env name) Config_Secret else Err Config_Secret)"

definition config_valid_domain :: "str \<Rightarrow> bool" where
  "config_valid_domain d \<longleftrightarrow> d \<noteq> [] \<and> length d \<le> 253 \<and> is_ascii d \<and> list_all valid_label (split_on 46 d)"

definition valid_cidr :: "str \<Rightarrow> bool" where
  "valid_cidr cidr = (case parse_cidr cidr of
     None \<Rightarrow> False
   | Some (V4 _, prefix) \<Rightarrow> prefix \<le> 32
   | Some (V6 _, prefix) \<Rightarrow> prefix \<le> 128)"

definition is_some_and :: "'a option \<Rightarrow> ('a \<Rightarrow> bool) \<Rightarrow> bool" where
  "is_some_and m p = (case m of None \<Rightarrow> False | Some x \<Rightarrow> p x)"

lemma is_some_and_simps [simp]: "is_some_and None p = False" "is_some_and (Some x) p = p x"
  by (simp_all add: is_some_and_def)

definition entry_invalid :: "rule_entry \<Rightarrow> bool" where
  "entry_invalid e \<longleftrightarrow>
     re_port e = Some 0 \<or>
     is_some_and (re_cidr e) (\<lambda>c. \<not> valid_cidr c) \<or>
     is_some_and (re_domain_exact e) (\<lambda>d. \<not> config_valid_domain d) \<or>
     is_some_and (re_domain_suffix e) (\<lambda>d. \<not> config_valid_domain d) \<or>
     is_some_and (re_tls_sni e) (\<lambda>d. \<not> config_valid_domain d) \<or>
     is_some_and (re_http_host e) (\<lambda>d. \<not> config_valid_domain d) \<or>
     is_some_and (re_user_group e) (\<lambda>g. g = [] \<or> 64 < length g) \<or>
     re_tls_sni e \<noteq> None \<and> re_protocol e \<notin> {Proto_Tls, Proto_Any} \<or>
     re_http_host e \<noteq> None \<and> re_protocol e \<notin> {Proto_Http, Proto_Any} \<or>
     re_tls_sni e \<noteq> None \<and> re_http_host e \<noteq> None"

definition rules_validate :: "rules \<Rightarrow> (unit, config_error) result" where
  "rules_validate r = (if list_ex entry_invalid (rl_entries r) then Err Config_Invalid else Ok ())"

definition credential_text_ok :: "str \<Rightarrow> bool" where
  "credential_text_ok c \<longleftrightarrow> length c = 64 \<and> list_all (\<lambda>b. is_ascii_digit b \<or> 97 \<le> b \<and> b \<le> 102) c"

definition limits_inconsistent :: "options \<Rightarrow> bool" where
  "limits_inconsistent opts \<longleftrightarrow>
     op_max_cached_users opts = 0 \<or> op_max_admin_clients opts = 0 \<or> op_max_control_frame_bytes opts = 0 \<or>
     65536 < op_max_control_frame_bytes opts \<or> op_status_interval_ms opts = 0 \<or>
     op_control_grace_ms opts = 0 \<or> op_sniff_bytes opts = 0 \<or> 16384 < op_sniff_bytes opts \<or>
     op_sniff_timeout_ms opts = 0 \<or> op_checkpoint_interval_ms opts = 0 \<or>
     86400000 < op_checkpoint_interval_ms opts"

definition storage_inconsistent :: "storage_options \<Rightarrow> bool" where
  "storage_inconsistent so \<longleftrightarrow>
     so_cache_bytes so = 0 \<or> so_max_database_bytes so = 0 \<or> so_queue_capacity so = 0 \<or>
     so_accounting_block_bytes so = 0 \<or> so_batch_max_delay_ms so = 0"

fun global_rate_inconsistent :: "global_rate \<Rightarrow> bool" where
  "global_rate_inconsistent Global_Unlimited = False"
| "global_rate_inconsistent (Global_Limited rate burst) = (rate = 0 \<or> burst < 65507)"

definition options_validate :: "(str \<Rightarrow> str option) \<Rightarrow> options \<Rightarrow> (unit, config_error) result" where
  "options_validate env opts =
     (if op_server_id opts = [] \<or> 128 < length (op_server_id opts) then Err Config_Invalid
      else if limits_inconsistent opts then Err Config_Invalid
      else if storage_inconsistent (op_storage opts) then Err Config_Invalid
      else if global_rate_inconsistent (op_global_rate opts) then Err Config_Invalid
      else try_bind (rules_validate (op_rules opts)) (\<lambda>_. case op_client opts of
        None \<Rightarrow> Ok ()
      | Some source \<Rightarrow> try_bind (secret_resolve env source) (\<lambda>credential.
          if credential_text_ok credential then Ok () else Err Config_Secret)))"

definition options_parse ::
  "(str \<Rightarrow> options option) \<Rightarrow> (str \<Rightarrow> str option) \<Rightarrow> bytes \<Rightarrow> str \<Rightarrow> (options, config_error) result" where
  "options_parse toml env input base =
     try_bind (ok_or (from_utf8 input) Config_Utf8) (\<lambda>text.
     try_bind (ok_or (toml text) Config_Toml) (\<lambda>opts.
       let path = so_path (op_storage opts);
           opts' = (if \<not> is_absolute path then opts\<lparr>op_storage := (op_storage opts)\<lparr>so_path := path_join base path\<rparr>\<rparr> else opts)
       in try_bind (options_validate env opts') (\<lambda>_. Ok opts')))"

section \<open>Validated options\<close>

lemma options_validate_Ok:
  assumes "options_validate env opts = Ok u"
  shows "\<not> limits_inconsistent opts" "\<not> storage_inconsistent (op_storage opts)"
    "\<not> global_rate_inconsistent (op_global_rate opts)" "rules_validate (op_rules opts) = Ok ()"
  using assms by (simp_all add: options_validate_def try_bind_Ok_iff split: if_splits)

lemma options_parse_Ok:
  "options_parse toml env input base = Ok opts \<Longrightarrow> options_validate env opts = Ok ()"
  by (auto simp: options_parse_def try_bind_Ok_iff Let_def)

lemma options_parse_path:
  assumes "options_parse toml env input base = Ok opts" and "is_absolute base"
  shows "is_absolute (so_path (op_storage opts))"
proof -
  from assms(1) obtain parsed where "opts = (if \<not> is_absolute (so_path (op_storage parsed))
      then parsed\<lparr>op_storage := (op_storage parsed)\<lparr>so_path := path_join base (so_path (op_storage parsed))\<rparr>\<rparr>
      else parsed)"
    unfolding options_parse_def try_bind_Ok_iff Let_def by (elim exE conjE) (rule that, drule result.inject(1) [THEN iffD1], erule sym)
  with assms(2) show ?thesis by (simp add: path_join_absolute)
qed

end
