(* ===== verification/Rules.thy ===== *)
theory Rules
  imports Abi Config Users Hash_Map
begin

text \<open>
  Destination rules (\<^verbatim>\<open>policy-local/src/lib.rs\<close>, from \<open>destination_policy\<close> to \<open>cidr_matches\<close>). A flow is
  first judged by what its metadata shows; rules that need the observed protocol or host name are
  kept in a sniff policy and evaluated by \<open>observed_allowed\<close> once the first bytes were seen. The
  flow metadata is the SDK's; only the fields the rules read are modelled. TOML is a parameter.
\<close>

record sniff_policy =
  sp_entries :: "rule_entry list"
  sp_terminal :: rule_action
  sp_unknown :: unknown_action
  sp_max_bytes :: nat
  sp_timeout_ms :: u64

section \<open>Addresses\<close>

definition cidr_matches :: "str \<Rightarrow> ip_addr \<Rightarrow> bool" where
  "cidr_matches cidr address = (case parse_cidr cidr of
     None \<Rightarrow> False
   | Some (network, prefix) \<Rightarrow> (case (network, address) of
       (V4 n, V4 a) \<Rightarrow>
         if prefix \<le> 32
         then let mask = prefix_mask prefix in n AND mask = a AND mask
         else False
     | (V6 n, V6 a) \<Rightarrow>
         if prefix \<le> 128
         then let mask = prefix_mask prefix in n AND mask = a AND mask
         else False
     | _ \<Rightarrow> False))"

definition metadata_ip :: "flow_metadata \<Rightarrow> ip_addr option" where
  "metadata_ip md = (case fm_address_type md of
     ADDRESS_IPV4 \<Rightarrow> if length (fm_address md) = 4 then ip_from_octets (fm_address md) else None
   | ADDRESS_IPV6 \<Rightarrow> if length (fm_address md) = 16 then ip_from_octets (fm_address md) else None
   | _ \<Rightarrow> None)"

definition metadata_domain :: "flow_metadata \<Rightarrow> str option" where
  "metadata_domain md =
     (if fm_address_type md = ADDRESS_DOMAIN then from_utf8 (fm_address md) else None)"

definition suffix_matches :: "str \<Rightarrow> str \<Rightarrow> bool" where
  "suffix_matches suffix domain \<longleftrightarrow>
     domain = suffix \<or> is_some_and (strip_suffix suffix domain) (\<lambda>prefix. ends_with prefix [46])"

definition address_rule_matches :: "rule_entry \<Rightarrow> flow_metadata \<Rightarrow> bool" where
  "address_rule_matches e md =
     (if is_some_and (re_cidr e) (\<lambda>cidr. \<not> is_some_and (metadata_ip md) (cidr_matches cidr)) then False
      else if is_some_and (re_domain_exact e) (\<lambda>expected. metadata_domain md \<noteq> Some expected) then False
      else if is_some_and (re_domain_suffix e)
                (\<lambda>suffix. \<not> is_some_and (metadata_domain md) (suffix_matches suffix)) then False
      else True)"

section \<open>Observations\<close>

definition rule_requires_observation :: "rule_entry \<Rightarrow> bool" where
  "rule_requires_observation e \<longleftrightarrow>
     re_tls_sni e \<noteq> None \<or> re_http_host e \<noteq> None \<or> re_protocol e \<noteq> Proto_Any"

fun observed_protocol_matches :: "observed_protocol \<Rightarrow> observed \<Rightarrow> bool" where
  "observed_protocol_matches Proto_Any ob = True"
| "observed_protocol_matches Proto_Tls (Tls _) = True"
| "observed_protocol_matches Proto_Http (Http _) = True"
| "observed_protocol_matches Proto_Ssh Ssh = True"
| "observed_protocol_matches Proto_Quic Quic = True"
| "observed_protocol_matches Proto_Unknown Unknown = True"
| "observed_protocol_matches _ _ = False"

datatype name_check = Name_Ok | Name_Other | Name_Unavailable

definition sni_check :: "str option \<Rightarrow> observed \<Rightarrow> name_check" where
  "sni_check expected ob = (case expected of
     None \<Rightarrow> Name_Ok
   | Some want \<Rightarrow> (case ob of
       Tls (Some sni) \<Rightarrow> if eq_ignore_ascii_case sni want then Name_Ok else Name_Other
     | _ \<Rightarrow> Name_Unavailable))"

definition host_check :: "str option \<Rightarrow> observed \<Rightarrow> name_check" where
  "host_check expected ob = (case expected of
     None \<Rightarrow> Name_Ok
   | Some want \<Rightarrow> (case ob of
       Http (Some host) \<Rightarrow> if eq_ignore_ascii_case host want then Name_Ok else Name_Other
     | _ \<Rightarrow> Name_Unavailable))"

text \<open>One round of the loop: \<open>None\<close> continues with the next entry.\<close>

definition entry_verdict :: "observed \<Rightarrow> rule_entry \<Rightarrow> bool option" where
  "entry_verdict ob e =
     (if ob = Unknown \<and> re_protocol e \<noteq> Proto_Unknown then Some (re_unavailable e = Allow)
      else if \<not> observed_protocol_matches (re_protocol e) ob then None
      else case sni_check (re_tls_sni e) ob of
        Name_Other \<Rightarrow> None
      | Name_Unavailable \<Rightarrow> Some (re_unavailable e = Allow)
      | Name_Ok \<Rightarrow> (case host_check (re_http_host e) ob of
          Name_Other \<Rightarrow> None
        | Name_Unavailable \<Rightarrow> Some (re_unavailable e = Allow)
        | Name_Ok \<Rightarrow> Some (re_action e = Allow)))"

definition observed_allowed :: "sniff_policy \<Rightarrow> observed \<Rightarrow> bool" where
  "observed_allowed p ob = (case find_map (entry_verdict ob) (sp_entries p) of
     Some v \<Rightarrow> v
   | None \<Rightarrow> if ob = Unknown then sp_unknown p = Unknown_Allow else sp_terminal p = Allow)"

section \<open>The decision on metadata\<close>

definition static_match :: "user_record \<Rightarrow> flow_metadata \<Rightarrow> rule_entry \<Rightarrow> bool" where
  "static_match user md e \<longleftrightarrow> \<not> (re_direction e \<notin> {Upload, Both} \<or>
     is_some_and (re_user_group e) (\<lambda>g. g \<noteq> us_group (ur_spec user)) \<or>
     is_some_and (re_port e) (\<lambda>p. p \<noteq> fm_port md) \<or>
     \<not> address_rule_matches e md)"

fun decide_static :: "rule_action \<Rightarrow> (sniff_policy option, unit) result" where
  "decide_static Allow = Ok None"
| "decide_static Deny = Err ()"

fun destination_loop ::
  "user_record \<Rightarrow> flow_metadata \<Rightarrow> rule_entry list \<Rightarrow> rule_entry list \<Rightarrow> (rule_entry list, rule_action) result" where
  "destination_loop user md observed [] = Ok observed"
| "destination_loop user md observed (e # es) =
     (if \<not> static_match user md e then destination_loop user md observed es
      else if rule_requires_observation e then destination_loop user md (observed @ [e]) es
      else if observed = [] then Err (re_action e)
      else destination_loop user md (observed @ [e]) es)"

definition destination_policy ::
  "(str \<Rightarrow> rules option) \<Rightarrow> (str, str) hashmap \<Rightarrow> options \<Rightarrow> user_record \<Rightarrow> flow_metadata \<Rightarrow>
     (sniff_policy option, unit) result" where
  "destination_policy toml admin_rules opts user md =
     try_bind (case hm_get admin_rules (us_rule_profile (ur_spec user)) of
                 Some text \<Rightarrow> ok_or (toml text) () | None \<Rightarrow> Ok (op_rules opts)) (\<lambda>rules.
       case destination_loop user md [] (rl_entries rules) of
         Err action \<Rightarrow> decide_static action
       | Ok observed \<Rightarrow>
           if observed = [] then decide_static (rl_terminal rules)
           else Ok (Some \<lparr>sp_entries = observed, sp_terminal = rl_terminal rules,
                  sp_unknown = op_on_unknown_protocol opts, sp_max_bytes = op_sniff_bytes opts,
                  sp_timeout_ms = op_sniff_timeout_ms opts\<rparr>))"

section \<open>Access of a user\<close>

definition user_access_allowed_at :: "user_record \<Rightarrow> u64 \<Rightarrow> bool" where
  "user_access_allowed_at user now =
     (if us_status (ur_spec user) \<noteq> Enabled then False
      else let now = max now (ur_max_observed_utc user) in
        if (case us_expiration (ur_spec user) of AtUtc t \<Rightarrow> t \<le> now | Expiration_Unlimited \<Rightarrow> False) then False
        else weekly_allows (us_weekly_access (ur_spec user)) now)"

definition quota_used_up :: "user_record \<Rightarrow> bool" where
  "quota_used_up user = (case us_quota (ur_spec user) of
     Bytes_Limited bytes \<Rightarrow> bytes \<le> ur_durable_charged_bytes user | Bytes_Unlimited \<Rightarrow> False)"

definition user_available_at :: "user_record \<Rightarrow> u64 \<Rightarrow> bool" where
  "user_available_at user now \<longleftrightarrow> user_access_allowed_at user now \<and> \<not> quota_used_up user"

section \<open>Lemmas\<close>

lemma static_entry_verdict:
  "\<not> rule_requires_observation e \<Longrightarrow> ob \<noteq> Unknown \<Longrightarrow> entry_verdict ob e = Some (re_action e = Allow)"
  by (auto simp: rule_requires_observation_def entry_verdict_def sni_check_def host_check_def)

lemma find_map_append: "find_map f (xs @ ys) = (case find_map f xs of Some y \<Rightarrow> Some y | None \<Rightarrow> find_map f ys)"
  by (induction xs) (auto split: option.splits)

lemma destination_loop_nonempty:
  "observed \<noteq> [] \<Longrightarrow> destination_loop user md observed es = Ok (observed @ filter (static_match user md) es)"
  by (induction es arbitrary: observed) auto

lemma destination_loop_result:
  "destination_loop user md [] es = (case filter (static_match user md) es of
     e # _ \<Rightarrow> if rule_requires_observation e then Ok (filter (static_match user md) es) else Err (re_action e)
   | [] \<Rightarrow> Ok [])"
  by (induction es) (auto simp: destination_loop_nonempty split: list.splits)

lemma eq_ignore_lower: "to_ascii_lowercase s = s \<Longrightarrow> to_ascii_lowercase t = t \<Longrightarrow> eq_ignore_ascii_case s t \<longleftrightarrow> s = t"
  by (simp add: eq_ignore_ascii_case_def)

lemma cidr_matches_V4:
  "parse_cidr cidr = Some (V4 n, p) \<Longrightarrow>
     cidr_matches cidr (V4 a) \<longleftrightarrow> p \<le> 32 \<and> drop_bit (32 - p) n = drop_bit (32 - p) a"
  using prefix_mask_eq [of p n a] by (simp add: cidr_matches_def Let_def)

lemma cidr_matches_V6:
  "parse_cidr cidr = Some (V6 n, p) \<Longrightarrow>
     cidr_matches cidr (V6 a) \<longleftrightarrow> p \<le> 128 \<and> drop_bit (128 - p) n = drop_bit (128 - p) a"
  using prefix_mask_eq [of p n a] by (simp add: cidr_matches_def Let_def)

section \<open>Properties\<close>

text \<open>A CIDR rule matches an address exactly when the rule parses, both are of the same
  family, the prefix length fits the family, and the leading \<open>prefix\<close> bits are equal.\<close>

theorem cidr_matches_iff:
  "cidr_matches cidr address \<longleftrightarrow>
     (\<exists>n a p. parse_cidr cidr = Some (V4 n, p) \<and> address = V4 a \<and> p \<le> 32 \<and>
        drop_bit (32 - p) n = drop_bit (32 - p) a) \<or>
     (\<exists>n a p. parse_cidr cidr = Some (V6 n, p) \<and> address = V6 a \<and> p \<le> 128 \<and>
        drop_bit (128 - p) n = drop_bit (128 - p) a)"
proof (cases "parse_cidr cidr")
  case None
  then show ?thesis by (simp add: cidr_matches_def)
next
  case (Some np)
  obtain net p where np: "np = (net, p)" by force
  show ?thesis
  proof (cases net)
    case (V4 n)
    with Some np cidr_matches_V4 [of cidr n p] show ?thesis
      by (cases address) (auto simp: cidr_matches_def)
  next
    case (V6 n)
    with Some np cidr_matches_V6 [of cidr n p] show ?thesis
      by (cases address) (auto simp: cidr_matches_def)
  qed
qed

text \<open>A domain suffix rule matches the domain itself and its subdomains, on label
  boundaries only.\<close>

theorem suffix_matches_iff: "suffix_matches suffix domain \<longleftrightarrow> domain = suffix \<or> (\<exists>sub. domain = sub @ [46] @ suffix)"
proof (cases "strip_suffix suffix domain")
  case None
  then have "\<not> (\<exists>sub. domain = sub @ suffix)" by (auto simp: strip_suffix_def ends_with_iff split: if_splits)
  then have "\<not> (\<exists>sub. domain = sub @ [46] @ suffix)" by (metis append.assoc)
  with None show ?thesis by (simp add: suffix_matches_def)
next
  case (Some prefix)
  then have "domain = prefix @ suffix" by (simp add: strip_suffix_Some)
  with Some show ?thesis by (auto simp: suffix_matches_def ends_with_iff)
qed

text \<open>The verdict on a flow once its protocol has been observed: the decision on the metadata,
  or the evaluation of the sniff policy it left.\<close>

fun flow_verdict :: "(sniff_policy option, unit) result \<Rightarrow> observed \<Rightarrow> bool" where
  "flow_verdict (Err u) ob = False"
| "flow_verdict (Ok None) ob = True"
| "flow_verdict (Ok (Some p)) ob = observed_allowed p ob"

lemma flow_verdict_static: "flow_verdict (decide_static a) ob \<longleftrightarrow> a = Allow"
  by (cases a) simp_all

text \<open>C18. Splitting the evaluation into a part before and a part after sniffing does not
  change the outcome: for every recognised protocol the verdict is that of the first rule, in
  configuration order, that applies to the user and destination and decides on the observation, and
  the terminal action when no rule does.\<close>

theorem destination_policy_first_match:
  assumes "ob \<noteq> Unknown"
    and "(case hm_get admin_rules (us_rule_profile (ur_spec user)) of
            Some text \<Rightarrow> toml text | None \<Rightarrow> Some (op_rules opts)) = Some rules"
  shows "flow_verdict (destination_policy toml admin_rules opts user md) ob =
    (case find_map (entry_verdict ob) (filter (static_match user md) (rl_entries rules)) of
       Some v \<Rightarrow> v | None \<Rightarrow> rl_terminal rules = Allow)"
proof -
  let ?es = "filter (static_match user md) (rl_entries rules)"
  from assms(2) have dest: "destination_policy toml admin_rules opts user md =
      (case destination_loop user md [] (rl_entries rules) of
         Err action \<Rightarrow> decide_static action
       | Ok observed \<Rightarrow>
           if observed = [] then decide_static (rl_terminal rules)
           else Ok (Some \<lparr>sp_entries = observed, sp_terminal = rl_terminal rules,
                  sp_unknown = op_on_unknown_protocol opts, sp_max_bytes = op_sniff_bytes opts,
                  sp_timeout_ms = op_sniff_timeout_ms opts\<rparr>))"
    by (cases "hm_get admin_rules (us_rule_profile (ur_spec user))") (simp_all add: destination_policy_def)
  show ?thesis
  proof (cases ?es)
    case Nil
    then show ?thesis by (simp add: dest destination_loop_result flow_verdict_static)
  next
    case (Cons e es)
    show ?thesis
    proof (cases "rule_requires_observation e")
      case True
      with Cons assms(1) show ?thesis by (simp add: dest destination_loop_result observed_allowed_def split: option.split)
    next
      case False
      with Cons assms(1) show ?thesis
        by (simp add: dest destination_loop_result static_entry_verdict flow_verdict_static)
    qed
  qed
qed

text \<open>A user whose expiration has been reached once stays locked out however the system
  clock is set back afterwards: the largest time ever observed is stored with the user.\<close>

theorem expired_user_stays_expired:
  assumes "us_expiration (ur_spec user) = AtUtc t" and "t \<le> ur_max_observed_utc user"
  shows "\<not> user_access_allowed_at user now \<and> \<not> user_available_at user now"
proof -
  from assms(2) have "t \<le> max now (ur_max_observed_utc user)" by (simp add: le_max_iff_disj)
  with assms(1) show ?thesis by (simp add: user_available_at_def user_access_allowed_at_def Let_def)
qed

theorem expired_user_stays_expired_witness:
  "\<not> user_access_allowed_at (example_user\<lparr>ur_max_observed_utc := 2000000001\<rparr>) 5 \<and>
   \<not> user_available_at (example_user\<lparr>ur_max_observed_utc := 2000000001\<rparr>) 5"
  by (rule expired_user_stays_expired [where t = 2000000000]) (simp_all add: example_user_def)

definition example_entry :: rule_entry where
  "example_entry = \<lparr>re_action = Deny, re_direction = Both, re_protocol = Proto_Tls, re_unavailable = Allow,
     re_cidr = None, re_port = None, re_domain_exact = None, re_domain_suffix = Some (str_lit ''b.c''),
     re_tls_sni = Some (str_lit ''x.y''), re_http_host = None, re_user_group = None\<rparr>"

definition example_options :: options where
  "example_options = \<lparr>op_server_id = str_lit ''s'', op_credential_transport = Protected, op_max_cached_users = 4,
     op_max_admin_clients = 2, op_max_control_frame_bytes = 1024, op_status_interval_ms = 1000,
     op_control_grace_ms = 1000, op_sniff_bytes = 4096, op_sniff_timeout_ms = 300,
     op_on_unknown_protocol = Unknown_Deny, op_checkpoint_interval_ms = 1000,
     op_storage = \<lparr>so_path = str_lit ''/d'', so_cache_bytes = 1, so_max_database_bytes = 1, so_queue_capacity = 8,
       so_accounting_block_bytes = 1000, so_batch_max_delay_ms = 5\<rparr>,
     op_global_rate = Global_Limited 100000 65507,
     op_rules = \<lparr>rl_terminal = Allow, rl_entries = [example_entry]\<rparr>, op_client = None\<rparr>"

definition example_metadata :: flow_metadata where
  "example_metadata = \<lparr>fm_kind = FLOW_TCP, fm_address_type = ADDRESS_DOMAIN, fm_address = str_lit ''a.b.c'', fm_port = 443\<rparr>"

theorem destination_policy_first_match_witness:
  "\<not> flow_verdict (destination_policy (\<lambda>_. None) [] example_options example_user example_metadata)
       (Tls (Some (str_lit ''x.y'')))"
proof -
  have "find_map (entry_verdict (Tls (Some (str_lit ''x.y''))))
      (filter (static_match example_user example_metadata) (rl_entries (op_rules example_options))) = Some False"
    by code_simp
  with destination_policy_first_match [where ob = "Tls (Some (str_lit ''x.y''))" and admin_rules = "[]"
      and user = example_user and toml = "\<lambda>_. None" and opts = example_options
      and rules = "op_rules example_options" and md = example_metadata]
  show ?thesis by simp
qed

end
