(* ===== verification/Poll_Io.thy ===== *)
theory Poll_Io
  imports Prelude
begin

text \<open>
  Non-blocking input and output as the modules see it: the answer of a byte stream to a read or a
  write (\<open>Read_Data []\<close> is the end of the stream, \<open>Write_Count n\<close> accepts the first \<open>n\<close> bytes
  offered, pending stands for \<open>WouldBlock\<close>), \<open>Poll\<close> values, and the loop that writes a buffer until
  it is empty or the stream would block.
\<close>

datatype io_read = Read_Pending | Read_Data bytes | Read_Error
datatype io_write = Write_Pending | Write_Count nat | Write_Error

datatype ('a, 'e) poll = Pending | Ready "('a, 'e) result"

text \<open>What a stream may answer to a write of some bytes: it never accepts more than it is offered.\<close>

definition write_bounded :: "(nat \<Rightarrow> bytes \<Rightarrow> io_write) \<Rightarrow> bool" where
  "write_bounded wr \<longleftrightarrow> (\<forall>k bs n. wr k bs = Write_Count n \<longrightarrow> n \<le> length bs)"

text \<open>
  The loop \<open>while offset < buffer.len() { stream.write(&buffer[offset..]) }\<close>. The \<open>k\<close>-th call is
  answered by \<open>wr k\<close>; the result is how the loop ended, the new offset and the bytes sent.
\<close>

datatype write_end = Written | Blocked | Write_Zero | Write_Failed

function write_loop :: "(nat \<Rightarrow> bytes \<Rightarrow> io_write) \<Rightarrow> nat \<Rightarrow> bytes \<Rightarrow> nat \<Rightarrow> write_end \<times> nat \<times> bytes" where
  "write_loop wr k buffer offset =
     (if length buffer \<le> offset then (Written, offset, [])
      else case wr k (drop offset buffer) of
        Write_Pending \<Rightarrow> (Blocked, offset, [])
      | Write_Error \<Rightarrow> (Write_Failed, offset, [])
      | Write_Count n \<Rightarrow>
          if n = 0 then (Write_Zero, offset, [])
          else (case write_loop wr (Suc k) buffer (offset + n) of
                  (r, offset', sent) \<Rightarrow> (r, offset', take n (drop offset buffer) @ sent)))"
  by pat_completeness auto
termination by (relation "measure (\<lambda>(wr, k, buffer, offset). length buffer - offset)") auto

declare write_loop.simps [simp del]

lemma take_append_drop_sub: "a \<le> b \<Longrightarrow> take a xs @ take (b - a) (drop a xs) = take b xs"
  by (metis le_add_diff_inverse take_add)

text \<open>The bytes sent are exactly the ones the offset moves over; the loop ends with the buffer
  written, or at the first answer that is not progress.\<close>

lemma write_loop_sent:
  "write_bounded wr \<Longrightarrow> write_loop wr k buffer offset = (r, offset', sent) \<Longrightarrow> offset \<le> length buffer \<Longrightarrow>
    offset \<le> offset' \<and> offset' \<le> length buffer \<and> take offset buffer @ sent = take offset' buffer \<and>
    (r = Written \<longleftrightarrow> offset' = length buffer)"
proof (induction wr k buffer offset arbitrary: offset' sent r rule: write_loop.induct)
  case (1 wr k buffer offset)
  show ?case
  proof (cases "length buffer \<le> offset")
    case True
    with 1(3,4) show ?thesis by (simp add: write_loop.simps)
  next
    case False
    show ?thesis
    proof (cases "\<exists>n. wr k (drop offset buffer) = Write_Count n \<and> n \<noteq> 0")
      case True
      then obtain n where n: "wr k (drop offset buffer) = Write_Count n" "n \<noteq> 0" by blast
      obtain sent' where s: "write_loop wr (Suc k) buffer (offset + n) = (r, offset', sent')"
        and sent: "sent = take n (drop offset buffer) @ sent'"
        using 1(3) False n by (subst (asm) write_loop.simps) (auto split: prod.splits)
      have le: "offset + n \<le> length buffer" using 1(2,4) n unfolding write_bounded_def by fastforce
      from 1(1) [OF False n(1,2) 1(2) s le] have IH: "offset + n \<le> offset'" "offset' \<le> length buffer"
        "take (offset + n) buffer @ sent' = take offset' buffer" "r = Written \<longleftrightarrow> offset' = length buffer" by auto
      have "take offset buffer @ sent = take (offset + n) buffer @ sent'"
        by (simp add: sent take_add)
      with IH show ?thesis by simp
    next
      case nf: False
      with False 1(3) have "r \<noteq> Written" "offset' = offset" "sent = []"
        by (auto simp: write_loop.simps [of wr k buffer offset] split: io_write.splits)
      with False 1(4) show ?thesis by auto
    qed
  qed
qed

end
