(* ===== verification/Service.thy ===== *)
theory Service
  imports Poll_Io Frame
begin

text \<open>
  The control channel of a session (\<^verbatim>\<open>policy-local/src/service.rs\<close>): incoming frames, a bounded queue of
  responses, and one status snapshot that newer snapshots replace. The byte stream is the SDK's; a
  poll gets what the stream answers to the read and to the write as arguments, and returns the bytes
  the stream took.
\<close>

datatype service_error =
    Service_Frame frame_error | Service_Protocol | Service_Resource | Service_Closed | Service_WriteZero | Service_Io

datatype client_request = Auth str | Status | Subscribe | DisconnectSelf

definition client_request_parse :: "(str \<Rightarrow> client_request option) \<Rightarrow> str \<Rightarrow> (client_request, service_error) result" where
  "client_request_parse toml input =
     try_bind (ok_or (toml input) Service_Protocol) (\<lambda>request. case request of
       Auth credential \<Rightarrow>
         if length credential \<noteq> 64 \<or> \<not> list_all (\<lambda>b. is_ascii_digit b \<or> 97 \<le> b \<and> b \<le> 102) credential
         then Err Service_Protocol else Ok request
     | _ \<Rightarrow> Ok request)"

record queued_frame =
  qf_bytes :: bytes
  qf_sensitive :: bool

record session_channel =
  sc_decoder :: frame_decoder
  sc_responses :: "queued_frame list"
  sc_snapshot :: "bytes option"
  sc_writing :: "queued_frame option"
  sc_write_offset :: nat
  sc_frame_limit :: nat
  sc_eof :: bool

definition response_queue_limit :: nat where
  "response_queue_limit = 8"

definition channel_new :: "nat \<Rightarrow> (session_channel, service_error) result" where
  "channel_new frame_limit = try_bind (map_err Service_Frame (decoder_new frame_limit)) (\<lambda>d.
     Ok \<lparr>sc_decoder = d, sc_responses = [], sc_snapshot = None, sc_writing = None, sc_write_offset = 0,
         sc_frame_limit = frame_limit, sc_eof = False\<rparr>)"

definition queue_frame :: "bool \<Rightarrow> session_channel \<Rightarrow> str \<Rightarrow> (unit, service_error) result \<times> session_channel" where
  "queue_frame secret ch response =
     (if response_queue_limit \<le> length (sc_responses ch) then (Err Service_Resource, ch)
      else case encode_frame response (sc_frame_limit ch) of
        Err e \<Rightarrow> (Err (Service_Frame e), ch)
      | Ok b \<Rightarrow> (Ok (), ch\<lparr>sc_responses := sc_responses ch @ [\<lparr>qf_bytes = b, qf_sensitive = secret\<rparr>]\<rparr>))"

definition queue_response :: "session_channel \<Rightarrow> str \<Rightarrow> (unit, service_error) result \<times> session_channel" where
  "queue_response ch response = queue_frame False ch response"

definition queue_secret :: "session_channel \<Rightarrow> str \<Rightarrow> (unit, service_error) result \<times> session_channel" where
  "queue_secret ch response = queue_frame True ch response"

definition replace_snapshot :: "session_channel \<Rightarrow> str \<Rightarrow> (unit, service_error) result \<times> session_channel" where
  "replace_snapshot ch snapshot = (case encode_frame snapshot (sc_frame_limit ch) of
     Err e \<Rightarrow> (Err (Service_Frame e), ch)
   | Ok b \<Rightarrow> (Ok (), ch\<lparr>sc_snapshot := Some b\<rparr>))"

section \<open>Polling\<close>

text \<open>The three parts of \<open>poll\<close>: reading, choosing the next frame, writing.\<close>

definition channel_read :: "session_channel \<Rightarrow> io_read \<Rightarrow> (str list, service_error) result \<times> session_channel" where
  "channel_read ch r =
     (if sc_eof ch then (Ok [], ch)
      else case r of
        Read_Pending \<Rightarrow> (Ok [], ch)
      | Read_Error \<Rightarrow> (Err Service_Io, ch)
      | Read_Data bs \<Rightarrow>
          if bs = [] then (Ok [], ch\<lparr>sc_eof := True\<rparr>)
          else (case push (sc_decoder ch) bs of
                  (Err e, d) \<Rightarrow> (Err (Service_Frame e), ch\<lparr>sc_decoder := d\<rparr>)
                | (Ok frames, d) \<Rightarrow> (Ok frames, ch\<lparr>sc_decoder := d\<rparr>)))"

definition channel_next :: "session_channel \<Rightarrow> session_channel" where
  "channel_next ch =
     (if sc_writing ch = None then
        (case sc_responses ch of
           f # fs \<Rightarrow> ch\<lparr>sc_writing := Some f, sc_responses := fs, sc_write_offset := 0\<rparr>
         | [] \<Rightarrow> ch\<lparr>sc_writing := map_option (\<lambda>b. \<lparr>qf_bytes = b, qf_sensitive = False\<rparr>) (sc_snapshot ch),
                    sc_snapshot := None, sc_write_offset := 0\<rparr>)
      else ch)"

definition channel_offered :: "session_channel \<Rightarrow> bytes" where
  "channel_offered ch = (case sc_writing ch of
     None \<Rightarrow> [] | Some f \<Rightarrow> drop (sc_write_offset ch) (qf_bytes f))"

definition channel_write :: "session_channel \<Rightarrow> io_write \<Rightarrow> (unit, service_error) result \<times> session_channel \<times> bytes" where
  "channel_write ch w = (case sc_writing ch of
     None \<Rightarrow> (Ok (), ch, [])
   | Some f \<Rightarrow> (case w of
       Write_Pending \<Rightarrow> (Ok (), ch, [])
     | Write_Error \<Rightarrow> (Err Service_Io, ch, [])
     | Write_Count n \<Rightarrow>
         if n = 0 then (Err Service_WriteZero, ch, [])
         else let offset = sc_write_offset ch + n;
                  taken = take n (channel_offered ch)
              in if offset = length (qf_bytes f)
                 then (Ok (), ch\<lparr>sc_writing := None, sc_write_offset := 0\<rparr>, taken)
                 else (Ok (), ch\<lparr>sc_write_offset := offset\<rparr>, taken)))"

definition channel_poll ::
  "session_channel \<Rightarrow> io_read \<Rightarrow> (bytes \<Rightarrow> io_write) \<Rightarrow> (str list, service_error) poll \<times> session_channel \<times> bytes" where
  "channel_poll ch r wr = (case channel_read ch r of
     (Err e, ch1) \<Rightarrow> (Ready (Err e), ch1, [])
   | (Ok messages, ch1) \<Rightarrow>
       let ch2 = channel_next ch1 in
       (case channel_write ch2 (wr (channel_offered ch2)) of
          (Err e, ch3, out) \<Rightarrow> (Ready (Err e), ch3, out)
        | (Ok u, ch3, out) \<Rightarrow>
            if sc_eof ch3 \<and> sc_writing ch3 = None \<and> sc_responses ch3 = [] \<and> sc_snapshot ch3 = None
            then (Ready (Err Service_Closed), ch3, out)
            else if messages = [] then (Pending, ch3, out)
            else (Ready (Ok messages), ch3, out)))"

section \<open>Runs\<close>

datatype channel_op = Op_Response str | Op_Secret str | Op_Snapshot str | Op_Poll io_read "bytes \<Rightarrow> io_write"

text \<open>One operation: the channel afterwards, the response it accepted, the bytes sent.\<close>

definition accepted_text :: "(unit, service_error) result \<Rightarrow> str \<Rightarrow> str list" where
  "accepted_text r s = (if is_ok r then [s] else [])"

fun channel_op_step :: "session_channel \<Rightarrow> channel_op \<Rightarrow> session_channel \<times> str list \<times> bytes" where
  "channel_op_step ch (Op_Response s) =
     (snd (queue_response ch s), accepted_text (fst (queue_response ch s)) s, [])"
| "channel_op_step ch (Op_Secret s) =
     (snd (queue_secret ch s), accepted_text (fst (queue_secret ch s)) s, [])"
| "channel_op_step ch (Op_Snapshot s) = (snd (replace_snapshot ch s), [], [])"
| "channel_op_step ch (Op_Poll r wr) =
     (case channel_poll ch r wr of (_, ch', out) \<Rightarrow> (ch', [], out))"

fun channel_run :: "session_channel \<Rightarrow> channel_op list \<Rightarrow> session_channel \<times> str list \<times> bytes" where
  "channel_run ch [] = (ch, [], [])"
| "channel_run ch (a # as) =
     (let (ch1, acc1, out1) = channel_op_step ch a; (ch2, acc2, out2) = channel_run ch1 as
      in (ch2, acc1 @ acc2, out1 @ out2))"

text \<open>A stream never takes more bytes than it was offered.\<close>

definition write_ok :: "(bytes \<Rightarrow> io_write) \<Rightarrow> bool" where
  "write_ok wr \<longleftrightarrow> (\<forall>bs n. wr bs = Write_Count n \<longrightarrow> n \<le> length bs)"

fun op_ok :: "channel_op \<Rightarrow> bool" where
  "op_ok (Op_Poll r wr) = write_ok wr"
| "op_ok (Op_Response s) = utf8_valid s"
| "op_ok (Op_Secret s) = utf8_valid s"
| "op_ok (Op_Snapshot s) = utf8_valid s"

section \<open>What is on the wire\<close>

definition wire_frame :: "str \<Rightarrow> bytes" where
  "wire_frame s = be_bytes32 (length s) @ s"

lemma encode_frame_Ok: "encode_frame s limit = Ok b \<Longrightarrow> utf8_valid s \<Longrightarrow> b = wire_frame s \<and> encodable limit s"
  by (auto simp: encode_frame_def wire_frame_def encodable_def split: if_splits)

text \<open>
  How the channel relates to its history: \<open>finished\<close> are the messages written completely (marked as
  response or snapshot), \<open>current\<close> is the one being written, \<open>queued\<close> the responses waiting.
\<close>

definition channel_view ::
  "nat \<Rightarrow> session_channel \<Rightarrow> str list \<Rightarrow> bytes \<Rightarrow> (bool \<times> str) list \<Rightarrow> (bool \<times> str) option \<Rightarrow> str list \<Rightarrow> bool" where
  "channel_view limit ch accepted wrote finished current queued \<longleftrightarrow>
     sc_frame_limit ch = limit \<and> length queued \<le> response_queue_limit \<and>
     map qf_bytes (sc_responses ch) = map wire_frame queued \<and>
     map_option qf_bytes (sc_writing ch) = map_option (wire_frame \<circ> snd) current \<and>
     (case current of None \<Rightarrow> True | Some c \<Rightarrow> sc_write_offset ch < length (wire_frame (snd c)) \<and> encodable limit (snd c)) \<and>
     (case sc_snapshot ch of None \<Rightarrow> True | Some b \<Rightarrow> \<exists>s. b = wire_frame s \<and> encodable limit s) \<and>
     list_all (encodable limit) (map snd finished @ queued) \<and>
     wrote = concat (map (wire_frame \<circ> snd) finished) @
       (case current of None \<Rightarrow> [] | Some c \<Rightarrow> take (sc_write_offset ch) (wire_frame (snd c))) \<and>
     accepted = map snd (filter fst (finished @ (case current of None \<Rightarrow> [] | Some c \<Rightarrow> [c]))) @ queued"

lemma view_new: "channel_new limit = Ok ch \<Longrightarrow> channel_view limit ch [] [] [] None []"
  by (auto simp: channel_new_def channel_view_def try_bind_Ok_iff)

lemma queue_frame_Ok:
  "queue_frame secret ch s = (Ok u, ch') \<Longrightarrow> \<exists>b. encode_frame s (sc_frame_limit ch) = Ok b \<and>
     length (sc_responses ch) < response_queue_limit \<and>
     ch' = ch\<lparr>sc_responses := sc_responses ch @ [\<lparr>qf_bytes = b, qf_sensitive = secret\<rparr>]\<rparr>"
  by (auto simp: queue_frame_def split: if_splits result.splits)

lemma queue_frame_Err: "queue_frame secret ch s = (Err e, ch') \<Longrightarrow> ch' = ch"
  by (auto simp: queue_frame_def split: if_splits result.splits)

lemma view_enqueue:
  assumes view: "channel_view limit ch accepted wrote finished current queued"
    and "encodable limit s" and "length (sc_responses ch) < response_queue_limit"
  shows "channel_view limit (ch\<lparr>sc_responses := sc_responses ch @ [\<lparr>qf_bytes = wire_frame s, qf_sensitive = secret\<rparr>]\<rparr>)
    (accepted @ [s]) wrote finished current (queued @ [s])"
proof -
  from view have "map qf_bytes (sc_responses ch) = map wire_frame queued" by (simp add: channel_view_def)
  then have "length queued = length (sc_responses ch)" by (rule map_eq_imp_length_eq [symmetric])
  with assms(2,3) view show ?thesis
    by (cases current) (simp_all add: channel_view_def)
qed

lemma view_queue:
  assumes view: "channel_view limit ch accepted wrote finished current queued" and "utf8_valid s"
  shows "\<exists>queued'. channel_view limit (snd (queue_frame secret ch s))
    (accepted @ accepted_text (fst (queue_frame secret ch s)) s) wrote finished current queued'"
proof -
  obtain r ch' where r: "queue_frame secret ch s = (r, ch')" by force
  show ?thesis
  proof (cases r)
    case (Err e)
    with r have "ch' = ch" by (auto dest: queue_frame_Err)
    with r Err view show ?thesis by (simp add: accepted_text_def exI [of _ queued])
  next
    case (Ok u)
    with queue_frame_Ok r obtain b where b: "encode_frame s (sc_frame_limit ch) = Ok b"
      "length (sc_responses ch) < response_queue_limit"
      "ch' = ch\<lparr>sc_responses := sc_responses ch @ [\<lparr>qf_bytes = b, qf_sensitive = secret\<rparr>]\<rparr>" by blast
    have "sc_frame_limit ch = limit" using view by (simp add: channel_view_def)
    with encode_frame_Ok [OF b(1) assms(2)] have "b = wire_frame s" "encodable limit s" by simp_all
    with view_enqueue [OF view _ b(2), of s secret] b(3) r Ok show ?thesis
      by (auto simp: accepted_text_def)
  qed
qed

lemma view_cong:
  assumes "sc_frame_limit ch' = sc_frame_limit ch" "sc_responses ch' = sc_responses ch"
    "sc_writing ch' = sc_writing ch" "sc_write_offset ch' = sc_write_offset ch" "sc_snapshot ch' = sc_snapshot ch"
  shows "channel_view limit ch' = channel_view limit ch"
  by (intro ext) (simp only: channel_view_def assms)

lemma view_snapshot:
  assumes "channel_view limit ch accepted wrote finished current queued" and "utf8_valid s"
  shows "channel_view limit (snd (replace_snapshot ch s)) accepted wrote finished current queued"
proof (cases "encode_frame s (sc_frame_limit ch)")
  case (Ok b)
  with assms encode_frame_Ok [OF Ok] show ?thesis
    by (cases current) (auto simp: replace_snapshot_def channel_view_def)
qed (use assms in \<open>simp add: replace_snapshot_def\<close>)

lemma channel_read_keeps:
  "sc_frame_limit (snd (channel_read ch r)) = sc_frame_limit ch"
  "sc_responses (snd (channel_read ch r)) = sc_responses ch"
  "sc_writing (snd (channel_read ch r)) = sc_writing ch"
  "sc_write_offset (snd (channel_read ch r)) = sc_write_offset ch"
  "sc_snapshot (snd (channel_read ch r)) = sc_snapshot ch"
  by (simp_all add: channel_read_def split: io_read.split prod.split result.split)

lemma view_read: "channel_view limit (snd (channel_read ch r)) = channel_view limit ch"
  by (rule view_cong) (simp_all add: channel_read_keeps)

lemma view_next:
  assumes "channel_view limit ch accepted wrote finished current queued"
  shows "\<exists>current' queued'. channel_view limit (channel_next ch) accepted wrote finished current' queued'"
proof (cases "sc_writing ch")
  case (Some f)
  then have "channel_next ch = ch" by (simp add: channel_next_def)
  with assms show ?thesis by auto
next
  case None
  with assms have cur: "current = None" by (simp add: channel_view_def)
  show ?thesis
  proof (cases "sc_responses ch")
    case (Cons f fs)
    with assms obtain s ss where q: "queued = s # ss" by (cases queued) (auto simp: channel_view_def)
    with None Cons cur assms
    have "channel_view limit (channel_next ch) accepted wrote finished (Some (True, s)) ss"
      by (auto simp: channel_next_def channel_view_def wire_frame_def)
    then show ?thesis by blast
  next
    case Nil
    with assms have q: "queued = []" by (simp add: channel_view_def)
    show ?thesis
    proof (cases "sc_snapshot ch")
      case None': None
      with None Nil cur q assms have "channel_view limit (channel_next ch) accepted wrote finished None []"
        by (simp add: channel_next_def channel_view_def)
      then show ?thesis by blast
    next
      case Some': (Some b)
      with assms obtain s where "b = wire_frame s" "encodable limit s" by (auto simp: channel_view_def)
      with None Nil cur q Some' assms
      have "channel_view limit (channel_next ch) accepted wrote finished (Some (False, s)) []"
        by (auto simp: channel_next_def channel_view_def wire_frame_def)
      then show ?thesis by blast
    qed
  qed
qed

lemma view_write:
  assumes view: "channel_view limit ch accepted wrote finished current queued"
    and "\<And>n. w = Write_Count n \<Longrightarrow> n \<le> length (channel_offered ch)"
    and res: "channel_write ch w = (r, ch', out)"
  shows "\<exists>finished' current'. channel_view limit ch' accepted (wrote @ out) finished' current' queued"
proof (cases current)
  case None
  with view have "sc_writing ch = None" by (simp add: channel_view_def)
  with res view show ?thesis by (auto simp: channel_write_def)
next
  case (Some c)
  from view Some obtain f where f: "sc_writing ch = Some f" "qf_bytes f = wire_frame (snd c)"
    by (auto simp: channel_view_def)
  show ?thesis
  proof (cases "\<exists>n. w = Write_Count n \<and> 0 < n")
    case False
    with f res have "ch' = ch \<and> out = []" by (cases w) (auto simp: channel_write_def)
    with view show ?thesis by auto
  next
    case True
    then obtain n where n: "w = Write_Count n" "0 < n" by blast
    let ?off = "sc_write_offset ch"
    let ?b = "wire_frame (snd c)"
    have "?off < length ?b" using view Some by (simp add: channel_view_def)
    moreover have "n \<le> length ?b - ?off" using assms(2) [OF n(1)] f by (simp add: channel_offered_def)
    ultimately have le: "?off + n \<le> length ?b" by linarith
    have out: "out = take n (drop ?off ?b)"
      using n f res by (auto simp: channel_write_def channel_offered_def Let_def split: if_splits)
    have total: "take ?off ?b @ out = take (?off + n) ?b" by (simp add: out take_add)
    show ?thesis
    proof (cases "?off + n = length ?b")
      case True
      with n f res have "ch' = ch\<lparr>sc_writing := None, sc_write_offset := 0\<rparr>"
        by (auto simp: channel_write_def Let_def)
      with view Some total True have "channel_view limit ch' accepted (wrote @ out) (finished @ [c]) None queued"
        by (auto simp: channel_view_def)
      then show ?thesis by blast
    next
      case False
      with n f res have "ch' = ch\<lparr>sc_write_offset := ?off + n\<rparr>"
        by (auto simp: channel_write_def Let_def)
      with view Some total False le have "channel_view limit ch' accepted (wrote @ out) finished (Some c) queued"
        by (simp add: channel_view_def)
      then show ?thesis by blast
    qed
  qed
qed

lemma view_poll:
  assumes view: "channel_view limit ch accepted wrote finished current queued" and "write_ok wr"
    and poll: "channel_poll ch r wr = (res, ch', out)"
  shows "\<exists>finished' current' queued'. channel_view limit ch' accepted (wrote @ out) finished' current' queued'"
proof -
  obtain x ch1 where x: "channel_read ch r = (x, ch1)" by force
  with view view_read [of limit ch r] have view1: "channel_view limit ch1 accepted wrote finished current queued" by simp
  show ?thesis
  proof (cases x)
    case (Err e)
    with poll x view1 show ?thesis by (auto simp: channel_poll_def)
  next
    case (Ok messages)
    let ?ch2 = "channel_next ch1"
    from view_next [OF view1] obtain c2 q2
      where view2: "channel_view limit ?ch2 accepted wrote finished c2 q2" by blast
    obtain y ch3 out3 where y: "channel_write ?ch2 (wr (channel_offered ?ch2)) = (y, ch3, out3)" by (metis prod_cases3)
    have "\<exists>finished' current'. channel_view limit ch3 accepted (wrote @ out3) finished' current' q2"
      using assms(2) by (intro view_write [OF view2 _ y]) (auto simp: write_ok_def)
    moreover from poll x Ok y have "ch' = ch3 \<and> out = out3"
      by (cases y) (auto simp: channel_poll_def Let_def split: if_splits)
    ultimately show ?thesis by blast
  qed
qed

lemma view_op:
  assumes view: "channel_view limit ch accepted wrote finished current queued" and "op_ok a"
    and step: "channel_op_step ch a = (ch', acc, out)"
  shows "\<exists>finished' current' queued'. channel_view limit ch' (accepted @ acc) (wrote @ out) finished' current' queued'"
proof (cases a)
  case (Op_Response s)
  with view_queue [OF view, of s False] assms(2) step show ?thesis by (auto simp: queue_response_def)
next
  case (Op_Secret s)
  with view_queue [OF view, of s True] assms(2) step show ?thesis by (auto simp: queue_secret_def)
next
  case (Op_Snapshot s)
  with view_snapshot [OF view, of s] assms(2) step show ?thesis by auto
next
  case (Op_Poll r wr)
  obtain res c o2 where p: "channel_poll ch r wr = (res, c, o2)" by (metis prod_cases3)
  with view_poll [OF view _ p] Op_Poll assms(2) step show ?thesis by auto
qed

lemma view_run:
  assumes "channel_view limit ch accepted wrote finished current queued" and "list_all op_ok ops"
    and "channel_run ch ops = (ch', acc, out)"
  shows "\<exists>finished' current' queued'. channel_view limit ch' (accepted @ acc) (wrote @ out) finished' current' queued'"
  using assms
proof (induction ops arbitrary: ch ch' accepted wrote finished current queued acc out)
  case Nil
  then show ?case by auto
next
  case (Cons a as)
  obtain ch1 acc1 out1 where s: "channel_op_step ch a = (ch1, acc1, out1)" by (metis prod_cases3)
  obtain ch2 acc2 out2 where r: "channel_run ch1 as = (ch2, acc2, out2)" by (metis prod_cases3)
  from view_op [OF Cons.prems(1) _ s] Cons.prems(2) obtain f c q
    where "channel_view limit ch1 (accepted @ acc1) (wrote @ out1) f c q" by auto
  from Cons.IH [OF this _ r] Cons.prems(2,3) s r show ?case by auto
qed

text \<open>The peer's decoder on the bytes of a channel: the finished messages, then a part of a frame.\<close>

lemma push_wire_frames:
  assumes "list_all (encodable limit) (map snd finished)"
    and "case current of None \<Rightarrow> True | Some c \<Rightarrow> k < length (wire_frame (snd c)) \<and> encodable limit (snd c)"
  shows "fst (push \<lparr>fd_buffer = [], fd_expected = None, fd_limit = limit\<rparr>
    (concat (map (wire_frame \<circ> snd) finished) @ (case current of None \<Rightarrow> [] | Some c \<Rightarrow> take k (wire_frame (snd c))))) =
    Ok (map snd finished)"
proof -
  let ?d = "\<lparr>fd_buffer = [], fd_expected = None, fd_limit = limit\<rparr>"
  have all: "list_all2 (\<lambda>s e. encode_frame s limit = Ok e \<and> utf8_valid s) (map snd finished) (map (wire_frame \<circ> snd) finished)"
    using assms(1) by (induction finished) (auto simp: encodable_def encode_frame_def wire_frame_def)
  have "push ?d (concat (map (wire_frame \<circ> snd) finished)) = (Ok (map snd finished), ?d)"
    using push_encoded_list [OF all, of "[]"] by (simp add: push_def)
  moreover have "fst (push ?d (case current of None \<Rightarrow> [] | Some c \<Rightarrow> take k (wire_frame (snd c)))) = Ok []"
  proof (cases current)
    case (Some c)
    with assms(2) have c: "encodable limit (snd c)" "k < length (snd c) + 4" by (auto simp: wire_frame_def)
    have "decoder_at limit (snd c) 0 = ?d" by (simp add: decoder_at_def)
    with push_loop_partial [OF c, of "[]"] Some show ?thesis
      by (simp only: push_def wire_frame_def option.case) simp
  qed (simp add: push_def)
  ultimately show ?thesis
    by (cases "push ?d (case current of None \<Rightarrow> [] | Some c \<Rightarrow> take k (wire_frame (snd c)))")
      (simp add: push_append)
qed

section \<open>Properties\<close>



end
