(* ===== verification/Storage.thy ===== *)
theory Storage
  imports Rust_Text "HOL-Library.List_Lexorder"
begin

text \<open>
  The storage worker (\<^verbatim>\<open>policy-local/src/storage.rs\<close>): keys, transactions on the database, and the thread
  that executes commands from a bounded queue and answers through one-shot reply channels. The
  database (redb) is a parameter, a record of its calls; \<open>redb_ok\<close> states what the code relies on.
  A reply channel is a token: the client holds the token, the worker posts the reply under it.
  Opening files, permissions and the copying of backups are outside; a backup command takes the
  outcome of the copy and of reopening the database as arguments.
\<close>

datatype storage_error =
    Storage_Invalid | Storage_QueueFull | Storage_Stopped | Storage_Limit | Storage_Permissions
  | Storage_Io | Storage_Database

section \<open>Keys\<close>

definition key_prefixes :: "str list" where
  "key_prefixes = map str_lit [''meta/'', ''user/'', ''credential/'', ''client/'']"

definition validate_key :: "str \<Rightarrow> (unit, storage_error) result" where
  "validate_key key =
     (if key = [] \<or> 512 < length key \<or> \<not> list_ex (starts_with key) key_prefixes
      then Err Storage_Invalid else Ok ())"

definition validate_prefix :: "str \<Rightarrow> (unit, storage_error) result" where
  "validate_prefix prefix = (if prefix \<in> set key_prefixes then Ok () else Err Storage_Invalid)"

definition prefix_end :: "str \<Rightarrow> (str, storage_error) result" where
  "prefix_end prefix =
     try_bind (validate_prefix prefix) (\<lambda>_.
     try_bind (if prefix = [] then Err Storage_Invalid else Ok (last prefix)) (\<lambda>final.
     try_bind (ok_or (checked_add final 1) Storage_Invalid) (\<lambda>final'.
       ok_or (from_utf8 (butlast prefix @ [final'])) Storage_Invalid)))"

section \<open>Transactions\<close>

type_synonym change = "str \<times> bytes option"

record ('d, 't) redb =
  rd_get :: "'d \<Rightarrow> str \<Rightarrow> (bytes option, unit) result"
  rd_range :: "'d \<Rightarrow> str \<Rightarrow> str \<Rightarrow> (((str \<times> bytes), unit) result list, unit) result"
  rd_begin_write :: "'d \<Rightarrow> ('t, unit) result"
  rd_set_durability :: "'t \<Rightarrow> ('t, unit) result"
  rd_open_table :: "'t \<Rightarrow> ('t, unit) result"
  rd_insert :: "'t \<Rightarrow> str \<Rightarrow> bytes \<Rightarrow> ('t, unit) result"
  rd_remove :: "'t \<Rightarrow> str \<Rightarrow> ('t, unit) result"
  rd_commit :: "'d \<Rightarrow> 't \<Rightarrow> (unit, unit) result \<times> 'd"

abbreviation database_error :: "unit \<Rightarrow> storage_error" where
  "database_error \<equiv> \<lambda>_. Storage_Database"

definition get_value :: "('d, 't) redb \<Rightarrow> 'd \<Rightarrow> str \<Rightarrow> (bytes option, storage_error) result" where
  "get_value db d key = map_err database_error (rd_get db d key)"

definition begin_durable :: "('d, 't) redb \<Rightarrow> 'd \<Rightarrow> ('t, storage_error) result" where
  "begin_durable db d =
     map_err database_error (try_bind (rd_begin_write db d) (\<lambda>t.
       try_bind (rd_set_durability db t) (rd_open_table db)))"

definition commit_transaction :: "('d, 't) redb \<Rightarrow> 'd \<Rightarrow> ('t, storage_error) result \<Rightarrow> (unit, storage_error) result \<times> 'd" where
  "commit_transaction db d r = (case r of
     Err e \<Rightarrow> (Err e, d)
   | Ok t \<Rightarrow> (case rd_commit db d t of (c, d') \<Rightarrow> (map_err database_error c, d')))"

definition put_value :: "('d, 't) redb \<Rightarrow> 'd \<Rightarrow> str \<Rightarrow> bytes \<Rightarrow> (unit, storage_error) result \<times> 'd" where
  "put_value db d key value = commit_transaction db d
     (try_bind (begin_durable db d) (\<lambda>t. map_err database_error (rd_insert db t key value)))"

definition delete_value :: "('d, 't) redb \<Rightarrow> 'd \<Rightarrow> str \<Rightarrow> (unit, storage_error) result \<times> 'd" where
  "delete_value db d key = commit_transaction db d
     (try_bind (begin_durable db d) (\<lambda>t. map_err database_error (rd_remove db t key)))"

definition apply_change :: "('d, 't) redb \<Rightarrow> 't \<Rightarrow> change \<Rightarrow> ('t, storage_error) result" where
  "apply_change db t = (\<lambda>(key, value). map_err database_error (case value of
     Some v \<Rightarrow> rd_insert db t key v | None \<Rightarrow> rd_remove db t key))"

fun apply_changes :: "('d, 't) redb \<Rightarrow> 't \<Rightarrow> change list \<Rightarrow> ('t, storage_error) result" where
  "apply_changes db t [] = Ok t"
| "apply_changes db t (c # cs) = try_bind (apply_change db t c) (\<lambda>t'. apply_changes db t' cs)"

definition apply_values :: "('d, 't) redb \<Rightarrow> 'd \<Rightarrow> change list \<Rightarrow> (unit, storage_error) result \<times> 'd" where
  "apply_values db d changes = commit_transaction db d
     (try_bind (begin_durable db d) (\<lambda>t. apply_changes db t changes))"

fun scan_loop ::
  "nat \<Rightarrow> (str \<times> bytes) list \<Rightarrow> ((str \<times> bytes), unit) result list \<Rightarrow> ((str \<times> bytes) list, storage_error) result" where
  "scan_loop limit found [] = Ok found"
| "scan_loop limit found (e # es) =
     (if length found = limit then Err Storage_Limit
      else try_bind (map_err database_error e) (\<lambda>kv. scan_loop limit (found @ [kv]) es))"

definition scan_values ::
  "('d, 't) redb \<Rightarrow> 'd \<Rightarrow> str \<Rightarrow> nat \<Rightarrow> ((str \<times> bytes) list, storage_error) result" where
  "scan_values db d prefix limit =
     try_bind (prefix_end prefix) (\<lambda>stop.
     try_bind (map_err database_error (rd_range db d prefix stop)) (scan_loop limit []))"

text \<open>
  What the code relies on of redb: reads see the committed contents, a transaction starts from
  them and collects changes, a range yields the entries in key order, a commit that succeeds makes
  all changes of the transaction visible at once, and one that fails makes all or none visible.
\<close>

definition redb_ok :: "('d, 't) redb \<Rightarrow> ('d \<Rightarrow> str \<Rightarrow> bytes option) \<Rightarrow> ('t \<Rightarrow> str \<Rightarrow> bytes option) \<Rightarrow> bool" where
  "redb_ok db contents view \<longleftrightarrow>
     (\<forall>d k v. rd_get db d k = Ok v \<longrightarrow> v = contents d k) \<and>
     (\<forall>d t. rd_begin_write db d = Ok t \<longrightarrow> view t = contents d) \<and>
     (\<forall>t t'. rd_set_durability db t = Ok t' \<longrightarrow> view t' = view t) \<and>
     (\<forall>t t'. rd_open_table db t = Ok t' \<longrightarrow> view t' = view t) \<and>
     (\<forall>t t' k v. rd_insert db t k v = Ok t' \<longrightarrow> view t' = (view t)(k := Some v)) \<and>
     (\<forall>t t' k. rd_remove db t k = Ok t' \<longrightarrow> view t' = (view t)(k := None)) \<and>
     (\<forall>d d' t u. rd_commit db d t = (Ok u, d') \<longrightarrow> contents d' = view t) \<and>
     (\<forall>d d' t e. rd_commit db d t = (Err e, d') \<longrightarrow> contents d' \<in> {contents d, view t}) \<and>
     (\<forall>d a b es. rd_range db d a b = Ok es \<longrightarrow>
        (\<forall>kvs. es = map Ok kvs \<longrightarrow> sorted_wrt (<) (map fst kvs) \<and>
           (\<forall>k v. (k, v) \<in> set kvs \<longleftrightarrow> a \<le> k \<and> k < b \<and> contents d k = Some v)))"

section \<open>The worker\<close>

datatype command =
    Get str
  | Put str bytes
  | Delete str
  | Apply "change list"
  | Scan str nat
  | Backup str
  | Stop

datatype reply =
    Reply_Get "(bytes option, storage_error) result"
  | Reply_Write "(unit, storage_error) result"
  | Reply_Scan "((str \<times> bytes) list, storage_error) result"
  | Reply_Stop

record 'd storage_worker =
  sw_capacity :: nat
  sw_queue :: "(nat \<times> command) list"
  sw_next_token :: nat
  sw_replies :: "(nat \<times> reply) list"
  sw_database :: "'d option"
  sw_stopping :: "nat option"
  sw_joinable :: bool

definition storage_open :: "nat \<Rightarrow> u64 \<Rightarrow> nat \<Rightarrow> ('d, storage_error) result \<Rightarrow> ('d storage_worker, storage_error) result" where
  "storage_open cache_bytes max_database_bytes queue_capacity opened =
     (if cache_bytes = 0 \<or> max_database_bytes = 0 \<or> queue_capacity = 0 then Err Storage_Invalid
      else try_bind opened (\<lambda>d. Ok \<lparr>sw_capacity = queue_capacity, sw_queue = [], sw_next_token = 0,
             sw_replies = [], sw_database = Some d, sw_stopping = None, sw_joinable = True\<rparr>))"

text \<open>\<open>send\<close> with the reply channel made for it: the token of the reply.\<close>

definition storage_send :: "'d storage_worker \<Rightarrow> command \<Rightarrow> (nat, storage_error) result \<times> 'd storage_worker" where
  "storage_send w c =
     (if sw_stopping w \<noteq> None then (Err Storage_Stopped, w)
      else if sw_database w = None then (Err Storage_Stopped, w)
      else if sw_capacity w \<le> length (sw_queue w) then (Err Storage_QueueFull, w)
      else (Ok (sw_next_token w),
            w\<lparr>sw_queue := sw_queue w @ [(sw_next_token w, c)], sw_next_token := Suc (sw_next_token w)\<rparr>))"

definition guarded_send ::
  "(unit, storage_error) result \<Rightarrow> 'd storage_worker \<Rightarrow> command \<Rightarrow> (nat, storage_error) result \<times> 'd storage_worker" where
  "guarded_send guard w c = (case guard of Err e \<Rightarrow> (Err e, w) | Ok _ \<Rightarrow> storage_send w c)"

definition storage_get :: "'d storage_worker \<Rightarrow> str \<Rightarrow> (nat, storage_error) result \<times> 'd storage_worker" where
  "storage_get w key = guarded_send (validate_key key) w (Get key)"

definition storage_put :: "'d storage_worker \<Rightarrow> str \<Rightarrow> bytes \<Rightarrow> (nat, storage_error) result \<times> 'd storage_worker" where
  "storage_put w key value = guarded_send (validate_key key) w (Put key value)"

definition storage_delete :: "'d storage_worker \<Rightarrow> str \<Rightarrow> (nat, storage_error) result \<times> 'd storage_worker" where
  "storage_delete w key = guarded_send (validate_key key) w (Delete key)"

definition validate_changes :: "change list \<Rightarrow> (unit, storage_error) result" where
  "validate_changes changes =
     (if changes = [] then Err Storage_Invalid
      else if list_all (\<lambda>(key, _). is_ok (validate_key key)) changes then Ok () else Err Storage_Invalid)"

definition storage_apply :: "'d storage_worker \<Rightarrow> change list \<Rightarrow> (nat, storage_error) result \<times> 'd storage_worker" where
  "storage_apply w changes = guarded_send (validate_changes changes) w (Apply changes)"

definition storage_scan :: "'d storage_worker \<Rightarrow> str \<Rightarrow> nat \<Rightarrow> (nat, storage_error) result \<times> 'd storage_worker" where
  "storage_scan w prefix limit =
     guarded_send (try_bind (validate_prefix prefix) (\<lambda>_. if limit = 0 then Err Storage_Invalid else Ok ()))
       w (Scan prefix limit)"

definition storage_backup :: "'d storage_worker \<Rightarrow> str \<Rightarrow> (nat, storage_error) result \<times> 'd storage_worker" where
  "storage_backup w destination =
     guarded_send (if starts_with destination [47] then Ok () else Err Storage_Invalid) w (Backup destination)"

definition start_shutdown :: "'d storage_worker \<Rightarrow> (unit, storage_error) result \<times> 'd storage_worker" where
  "start_shutdown w =
     (if sw_stopping w \<noteq> None then (Ok (), w)
      else case storage_send w Stop of
        (Err e, w') \<Rightarrow> (Err e, w') | (Ok token, w') \<Rightarrow> (Ok (), w'\<lparr>sw_stopping := Some token\<rparr>))"

text \<open>\<open>try_recv\<close>: a reply is received once; a channel whose command was dropped is disconnected.\<close>

datatype recv = Received reply | Empty | Disconnected

definition try_recv :: "'d storage_worker \<Rightarrow> nat \<Rightarrow> recv \<times> 'd storage_worker" where
  "try_recv w token = (case map_of (sw_replies w) token of
     Some r \<Rightarrow> (Received r, w\<lparr>sw_replies := filter (\<lambda>(t, _). t \<noteq> token) (sw_replies w)\<rparr>)
   | None \<Rightarrow> (if token \<in> fst ` set (sw_queue w) then Empty else Disconnected, w))"

definition poll_shutdown :: "'d storage_worker \<Rightarrow> (bool, storage_error) result \<times> 'd storage_worker" where
  "poll_shutdown w = (case start_shutdown w of
     (Err e, w1) \<Rightarrow> (Err e, w1)
   | (Ok _, w1) \<Rightarrow> (case sw_stopping w1 of
       None \<Rightarrow> (Err Storage_Stopped, w1)
     | Some token \<Rightarrow> (case try_recv w1 token of
         (Received _, w2) \<Rightarrow> (Ok True, w2\<lparr>sw_stopping := None, sw_joinable := False\<rparr>)
       | (Empty, w2) \<Rightarrow> (Ok False, w2)
       | (Disconnected, w2) \<Rightarrow> (Err Storage_Stopped, w2))))"

text \<open>One turn of the thread's loop. The copy and reopening of a backup are arguments.\<close>

definition execute ::
  "('d, 't) redb \<Rightarrow> (unit, storage_error) result \<Rightarrow> ('d \<Rightarrow> ('d, storage_error) result) \<Rightarrow> 'd \<Rightarrow> command \<Rightarrow> reply \<times> 'd option" where
  "execute db copied reopen d c = (case c of
     Get key \<Rightarrow> (Reply_Get (get_value db d key), Some d)
   | Put key value \<Rightarrow> (case put_value db d key value of (r, d') \<Rightarrow> (Reply_Write r, Some d'))
   | Delete key \<Rightarrow> (case delete_value db d key of (r, d') \<Rightarrow> (Reply_Write r, Some d'))
   | Apply changes \<Rightarrow> (case apply_values db d changes of (r, d') \<Rightarrow> (Reply_Write r, Some d'))
   | Scan prefix limit \<Rightarrow> (Reply_Scan (scan_values db d prefix limit), Some d)
   | Backup destination \<Rightarrow> (case reopen d of
       Ok d' \<Rightarrow> (Reply_Write copied, Some d') | Err e \<Rightarrow> (Reply_Write (Err e), None))
   | Stop \<Rightarrow> (Reply_Stop, None))"

definition worker_step ::
  "('d, 't) redb \<Rightarrow> (unit, storage_error) result \<Rightarrow> ('d \<Rightarrow> ('d, storage_error) result) \<Rightarrow> 'd storage_worker \<Rightarrow> 'd storage_worker" where
  "worker_step db copied reopen w = (case (sw_database w, sw_queue w) of
     (Some d, (token, c) # rest) \<Rightarrow>
       (case execute db copied reopen d c of
          (r, Some d') \<Rightarrow> w\<lparr>sw_queue := rest, sw_database := Some d', sw_replies := sw_replies w @ [(token, r)]\<rparr>
        | (r, None) \<Rightarrow> w\<lparr>sw_queue := [], sw_database := None, sw_replies := sw_replies w @ [(token, r)]\<rparr>)
   | _ \<Rightarrow> w)"

section \<open>Key ranges\<close>

lemma next_word_less: "checked_add x 1 = Some y \<Longrightarrow> c < y \<longleftrightarrow> c \<le> x" for x y c :: u8
  by (auto simp: checked_add_Some word_less_nat_alt word_le_nat_alt)

lemma range_starts_with:
  fixes q k :: str
  assumes "checked_add x 1 = Some y"
  shows "q @ [x] \<le> k \<and> k < q @ [y] \<longleftrightarrow> starts_with k (q @ [x])"
proof (induction q arbitrary: k)
  case Nil
  show ?case
  proof (cases k)
    case (Cons c r)
    have "x \<le> c \<and> c < y \<longleftrightarrow> c = x" using next_word_less [OF assms, of c] by auto
    then show ?thesis by (auto simp: Cons starts_with_def)
  qed (simp add: starts_with_def)
next
  case (Cons a q)
  show ?case
  proof (cases k)
    case k: (Cons c r)
    have "(a # q) @ [x] \<le> k \<and> k < (a # q) @ [y] \<longleftrightarrow> c = a \<and> (q @ [x] \<le> r \<and> r < q @ [y])"
      by (auto simp: k)
    also have "\<dots> \<longleftrightarrow> starts_with k ((a # q) @ [x])"
      by (auto simp only: Cons.IH) (auto simp: k starts_with_def)
    finally show ?thesis .
  qed (simp add: starts_with_def)
qed

lemma prefix_end_range:
  assumes "prefix_end prefix = Ok stop"
  shows "prefix \<le> k \<and> k < stop \<longleftrightarrow> starts_with k prefix"
proof -
  from assms obtain y where ne: "prefix \<noteq> []" and y: "checked_add (last prefix) 1 = Some y"
    and stop: "stop = butlast prefix @ [y]"
    by (auto simp: prefix_end_def try_bind_Ok_iff from_utf8_def split: if_splits)
  from range_starts_with [OF y, of "butlast prefix" k] ne stop show ?thesis by simp
qed

section \<open>Transactions are atomic\<close>

definition change_map :: "(str \<Rightarrow> bytes option) \<Rightarrow> change \<Rightarrow> (str \<Rightarrow> bytes option)" where
  "change_map m = (\<lambda>(k, v). m(k := v))"

lemma redb_okD:
  assumes "redb_ok db contents view"
  shows "rd_get db d k = Ok v \<Longrightarrow> v = contents d k"
    "rd_begin_write db d = Ok t \<Longrightarrow> view t = contents d"
    "rd_set_durability db t = Ok t' \<Longrightarrow> view t' = view t"
    "rd_open_table db t = Ok t' \<Longrightarrow> view t' = view t"
    "rd_insert db t k x = Ok t' \<Longrightarrow> view t' = (view t)(k := Some x)"
    "rd_remove db t k = Ok t' \<Longrightarrow> view t' = (view t)(k := None)"
    "rd_commit db d t = (Ok u, d') \<Longrightarrow> contents d' = view t"
    "rd_commit db d t = (Err e, d') \<Longrightarrow> contents d' = contents d \<or> contents d' = view t"
    "rd_range db d a b = Ok (map Ok kvs) \<Longrightarrow> sorted_wrt (<) (map fst kvs)"
    "rd_range db d a b = Ok (map Ok kvs) \<Longrightarrow> (k, x) \<in> set kvs \<longleftrightarrow> a \<le> k \<and> k < b \<and> contents d k = Some x"
  using assms by (simp_all add: redb_ok_def)

lemma begin_durable_view:
  assumes "redb_ok db contents view" and "begin_durable db d = Ok t"
  shows "view t = contents d"
proof -
  from assms(2) obtain t1 t2 where "rd_begin_write db d = Ok t1" "rd_set_durability db t1 = Ok t2"
    "rd_open_table db t2 = Ok t" by (auto simp: begin_durable_def try_bind_Ok_iff)
  then show ?thesis using redb_okD(2,3,4) [OF assms(1)] by metis
qed

lemma apply_change_view:
  "redb_ok db contents view \<Longrightarrow> apply_change db t c = Ok t' \<Longrightarrow> view t' = change_map (view t) c"
  by (auto simp: apply_change_def change_map_def split: option.splits prod.splits dest: redb_okD(5,6))

lemma apply_changes_view:
  assumes "redb_ok db contents view"
  shows "apply_changes db t cs = Ok t' \<Longrightarrow> view t' = foldl change_map (view t) cs"
proof (induction cs arbitrary: t)
  case (Cons c cs)
  then obtain t1 where t1: "apply_change db t c = Ok t1" "apply_changes db t1 cs = Ok t'"
    by (auto simp: try_bind_Ok_iff)
  with Cons.IH [OF t1(2)] apply_change_view [OF assms t1(1)] show ?case by simp
qed simp

lemma commit_transaction_atomic:
  assumes db: "redb_ok db contents view" and "\<And>t. r = Ok t \<Longrightarrow> view t = m"
    and "commit_transaction db d r = (res, d')"
  shows "contents d' = contents d \<or> contents d' = m" "res = Ok u \<Longrightarrow> contents d' = m"
proof -
  have "(contents d' = contents d \<or> contents d' = m) \<and> (\<forall>u. res = Ok u \<longrightarrow> contents d' = m)"
  proof (cases r)
    case (Err e)
    with assms(3) show ?thesis by (auto simp: commit_transaction_def)
  next
    case (Ok t)
    obtain c d1 where c: "rd_commit db d t = (c, d1)" by force
    with Ok assms show ?thesis
      by (cases c) (auto simp: commit_transaction_def dest: redb_okD(7,8) [OF db])
  qed
  then show "contents d' = contents d \<or> contents d' = m" "res = Ok u \<Longrightarrow> contents d' = m" by auto
qed

lemma apply_values_atomic:
  assumes "redb_ok db contents view" and "apply_values db d changes = (res, d')"
  shows "contents d' = contents d \<or> contents d' = foldl change_map (contents d) changes" "res = Ok u \<Longrightarrow> contents d' = foldl change_map (contents d) changes"
  by (rule commit_transaction_atomic [OF assms(1) _ assms(2) [unfolded apply_values_def], where m = "foldl change_map (contents d) changes"];
      auto simp: try_bind_Ok_iff dest!: begin_durable_view [OF assms(1)] apply_changes_view [OF assms(1)])+

lemma put_value_atomic:
  assumes "redb_ok db contents view" and "put_value db d k v = (res, d')"
  shows "contents d' = contents d \<or> contents d' = (contents d)(k := Some v)" "res = Ok u \<Longrightarrow> contents d' = (contents d)(k := Some v)"
  by (rule commit_transaction_atomic [OF assms(1) _ assms(2) [unfolded put_value_def], where m = "(contents d)(k := Some v)"];
      auto simp: try_bind_Ok_iff dest!: begin_durable_view [OF assms(1)] redb_okD(5) [OF assms(1)])+

lemma delete_value_atomic:
  assumes "redb_ok db contents view" and "delete_value db d k = (res, d')"
  shows "contents d' = contents d \<or> contents d' = (contents d)(k := None)" "res = Ok u \<Longrightarrow> contents d' = (contents d)(k := None)"
  by (rule commit_transaction_atomic [OF assms(1) _ assms(2) [unfolded delete_value_def], where m = "(contents d)(k := None)"];
      auto simp: try_bind_Ok_iff dest!: begin_durable_view [OF assms(1)] redb_okD(6) [OF assms(1)])+

lemma scan_loop_Ok:
  "scan_loop limit found es = Ok kvs \<Longrightarrow> length found \<le> limit \<Longrightarrow>
     \<exists>new. es = map Ok new \<and> kvs = found @ new \<and> length kvs \<le> limit"
proof (induction limit found es rule: scan_loop.induct)
  case (2 limit found e es)
  then obtain kv where "e = Ok kv" "length found < limit" "scan_loop limit (found @ [kv]) es = Ok kvs"
    by (auto simp: try_bind_Ok_iff split: if_splits)
  with 2 obtain new where "es = map Ok new" "kvs = (found @ [kv]) @ new" "length kvs \<le> limit" by fastforce
  with \<open>e = Ok kv\<close> show ?case by (intro exI [of _ "kv # new"]) simp
qed simp

lemma scan_values_Ok:
  assumes "redb_ok db contents view" and "scan_values db d prefix limit = Ok kvs"
  shows "sorted_wrt (<) (map fst kvs)" "length kvs \<le> limit"
    "(k, v) \<in> set kvs \<longleftrightarrow> starts_with k prefix \<and> contents d k = Some v"
proof -
  from assms(2) obtain stop es where stop: "prefix_end prefix = Ok stop" and es: "rd_range db d prefix stop = Ok es"
    and loop: "scan_loop limit [] es = Ok kvs"
    by (auto simp: scan_values_def try_bind_Ok_iff)
  from scan_loop_Ok [OF loop] have eq: "es = map Ok kvs" and "length kvs \<le> limit" by auto
  then show "length kvs \<le> limit" by simp
  from redb_okD(9) [OF assms(1) es [unfolded eq]] show "sorted_wrt (<) (map fst kvs)" .
  from redb_okD(10) [OF assms(1) es [unfolded eq], of k v] prefix_end_range [OF stop, of k]
  show "(k, v) \<in> set kvs \<longleftrightarrow> starts_with k prefix \<and> contents d k = Some v" by blast
qed

section \<open>The abstract store\<close>

text \<open>
  What a client may assume of one command on a map: reads and scans report the current contents,
  writes that succeed take effect, writes that fail take effect completely or not at all.
\<close>

inductive store_step :: "(str \<Rightarrow> bytes option) \<Rightarrow> command \<Rightarrow> reply \<Rightarrow> (str \<Rightarrow> bytes option) \<Rightarrow> bool" where
  get_ok: "store_step m (Get k) (Reply_Get (Ok (m k))) m"
| get_err: "store_step m (Get k) (Reply_Get (Err e)) m"
| put_ok: "store_step m (Put k v) (Reply_Write (Ok u)) (m(k := Some v))"
| put_err: "m' = m \<or> m' = m(k := Some v) \<Longrightarrow> store_step m (Put k v) (Reply_Write (Err e)) m'"
| delete_ok: "store_step m (Delete k) (Reply_Write (Ok u)) (m(k := None))"
| delete_err: "m' = m \<or> m' = m(k := None) \<Longrightarrow> store_step m (Delete k) (Reply_Write (Err e)) m'"
| apply_ok: "store_step m (Apply cs) (Reply_Write (Ok u)) (foldl change_map m cs)"
| apply_err: "m' = m \<or> m' = foldl change_map m cs \<Longrightarrow> store_step m (Apply cs) (Reply_Write (Err e)) m'"
| scan_ok: "sorted_wrt (<) (map fst kvs) \<Longrightarrow> length kvs \<le> limit \<Longrightarrow>
    (\<And>k v. (k, v) \<in> set kvs \<longleftrightarrow> starts_with k prefix \<and> m k = Some v) \<Longrightarrow>
    store_step m (Scan prefix limit) (Reply_Scan (Ok kvs)) m"
| scan_err: "store_step m (Scan prefix limit) (Reply_Scan (Err e)) m"
| backup: "store_step m (Backup destination) (Reply_Write r) m"
| stop: "store_step m Stop Reply_Stop m"

inductive store_run ::
  "(str \<Rightarrow> bytes option) \<Rightarrow> (nat \<times> command \<times> reply) list \<Rightarrow> (str \<Rightarrow> bytes option) \<Rightarrow> bool" where
  store_run_Nil: "store_run m [] m"
| store_run_snoc: "store_run m log m' \<Longrightarrow> store_step m' c r m'' \<Longrightarrow> store_run m (log @ [(token, c, r)]) m''"

lemma execute_simulates:
  assumes "redb_ok db contents view" and "\<And>d'. reopen d = Ok d' \<Longrightarrow> contents d' = contents d"
    and "execute db copied reopen d c = (r, next_db)"
  shows "\<exists>m'. store_step (contents d) c r m' \<and> (\<forall>d'. next_db = Some d' \<longrightarrow> contents d' = m')"
proof (cases c)
  case (Get k)
  with assms(3) have "r = Reply_Get (get_value db d k)" "next_db = Some d" by (simp_all add: execute_def)
  moreover have "get_value db d k = Ok v \<Longrightarrow> v = contents d k" for v
    using redb_okD(1) [OF assms(1)] by (auto simp: get_value_def)
  ultimately show ?thesis unfolding Get
    by (cases "get_value db d k") (auto intro: store_step.intros)
next
  case (Put k v)
  obtain res d' where p: "put_value db d k v = (res, d')" by force
  note a = put_value_atomic [OF assms(1) p]
  from Put p assms(3) have "r = Reply_Write res" "next_db = Some d'" by (simp_all add: execute_def)
  with a show ?thesis unfolding Put by (cases res) (auto intro: store_step.intros)
next
  case (Delete k)
  obtain res d' where p: "delete_value db d k = (res, d')" by force
  note a = delete_value_atomic [OF assms(1) p]
  from Delete p assms(3) have "r = Reply_Write res" "next_db = Some d'" by (simp_all add: execute_def)
  with a show ?thesis unfolding Delete by (cases res) (auto intro: store_step.intros)
next
  case (Apply cs)
  obtain res d' where p: "apply_values db d cs = (res, d')" by force
  note a = apply_values_atomic [OF assms(1) p]
  from Apply p assms(3) have "r = Reply_Write res" "next_db = Some d'" by (simp_all add: execute_def)
  with a show ?thesis unfolding Apply by (cases res) (auto intro: store_step.intros)
next
  case (Scan prefix limit)
  with assms(3) have r: "r = Reply_Scan (scan_values db d prefix limit)" "next_db = Some d" by (simp_all add: execute_def)
  have "store_step (contents d) (Scan prefix limit) (Reply_Scan (scan_values db d prefix limit)) (contents d)"
  proof (cases "scan_values db d prefix limit")
    case (Ok kvs)
    from scan_values_Ok [OF assms(1) Ok] show ?thesis unfolding Ok by (rule scan_ok)
  qed (simp add: scan_err)
  with r show ?thesis unfolding Scan by auto
next
  case (Backup destination)
  with assms(2,3) show ?thesis
    by (cases "reopen d") (auto simp: execute_def intro: store_step.intros)
next
  case Stop
  with assms(3) show ?thesis by (auto simp: execute_def intro: store_step.intros)
qed

section \<open>Interleaved runs\<close>

text \<open>Client calls, receives and turns of the worker thread, in any order.\<close>

datatype 'd storage_op =
    Call command
  | Shutdown
  | Receive nat
  | Worker "(unit, storage_error) result" "'d \<Rightarrow> ('d, storage_error) result"

fun storage_call :: "'d storage_worker \<Rightarrow> command \<Rightarrow> (nat, storage_error) result \<times> 'd storage_worker" where
  "storage_call w (Get k) = storage_get w k"
| "storage_call w (Put k v) = storage_put w k v"
| "storage_call w (Delete k) = storage_delete w k"
| "storage_call w (Apply cs) = storage_apply w cs"
| "storage_call w (Scan p n) = storage_scan w p n"
| "storage_call w (Backup dest) = storage_backup w dest"
| "storage_call w Stop = (Err Storage_Invalid, w)"

text \<open>A step yields the worker, the accepted command and the received reply.\<close>

fun storage_step ::
  "('d, 't) redb \<Rightarrow> 'd storage_worker \<Rightarrow> 'd storage_op \<Rightarrow>
     'd storage_worker \<times> (nat \<times> command) list \<times> (nat \<times> reply) list" where
  "storage_step db w (Call c) = (case storage_call w c of
     (Ok t, w') \<Rightarrow> (w', [(t, c)], []) | (Err e, w') \<Rightarrow> (w', [], []))"
| "storage_step db w Shutdown = (case start_shutdown w of
     (Ok _, w') \<Rightarrow> (w', if sw_stopping w = None then [(sw_next_token w, Stop)] else [], [])
   | (Err e, w') \<Rightarrow> (w', [], []))"
| "storage_step db w (Receive t) = (case try_recv w t of
     (Received r, w') \<Rightarrow> (w', [], [(t, r)]) | (_, w') \<Rightarrow> (w', [], []))"
| "storage_step db w (Worker copied reopen) = (worker_step db copied reopen w, [], [])"

fun storage_run ::
  "('d, 't) redb \<Rightarrow> 'd storage_worker \<Rightarrow> 'd storage_op list \<Rightarrow>
     'd storage_worker \<times> (nat \<times> command) list \<times> (nat \<times> reply) list" where
  "storage_run db w [] = (w, [], [])"
| "storage_run db w (a # as) =
     (let (w1, acc1, rec1) = storage_step db w a; (w2, acc2, rec2) = storage_run db w1 as
      in (w2, acc1 @ acc2, rec1 @ rec2))"

text \<open>Reopening after a backup finds the contents that were there.\<close>

fun reopen_ok :: "('d \<Rightarrow> str \<Rightarrow> bytes option) \<Rightarrow> 'd storage_op \<Rightarrow> bool" where
  "reopen_ok contents (Worker copied reopen) \<longleftrightarrow> (\<forall>d d'. reopen d = Ok d' \<longrightarrow> contents d' = contents d)"
| "reopen_ok contents _ \<longleftrightarrow> True"

text \<open>
  The relation between a run and the abstract store: \<open>log\<close> are the commands executed so far with
  their replies, in execution order. They and the queue make up what was accepted, as long as the
  worker lives; posted and received replies are those of the log.
\<close>

definition storage_rel ::
  "('d \<Rightarrow> str \<Rightarrow> bytes option) \<Rightarrow> (str \<Rightarrow> bytes option) \<Rightarrow> 'd storage_worker \<Rightarrow> (nat \<times> command) list \<Rightarrow>
     (nat \<times> reply) list \<Rightarrow> (nat \<times> command \<times> reply) list \<Rightarrow> bool" where
  "storage_rel contents m0 w accepted received log \<longleftrightarrow>
     (\<exists>m. store_run m0 log m \<and> (\<forall>d. sw_database w = Some d \<longrightarrow> contents d = m)) \<and>
     (\<exists>lost. accepted = map (\<lambda>(t, c, r). (t, c)) log @ sw_queue w @ lost \<and>
        (sw_database w \<noteq> None \<longrightarrow> lost = [])) \<and>
     (\<forall>t r. (t, r) \<in> set (sw_replies w) \<union> set received \<longrightarrow> (\<exists>c. (t, c, r) \<in> set log)) \<and>
     map fst accepted = [0..<sw_next_token w]"

lemma guarded_send_Ok:
  "guarded_send g w c = (Ok t, w') \<Longrightarrow> t = sw_next_token w \<and> sw_database w \<noteq> None \<and> sw_stopping w = None \<and>
     length (sw_queue w) < sw_capacity w \<and>
     w' = w\<lparr>sw_queue := sw_queue w @ [(t, c)], sw_next_token := Suc t\<rparr>"
  by (auto simp: guarded_send_def storage_send_def split: result.splits if_splits)

lemma guarded_send_Err: "guarded_send g w c = (Err e, w') \<Longrightarrow> w' = w"
  by (auto simp: guarded_send_def storage_send_def split: result.splits if_splits)

lemma storage_call_cases:
  obtains e where "storage_call w c = (Err e, w)"
  | "storage_call w c = (Ok (sw_next_token w),
       w\<lparr>sw_queue := sw_queue w @ [(sw_next_token w, c)], sw_next_token := Suc (sw_next_token w)\<rparr>)"
    and "sw_database w \<noteq> None" and "length (sw_queue w) < sw_capacity w"
proof (cases "c = Stop")
  case True
  then show ?thesis by (intro that(1)) simp
next
  case False
  then obtain g where g: "storage_call w c = guarded_send g w c"
    by (cases c) (auto simp: storage_get_def storage_put_def storage_delete_def storage_apply_def
        storage_scan_def storage_backup_def)
  obtain r w' where r: "guarded_send g w c = (r, w')" by force
  show ?thesis
  proof (cases r)
    case (Ok t)
    with r g guarded_send_Ok [of g w c t w'] that(2) show ?thesis by auto
  next
    case (Err e)
    with r g guarded_send_Err [of g w c e w'] that(1) show ?thesis by auto
  qed
qed

lemma rel_enqueue:
  assumes "storage_rel contents m0 w accepted received log" and "sw_database w \<noteq> None"
    and "w' = w\<lparr>sw_queue := sw_queue w @ [(sw_next_token w, c)], sw_next_token := Suc (sw_next_token w), sw_stopping := st\<rparr>"
  shows "storage_rel contents m0 w' (accepted @ [(sw_next_token w, c)]) received log"
  using assms by (auto simp: storage_rel_def)

lemma rel_worker:
  assumes db: "redb_ok db contents view" and reopen: "\<And>d d'. reopen d = Ok d' \<Longrightarrow> contents d' = contents d"
    and rel: "storage_rel contents m0 w accepted received log"
  shows "\<exists>log'. storage_rel contents m0 (worker_step db copied reopen w) accepted received log'"
proof (cases "\<exists>d t c rest. sw_database w = Some d \<and> sw_queue w = (t, c) # rest")
  case False
  then have "worker_step db copied reopen w = w"
    by (cases "sw_database w"; cases "sw_queue w") (auto simp: worker_step_def)
  with rel show ?thesis by auto
next
  case True
  then obtain d t c rest where d: "sw_database w = Some d" and q: "sw_queue w = (t, c) # rest" by blast
  obtain r n where e: "execute db copied reopen d c = (r, n)" by force
  let ?log = "log @ [(t, c, r)]"
  from execute_simulates [OF db reopen e] obtain m'
    where m': "store_step (contents d) c r m'" "\<forall>d'. n = Some d' \<longrightarrow> contents d' = m'" by blast
  from rel d have run: "store_run m0 log (contents d)" by (auto simp: storage_rel_def)
  have run': "store_run m0 ?log m'" by (rule store_run_snoc [OF run m'(1)])
  from rel d q have acc: "accepted = map (\<lambda>(t, c, r). (t, c)) ?log @ rest" by (auto simp: storage_rel_def)
  have "storage_rel contents m0 (worker_step db copied reopen w) accepted received ?log"
  proof (cases n)
    case None
    with d q e have w': "worker_step db copied reopen w =
        w\<lparr>sw_queue := [], sw_database := None, sw_replies := sw_replies w @ [(t, r)]\<rparr>"
      by (simp add: worker_step_def)
    from rel run' acc show ?thesis unfolding storage_rel_def w' by (auto; blast)
  next
    case (Some d')
    with d q e have w': "worker_step db copied reopen w =
        w\<lparr>sw_queue := rest, sw_database := Some d', sw_replies := sw_replies w @ [(t, r)]\<rparr>"
      by (simp add: worker_step_def)
    from rel run' acc m'(2) Some show ?thesis unfolding storage_rel_def w' by (auto; blast)
  qed
  then show ?thesis by blast
qed

lemma rel_receive:
  assumes "storage_rel contents m0 w accepted received log" and "storage_step db w (Receive t) = (w', acc, rec)"
  shows "storage_rel contents m0 w' (accepted @ acc) (received @ rec) log"
proof (cases "map_of (sw_replies w) t")
  case None
  with assms show ?thesis by (auto simp: try_recv_def split: if_splits)
next
  case (Some r)
  then have "(t, r) \<in> set (sw_replies w)" by (rule map_of_SomeD)
  with Some assms show ?thesis by (auto simp: try_recv_def storage_rel_def)
qed

lemma rel_step:
  assumes db: "redb_ok db contents view" and "reopen_ok contents a"
    and rel: "storage_rel contents m0 w accepted received log" and step: "storage_step db w a = (w', acc, rec)"
  shows "\<exists>log'. storage_rel contents m0 w' (accepted @ acc) (received @ rec) log'"
proof (cases a)
  case (Call c)
  show ?thesis
  proof (cases rule: storage_call_cases [of w c])
    case (1 e)
    with Call step rel show ?thesis by auto
  next
    case 2
    let ?w = "w\<lparr>sw_queue := sw_queue w @ [(sw_next_token w, c)], sw_next_token := Suc (sw_next_token w)\<rparr>"
    have "?w = w\<lparr>sw_queue := sw_queue w @ [(sw_next_token w, c)], sw_next_token := Suc (sw_next_token w),
        sw_stopping := sw_stopping w\<rparr>" by simp
    from rel_enqueue [OF rel 2(2) this] 2(1) Call step show ?thesis by auto
  qed
next
  case Shutdown
  obtain r w1 where s: "storage_send w Stop = (r, w1)" by force
  show ?thesis
  proof (cases "sw_stopping w = None \<and> (\<exists>t. r = Ok t)")
    case True
    with s obtain t where st: "sw_stopping w = None" "storage_send w Stop = (Ok t, w1)" by auto
    then have "guarded_send (Ok ()) w Stop = (Ok t, w1)" by (simp add: guarded_send_def)
    note g = guarded_send_Ok [OF this]
    with st Shutdown step have "w' = w\<lparr>sw_queue := sw_queue w @ [(sw_next_token w, Stop)],
        sw_next_token := Suc (sw_next_token w), sw_stopping := Some (sw_next_token w)\<rparr>"
      "acc = [(sw_next_token w, Stop)]" "rec = []"
      by (auto simp: start_shutdown_def)
    with rel_enqueue [OF rel _ this(1)] g show ?thesis by auto
  next
    case False
    with s have "w' = w \<and> acc = [] \<and> rec = []"
      using Shutdown step guarded_send_Err [of "Ok ()" w Stop _ w1]
      by (cases r) (auto simp: start_shutdown_def guarded_send_def split: if_splits)
    with rel show ?thesis by auto
  qed
next
  case (Receive t)
  with rel_receive [OF rel] step show ?thesis by blast
next
  case (Worker copied reopen)
  with rel_worker [OF db _ rel, of reopen copied] assms(2) step show ?thesis by auto
qed

lemma rel_run:
  assumes "redb_ok db contents view" and "list_all (reopen_ok contents) ops"
    and "storage_rel contents m0 w accepted received log" and "storage_run db w ops = (w', acc, rec)"
  shows "\<exists>log'. storage_rel contents m0 w' (accepted @ acc) (received @ rec) log'"
  using assms(2-)
proof (induction ops arbitrary: w w' accepted received log acc rec)
  case Nil
  then show ?case by auto
next
  case (Cons a as)
  obtain w1 acc1 rec1 where s: "storage_step db w a = (w1, acc1, rec1)" by (metis prod_cases3)
  obtain w2 acc2 rec2 where r: "storage_run db w1 as = (w2, acc2, rec2)" by (metis prod_cases3)
  from rel_step [OF assms(1) _ Cons.prems(2) s] Cons.prems(1) obtain log1
    where rel1: "storage_rel contents m0 w1 (accepted @ acc1) (received @ rec1) log1" by auto
  from Cons.IH [OF _ rel1 r] Cons.prems(1,3) s r show ?case by auto
qed

lemma storage_step_bounded:
  "length (sw_queue w) \<le> sw_capacity w \<Longrightarrow> storage_step db w a = (w', acc, rec) \<Longrightarrow>
     length (sw_queue w') \<le> sw_capacity w' \<and> sw_capacity w' = sw_capacity w"
proof (cases a)
  case (Call c)
  assume "length (sw_queue w) \<le> sw_capacity w" and "storage_step db w a = (w', acc, rec)"
  with Call show ?thesis by (cases rule: storage_call_cases [of w c]) auto
next
  case Shutdown
  assume "length (sw_queue w) \<le> sw_capacity w" and "storage_step db w a = (w', acc, rec)"
  with Shutdown show ?thesis by (auto simp: start_shutdown_def storage_send_def split: if_splits)
next
  case (Receive t)
  assume "length (sw_queue w) \<le> sw_capacity w" and "storage_step db w a = (w', acc, rec)"
  with Receive show ?thesis by (auto simp: try_recv_def split: option.splits if_splits)
next
  case (Worker copied reopen)
  assume "length (sw_queue w) \<le> sw_capacity w" and "storage_step db w a = (w', acc, rec)"
  with Worker show ?thesis by (auto simp: worker_step_def split: option.splits list.splits prod.splits)
qed

lemma storage_run_bounded:
  "length (sw_queue w) \<le> sw_capacity w \<Longrightarrow> storage_run db w ops = (w', acc, rec) \<Longrightarrow>
     length (sw_queue w') \<le> sw_capacity w' \<and> sw_capacity w' = sw_capacity w"
proof (induction ops arbitrary: w w' acc rec)
  case (Cons a as)
  obtain w1 acc1 rec1 where s: "storage_step db w a = (w1, acc1, rec1)" by (metis prod_cases3)
  obtain w2 acc2 rec2 where r: "storage_run db w1 as = (w2, acc2, rec2)" by (metis prod_cases3)
  from storage_step_bounded [OF Cons.prems(1) s] Cons.IH [OF _ r] Cons.prems(2) s r show ?case by auto
qed simp

section \<open>A list as database\<close>

text \<open>An instance of the interface to redb on association lists.\<close>

definition example_range :: "(str \<times> bytes) list \<Rightarrow> str \<Rightarrow> str \<Rightarrow> (str \<times> bytes) list" where
  "example_range d a b = map (\<lambda>k. (k, the (map_of d k))) (sort (remdups (filter (\<lambda>k. a \<le> k \<and> k < b) (map fst d))))"

definition example_redb :: "((str \<times> bytes) list, (str \<times> bytes) list) redb" where
  "example_redb = \<lparr>rd_get = \<lambda>d k. Ok (map_of d k), rd_range = \<lambda>d a b. Ok (map Ok (example_range d a b)),
     rd_begin_write = Ok, rd_set_durability = Ok, rd_open_table = Ok,
     rd_insert = \<lambda>t k v. Ok ((k, v) # t), rd_remove = \<lambda>t k. Ok (filter (\<lambda>(k', _). k' \<noteq> k) t),
     rd_commit = \<lambda>d t. (Ok (), t)\<rparr>"

lemma example_range_ok:
  "sorted_wrt (<) (map fst (example_range d a b))"
  "(k, v) \<in> set (example_range d a b) \<longleftrightarrow> a \<le> k \<and> k < b \<and> map_of d k = Some v"
proof -
  have "map fst (example_range d a b) = sort (remdups (filter (\<lambda>k. a \<le> k \<and> k < b) (map fst d)))"
    by (simp add: example_range_def comp_def)
  then show "sorted_wrt (<) (map fst (example_range d a b))" by (simp add: strict_sorted_iff)
  have "k \<in> fst ` set d \<Longrightarrow> map_of d k = Some (the (map_of d k))"
    by (cases "map_of d k") (auto simp: map_of_eq_None_iff)
  moreover have "map_of d k = Some v \<Longrightarrow> k \<in> fst ` set d" by (force dest: map_of_SomeD)
  ultimately show "(k, v) \<in> set (example_range d a b) \<longleftrightarrow> a \<le> k \<and> k < b \<and> map_of d k = Some v"
    by (auto simp: example_range_def image_iff)
qed

lemma map_of_removed: "map_of (filter (\<lambda>(k', _). k' \<noteq> k) t) = (map_of t)(k := None)"
  by (induction t) auto

lemma example_redb_ok: "redb_ok example_redb map_of map_of"
  unfolding redb_ok_def example_redb_def
  by (auto simp: map_of_removed example_range_ok inj_on_def dest!: map_injective)

section \<open>Properties\<close>

text \<open>C24. Linearizability of the storage worker. However calls, shutdown, receipt of replies and
  turns of the worker interleave, the executed commands are the accepted ones in the order of
  acceptance (the last ones are missing only while they wait or when the worker stopped), every
  reply received is the one of its command in a sequential execution from the contents the database
  had when it was opened, the database holds what that execution leaves, and the queue stays bounded.\<close>

theorem storage_linearizable:
  assumes "redb_ok db contents view" and "list_all (reopen_ok contents) ops"
    and "storage_open cache_bytes max_database_bytes queue_capacity (Ok d) = Ok w"
    and "storage_run db w ops = (w', accepted, received)"
  shows "\<exists>log m lost. store_run (contents d) log m \<and> (\<forall>d'. sw_database w' = Some d' \<longrightarrow> contents d' = m \<and> lost = []) \<and>
    accepted = map (\<lambda>(token, c, r). (token, c)) log @ sw_queue w' @ lost \<and> distinct (map fst accepted) \<and>
    (\<forall>token r. (token, r) \<in> set received \<longrightarrow> (\<exists>c. (token, c, r) \<in> set log)) \<and>
    length (sw_queue w') \<le> queue_capacity"
proof -
  from assms(3) have w: "w = \<lparr>sw_capacity = queue_capacity, sw_queue = [], sw_next_token = 0,
      sw_replies = [], sw_database = Some d, sw_stopping = None, sw_joinable = True\<rparr>"
    by (auto simp: storage_open_def split: if_splits)
  have "storage_rel contents (contents d) w [] [] []"
    by (auto simp: storage_rel_def w intro: store_run_Nil)
  from rel_run [OF assms(1,2) this assms(4)] obtain log
    where rel: "storage_rel contents (contents d) w' accepted received log" by auto
  from storage_run_bounded [OF _ assms(4)] have "length (sw_queue w') \<le> queue_capacity" by (simp add: w)
  from rel obtain m lost where "store_run (contents d) log m" "\<forall>d'. sw_database w' = Some d' \<longrightarrow> contents d' = m \<and> lost = []"
    "accepted = map (\<lambda>(token, c, r). (token, c)) log @ sw_queue w' @ lost"
    unfolding storage_rel_def by auto
  moreover from rel have "distinct (map fst accepted)" unfolding storage_rel_def by simp
  moreover from rel have "\<forall>token r. (token, r) \<in> set received \<longrightarrow> (\<exists>c. (token, c, r) \<in> set log)"
    unfolding storage_rel_def by simp
  ultimately show ?thesis using \<open>length (sw_queue w') \<le> queue_capacity\<close> by blast
qed

definition example_storage_ops :: "(str \<times> bytes) list storage_op list" where
  "example_storage_ops = [Call (Put (str_lit ''user/a'') [1]), Call (Get (str_lit ''user/a'')),
     Worker (Ok ()) Ok, Call (Scan (str_lit ''user/'') 4), Worker (Ok ()) Ok, Receive 1, Shutdown,
     Worker (Ok ()) Ok, Worker (Ok ()) Ok, Receive 2]"

definition example_worker :: "(str \<times> bytes) list storage_worker" where
  "example_worker = \<lparr>sw_capacity = 2, sw_queue = [], sw_next_token = 0, sw_replies = [], sw_database = Some [],
     sw_stopping = None, sw_joinable = True\<rparr>"

lemma example_storage_run:
  "snd (snd (storage_run example_redb example_worker example_storage_ops)) =
     [(1, Reply_Get (Ok (Some [1]))), (2, Reply_Scan (Ok [(str_lit ''user/a'', [1])]))]"
  by code_simp

theorem storage_linearizable_witness:
  "\<exists>w' accepted received log m lost.
     storage_run example_redb example_worker example_storage_ops = (w', accepted, received) \<and>
     received = [(1, Reply_Get (Ok (Some [1]))), (2, Reply_Scan (Ok [(str_lit ''user/a'', [1])]))] \<and>
     store_run Map.empty log m \<and> accepted = map (\<lambda>(token, c, r). (token, c)) log @ sw_queue w' @ lost"
proof -
  obtain w' accepted received where
    run: "storage_run example_redb example_worker example_storage_ops = (w', accepted, received)" by (metis prod_cases3)
  have ops: "list_all (reopen_ok map_of) example_storage_ops" by (simp add: example_storage_ops_def)
  have "storage_open 1 1 2 (Ok []) = Ok example_worker" by (simp add: storage_open_def example_worker_def)
  from storage_linearizable [OF example_redb_ok ops this run] obtain log m lost
    where "store_run (map_of []) log m" "accepted = map (\<lambda>(token, c, r). (token, c)) log @ sw_queue w' @ lost" by blast
  then have "store_run Map.empty log m \<and> accepted = map (\<lambda>(token, c, r). (token, c)) log @ sw_queue w' @ lost"
    by (simp only: map_of.simps simp_thms)
  moreover have "received = [(1, Reply_Get (Ok (Some [1]))), (2, Reply_Scan (Ok [(str_lit ''user/a'', [1])]))]"
    using example_storage_run unfolding run by simp
  ultimately show ?thesis using run by blast
qed

text \<open>A scan is exact. When a scan succeeds it returns the stored entries whose key starts with
  the prefix, all of them and nothing else, each once in increasing order of the keys, and at most
  as many as the limit; the exclusive upper end of the range, the prefix with its last byte
  incremented, loses and adds no key.\<close>

theorem scan_values_exact:
  assumes "redb_ok db contents view" and "scan_values db d prefix limit = Ok kvs"
  shows "set kvs = {(k, v). starts_with k prefix \<and> contents d k = Some v} \<and>
    sorted_wrt (<) (map fst kvs) \<and> length kvs \<le> limit"
  using scan_values_Ok [OF assms] by auto

definition example_contents :: "(str \<times> bytes) list" where
  "example_contents = [(str_lit ''user/b'', [2]), (str_lit ''userx'', [3]), (str_lit ''user/a'', [1])]"

theorem scan_values_exact_witness:
  "scan_values example_redb example_contents (str_lit ''user/'') 2 =
     Ok [(str_lit ''user/a'', [1]), (str_lit ''user/b'', [2])] \<and>
   set [(str_lit ''user/a'', [1]), (str_lit ''user/b'', [2])] =
     {(k, v). starts_with k (str_lit ''user/'') \<and> map_of example_contents k = Some v}"
proof -
  have s: "scan_values example_redb example_contents (str_lit ''user/'') 2 =
     Ok [(str_lit ''user/a'', [1]), (str_lit ''user/b'', [2])]" by code_simp
  from s scan_values_exact [OF example_redb_ok s, THEN conjunct1] show ?thesis by (rule conjI)
qed

end
