(* ===== verification/Socket_Addr.thy ===== *)
theory Socket_Addr
  imports Net_Addr
begin

text \<open>
  \<open>octets()\<close> of the standard library's address types with its inverse, and \<open>std::net::SocketAddr\<close>
  with its text syntax (\<open>1.2.3.4:80\<close>, \<open>[::1%2]:80\<close>).
\<close>

section \<open>Octets\<close>

definition octets :: "'n::len word \<Rightarrow> bytes" where
  "octets w = map (\<lambda>i. ucast (drop_bit (8 * i) w)) (rev [0..<LENGTH('n) div 8])"

definition nat_octets :: "nat \<Rightarrow> nat \<Rightarrow> bytes" where
  "nat_octets n m = map (\<lambda>i. of_nat (m div 256 ^ i)) (rev [0..<n])"

lemma length_octets [simp]: "length (octets w) = LENGTH('n) div 8" for w :: "'n::len word"
  by (simp add: octets_def)

lemma ucast_drop_octet: "ucast (drop_bit (8 * i) w) = (of_nat (unat w div 256 ^ i) :: u8)" for w :: "'n::len word"
proof -
  have "unat (drop_bit (8 * i) w) = unat w div 256 ^ i"
    unfolding unat_drop_bit_eq by (simp add: drop_bit_eq_div power_mult)
  then show ?thesis by (metis of_nat_unat)
qed

lemma octets_nat: "octets w = nat_octets (LENGTH('n) div 8) (unat w)" for w :: "'n::len word"
  by (simp add: octets_def nat_octets_def ucast_drop_octet)

lemma be_value_nat_octets: "be_value (nat_octets n m) = m mod 256 ^ n"
proof (induction n arbitrary: m)
  case (Suc n)
  have "nat_octets (Suc n) m = nat_octets n (m div 256) @ [of_nat m]"
    unfolding nat_octets_def
    by (simp add: upt_conv_Cons map_Suc_upt [symmetric] rev_map comp_def div_mult2_eq del: upt_Suc)
  then have "be_value (nat_octets (Suc n) m) = m div 256 mod 256 ^ n * 256 + m mod 256"
    using Suc [of "m div 256"] by (simp add: be_value_snoc unat_of_nat8)
  then show ?case by (simp add: mod_mult2_eq mult.commute)
qed (simp add: be_value_def nat_octets_def)

lemma be_value_inj: "length xs = length ys \<Longrightarrow> be_value xs = be_value ys \<Longrightarrow> xs = ys"
proof (induction xs arbitrary: ys rule: rev_induct)
  case (snoc x xs)
  from snoc.prems(1) obtain ys' y where ys: "ys = ys' @ [y]" by (cases ys rule: rev_cases) auto
  with snoc.prems(2) have eq: "be_value xs * 256 + unat x = be_value ys' * 256 + unat y"
    by (simp add: be_value_snoc)
  from arg_cong [OF eq, of "\<lambda>n. n mod 256"] have x: "unat x = unat y"
    using unat_u8_less [of x] unat_u8_less [of y] by simp
  with eq have "be_value xs = be_value ys'" by simp
  moreover from x have "x = y" by (simp add: word_unat_eq_iff)
  ultimately show ?case using snoc ys by simp
qed simp

lemma word_of_octets_nat: "word_of_octets bs = (of_nat (be_value bs) :: 'n::len word)"
proof (induction bs rule: rev_induct)
  case (snoc b bs)
  have "word_of_octets (bs @ [b]) = word_of_octets bs * 256 + (ucast b :: 'n word)" by (simp add: word_of_octets_def)
  then show ?case using snoc by (simp add: be_value_snoc)
qed (simp add: word_of_octets_def be_value_def)

lemma word_of_octets_octets: "word_of_octets (octets w) = w" if "LENGTH('n) mod 8 = 0" for w :: "'n::len word"
proof -
  from that obtain k where "LENGTH('n) = 8 * k" by (auto simp: mod_eq_0_iff_dvd)
  then have "(256::nat) ^ (LENGTH('n) div 8) = 2 ^ LENGTH('n)" by (simp add: power_mult)
  then show ?thesis by (simp add: word_of_octets_nat octets_nat be_value_nat_octets)
qed

lemma octets_word_of_octets: "octets (word_of_octets bs :: 'n word) = bs" if "8 * length bs = LENGTH('n::len)"
proof (rule be_value_inj)
  have e: "(256::nat) ^ length bs = 2 ^ LENGTH('n)" by (simp add: that [symmetric] power_mult)
  have "be_value (octets (word_of_octets bs :: 'n word)) = unat (of_nat (be_value bs) :: 'n word) mod 256 ^ length bs"
    by (simp add: octets_nat be_value_nat_octets word_of_octets_nat that [symmetric])
  then show "be_value (octets (word_of_octets bs :: 'n word)) = be_value bs"
    using be_value_less [of bs] by (simp add: unat_of_nat e)
qed (simp add: that [symmetric])

section \<open>Socket addresses\<close>

datatype socket_addr = Sock_V4 u32 u16 | Sock_V6 u128 u16 u32 u32

fun sock_ip :: "socket_addr \<Rightarrow> ip_addr" where
  "sock_ip (Sock_V4 a p) = V4 a"
| "sock_ip (Sock_V6 a p flowinfo scope) = V6 a"

definition sock_new :: "ip_addr \<Rightarrow> u16 \<Rightarrow> socket_addr" where
  "sock_new ip port = (case ip of V4 a \<Rightarrow> Sock_V4 a port | V6 a \<Rightarrow> Sock_V6 a port 0 0)"

text \<open>Decimal numbers without a limit on the digits: overflow makes the reader fail.\<close>

fun read_decimal_loop :: "int \<Rightarrow> int \<Rightarrow> nat \<Rightarrow> str \<Rightarrow> (int \<times> nat \<times> str) option" where
  "read_decimal_loop max_value acc count [] = Some (acc, count, [])"
| "read_decimal_loop max_value acc count (b # bs) = (case char_digit 10 b of
     None \<Rightarrow> Some (acc, count, b # bs)
   | Some d \<Rightarrow> if max_value < acc * 10 + int d then None
              else read_decimal_loop max_value (acc * 10 + int d) (Suc count) bs)"

definition read_decimal :: "int \<Rightarrow> str \<Rightarrow> (int \<times> str) option" where
  "read_decimal max_value s = (case read_decimal_loop max_value 0 0 s of
     None \<Rightarrow> None | Some (v, count, rest) \<Rightarrow> if count = 0 then None else Some (v, rest))"

definition read_port :: "str \<Rightarrow> (u16 \<times> str) option" where
  "read_port s = Option.bind (read_given_char 58 s) (\<lambda>rest. map_option (\<lambda>(v, r). (of_int v, r)) (read_decimal 65535 rest))"

definition read_scope :: "str \<Rightarrow> (u32 \<times> str) option" where
  "read_scope s = Option.bind (read_given_char 37 s) (\<lambda>rest. map_option (\<lambda>(v, r). (of_int v, r)) (read_decimal 4294967295 rest))"

definition read_sock_v4 :: "str \<Rightarrow> (socket_addr \<times> str) option" where
  "read_sock_v4 s = Option.bind (read_ipv4 s) (\<lambda>(a, rest). map_option (\<lambda>(p, r). (Sock_V4 a p, r)) (read_port rest))"

definition read_sock_v6 :: "str \<Rightarrow> (socket_addr \<times> str) option" where
  "read_sock_v6 s =
     Option.bind (read_given_char 91 s) (\<lambda>r0.
     Option.bind (read_ipv6 r0) (\<lambda>(a, r1).
     let (scope, r2) = (case read_scope r1 of Some x \<Rightarrow> x | None \<Rightarrow> (0, r1)) in
     Option.bind (read_given_char 93 r2) (\<lambda>r3.
     map_option (\<lambda>(p, r). (Sock_V6 a p 0 scope, r)) (read_port r3))))"

definition parse_sock :: "str \<Rightarrow> socket_addr option" where
  "parse_sock s = (case (case read_sock_v4 s of Some x \<Rightarrow> Some x | None \<Rightarrow> read_sock_v6 s) of
     Some (a, []) \<Rightarrow> Some a | _ \<Rightarrow> None)"

end
