(* ===== verification/Socks5_Codec.thy ===== *)
theory Socks5_Codec
  imports Socket_Addr
begin

text \<open>
  The SOCKS5 messages of the adapter (\<^verbatim>\<open>adapter-socks5/src/lib.rs\<close>): requests, the UDP request
  header, replies, and the options.
\<close>

section \<open>Data\<close>

datatype socks_command = Connect | UdpAssociate

datatype address = Ipv4 u32 | Ipv6 u128 | Domain str

record request =
  rq_command :: socks_command
  rq_address :: address
  rq_port :: u16

record udp_packet =
  up_address :: address
  up_port :: u16
  up_payload :: bytes

datatype parse_error =
    Incomplete | Protocol | Bad_Command | BindUnsupported | FragmentUnsupported | Bad_Address | Port
  | TrailingBytes

section \<open>Parsing\<close>

definition socks_label :: "str \<Rightarrow> bool" where
  "socks_label label \<longleftrightarrow> label \<noteq> [] \<and> length label \<le> 63 \<and> \<not> starts_with label [45] \<and> \<not> ends_with label [45] \<and>
     list_all (\<lambda>b. is_ascii_alphanumeric b \<or> b = 45) label"

definition socks_valid_domain :: "str \<Rightarrow> bool" where
  "socks_valid_domain domain \<longleftrightarrow> length domain \<le> 253 \<and> is_ascii domain \<and> list_all socks_label (split_on 46 domain)"

definition parse_host :: "bytes \<Rightarrow> (address \<times> nat, parse_error) result" where
  "parse_host input =
     try_bind (ok_or (get_at 0 input) Incomplete) (\<lambda>kind.
       if kind = 1 then
         try_bind (ok_or (get_range 1 5 input) Incomplete) (\<lambda>bs. Ok (Ipv4 (word_of_octets bs), 5))
       else if kind = 4 then
         try_bind (ok_or (get_range 1 17 input) Incomplete) (\<lambda>bs. Ok (Ipv6 (word_of_octets bs), 17))
       else if kind = 3 then
         try_bind (ok_or (get_at 1 input) Incomplete) (\<lambda>len.
           if len = 0 then Err Bad_Address
           else try_bind (ok_or (get_range 2 (2 + unat len) input) Incomplete) (\<lambda>bs.
             try_bind (ok_or (from_utf8 bs) Bad_Address) (\<lambda>domain.
               if \<not> socks_valid_domain domain then Err Bad_Address else Ok (Domain domain, 2 + unat len))))
       else Err Bad_Address)"

definition parse_address :: "bytes \<Rightarrow> bool \<Rightarrow> (address \<times> u16 \<times> nat, parse_error) result" where
  "parse_address input allow_zero_port =
     try_bind (parse_host input) (\<lambda>(address, offset).
       try_bind (ok_or (get_range offset (offset + 2) input) Incomplete) (\<lambda>port_bytes.
         let port = word_of_octets port_bytes in
         if port = 0 \<and> \<not> allow_zero_port then Err Port else Ok (address, port, offset + 2)))"

definition parse_command :: "u8 \<Rightarrow> (socks_command, parse_error) result" where
  "parse_command b = (if b = 1 then Ok Connect else if b = 2 then Err BindUnsupported
     else if b = 3 then Ok UdpAssociate else Err Bad_Command)"

definition parse_request :: "bytes \<Rightarrow> (request, parse_error) result" where
  "parse_request input =
     (if length input < 4 \<or> input ! 0 \<noteq> 5 \<or> input ! 2 \<noteq> 0 then Err Protocol
      else try_bind (parse_command (input ! 1)) (\<lambda>command.
        try_bind (parse_address (drop 3 input) (command = UdpAssociate)) (\<lambda>(address, port, consumed).
          if consumed + 3 \<noteq> length input then Err TrailingBytes
          else Ok \<lparr>rq_command = command, rq_address = address, rq_port = port\<rparr>)))"

definition parse_udp :: "bytes \<Rightarrow> (udp_packet, parse_error) result" where
  "parse_udp input =
     (if length input < 4 \<or> take 2 input \<noteq> [0, 0] then Err Protocol
      else if input ! 2 \<noteq> 0 then Err FragmentUnsupported
      else try_bind (parse_address (drop 3 input) False) (\<lambda>(address, port, consumed).
        Ok \<lparr>up_address = address, up_port = port, up_payload = drop (3 + consumed) input\<rparr>))"

text \<open>The length of a request, once enough of it is there to know.\<close>

definition request_length :: "bytes \<Rightarrow> nat option" where
  "request_length input = Option.bind (get_at 3 input) (\<lambda>address_type.
     if address_type = 1 then Some 10
     else if address_type = 4 then Some 22
     else if address_type = 3 then map_option (\<lambda>len. 7 + unat len) (get_at 4 input)
     else Some 4)"

section \<open>Encoding\<close>

definition encode_address :: "address \<Rightarrow> bytes option" where
  "encode_address address = (case address of
     Ipv4 a \<Rightarrow> Some (1 # octets a)
   | Ipv6 a \<Rightarrow> Some (4 # octets a)
   | Domain d \<Rightarrow> if 255 < length d then None else Some ([3, of_nat (length d)] @ d))"

definition encode_udp_header :: "address \<Rightarrow> u16 \<Rightarrow> bytes option" where
  "encode_udp_header address port = map_option (\<lambda>a. [0, 0, 0] @ a @ octets port) (encode_address address)"

definition socks_response :: "u8 \<Rightarrow> bytes" where
  "socks_response reply = [5, reply, 0, 1, 0, 0, 0, 0, 0, 0]"

definition socks_bound_response :: "socket_addr \<Rightarrow> bytes" where
  "socks_bound_response address = [5, 0, 0] @ (case address of
     Sock_V4 a p \<Rightarrow> [1] @ octets a @ octets p
   | Sock_V6 a p flowinfo scope \<Rightarrow> [4] @ octets a @ octets p)"

section \<open>Options\<close>

record socks_options =
  so_listen :: str
  so_max_connections :: nat
  so_max_udp_associations :: nat
  so_max_request_bytes :: nat
  so_reject_fragments :: bool

datatype socks_config_error = Not_Utf8 | Toml_Error | Inconsistent

definition parse_socks_options :: "(str \<Rightarrow> socks_options option) \<Rightarrow> bytes \<Rightarrow> (socks_options, socks_config_error) result" where
  "parse_socks_options toml config =
     try_bind (ok_or (from_utf8 config) Not_Utf8) (\<lambda>text.
     try_bind (ok_or (toml text) Toml_Error) (\<lambda>options.
       if parse_sock (so_listen options) = None \<or> so_max_connections options = 0 \<or>
          so_max_udp_associations options = 0 \<or> so_max_request_bytes options < 262 \<or>
          \<not> so_reject_fragments options
       then Err Inconsistent else Ok options))"

section \<open>Round trip\<close>

text \<open>The addresses that occur on the wire.\<close>

fun wire_address :: "address \<Rightarrow> bool" where
  "wire_address (Domain d) \<longleftrightarrow> socks_valid_domain d"
| "wire_address _ \<longleftrightarrow> True"

lemma socks_valid_domain_not_Nil: "socks_valid_domain d \<Longrightarrow> d \<noteq> []"
  by (auto simp: socks_valid_domain_def socks_label_def)

lemma length_octets_sizes [simp]:
  "length (octets (a :: u32)) = 4" "length (octets (b :: u128)) = 16" "length (octets (p :: u16)) = 2"
  by simp_all

lemma word_octets_sizes [simp]:
  "word_of_octets (octets a) = (a :: u32)" "word_of_octets (octets b) = (b :: u128)"
  "word_of_octets (octets p) = (p :: u16)"
  by (rule word_of_octets_octets, simp)+

lemma octets_word_sizes:
  "length bs = 4 \<Longrightarrow> octets (word_of_octets bs :: u32) = bs"
  "length bs = 16 \<Longrightarrow> octets (word_of_octets bs :: u128) = bs"
  "length bs = 2 \<Longrightarrow> octets (word_of_octets bs :: u16) = bs"
  by (rule octets_word_of_octets, simp)+

text \<open>A host is parsed from its encoding whatever follows, and only from its encoding.\<close>

lemma parse_host_encode:
  assumes "wire_address address" and "encode_address address = Some a"
  shows "parse_host (a @ rest) = Ok (address, length a)"
proof (cases address)
  case (Domain d)
  with assms(1) have d: "socks_valid_domain d" "length d \<le> 253" "d \<noteq> []" "utf8_valid d"
    using socks_valid_domain_not_Nil [of d] by (auto simp: socks_valid_domain_def is_ascii_utf8_valid)
  then have "unat (of_nat (length d) :: u8) = length d" by (simp add: unat_of_nat8)
  moreover from this d have "(of_nat (length d) :: u8) \<noteq> 0" by (metis length_0_conv unat_0)
  ultimately show ?thesis using Domain assms(2) d
    by (auto simp: encode_address_def parse_host_def get_at_def get_range_def from_utf8_def)
qed (use assms in \<open>auto simp: encode_address_def parse_host_def get_at_def get_range_def\<close>)

lemma parse_host_Ok:
  assumes "parse_host input = Ok (address, n)"
  shows "wire_address address \<and> n \<le> length input \<and> encode_address address = Some (take n input)"
proof -
  from assms obtain kind where kind: "get_at 0 input = Some kind"
    by (auto simp: parse_host_def try_bind_Ok_iff)
  then obtain xs where xs: "input = kind # xs" by (cases input) (auto simp: get_at_def)
  consider "kind = 1" | "kind = 4" | "kind = 3"
    using assms kind by (cases "kind = 1"; cases "kind = 4"; cases "kind = 3"; simp add: parse_host_def)
  then show ?thesis
  proof cases
    case 1
    with assms kind have "5 \<le> length input" "address = Ipv4 (word_of_octets (take 4 (drop 1 input)))" "n = 5"
      by (simp_all add: parse_host_def try_bind_Ok_iff get_range_Some)
    with 1 xs show ?thesis by (simp add: encode_address_def octets_word_sizes)
  next
    case 2
    with assms kind have "17 \<le> length input" "address = Ipv6 (word_of_octets (take 16 (drop 1 input)))" "n = 17"
      by (simp_all add: parse_host_def try_bind_Ok_iff get_range_Some)
    with 2 xs show ?thesis by (simp add: encode_address_def octets_word_sizes)
  next
    case 3
    with assms kind obtain len where len: "get_at 1 input = Some len"
      by (auto simp: parse_host_def try_bind_Ok_iff)
    with xs obtain ys where ys: "xs = len # ys" by (cases xs) (auto simp: get_at_def)
    from 3 assms kind len have "n = 2 + unat len" "2 + unat len \<le> length input" "len \<noteq> 0"
      "address = Domain (take (unat len) (drop 2 input))" "socks_valid_domain (take (unat len) (drop 2 input))"
      by (auto simp: parse_host_def try_bind_Ok_iff get_range_Some from_utf8_def split: if_splits)
    with xs ys 3 show ?thesis using unat_u8_less [of len] by (auto simp: encode_address_def)
  qed
qed

lemma parse_address_iff:
  "parse_address input zero = Ok (address, port, n) \<longleftrightarrow>
     wire_address address \<and> (port = 0 \<longrightarrow> zero) \<and>
     (\<exists>a rest. encode_address address = Some a \<and> input = a @ octets port @ rest \<and> n = length a + 2)"
proof
  assume ok: "parse_address input zero = Ok (address, port, n)"
  then obtain m where host: "parse_host input = Ok (address, m)" and m: "m + 2 \<le> length input"
    and port: "port = word_of_octets (take 2 (drop m input))" and zero: "port = 0 \<longrightarrow> zero" and n: "n = m + 2"
    by (auto simp: parse_address_def try_bind_Ok_iff get_range_Some Let_def split: if_splits)
  from parse_host_Ok [OF host] have a: "wire_address address" "encode_address address = Some (take m input)" by auto
  from m port have "octets port = take 2 (drop m input)" by (simp add: octets_word_sizes)
  then have "take m input @ octets port @ drop (m + 2) input = input"
    by (metis append_take_drop_id drop_drop add.commute)
  with a zero n m show "wire_address address \<and> (port = 0 \<longrightarrow> zero) \<and>
     (\<exists>a rest. encode_address address = Some a \<and> input = a @ octets port @ rest \<and> n = length a + 2)"
    by (intro conjI exI [of _ "take m input"] exI [of _ "drop (m + 2) input"]) auto
next
  assume "wire_address address \<and> (port = 0 \<longrightarrow> zero) \<and>
     (\<exists>a rest. encode_address address = Some a \<and> input = a @ octets port @ rest \<and> n = length a + 2)"
  then show "parse_address input zero = Ok (address, port, n)"
    by (auto simp: parse_address_def parse_host_encode get_range_mid [where b = "octets port"] Let_def)
qed

lemma encode_address_length: "encode_address address = Some a \<Longrightarrow> 2 \<le> length a"
  by (auto simp: encode_address_def split: address.splits if_splits)

definition command_byte :: "socks_command \<Rightarrow> u8" where
  "command_byte c = (case c of Connect \<Rightarrow> 1 | UdpAssociate \<Rightarrow> 3)"

lemma parse_command_iff: "parse_command b = Ok c \<longleftrightarrow> b = command_byte c"
  by (cases c) (auto simp: parse_command_def command_byte_def)

lemma three_nth: "3 \<le> length xs \<Longrightarrow> xs = [xs ! 0, xs ! 1, xs ! 2] @ drop 3 xs"
  by (cases xs; cases "tl xs"; cases "tl (tl xs)") (auto simp: numeral_3_eq_3 numeral_2_eq_2)

text \<open>A request is accepted exactly when it is the encoding of a command, an address and a port.\<close>

lemma parse_request_iff:
  "parse_request input = Ok r \<longleftrightarrow>
     wire_address (rq_address r) \<and> (rq_port r = 0 \<longrightarrow> rq_command r = UdpAssociate) \<and>
     (\<exists>a. encode_address (rq_address r) = Some a \<and>
        input = [5, command_byte (rq_command r), 0] @ a @ octets (rq_port r))"
proof
  assume ok: "parse_request input = Ok r"
  then have len: "4 \<le> length input" and b: "input ! 0 = 5" "input ! 2 = 0"
    by (auto simp: parse_request_def split: if_splits)
  from ok len b obtain command address port consumed where
    "parse_command (input ! 1) = Ok command" and
    addr: "parse_address (drop 3 input) (command = UdpAssociate) = Ok (address, port, consumed)" and
    c: "consumed + 3 = length input" and r: "r = \<lparr>rq_command = command, rq_address = address, rq_port = port\<rparr>"
    by (auto simp: parse_request_def try_bind_Ok_iff split: if_splits)
  then have "input ! 1 = command_byte command" by (simp add: parse_command_iff)
  with three_nth [of input] len b have i: "input = [5, command_byte command, 0] @ drop 3 input" by simp
  from addr [unfolded parse_address_iff] obtain a rest where
    a: "wire_address address" "port = 0 \<longrightarrow> command = UdpAssociate" "encode_address address = Some a"
    "drop 3 input = a @ octets port @ rest" "consumed = length a + 2" by blast
  from c a(5) have "length (drop 3 input) = length a + 2" using len by simp
  with a(4) have "rest = []" by simp
  with a i r show "wire_address (rq_address r) \<and> (rq_port r = 0 \<longrightarrow> rq_command r = UdpAssociate) \<and>
     (\<exists>a. encode_address (rq_address r) = Some a \<and>
        input = [5, command_byte (rq_command r), 0] @ a @ octets (rq_port r))" by simp
next
  assume "wire_address (rq_address r) \<and> (rq_port r = 0 \<longrightarrow> rq_command r = UdpAssociate) \<and>
     (\<exists>a. encode_address (rq_address r) = Some a \<and>
        input = [5, command_byte (rq_command r), 0] @ a @ octets (rq_port r))"
  then obtain a where a: "wire_address (rq_address r)" "rq_port r = 0 \<longrightarrow> rq_command r = UdpAssociate"
    "encode_address (rq_address r) = Some a" "input = [5, command_byte (rq_command r), 0] @ a @ octets (rq_port r)" by blast
  from a have "parse_address (drop 3 input) (rq_command r = UdpAssociate) = Ok (rq_address r, rq_port r, length a + 2)"
    unfolding parse_address_iff by auto
  moreover have "parse_command (input ! 1) = Ok (rq_command r)" using a by (simp add: parse_command_iff)
  ultimately show "parse_request input = Ok r"
    using a(4) encode_address_length [OF a(3)] by (simp add: parse_request_def)
qed

lemma request_length_encoded:
  assumes "encode_address address = Some a"
  shows "request_length ([v, c, r] @ a @ octets (port :: u16) @ rest) = Some (length ([v, c, r] @ a @ octets port))"
  using assms by (auto simp: encode_address_def request_length_def get_at_def unat_of_nat8 split: address.splits if_splits)

text \<open>UDP framing is a bijection. A datagram from the client is accepted exactly when it is the
  header the adapter itself writes for a valid address and a non-zero port, followed by the payload:
  parsing inverts the encoder, and nothing else parses (in particular no fragment).\<close>

theorem udp_datagram_roundtrip:
  "parse_udp input = Ok p \<longleftrightarrow>
     wire_address (up_address p) \<and> up_port p \<noteq> 0 \<and>
     (\<exists>header. encode_udp_header (up_address p) (up_port p) = Some header \<and> input = header @ up_payload p)"
proof
  assume ok: "parse_udp input = Ok p"
  then have len: "4 \<le> length input" and b: "take 2 input = [0, 0]" "input ! 2 = 0"
    by (auto simp: parse_udp_def split: if_splits)
  from b(1) have "input ! 0 = 0" "input ! 1 = 0"
    by (metis nth_take nth_Cons_0 zero_less_numeral, metis nth_take nth_Cons_0 nth_Cons_Suc One_nat_def one_less_numeral_iff semiring_norm(76))
  with three_nth [of input] len b have i: "input = [0, 0, 0] @ drop 3 input" by simp
  from ok len b obtain address port consumed where
    addr: "parse_address (drop 3 input) False = Ok (address, port, consumed)" and
    p: "p = \<lparr>up_address = address, up_port = port, up_payload = drop (3 + consumed) input\<rparr>"
    by (auto simp: parse_udp_def try_bind_Ok_iff split: if_splits)
  from addr [unfolded parse_address_iff] obtain a rest where
    a: "wire_address address" "port \<noteq> 0" "encode_address address = Some a"
    "drop 3 input = a @ octets port @ rest" "consumed = length a + 2" by blast
  have "drop (3 + consumed) input = drop consumed (drop 3 input)" by (simp add: add.commute)
  also have "\<dots> = rest" by (simp add: a)
  finally show "wire_address (up_address p) \<and> up_port p \<noteq> 0 \<and>
     (\<exists>header. encode_udp_header (up_address p) (up_port p) = Some header \<and> input = header @ up_payload p)"
    using a i p by (simp add: encode_udp_header_def)
next
  assume "wire_address (up_address p) \<and> up_port p \<noteq> 0 \<and>
     (\<exists>header. encode_udp_header (up_address p) (up_port p) = Some header \<and> input = header @ up_payload p)"
  then obtain a where a: "wire_address (up_address p)" "up_port p \<noteq> 0" "encode_address (up_address p) = Some a"
    "input = [0, 0, 0] @ a @ octets (up_port p) @ up_payload p" by (auto simp: encode_udp_header_def)
  have "parse_address (drop 3 input) False = Ok (up_address p, up_port p, length a + 2)"
    using a unfolding parse_address_iff by auto
  moreover have "drop (3 + (length a + 2)) input = up_payload p"
  proof -
    have "input = ([0, 0, 0] @ a @ octets (up_port p)) @ up_payload p" by (simp add: a(4))
    moreover have "3 + (length a + 2) = length ([0, 0, 0 :: u8] @ a @ octets (up_port p))" by simp
    ultimately show ?thesis by (metis append_eq_conv_conj)
  qed
  moreover have "4 \<le> length input" "take 2 input = [0, 0]" "input ! 2 = 0"
    using a(4) encode_address_length [OF a(3)] by simp_all
  ultimately show "parse_udp input = Ok p" by (simp add: parse_udp_def)
qed

end
