(* ===== verification/Socks5_Client.thy ===== *)
theory Socks5_Client
  imports Socks5_Codec Poll_Io
begin

text \<open>
  A client connection of the SOCKS5 adapter up to its request: greeting, method selection, request,
  and the buffered output. The socket is an opaque value; its answers to reads and writes are
  arguments. Sums of two lengths do not overflow (a \<open>Vec\<close> holds at most \<open>isize::MAX\<close> bytes), so
  the saturating addition of the source is written as a sum.
\<close>

datatype client_phase = Greeting | Request_Phase | Ready_Phase request | Failed

record 'c client_connection =
  cc_stream :: 'c
  cc_input :: bytes
  cc_output :: bytes
  cc_output_offset :: nat
  cc_phase :: client_phase

definition connection_new :: "'c \<Rightarrow> bool \<Rightarrow> ('c client_connection, unit) result" where
  "connection_new stream configured =
     (if \<not> configured then Err () else Ok \<lparr>cc_stream = stream, cc_input = [], cc_output = [],
        cc_output_offset = 0, cc_phase = Greeting\<rparr>)"

text \<open>The reading loop; the first component tells whether a read failed.\<close>

function read_client :: "(nat \<Rightarrow> io_read) \<Rightarrow> nat \<Rightarrow> nat \<Rightarrow> 'c client_connection \<Rightarrow> bool \<times> 'c client_connection" where
  "read_client reads k limit c = (case reads k of
     Read_Pending \<Rightarrow> (False, c)
   | Read_Error \<Rightarrow> (True, c)
   | Read_Data bs \<Rightarrow>
       if bs = [] then (False, c\<lparr>cc_phase := Failed\<rparr>)
       else if limit < length (cc_input c) + length bs then (False, c\<lparr>cc_phase := Failed\<rparr>)
       else read_client reads (Suc k) limit (c\<lparr>cc_input := cc_input c @ bs\<rparr>))"
  by pat_completeness auto
termination
proof (relation "measure (\<lambda>(reads, k, limit, c). limit - length (cc_input c))", goal_cases)
  case (2 reads k limit c bs)
  then have "0 < length bs" "length (cc_input c) + length bs \<le> limit" by auto
  then show ?case by (simp del: length_greater_0_conv)
qed simp

declare read_client.simps [simp del]

definition queue :: "'c client_connection \<Rightarrow> bytes \<Rightarrow> 'c client_connection" where
  "queue c bs =
     (let c1 = (if cc_output_offset c = length (cc_output c) then c\<lparr>cc_output := [], cc_output_offset := 0\<rparr> else c)
      in c1\<lparr>cc_output := cc_output c1 @ bs\<rparr>)"

definition parse_greeting :: "'c client_connection \<Rightarrow> 'c client_connection" where
  "parse_greeting c =
     (if cc_phase c \<noteq> Greeting \<or> length (cc_input c) < 2 then c
      else let end_of = 2 + unat (cc_input c ! 1) in
        if length (cc_input c) < end_of then c
        else if cc_input c ! 0 \<noteq> 5 \<or> 0 \<notin> set (take (end_of - 2) (drop 2 (cc_input c)))
        then (queue c [5, 255])\<lparr>cc_phase := Failed\<rparr>
        else (queue (c\<lparr>cc_input := drop end_of (cc_input c)\<rparr>) [5, 0])\<lparr>cc_phase := Request_Phase\<rparr>)"

definition parse_request_phase :: "'c client_connection \<Rightarrow> 'c client_connection" where
  "parse_request_phase c =
     (if cc_phase c \<noteq> Request_Phase then c
      else case request_length (cc_input c) of
        None \<Rightarrow> c
      | Some n \<Rightarrow>
          if length (cc_input c) < n then c
          else (case parse_request (take n (cc_input c)) of
                  Ok request \<Rightarrow> c\<lparr>cc_input := drop n (cc_input c), cc_phase := Ready_Phase request\<rparr>
                | Err e \<Rightarrow> (queue c (socks_response 1))\<lparr>cc_phase := Failed\<rparr>))"

definition connection_parse :: "'c client_connection \<Rightarrow> 'c client_connection" where
  "connection_parse c = parse_request_phase (parse_greeting c)"

text \<open>\<open>write_pending\<close>: whether it failed, the connection, and the bytes sent.\<close>

definition write_pending ::
  "(nat \<Rightarrow> bytes \<Rightarrow> io_write) \<Rightarrow> 'c client_connection \<Rightarrow> bool \<times> 'c client_connection \<times> bytes" where
  "write_pending wr c = (case write_loop wr 0 (cc_output c) (cc_output_offset c) of
     (Written, offset, sent) \<Rightarrow> (False, c\<lparr>cc_output := [], cc_output_offset := 0\<rparr>, sent)
   | (Blocked, offset, sent) \<Rightarrow> (False, c\<lparr>cc_output_offset := offset\<rparr>, sent)
   | (_, offset, sent) \<Rightarrow> (True, c\<lparr>cc_output_offset := offset\<rparr>, sent))"

definition connection_poll ::
  "(nat \<Rightarrow> io_read) \<Rightarrow> (nat \<Rightarrow> bytes \<Rightarrow> io_write) \<Rightarrow> nat \<Rightarrow> 'c client_connection \<Rightarrow>
     bool \<times> 'c client_connection \<times> bytes" where
  "connection_poll reads wr limit c = (case read_client reads 0 limit c of
     (True, c1) \<Rightarrow> (True, c1, [])
   | (False, c1) \<Rightarrow> write_pending wr (connection_parse c1))"

definition connection_ready :: "'c client_connection \<Rightarrow> bool" where
  "connection_ready c \<longleftrightarrow> (case cc_phase c of Ready_Phase r \<Rightarrow> cc_output c = [] | _ \<Rightarrow> False)"

section \<open>Segmentation\<close>

text \<open>The handshake on everything the client has sent so far: phase, what is left of the input,
  and everything queued for the client.\<close>

fun greeting_step :: "client_phase \<times> bytes \<times> bytes \<Rightarrow> client_phase \<times> bytes \<times> bytes" where
  "greeting_step (phase, inp, out) =
     (if phase \<noteq> Greeting \<or> length inp < 2 \<or> length inp < 2 + unat (inp ! 1) then (phase, inp, out)
      else if inp ! 0 \<noteq> 5 \<or> 0 \<notin> set (take (unat (inp ! 1)) (drop 2 inp)) then (Failed, inp, out @ [5, 255])
      else (Request_Phase, drop (2 + unat (inp ! 1)) inp, out @ [5, 0]))"

fun request_step :: "client_phase \<times> bytes \<times> bytes \<Rightarrow> client_phase \<times> bytes \<times> bytes" where
  "request_step (phase, inp, out) =
     (if phase \<noteq> Request_Phase then (phase, inp, out)
      else case request_length inp of
        None \<Rightarrow> (phase, inp, out)
      | Some n \<Rightarrow>
          if length inp < n then (phase, inp, out)
          else (case parse_request (take n inp) of
                  Ok r \<Rightarrow> (Ready_Phase r, drop n inp, out)
                | Err e \<Rightarrow> (Failed, inp, out @ socks_response 1)))"

definition handshake :: "bytes \<Rightarrow> client_phase \<times> bytes \<times> bytes" where
  "handshake inp = request_step (greeting_step (Greeting, inp, []))"

fun more_input :: "bytes \<Rightarrow> client_phase \<times> bytes \<times> bytes \<Rightarrow> client_phase \<times> bytes \<times> bytes" where
  "more_input extra (phase, inp, out) = (phase, inp @ extra, out)"

lemma request_length_append: "request_length xs = Some n \<Longrightarrow> request_length (xs @ ys) = Some n"
  by (auto simp: request_length_def get_at_def nth_append bind_eq_Some_conv split: if_splits)

lemma greeting_step_more: "greeting_step (more_input extra (greeting_step s)) = greeting_step (more_input extra s)"
proof -
  obtain phase inp out where s: "s = (phase, inp, out)" by (cases s)
  show ?thesis
  proof (cases "phase \<noteq> Greeting \<or> length inp < 2 \<or> length inp < 2 + unat (inp ! 1)")
    case True
    then have "greeting_step s = s" unfolding s by simp
    then show ?thesis by simp
  next
    case False
    then have "(inp @ extra) ! 1 = inp ! 1" "(inp @ extra) ! 0 = inp ! 0"
      "take (unat (inp ! 1)) (drop 2 (inp @ extra)) = take (unat (inp ! 1)) (drop 2 inp)"
      "drop (2 + unat (inp ! 1)) (inp @ extra) = drop (2 + unat (inp ! 1)) inp @ extra"
      by (auto simp: nth_append)
    with False show ?thesis unfolding s by simp
  qed
qed

lemma request_step_more: "request_step (more_input extra (request_step s)) = request_step (more_input extra s)"
proof -
  obtain phase inp out where s: "s = (phase, inp, out)" by (cases s)
  show ?thesis
  proof (cases "phase = Request_Phase \<and> (\<exists>n. request_length inp = Some n \<and> n \<le> length inp)")
    case True
    then obtain n where n: "phase = Request_Phase" "request_length inp = Some n" "n \<le> length inp" by blast
    then show ?thesis unfolding s
      by (cases "parse_request (take n inp)") (simp_all add: request_length_append)
  next
    case False
    then have "request_step s = s" unfolding s by (auto split: option.splits)
    then show ?thesis by simp
  qed
qed

lemma handshake_more: "handshake (inp @ extra) = request_step (greeting_step (more_input extra (handshake inp)))"
proof -
  let ?y = "greeting_step (Greeting, inp, [])"
  obtain phase i out where y: "?y = (phase, i, out)" by (cases ?y)
  have "greeting_step (Greeting, inp @ extra, []) = greeting_step (more_input extra ?y)"
    using greeting_step_more [of extra "(Greeting, inp, [])"] by simp
  also have "request_step \<dots> = request_step (greeting_step (more_input extra (request_step ?y)))"
  proof (cases "phase = Greeting")
    case True
    then show ?thesis unfolding y by simp
  next
    case False
    have "fst (request_step ?y) \<noteq> Greeting"
      using False unfolding y by (auto split: option.splits result.splits)
    moreover have idle: "greeting_step (more_input extra z) = more_input extra z" if "fst z \<noteq> Greeting" for z
      using that by (cases z) simp
    ultimately show ?thesis using idle [of ?y] request_step_more [of extra ?y] False y by simp
  qed
  finally show ?thesis unfolding handshake_def .
qed

text \<open>What is observable of a connection, given the bytes sent to the client so far.\<close>

definition conn_view :: "'c client_connection \<Rightarrow> bytes \<Rightarrow> client_phase \<times> bytes \<times> bytes" where
  "conn_view c sent = (cc_phase c, cc_input c, sent @ drop (cc_output_offset c) (cc_output c))"

definition offset_ok :: "'c client_connection \<Rightarrow> bool" where
  "offset_ok c \<longleftrightarrow> cc_output_offset c \<le> length (cc_output c)"

lemma queue_simps [simp]:
  "cc_phase (queue c bs) = cc_phase c" "cc_input (queue c bs) = cc_input c" "cc_stream (queue c bs) = cc_stream c"
  by (simp_all add: queue_def Let_def)

lemma queue_pending [simp]:
  "offset_ok c \<Longrightarrow> drop (cc_output_offset (queue c bs)) (cc_output (queue c bs)) = drop (cc_output_offset c) (cc_output c) @ bs"
  "offset_ok c \<Longrightarrow> cc_output_offset (queue c bs) \<le> length (cc_output (queue c bs))"
  by (auto simp: queue_def Let_def offset_ok_def)

lemma offset_ok_update [simp]:
  "offset_ok (c\<lparr>cc_input := i\<rparr>) = offset_ok c" "offset_ok (c\<lparr>cc_phase := p\<rparr>) = offset_ok c"
  by (simp_all add: offset_ok_def)

lemma parse_greeting_view:
  "offset_ok c \<Longrightarrow> conn_view (parse_greeting c) sent = greeting_step (conn_view c sent) \<and> offset_ok (parse_greeting c)"
  by (simp add: parse_greeting_def conn_view_def Let_def) (simp add: offset_ok_def)

lemma parse_request_view:
  "offset_ok c \<Longrightarrow> conn_view (parse_request_phase c) sent = request_step (conn_view c sent) \<and> offset_ok (parse_request_phase c)"
  by (auto simp: parse_request_phase_def conn_view_def split: option.splits result.splits)
    (auto simp: offset_ok_def)

lemma connection_parse_view:
  assumes "offset_ok c" and "conn_view c sent = handshake inp"
  shows "conn_view (connection_parse (c\<lparr>cc_input := cc_input c @ extra\<rparr>)) sent = handshake (inp @ extra) \<and>
    offset_ok (connection_parse (c\<lparr>cc_input := cc_input c @ extra\<rparr>))"
proof -
  let ?c = "c\<lparr>cc_input := cc_input c @ extra\<rparr>"
  from assms have "offset_ok ?c" and v: "conn_view ?c sent = more_input extra (handshake inp)"
    by (simp_all add: conn_view_def flip: assms(2))
  from parse_greeting_view [OF this(1), of sent] parse_request_view [of "parse_greeting ?c" sent] v
  show ?thesis by (simp add: connection_parse_def handshake_more)
qed

text \<open>One poll that reads the given chunks and then would block.\<close>

definition chunk_reads :: "bytes list \<Rightarrow> nat \<Rightarrow> io_read" where
  "chunk_reads chunks k = (if k < length chunks then Read_Data (chunks ! k) else Read_Pending)"

lemma read_chunks:
  "list_all (\<lambda>bs. bs \<noteq> []) chunks \<Longrightarrow> k \<le> length chunks \<Longrightarrow>
   length (cc_input c) + length (concat (drop k chunks)) \<le> limit \<Longrightarrow>
   read_client (chunk_reads chunks) k limit c = (False, c\<lparr>cc_input := cc_input c @ concat (drop k chunks)\<rparr>)"
proof (induction "length chunks - k" arbitrary: k c)
  case 0
  then show ?case by (simp add: read_client.simps [of _ k] chunk_reads_def)
next
  case (Suc n)
  then have k: "k < length chunks" by simp
  then have d: "drop k chunks = chunks ! k # drop (Suc k) chunks" by (simp add: Cons_nth_drop_Suc)
  have ne: "chunks ! k \<noteq> []" using Suc.prems(1) k by (auto simp: list_all_length)
  have "read_client (chunk_reads chunks) (Suc k) limit (c\<lparr>cc_input := cc_input c @ chunks ! k\<rparr>) =
    (False, c\<lparr>cc_input := cc_input c @ chunks ! k @ concat (drop (Suc k) chunks)\<rparr>)"
    using Suc.hyps(1) [of "Suc k" "c\<lparr>cc_input := cc_input c @ chunks ! k\<rparr>"] Suc.hyps(2) Suc.prems k d by simp
  with k ne Suc.prems(3) show ?case unfolding d by (simp add: read_client.simps [of _ k] chunk_reads_def)
qed

definition writer_ok :: "(nat \<Rightarrow> bytes \<Rightarrow> io_write) \<Rightarrow> bool" where
  "writer_ok wr \<longleftrightarrow> (\<forall>k bs. bs \<noteq> [] \<longrightarrow> wr k bs = Write_Pending \<or> (\<exists>n. wr k bs = Write_Count n \<and> 0 < n \<and> n \<le> length bs))"

lemma write_loop_ok:
  "writer_ok wr \<Longrightarrow> offset \<le> length buffer \<Longrightarrow> write_loop wr k buffer offset = (r, offset', sent) \<Longrightarrow>
     offset \<le> offset' \<and> offset' \<le> length buffer \<and> sent @ drop offset' buffer = drop offset buffer \<and>
     (r = Written \<and> offset' = length buffer \<or> r = Blocked)"
proof (induction wr k buffer offset arbitrary: offset' sent r rule: write_loop.induct)
  case (1 wr k buffer offset)
  show ?case
  proof (cases "length buffer \<le> offset")
    case True
    with 1(3,4) show ?thesis by (simp add: write_loop.simps)
  next
    case False
    then have "drop offset buffer \<noteq> []" by simp
    with 1(2) consider "wr k (drop offset buffer) = Write_Pending"
      | n where "wr k (drop offset buffer) = Write_Count n" "0 < n" "n \<le> length (drop offset buffer)"
      unfolding writer_ok_def by blast
    then show ?thesis
    proof cases
      case 1
      with False \<open>write_loop wr k buffer offset = _\<close> show ?thesis by (simp add: write_loop.simps [of wr k])
    next
      case (2 n)
      then have nz: "n \<noteq> 0" and le: "offset + n \<le> length buffer" using False by auto
      obtain sent' where s: "write_loop wr (Suc k) buffer (offset + n) = (r, offset', sent')"
        and sent: "sent = take n (drop offset buffer) @ sent'"
        using \<open>write_loop wr k buffer offset = _\<close> False 2 by (subst (asm) write_loop.simps) (auto split: prod.splits)
      from "1.IH" [OF False 2(1) nz \<open>writer_ok wr\<close> le s] show ?thesis
        unfolding sent by (auto simp: add.commute [of _ n] simp flip: drop_drop)
    qed
  qed
qed

lemma write_pending_view:
  assumes "writer_ok wr" and "offset_ok c"
  obtains c' s where "write_pending wr c = (False, c', s)" and "offset_ok c'"
    and "conn_view c' (sent @ s) = conn_view c sent"
proof -
  obtain r offset s where w: "write_loop wr 0 (cc_output c) (cc_output_offset c) = (r, offset, s)"
    by (metis prod_cases3)
  note ok = write_loop_ok [OF assms(1) assms(2) [unfolded offset_ok_def] w]
  show ?thesis
  proof (cases "r = Written")
    case True
    with ok have "s @ drop offset (cc_output c) = drop (cc_output_offset c) (cc_output c)" "offset = length (cc_output c)" by auto
    then have "s = drop (cc_output_offset c) (cc_output c)" by simp
    with True w show ?thesis
      by (intro that [of "c\<lparr>cc_output := [], cc_output_offset := 0\<rparr>" s])
        (simp_all add: write_pending_def conn_view_def offset_ok_def)
  next
    case False
    with ok have "r = Blocked" by simp
    with ok w show ?thesis
      by (intro that [of "c\<lparr>cc_output_offset := offset\<rparr>" s])
        (simp_all add: write_pending_def conn_view_def offset_ok_def)
  qed
qed

text \<open>A run of polls; \<open>None\<close> when one of them fails.\<close>

fun connection_run ::
  "nat \<Rightarrow> (bytes list \<times> (nat \<Rightarrow> bytes \<Rightarrow> io_write)) list \<Rightarrow> 'c client_connection \<Rightarrow> bytes \<Rightarrow> ('c client_connection \<times> bytes) option" where
  "connection_run limit [] c sent = Some (c, sent)"
| "connection_run limit ((chunks, wr) # polls) c sent = (case connection_poll (chunk_reads chunks) wr limit c of
     (True, c', s) \<Rightarrow> None | (False, c', s) \<Rightarrow> connection_run limit polls c' (sent @ s))"

lemma length_handshake_input: "length (fst (snd (handshake inp))) \<le> length inp"
  by (auto simp: handshake_def split: option.splits result.splits)

lemma connection_run_view:
  "list_all (\<lambda>(chunks, wr). list_all (\<lambda>bs. bs \<noteq> []) chunks \<and> writer_ok wr) polls \<Longrightarrow>
   length (inp @ concat (map (concat \<circ> fst) polls)) \<le> limit \<Longrightarrow> offset_ok c \<Longrightarrow> conn_view c sent = handshake inp \<Longrightarrow>
   \<exists>c' sent'. connection_run limit polls c sent = Some (c', sent') \<and>
     conn_view c' sent' = handshake (inp @ concat (map (concat \<circ> fst) polls))"
proof (induction polls arbitrary: c sent inp)
  case (Cons p polls)
  obtain chunks wr where p: "p = (chunks, wr)" by (cases p)
  from Cons.prems p have ok: "list_all (\<lambda>bs. bs \<noteq> []) chunks" "writer_ok wr" by simp_all
  let ?c = "connection_parse (c\<lparr>cc_input := cc_input c @ concat chunks\<rparr>)"
  have "length (cc_input c) \<le> length inp"
    using length_handshake_input [of inp] by (simp add: conn_view_def flip: Cons.prems(4))
  with Cons.prems(2) p have "length (cc_input c) + length (concat (drop 0 chunks)) \<le> limit" by simp
  from read_chunks [OF ok(1) _ this] have r: "read_client (chunk_reads chunks) 0 limit c =
    (False, c\<lparr>cc_input := cc_input c @ concat chunks\<rparr>)" by simp
  from connection_parse_view [OF Cons.prems(3,4), of "concat chunks"]
  have v: "conn_view ?c sent = handshake (inp @ concat chunks)" "offset_ok ?c" by auto
  from write_pending_view [OF ok(2) v(2)] obtain c1 s where
    w: "write_pending wr ?c = (False, c1, s)" "offset_ok c1" "conn_view c1 (sent @ s) = conn_view ?c sent" by metis
  have "\<exists>c' sent'. connection_run limit polls c1 (sent @ s) = Some (c', sent') \<and>
     conn_view c' sent' = handshake ((inp @ concat chunks) @ concat (map (concat \<circ> fst) polls))"
    using Cons.prems p by (intro Cons.IH) (simp_all add: w v)
  then show ?case using r w(1) p by (simp add: connection_poll_def comp_def)
qed simp


text \<open>A greeting that offers no authentication followed by a valid request is accepted.\<close>

lemma handshake_accepts:
  assumes "parse_request req = Ok r" and "0 \<in> set methods" and "length methods \<le> 255"
  shows "handshake ([5, of_nat (length methods)] @ methods @ req @ early) = (Ready_Phase r, early, [5, 0])"
proof -
  from assms(1) obtain a where a: "encode_address (rq_address r) = Some a"
    "req = [5, command_byte (rq_command r), 0] @ a @ octets (rq_port r)" unfolding parse_request_iff by blast
  have n: "request_length (req @ early) = Some (length req)"
    using request_length_encoded [OF a(1)] unfolding a(2) by simp
  have m: "unat (of_nat (length methods) :: u8) = length methods" using assms(3) by (simp add: unat_of_nat8)
  have "greeting_step (Greeting, [5, of_nat (length methods)] @ methods @ req @ early, []) =
    (Request_Phase, req @ early, [5, 0])" using assms(2) by (simp add: m)
  then show ?thesis unfolding handshake_def using n assms(1) by simp
qed

definition example_polls :: "(bytes list \<times> (nat \<Rightarrow> bytes \<Rightarrow> io_write)) list" where
  "example_polls = [([[5], [2, 1]], \<lambda>k bs. Write_Pending), ([[0, 5, 1, 0, 1, 127, 0, 0, 1, 0]], \<lambda>k bs. Write_Count 1),
     ([[80, 71], [69]], \<lambda>k bs. Write_Pending)]"


end
