(* ===== verification/Socks5_Flow.thy ===== *)
theory Socks5_Flow
  imports Socks5_Client Hash_Map Abi
begin

text \<open>
  The flows of the SOCKS5 adapter: a TCP flow sends the reply of the request and then pumps bytes
  between client and stack; a UDP flow exchanges datagrams for one destination of an association.
  Sockets, stack handles and the byte pumps of the module kit are opaque values of type
  \<open>'c\<close>, \<open>'u\<close>, \<open>'s\<close> and \<open>'p\<close>. What the operating system, the stack and the pumps answer during one
  call of the adapter is the record \<open>socks_env\<close>.
\<close>

datatype pump_result = Pump_Pending | Pump_Progress bool | Pump_Failed
datatype datagram_send = Datagram_Sent | Send_Pending | Send_Failed
datatype datagram_recv = Datagram bytes | Buffer_Too_Small | Datagram_Closed | Recv_Failed | Recv_Pending
datatype udp_recv = Udp_Packet bytes socket_addr | Udp_Would_Block | Udp_Failed

record ('c, 'u, 'p, 's) socks_env =
  en_accepted :: "'c list"
  en_configured :: "'c \<Rightarrow> bool"
  en_reads :: "'c \<Rightarrow> nat \<Rightarrow> io_read"
  en_writes :: "'c \<Rightarrow> nat \<Rightarrow> bytes \<Rightarrow> io_write"
  en_peek :: "'c \<Rightarrow> io_read"
  en_bind :: "nat \<Rightarrow> socket_addr \<Rightarrow> 'u option"
  en_nonblocking :: "'u \<Rightarrow> bool"
  en_local_addr :: "'u \<Rightarrow> socket_addr option"
  en_recv_from :: "'u \<Rightarrow> udp_recv"
  en_clone :: "'u \<Rightarrow> 'u option"
  en_send_to :: "'u \<Rightarrow> socket_addr \<Rightarrow> bytes \<Rightarrow> io_write"
  en_send_datagram :: "'s \<Rightarrow> bytes \<Rightarrow> datagram_send"
  en_recv_datagram :: "'s \<Rightarrow> datagram_recv"
  en_pump_new :: "nat \<Rightarrow> 'p option"
  en_upload :: "'p \<Rightarrow> 'c \<Rightarrow> bytes \<Rightarrow> 's \<Rightarrow> pump_result \<times> 'p \<times> bytes"
  en_download :: "'p \<Rightarrow> 's \<Rightarrow> 'c \<Rightarrow> pump_result \<times> 'p"

definition STREAM_BUFFER_BYTES :: nat where
  "STREAM_BUFFER_BYTES = 131072"

section \<open>TCP flows\<close>

text \<open>Reading from the client side of a flow: first what followed the request, then the socket.\<close>

definition socks_read :: "bytes \<Rightarrow> nat \<Rightarrow> io_read \<Rightarrow> io_read \<times> bytes" where
  "socks_read prefix n stream =
     (if prefix \<noteq> [] then let count = min n (length prefix) in (Read_Data (take count prefix), drop count prefix)
      else (stream, prefix))"

record ('c, 'p, 's) client_flow =
  cf_stream :: 'c
  cf_prefix :: bytes
  cf_address_type :: address_type
  cf_address :: bytes
  cf_port :: u16
  cf_announced :: bool
  cf_stack :: "'s option"
  cf_upload :: 'p
  cf_download :: 'p
  cf_response :: bytes
  cf_response_offset :: nat
  cf_accepted :: "bool option"

definition address_parts :: "address \<Rightarrow> address_type \<times> bytes" where
  "address_parts address = (case address of
     Ipv4 a \<Rightarrow> (ADDRESS_IPV4, octets a) | Ipv6 a \<Rightarrow> (ADDRESS_IPV6, octets a) | Domain d \<Rightarrow> (ADDRESS_DOMAIN, d))"

definition client_flow_new ::
  "(nat \<Rightarrow> 'p option) \<Rightarrow> 'c client_connection \<Rightarrow> request \<Rightarrow> (('c, 'p, 's) client_flow, status) result" where
  "client_flow_new pump_new connection request =
     (let (address_type, address) = address_parts (rq_address request) in
      try_bind (ok_or (pump_new STREAM_BUFFER_BYTES) STATUS_RESOURCE) (\<lambda>up.
      try_bind (ok_or (pump_new STREAM_BUFFER_BYTES) STATUS_RESOURCE) (\<lambda>down.
        Ok \<lparr>cf_stream = cc_stream connection, cf_prefix = cc_input connection, cf_address_type = address_type,
            cf_address = address, cf_port = rq_port request, cf_announced = False, cf_stack = None,
            cf_upload = up, cf_download = down, cf_response = [], cf_response_offset = 0, cf_accepted = None\<rparr>)))"

definition pumps_result :: "pump_result \<Rightarrow> pump_result \<Rightarrow> (bool, unit) poll" where
  "pumps_result up down = (case (up, down) of
     (Pump_Progress a, Pump_Progress b) \<Rightarrow> Ready (Ok (a \<and> b))
   | (Pump_Failed, _) \<Rightarrow> Ready (Err ())
   | (_, Pump_Failed) \<Rightarrow> Ready (Err ())
   | _ \<Rightarrow> Pending)"

text \<open>\<open>ClientFlow::poll\<close>: the result, the flow and the bytes of the response sent to the client.\<close>

definition client_flow_poll ::
  "('c, 'u, 'p, 's) socks_env \<Rightarrow> ('c, 'p, 's) client_flow \<Rightarrow> (bool, unit) poll \<times> ('c, 'p, 's) client_flow \<times> bytes" where
  "client_flow_poll env f =
     (case write_loop (en_writes env (cf_stream f)) 0 (cf_response f) (cf_response_offset f) of
        (Blocked, offset, sent) \<Rightarrow> (Pending, f\<lparr>cf_response_offset := offset\<rparr>, sent)
      | (Write_Zero, offset, sent) \<Rightarrow> (Ready (Err ()), f\<lparr>cf_response_offset := offset\<rparr>, sent)
      | (Write_Failed, offset, sent) \<Rightarrow> (Ready (Err ()), f\<lparr>cf_response_offset := offset\<rparr>, sent)
      | (Written, offset, sent) \<Rightarrow>
          let f1 = f\<lparr>cf_response_offset := offset\<rparr> in
          if cf_accepted f = Some False then (Ready (Ok True), f1, sent)
          else if cf_accepted f \<noteq> Some True then (Pending, f1, sent)
          else (case cf_stack f of
            None \<Rightarrow> (Pending, f1, sent)
          | Some stack \<Rightarrow>
              let (up, u, prefix) = en_upload env (cf_upload f) (cf_stream f) (cf_prefix f) stack;
                  (down, d) = en_download env (cf_download f) stack (cf_stream f)
              in (pumps_result up down, f1\<lparr>cf_upload := u, cf_prefix := prefix, cf_download := d\<rparr>, sent)))"

section \<open>UDP flows\<close>

record ('u, 's) udp_flow =
  uf_socket :: 'u
  uf_client :: socket_addr
  uf_address :: address
  uf_address_type :: address_type
  uf_address_bytes :: bytes
  uf_port :: u16
  uf_announced :: bool
  uf_stack :: "'s option"
  uf_pending_upload :: "bytes option"
  uf_pending_reply :: "bytes option"
  uf_accepted :: "bool option"

definition udp_flow_new ::
  "('u \<Rightarrow> bool) \<Rightarrow> 'u \<Rightarrow> socket_addr \<Rightarrow> address \<Rightarrow> u16 \<Rightarrow> bytes \<Rightarrow> ('u, 's) udp_flow option" where
  "udp_flow_new nonblocking socket client address port payload =
     (if \<not> nonblocking socket then None
      else let (address_type, address_bytes) = address_parts address in
        Some \<lparr>uf_socket = socket, uf_client = client, uf_address = address, uf_address_type = address_type,
              uf_address_bytes = address_bytes, uf_port = port, uf_announced = False, uf_stack = None,
              uf_pending_upload = Some payload, uf_pending_reply = None, uf_accepted = None\<rparr>)"

text \<open>What a UDP flow did: a datagram handed to the stack, a datagram sent to the client.\<close>

datatype udp_event = To_Stack bytes | To_Client bytes

text \<open>The three parts of \<open>UdpClientFlow::poll\<close>. A part that returns gives \<open>Some\<close> result.\<close>

definition udp_flow_upload ::
  "('c, 'u, 'p, 's) socks_env \<Rightarrow> 's \<Rightarrow> ('u, 's) udp_flow \<Rightarrow> (bool, unit) poll option \<times> ('u, 's) udp_flow \<times> udp_event list" where
  "udp_flow_upload env stack f = (case uf_pending_upload f of
     None \<Rightarrow> (None, f, [])
   | Some payload \<Rightarrow> (case en_send_datagram env stack payload of
       Datagram_Sent \<Rightarrow> (None, f\<lparr>uf_pending_upload := None\<rparr>, [To_Stack payload])
     | Send_Failed \<Rightarrow> (Some (Ready (Err ())), f, [])
     | Send_Pending \<Rightarrow> (Some Pending, f, [])))"

definition udp_flow_reply ::
  "('c, 'u, 'p, 's) socks_env \<Rightarrow> ('u, 's) udp_flow \<Rightarrow> (bool, unit) poll option \<times> ('u, 's) udp_flow \<times> udp_event list" where
  "udp_flow_reply env f = (case uf_pending_reply f of
     None \<Rightarrow> (None, f, [])
   | Some reply \<Rightarrow> (case en_send_to env (uf_socket f) (uf_client f) reply of
       Write_Count n \<Rightarrow>
         if n = length reply then (None, f\<lparr>uf_pending_reply := None\<rparr>, [To_Client reply])
         else (Some (Ready (Err ())), f, [])
     | Write_Pending \<Rightarrow> (Some Pending, f, [])
     | Write_Error \<Rightarrow> (Some (Ready (Err ())), f, [])))"

definition udp_flow_receive ::
  "('c, 'u, 'p, 's) socks_env \<Rightarrow> 's \<Rightarrow> ('u, 's) udp_flow \<Rightarrow> (bool, unit) poll \<times> ('u, 's) udp_flow \<times> udp_event list" where
  "udp_flow_receive env stack f = (case en_recv_datagram env stack of
     Datagram payload \<Rightarrow> (case encode_udp_header (uf_address f) (uf_port f) of
       None \<Rightarrow> (Ready (Err ()), f, [])
     | Some header \<Rightarrow>
         let reply = header @ payload in
         (case en_send_to env (uf_socket f) (uf_client f) reply of
            Write_Count n \<Rightarrow> if n = length reply then (Ready (Ok False), f, [To_Client reply]) else (Ready (Err ()), f, [])
          | Write_Pending \<Rightarrow> (Pending, f\<lparr>uf_pending_reply := Some reply\<rparr>, [])
          | Write_Error \<Rightarrow> (Ready (Err ()), f, [])))
   | Buffer_Too_Small \<Rightarrow> (Ready (Err ()), f, [])
   | Datagram_Closed \<Rightarrow> (Ready (Ok True), f, [])
   | Recv_Failed \<Rightarrow> (Ready (Err ()), f, [])
   | Recv_Pending \<Rightarrow> (Pending, f, []))"

definition udp_flow_poll ::
  "('c, 'u, 'p, 's) socks_env \<Rightarrow> ('u, 's) udp_flow \<Rightarrow> (bool, unit) poll \<times> ('u, 's) udp_flow \<times> udp_event list" where
  "udp_flow_poll env f =
     (if uf_accepted f = Some False then (Ready (Ok True), f, [])
      else if uf_accepted f \<noteq> Some True then (Pending, f, [])
      else case uf_stack f of
        None \<Rightarrow> (Pending, f, [])
      | Some stack \<Rightarrow> (case udp_flow_upload env stack f of
          (Some r, f1, ev1) \<Rightarrow> (r, f1, ev1)
        | (None, f1, ev1) \<Rightarrow> (case udp_flow_reply env f1 of
            (Some r, f2, ev2) \<Rightarrow> (r, f2, ev1 @ ev2)
          | (None, f2, ev2) \<Rightarrow> (case udp_flow_receive env stack f2 of (r, f3, ev3) \<Rightarrow> (r, f3, ev1 @ ev2 @ ev3)))))"

end
