(* ===== verification/Socks5_State.thy ===== *)
theory Socks5_State
  imports Socks5_Flow
begin

text \<open>
  The SOCKS5 adapter as a whole: the shared listeners that deal accepted connections to the
  instances, the state of an instance, its poll, and the calls of the host.
\<close>

section \<open>State\<close>

record ('c, 'u) udp_association =
  ua_control :: "'c client_connection"
  ua_socket :: 'u
  ua_client :: "socket_addr option"
  ua_destinations :: "(address \<times> u16, u64) hashmap"

record ('c, 'u, 'p, 's) socks_state =
  ss_listen :: socket_addr
  ss_options :: socks_options
  ss_clients :: "'c client_connection list"
  ss_flows :: "(u64, ('c, 'p, 's) client_flow) hashmap"
  ss_associations :: "('c, 'u) udp_association list"
  ss_udp_flows :: "(u64, ('u, 's) udp_flow) hashmap"
  ss_next_flow :: u64

record 'c listener_group =
  lg_members :: "u64 list"
  lg_queues :: "(u64, 'c list) hashmap"
  lg_next :: nat

type_synonym 'c listeners = "(socket_addr, 'c listener_group) hashmap"

section \<open>Listeners\<close>

text \<open>\<open>bound\<close> tells whether a new listening socket can be made.\<close>

definition register_listener :: "bool \<Rightarrow> u64 \<Rightarrow> socket_addr \<Rightarrow> 'c listeners \<Rightarrow> 'c listeners option" where
  "register_listener bound instance_id address listeners =
     Option.bind (case hm_get listeners address of
         Some g \<Rightarrow> Some g
       | None \<Rightarrow> if bound then Some \<lparr>lg_members = [], lg_queues = [], lg_next = 0\<rparr> else None)
       (\<lambda>g. Some (hm_insert address
          (g\<lparr>lg_members := lg_members g @ [instance_id], lg_queues := hm_insert instance_id [] (lg_queues g)\<rparr>) listeners))"

definition unregister_listener :: "u64 \<Rightarrow> socket_addr \<Rightarrow> 'c listeners \<Rightarrow> 'c listeners" where
  "unregister_listener instance_id address listeners = (case hm_get listeners address of
     None \<Rightarrow> listeners
   | Some g \<Rightarrow>
       let members = filter (\<lambda>m. m \<noteq> instance_id) (lg_members g) in
       if members = [] then hm_remove address listeners
       else hm_insert address (g\<lparr>lg_members := members, lg_queues := hm_remove instance_id (lg_queues g),
              lg_next := min (lg_next g) (length members - 1)\<rparr>) listeners)"

fun deal :: "'c list \<Rightarrow> 'c listener_group \<Rightarrow> 'c listener_group" where
  "deal [] g = g"
| "deal (stream # rest) g =
     (if lg_members g = [] then g
      else let member = lg_members g ! (lg_next g mod length (lg_members g));
               g1 = g\<lparr>lg_next := (lg_next g + 1) mod length (lg_members g)\<rparr>;
               g2 = (case hm_get (lg_queues g1) member of
                       None \<Rightarrow> g1
                     | Some q \<Rightarrow> g1\<lparr>lg_queues := hm_insert member (q @ [stream]) (lg_queues g1)\<rparr>)
           in deal rest g2)"

definition used_connections :: "('c, 'u, 'p, 's) socks_state \<Rightarrow> nat" where
  "used_connections st = length (ss_clients st) + hm_len (ss_flows st) + length (ss_associations st)"

fun take_clients ::
  "('c \<Rightarrow> bool) \<Rightarrow> 'c list \<Rightarrow> ('c, 'u, 'p, 's) socks_state \<Rightarrow> 'c list \<times> ('c, 'u, 'p, 's) socks_state" where
  "take_clients configured [] st = ([], st)"
| "take_clients configured (stream # q) st =
     (if used_connections st < so_max_connections (ss_options st)
      then take_clients configured q
             (case connection_new stream (configured stream) of
                Ok c \<Rightarrow> st\<lparr>ss_clients := ss_clients st @ [c]\<rparr> | Err _ \<Rightarrow> st)
      else (stream # q, st))"

definition accept_clients ::
  "('c, 'u, 'p, 's) socks_env \<Rightarrow> u64 \<Rightarrow> 'c listeners \<Rightarrow> ('c, 'u, 'p, 's) socks_state \<Rightarrow>
     'c listeners \<times> ('c, 'u, 'p, 's) socks_state" where
  "accept_clients env instance_id listeners st = (case hm_get listeners (ss_listen st) of
     None \<Rightarrow> (listeners, st)
   | Some g \<Rightarrow>
       let g1 = deal (en_accepted env) g in
       (case hm_get (lg_queues g1) instance_id of
          None \<Rightarrow> (hm_insert (ss_listen st) g1 listeners, st)
        | Some q \<Rightarrow>
            let (q', st') = take_clients (en_configured env) q st in
            (hm_insert (ss_listen st) (g1\<lparr>lg_queues := hm_insert instance_id q' (lg_queues g1)\<rparr>) listeners, st')))"

section \<open>Polling an instance\<close>

definition swap_remove :: "nat \<Rightarrow> 'a list \<Rightarrow> 'a list" where
  "swap_remove i xs = (if i < length xs - 1 then (butlast xs)[i := last xs] else butlast xs)"

definition poll_client :: "('c, 'u, 'p, 's) socks_env \<Rightarrow> nat \<Rightarrow> 'c client_connection \<Rightarrow> 'c client_connection" where
  "poll_client env limit c = (case connection_poll (en_reads env (cc_stream c)) (en_writes env (cc_stream c)) limit c of
     (failed, c1, sent) \<Rightarrow> if failed then c1\<lparr>cc_phase := Failed\<rparr> else c1)"

definition associate ::
  "('c, 'u, 'p, 's) socks_env \<Rightarrow> nat \<Rightarrow> 'c client_connection \<Rightarrow> ('c, 'u, 'p, 's) socks_state \<Rightarrow> ('c, 'u, 'p, 's) socks_state" where
  "associate env i c st = (case parse_sock (so_listen (ss_options st)) of
     None \<Rightarrow> st
   | Some listen \<Rightarrow> (case en_bind env i (sock_new (sock_ip listen) 0) of
       None \<Rightarrow> st
     | Some socket \<Rightarrow>
         if \<not> en_nonblocking env socket then st
         else (case en_local_addr env socket of
           None \<Rightarrow> st
         | Some address \<Rightarrow>
             st\<lparr>ss_associations := ss_associations st @
                 [\<lparr>ua_control = queue c (socks_bound_response address), ua_socket = socket, ua_client = None,
                   ua_destinations = []\<rparr>]\<rparr>)))"

definition promote ::
  "('c, 'u, 'p, 's) socks_env \<Rightarrow> nat \<Rightarrow> ('c, 'u, 'p, 's) socks_state \<Rightarrow> ('c, 'u, 'p, 's) socks_state" where
  "promote env i st0 =
     (let c = ss_clients st0 ! i; st = st0\<lparr>ss_clients := swap_remove i (ss_clients st0)\<rparr> in
      case cc_phase c of
        Ready_Phase request \<Rightarrow>
          (case rq_command request of
             Connect \<Rightarrow>
               let handle = ss_next_flow st in
               (case checked_add handle 1 of
                  None \<Rightarrow> st
                | Some next_flow \<Rightarrow>
                    let st1 = st\<lparr>ss_next_flow := next_flow\<rparr> in
                    (case client_flow_new (en_pump_new env) c request of
                       Ok flow \<Rightarrow> st1\<lparr>ss_flows := hm_insert handle flow (ss_flows st1)\<rparr>
                     | Err _ \<Rightarrow> st1))
           | UdpAssociate \<Rightarrow>
               if length (ss_associations st) < so_max_udp_associations (ss_options st)
               then associate env i c st else st)
      | _ \<Rightarrow> st)"

definition keep_client :: "'c client_connection \<Rightarrow> bool" where
  "keep_client c \<longleftrightarrow> cc_phase c \<noteq> Failed \<or> cc_output c \<noteq> []"

definition poll_clients :: "('c, 'u, 'p, 's) socks_env \<Rightarrow> ('c, 'u, 'p, 's) socks_state \<Rightarrow> ('c, 'u, 'p, 's) socks_state" where
  "poll_clients env st =
     (let clients = map (poll_client env (so_max_request_bytes (ss_options st))) (ss_clients st);
          promoted = filter (\<lambda>i. connection_ready (clients ! i)) [0..<length clients];
          st1 = fold (promote env) (rev promoted) (st\<lparr>ss_clients := clients\<rparr>)
      in st1\<lparr>ss_clients := filter keep_client (ss_clients st1)\<rparr>)"

fun flow_finished :: "(bool, unit) poll \<Rightarrow> bool" where
  "flow_finished (Ready (Ok b)) = b"
| "flow_finished (Ready (Err e)) = True"
| "flow_finished Pending = False"

text \<open>Every entry is polled in place, then the finished ones are removed.\<close>

definition poll_table :: "('f \<Rightarrow> (bool, unit) poll \<times> 'f \<times> 'e) \<Rightarrow> (u64, 'f) hashmap \<Rightarrow> (u64, 'f) hashmap" where
  "poll_table poll m =
     (let polled = map (\<lambda>(handle, f). (handle, poll f)) m;
          finished = map fst (filter (\<lambda>(handle, r, f, ev). flow_finished r) polled)
      in fold hm_remove finished (map (\<lambda>(handle, r, f, ev). (handle, f)) polled))"

text \<open>One association: the polled association, a packet, and whether it is closed.\<close>

definition poll_association ::
  "('c, 'u, 'p, 's) socks_env \<Rightarrow> ('c, 'u) udp_association \<Rightarrow>
     ('c, 'u) udp_association \<times> (socket_addr \<times> udp_packet) option \<times> bool" where
  "poll_association env a =
     (case write_pending (en_writes env (cc_stream (ua_control a))) (ua_control a) of
        (failed, control, sent) \<Rightarrow>
          let a1 = a\<lparr>ua_control := control\<rparr> in
          if failed then (a1, None, True)
          else if en_peek env (cc_stream control) = Read_Data [] then (a1, None, True)
          else if en_peek env (cc_stream control) = Read_Error then (a1, None, True)
          else (case en_recv_from env (ua_socket a1) of
                  Udp_Would_Block \<Rightarrow> (a1, None, False)
                | Udp_Failed \<Rightarrow> (a1, None, True)
                | Udp_Packet bs source \<Rightarrow>
                    if ua_client a1 \<noteq> None \<and> ua_client a1 \<noteq> Some source then (a1, None, False)
                    else (a1\<lparr>ua_client := Some source\<rparr>,
                          (case parse_udp bs of Ok p \<Rightarrow> Some (source, p) | Err _ \<Rightarrow> None), False)))"

definition handle_packet ::
  "('c, 'u, 'p, 's) socks_env \<Rightarrow> nat \<times> socket_addr \<times> udp_packet \<Rightarrow> ('c, 'u, 'p, 's) socks_state \<Rightarrow> ('c, 'u, 'p, 's) socks_state" where
  "handle_packet env packet st = (case packet of (i, source, p) \<Rightarrow>
     let key = (up_address p, up_port p); a = ss_associations st ! i;
         existing = Option.bind (hm_get (ua_destinations a) key)
                      (\<lambda>handle. map_option (Pair handle) (hm_get (ss_udp_flows st) handle))
     in case existing of
          Some (handle, flow) \<Rightarrow>
            if uf_pending_upload flow = None
            then st\<lparr>ss_udp_flows := hm_insert handle (flow\<lparr>uf_pending_upload := Some (up_payload p)\<rparr>) (ss_udp_flows st)\<rparr>
            else st
        | None \<Rightarrow>
            let a1 = a\<lparr>ua_destinations := hm_remove key (ua_destinations a)\<rparr>;
                st1 = st\<lparr>ss_associations := (ss_associations st)[i := a1]\<rparr>
            in if so_max_connections (ss_options st1) \<le> hm_len (ss_flows st1) + hm_len (ss_udp_flows st1) then st1
               else let handle = ss_next_flow st1 in
                 (case checked_add handle 1 of
                    None \<Rightarrow> st1
                  | Some next_flow \<Rightarrow> (case en_clone env (ua_socket a1) of
                      None \<Rightarrow> st1
                    | Some socket \<Rightarrow>
                        (case udp_flow_new (en_nonblocking env) socket source (up_address p) (up_port p) (up_payload p) of
                           None \<Rightarrow> st1
                         | Some flow \<Rightarrow>
                             st1\<lparr>ss_next_flow := next_flow,
                               ss_associations := (ss_associations st1)[i := a1\<lparr>ua_destinations := hm_insert key handle (ua_destinations a1)\<rparr>],
                               ss_udp_flows := hm_insert handle flow (ss_udp_flows st1)\<rparr>))))"

definition poll_udp_associations ::
  "('c, 'u, 'p, 's) socks_env \<Rightarrow> ('c, 'u, 'p, 's) socks_state \<Rightarrow> ('c, 'u, 'p, 's) socks_state" where
  "poll_udp_associations env st =
     (let polled = map (poll_association env) (ss_associations st);
          packets = concat (map (\<lambda>i. case fst (snd (polled ! i)) of None \<Rightarrow> [] | Some (source, p) \<Rightarrow> [(i, source, p)]) [0..<length polled]);
          closed = filter (\<lambda>i. snd (snd (polled ! i))) [0..<length polled];
          st1 = fold (handle_packet env) packets (st\<lparr>ss_associations := map fst polled\<rparr>);
          st2 = st1\<lparr>ss_udp_flows := poll_table (udp_flow_poll env) (ss_udp_flows st1)\<rparr>
      in st2\<lparr>ss_associations := fold swap_remove (rev closed) (ss_associations st2)\<rparr>)"

definition poll_state ::
  "('c, 'u, 'p, 's) socks_env \<Rightarrow> u64 \<Rightarrow> 'c listeners \<Rightarrow> ('c, 'u, 'p, 's) socks_state \<Rightarrow>
     'c listeners \<times> ('c, 'u, 'p, 's) socks_state" where
  "poll_state env instance_id listeners st =
     (let (listeners', st1) = accept_clients env instance_id listeners st;
          st2 = poll_clients env st1;
          st3 = st2\<lparr>ss_flows := poll_table (client_flow_poll env) (ss_flows st2)\<rparr>
      in (listeners', poll_udp_associations env st3))"

section \<open>Calls of the host\<close>

record ('c, 'u, 'p, 's) socks_adapter =
  sa_listeners :: "'c listeners"
  sa_states :: "(u64, ('c, 'u, 'p, 's) socks_state) hashmap"

definition socks_initialize ::
  "(str \<Rightarrow> socks_options option) \<Rightarrow> bool \<Rightarrow> u64 \<Rightarrow> bytes \<Rightarrow> ('c, 'u, 'p, 's) socks_adapter \<Rightarrow> status \<times> ('c, 'u, 'p, 's) socks_adapter" where
  "socks_initialize toml bound instance_id config ad = (case parse_socks_options toml config of
     Err _ \<Rightarrow> (STATUS_INVALID, ad)
   | Ok options \<Rightarrow> (case parse_sock (so_listen options) of
       None \<Rightarrow> (STATUS_INVALID, ad)
     | Some address \<Rightarrow> (case register_listener bound instance_id address (sa_listeners ad) of
         None \<Rightarrow> (STATUS_IO, ad)
       | Some listeners \<Rightarrow> (STATUS_OK, \<lparr>sa_listeners = listeners, sa_states = hm_insert instance_id
             \<lparr>ss_listen = address, ss_options = options, ss_clients = [], ss_flows = [], ss_associations = [],
              ss_udp_flows = [], ss_next_flow = 1\<rparr> (sa_states ad)\<rparr>))))"

text \<open>\<open>known\<close> is what the module kit's table of instances answers.\<close>

fun find_unannounced :: "('f \<Rightarrow> bool) \<Rightarrow> (u64, 'f) hashmap \<Rightarrow> (u64 \<times> 'f) option" where
  "find_unannounced announced [] = None"
| "find_unannounced announced ((h, f) # m) = (if announced f then find_unannounced announced m else Some (h, f))"

definition announce :: "('c, 'u, 'p, 's) socks_state \<Rightarrow> (status \<times> (flow_metadata \<times> u64) option) \<times> ('c, 'u, 'p, 's) socks_state" where
  "announce st = (case find_unannounced cf_announced (ss_flows st) of
     Some (h, f) \<Rightarrow>
       ((STATUS_OK, Some (\<lparr>fm_kind = FLOW_TCP, fm_address_type = cf_address_type f, fm_address = cf_address f, fm_port = cf_port f\<rparr>, h)),
        st\<lparr>ss_flows := hm_insert h (f\<lparr>cf_announced := True\<rparr>) (ss_flows st)\<rparr>)
   | None \<Rightarrow> (case find_unannounced uf_announced (ss_udp_flows st) of
       Some (h, f) \<Rightarrow>
         ((STATUS_OK, Some (\<lparr>fm_kind = FLOW_UDP, fm_address_type = uf_address_type f, fm_address = uf_address_bytes f, fm_port = uf_port f\<rparr>, h)),
          st\<lparr>ss_udp_flows := hm_insert h (f\<lparr>uf_announced := True\<rparr>) (ss_udp_flows st)\<rparr>)
     | None \<Rightarrow> ((STATUS_PENDING, None), st)))"

definition socks_accept ::
  "('c, 'u, 'p, 's) socks_env \<Rightarrow> bool \<Rightarrow> u64 \<Rightarrow> ('c, 'u, 'p, 's) socks_adapter \<Rightarrow>
     (status \<times> (flow_metadata \<times> u64) option) \<times> ('c, 'u, 'p, 's) socks_adapter" where
  "socks_accept env known instance_id ad =
     (if \<not> known then ((STATUS_INVALID, None), ad)
      else case hm_get (sa_states ad) instance_id of
        None \<Rightarrow> ((STATUS_INVALID, None), ad)
      | Some st \<Rightarrow>
          let (listeners, st1) = poll_state env instance_id (sa_listeners ad) st; (r, st2) = announce st1
          in (r, \<lparr>sa_listeners = listeners, sa_states = hm_insert instance_id st2 (sa_states ad)\<rparr>))"

text \<open>\<open>stack\<close> is the handle made from the raw socket, \<open>None\<close> when that fails.\<close>

definition with_state ::
  "bool \<Rightarrow> u64 \<Rightarrow> (('c, 'u, 'p, 's) socks_state \<Rightarrow> status \<times> ('c, 'u, 'p, 's) socks_state) \<Rightarrow>
     ('c, 'u, 'p, 's) socks_adapter \<Rightarrow> status \<times> ('c, 'u, 'p, 's) socks_adapter" where
  "with_state valid instance_id f ad =
     (if \<not> valid then (STATUS_INVALID, ad)
      else case hm_get (sa_states ad) instance_id of
        None \<Rightarrow> (STATUS_INVALID, ad)
      | Some st \<Rightarrow> (case f st of (r, st') \<Rightarrow> (r, ad\<lparr>sa_states := hm_insert instance_id st' (sa_states ad)\<rparr>)))"

definition socks_attach ::
  "bool \<Rightarrow> u64 \<Rightarrow> u64 \<Rightarrow> u64 \<Rightarrow> 's option \<Rightarrow> ('c, 'u, 'p, 's) socks_adapter \<Rightarrow> status \<times> ('c, 'u, 'p, 's) socks_adapter" where
  "socks_attach known instance_id flow stack_socket stack =
     with_state (known \<and> flow \<noteq> 0 \<and> stack_socket \<noteq> 0) instance_id (\<lambda>st. case hm_get (ss_flows st) flow of
       None \<Rightarrow> (STATUS_INVALID, st)
     | Some f \<Rightarrow> if cf_stack f \<noteq> None then (STATUS_INVALID, st)
                else (case stack of None \<Rightarrow> (STATUS_INVALID, st)
                      | Some s \<Rightarrow> (STATUS_OK, st\<lparr>ss_flows := hm_insert flow (f\<lparr>cf_stack := Some s\<rparr>) (ss_flows st)\<rparr>)))"

definition socks_attach_datagram ::
  "bool \<Rightarrow> u64 \<Rightarrow> u64 \<Rightarrow> u64 \<Rightarrow> 's option \<Rightarrow> ('c, 'u, 'p, 's) socks_adapter \<Rightarrow> status \<times> ('c, 'u, 'p, 's) socks_adapter" where
  "socks_attach_datagram known instance_id flow stack_socket stack =
     with_state (known \<and> flow \<noteq> 0 \<and> stack_socket \<noteq> 0) instance_id (\<lambda>st. case hm_get (ss_udp_flows st) flow of
       None \<Rightarrow> (STATUS_INVALID, st)
     | Some f \<Rightarrow> if uf_stack f \<noteq> None then (STATUS_INVALID, st)
                else (case stack of None \<Rightarrow> (STATUS_INVALID, st)
                      | Some s \<Rightarrow> (STATUS_OK, st\<lparr>ss_udp_flows := hm_insert flow (f\<lparr>uf_stack := Some s\<rparr>) (ss_udp_flows st)\<rparr>)))"

definition reply_code :: "status \<Rightarrow> u8" where
  "reply_code s = (case s of STATUS_OK \<Rightarrow> 0 | STATUS_DENIED \<Rightarrow> 2 | STATUS_UNSUPPORTED \<Rightarrow> 7 | STATUS_IO \<Rightarrow> 5 | _ \<Rightarrow> 1)"

definition socks_complete ::
  "bool \<Rightarrow> u64 \<Rightarrow> u64 \<Rightarrow> status \<Rightarrow> nat \<Rightarrow> ('c, 'u, 'p, 's) socks_adapter \<Rightarrow> status \<times> ('c, 'u, 'p, 's) socks_adapter" where
  "socks_complete known instance_id flow s reason_length =
     with_state (known \<and> flow \<noteq> 0 \<and> reason_length \<le> 256) instance_id (\<lambda>st. case hm_get (ss_flows st) flow of
       Some f \<Rightarrow> (STATUS_OK, st\<lparr>ss_flows := hm_insert flow (f\<lparr>cf_response := socks_response (reply_code s),
                   cf_response_offset := 0, cf_accepted := Some (s = STATUS_OK)\<rparr>) (ss_flows st)\<rparr>)
     | None \<Rightarrow> (case hm_get (ss_udp_flows st) flow of
         Some f \<Rightarrow> (STATUS_OK, st\<lparr>ss_udp_flows := hm_insert flow (f\<lparr>uf_accepted := Some (s = STATUS_OK)\<rparr>) (ss_udp_flows st)\<rparr>)
       | None \<Rightarrow> (STATUS_INVALID, st)))"

definition socks_close_flow ::
  "bool \<Rightarrow> u64 \<Rightarrow> u64 \<Rightarrow> ('c, 'u, 'p, 's) socks_adapter \<Rightarrow> status \<times> ('c, 'u, 'p, 's) socks_adapter" where
  "socks_close_flow known instance_id flow =
     with_state (known \<and> flow \<noteq> 0) instance_id (\<lambda>st.
       (if hm_contains (ss_flows st) flow \<or> hm_contains (ss_udp_flows st) flow then STATUS_OK else STATUS_INVALID,
        st\<lparr>ss_flows := hm_remove flow (ss_flows st), ss_udp_flows := hm_remove flow (ss_udp_flows st)\<rparr>))"

definition socks_poll_instance ::
  "('c, 'u, 'p, 's) socks_env \<Rightarrow> u64 \<Rightarrow> ('c, 'u, 'p, 's) socks_adapter \<Rightarrow> status \<times> ('c, 'u, 'p, 's) socks_adapter" where
  "socks_poll_instance env instance_id ad = (case hm_get (sa_states ad) instance_id of
     None \<Rightarrow> (STATUS_INVALID, ad)
   | Some st \<Rightarrow>
       let (listeners, st1) = poll_state env instance_id (sa_listeners ad) st
       in (STATUS_PENDING, \<lparr>sa_listeners = listeners, sa_states = hm_insert instance_id st1 (sa_states ad)\<rparr>))"

definition socks_shutdown :: "u64 \<Rightarrow> ('c, 'u, 'p, 's) socks_adapter \<Rightarrow> status \<times> ('c, 'u, 'p, 's) socks_adapter" where
  "socks_shutdown instance_id ad = (case hm_get (sa_states ad) instance_id of
     None \<Rightarrow> (STATUS_INVALID, ad)
   | Some st \<Rightarrow> (STATUS_OK, \<lparr>sa_listeners = unregister_listener instance_id (ss_listen st) (sa_listeners ad),
       sa_states = hm_remove instance_id (sa_states ad)\<rparr>))"

section \<open>Resource bounds\<close>

definition tables_ok :: "u64 \<Rightarrow> (u64, 'f) hashmap \<Rightarrow> (u64, 'g) hashmap \<Rightarrow> bool" where
  "tables_ok next_flow flows udp \<longleftrightarrow> hm_wf flows \<and> hm_wf udp \<and> 0 < next_flow \<and>
     (\<forall>h. hm_get flows h \<noteq> None \<longrightarrow> 0 < h \<and> h < next_flow \<and> hm_get udp h = None) \<and>
     (\<forall>h. hm_get udp h \<noteq> None \<longrightarrow> 0 < h \<and> h < next_flow)"

definition socks_inv :: "('c, 'u, 'p, 's) socks_state \<Rightarrow> bool" where
  "socks_inv st \<longleftrightarrow>
     used_connections st \<le> so_max_connections (ss_options st) \<and>
     length (ss_associations st) \<le> so_max_udp_associations (ss_options st) \<and>
     hm_len (ss_udp_flows st) \<le> so_max_connections (ss_options st) \<and>
     tables_ok (ss_next_flow st) (ss_flows st) (ss_udp_flows st)"

lemma length_swap_remove [simp]: "length (swap_remove i xs) = length xs - 1"
  by (simp add: swap_remove_def)

lemma length_fold_swap_remove: "length (fold swap_remove is xs) \<le> length xs"
proof (induction "is" arbitrary: xs)
  case (Cons i "is")
  from Cons [of "swap_remove i xs"] show ?case by simp
qed simp

lemma next_handle_less: "checked_add h 1 = Some n \<Longrightarrow> h < n" for h n :: u64
  unfolding checked_add_Some by (simp add: word_less_nat_alt)

lemma tables_ok_next: "tables_ok h flows udp \<Longrightarrow> checked_add h 1 = Some n \<Longrightarrow> tables_ok n flows udp"
  using next_handle_less [of h n] unfolding tables_ok_def by fastforce

lemma tables_ok_new_flow:
  assumes "tables_ok h flows udp" and "checked_add h 1 = Some n"
  shows "tables_ok n (hm_insert h f flows) udp" "hm_get flows h = None"
    "tables_ok n flows (hm_insert h g udp)" "hm_get udp h = None"
proof -
  show "hm_get flows h = None" "hm_get udp h = None" using assms(1) by (auto simp: tables_ok_def)
  then show "tables_ok n (hm_insert h f flows) udp" "tables_ok n flows (hm_insert h g udp)"
    using tables_ok_next [OF assms] next_handle_less [OF assms(2)] assms(1)
    by (auto simp: tables_ok_def)
qed

lemma tables_ok_update:
  "tables_ok n flows udp \<Longrightarrow> hm_get flows h = Some f \<Longrightarrow> tables_ok n (hm_insert h f' flows) udp"
  "tables_ok n flows udp \<Longrightarrow> hm_get udp h = Some g \<Longrightarrow> tables_ok n flows (hm_insert h g' udp)"
  by (fastforce simp: tables_ok_def)+

text \<open>Polling a table only loses entries.\<close>

lemma fold_remove_table:
  "hm_wf m \<Longrightarrow> hm_wf (fold hm_remove hs m) \<and> hm_len (fold hm_remove hs m) \<le> hm_len m \<and>
     (\<forall>h. hm_get m h = None \<longrightarrow> hm_get (fold hm_remove hs m) h = None)"
proof (induction hs arbitrary: m)
  case (Cons h hs)
  then have "hm_wf (hm_remove h m)" by simp
  from Cons.IH [OF this] hm.len_remove_le [OF Cons.prems, of h] show ?case by (auto intro: order.trans [of _ "hm_len (hm_remove h m)"])
qed simp

lemma poll_table_keys: "map fst (map (\<lambda>(h, r, f, ev). (h, f)) (map (\<lambda>(h, f). (h, poll f)) m)) = map fst m"
  by (induction m) (auto split: prod.splits)

lemma hm_get_None_keys: "map fst m = map fst m' \<Longrightarrow> hm_get m h = None \<longleftrightarrow> hm_get m' h = None"
  by (metis hm_get_None list.set_map)

lemma poll_table_shrinks:
  assumes "hm_wf m"
  shows "hm_wf (poll_table poll m)" "hm_len (poll_table poll m) \<le> hm_len m"
    "hm_get m h = None \<Longrightarrow> hm_get (poll_table poll m) h = None"
proof -
  let ?m = "map (\<lambda>(h, r, f, ev). (h, f)) (map (\<lambda>(h, f). (h, poll f)) m)"
  let ?hs = "map fst (filter (\<lambda>(handle, r, f, ev). flow_finished r) (map (\<lambda>(h, f). (h, poll f)) m))"
  have wf: "hm_wf ?m" and len: "hm_len ?m = hm_len m" and get: "hm_get ?m h = None \<longleftrightarrow> hm_get m h = None" for h
    using assms poll_table_keys [of poll m] hm_get_None_keys [OF poll_table_keys, of poll m h]
    by (simp_all only: hm_wf_def hm_len_def length_map)
  have e: "poll_table poll m = fold hm_remove ?hs ?m" unfolding poll_table_def Let_def ..
  note r = fold_remove_table [OF wf, of ?hs]
  show "hm_wf (poll_table poll m)" "hm_len (poll_table poll m) \<le> hm_len m" using r len unfolding e by simp_all
  show "hm_get m h = None \<Longrightarrow> hm_get (poll_table poll m) h = None" using r get unfolding e by blast
qed

lemma tables_ok_poll:
  assumes "tables_ok n flows udp"
  shows "tables_ok n (poll_table p flows) udp" "tables_ok n flows (poll_table q udp)"
proof -
  from assms have wf: "hm_wf flows" "hm_wf udp" by (simp_all add: tables_ok_def)
  show "tables_ok n (poll_table p flows) udp" "tables_ok n flows (poll_table q udp)"
    using assms poll_table_shrinks(1,3) [OF wf(1)] poll_table_shrinks(1,3) [OF wf(2)]
    unfolding tables_ok_def by metis+
qed

lemma tables_ok_remove:
  "tables_ok n flows udp \<Longrightarrow> tables_ok n (hm_remove h flows) (hm_remove h udp)"
  by (auto simp: tables_ok_def)

lemma take_clients_inv: "socks_inv st \<Longrightarrow> socks_inv (snd (take_clients configured q st))"
proof (induction configured q st rule: take_clients.induct)
  case (2 configured stream q st)
  show ?case
  proof (cases "used_connections st < so_max_connections (ss_options st)")
    case True
    let ?st = "case connection_new stream (configured stream) of
      Ok c \<Rightarrow> st\<lparr>ss_clients := ss_clients st @ [c]\<rparr> | Err _ \<Rightarrow> st"
    have "socks_inv ?st"
      using True 2(2) by (auto simp: socks_inv_def used_connections_def split: result.splits)
    with 2(1) [OF True] True show ?thesis by simp
  qed (use 2(2) in simp)
qed simp

lemma accept_clients_inv: "socks_inv st \<Longrightarrow> socks_inv (snd (accept_clients env i ls st))"
proof -
  assume st: "socks_inv st"
  show "socks_inv (snd (accept_clients env i ls st))"
  proof (cases "hm_get ls (ss_listen st)")
    case None
    with st show ?thesis by (simp add: accept_clients_def)
  next
    case (Some g)
    show ?thesis
    proof (cases "hm_get (lg_queues (deal (en_accepted env) g)) i")
      case None
      with Some st show ?thesis by (simp add: accept_clients_def Let_def)
    next
      case q: (Some q)
      from take_clients_inv [OF st, of "en_configured env" q] Some q
      show ?thesis by (simp add: accept_clients_def Let_def split_beta)
    qed
  qed
qed

text \<open>Promotion frees the client's place before it takes one.\<close>

lemma promote_inv:
  fixes st :: "('c, 'u, 'p, 's) socks_state"
  assumes st: "socks_inv st" and i: "i < length (ss_clients st)"
  shows "socks_inv (promote env i st) \<and> ss_clients (promote env i st) = swap_remove i (ss_clients st)"
proof -
  let ?c = "ss_clients st ! i" and ?st = "st\<lparr>ss_clients := swap_remove i (ss_clients st)\<rparr>"
  from i have pos: "0 < length (ss_clients st)" by linarith
  have used: "Suc (used_connections ?st) = used_connections st" using pos by (simp add: used_connections_def)
  then have inv: "socks_inv ?st" using st by (simp add: socks_inv_def)
  show ?thesis
  proof (cases "cc_phase ?c")
    case (Ready_Phase r)
    show ?thesis
    proof (cases "rq_command r")
      case Connect
      show ?thesis
      proof (cases "checked_add (ss_next_flow st) 1")
        case None
        with inv Ready_Phase Connect show ?thesis by (simp add: promote_def Let_def)
      next
        case (Some n)
        have t: "tables_ok (ss_next_flow st) (ss_flows st) (ss_udp_flows st)" using st by (simp add: socks_inv_def)
        note new = tables_ok_new_flow [OF t Some]
        show ?thesis
        proof (cases "client_flow_new (en_pump_new env) ?c r :: (('c, 'p, 's) client_flow, status) result")
          case (Ok f)
          have wf: "hm_wf (ss_flows st)" using t by (simp add: tables_ok_def)
          have "hm_len (hm_insert (ss_next_flow st) f (ss_flows st)) = Suc (hm_len (ss_flows st))"
            using wf new(2) by (simp add: hm.len_insert)
          with Ok inv used st new(1) [of f] Ready_Phase Connect Some show ?thesis
            by (simp add: promote_def Let_def socks_inv_def used_connections_def)
        next
          case (Err e)
          with inv tables_ok_next [OF t Some] Ready_Phase Connect Some show ?thesis
            by (simp add: promote_def Let_def socks_inv_def used_connections_def)
        qed
      qed
    next
      case UdpAssociate
      have "socks_inv (associate env i ?c ?st) \<and> ss_clients (associate env i ?c ?st) = swap_remove i (ss_clients st)"
        if "length (ss_associations st) < so_max_udp_associations (ss_options st)"
        using that inv used st
        by (auto simp: associate_def socks_inv_def used_connections_def split: option.splits)
      with inv Ready_Phase UdpAssociate show ?thesis by (simp add: promote_def Let_def)
    qed
  qed (use inv in \<open>simp_all add: promote_def Let_def\<close>)
qed

text \<open>The promoted indices are removed from the highest down, so each still names its client.\<close>

lemma swap_remove_nth: "j < i \<Longrightarrow> i < length xs \<Longrightarrow> swap_remove i xs ! j = xs ! j"
  by (auto simp: swap_remove_def nth_list_update nth_butlast)

lemma swap_remove_mem:
  assumes "x \<in> set xs" and "x \<noteq> xs ! i" and "i < length xs"
  shows "x \<in> set (swap_remove i xs)"
proof -
  from assms obtain ys y where xs: "xs = ys @ [y]" by (cases xs rule: rev_cases) auto
  show ?thesis
  proof (cases "i < length ys")
    case True
    with assms xs show ?thesis
      by (auto simp: swap_remove_def nth_append in_set_conv_nth nth_list_update)
  next
    case False
    with assms xs have "i = length ys" by simp
    with assms xs show ?thesis by (simp add: swap_remove_def nth_append)
  qed
qed

lemma fold_promote:
  "sorted_wrt (>) is \<Longrightarrow> \<forall>i \<in> set is. i < length (ss_clients st) \<Longrightarrow> socks_inv st \<Longrightarrow>
     socks_inv (fold (promote env) is st) \<and>
     (\<forall>c \<in> set (ss_clients st). (\<forall>i \<in> set is. ss_clients st ! i \<noteq> c) \<longrightarrow> c \<in> set (ss_clients (fold (promote env) is st)))"
proof (induction "is" arbitrary: st)
  case (Cons i "is")
  from promote_inv [of st i env] Cons.prems have p: "socks_inv (promote env i st)"
    "ss_clients (promote env i st) = swap_remove i (ss_clients st)" by auto
  have less: "\<forall>j \<in> set is. j < i" using Cons.prems(1) by simp
  have i: "i < length (ss_clients st)" using Cons.prems(2) by simp
  have "\<forall>j \<in> set is. j < length (ss_clients (promote env i st))"
    using less i p(2) by fastforce
  from Cons.IH [OF _ this p(1)] Cons.prems(1) have IH: "socks_inv (fold (promote env) is (promote env i st))"
    "\<forall>c \<in> set (swap_remove i (ss_clients st)). (\<forall>j \<in> set is. swap_remove i (ss_clients st) ! j \<noteq> c) \<longrightarrow>
       c \<in> set (ss_clients (fold (promote env) is (promote env i st)))" by (simp_all add: p(2))
  have "c \<in> set (ss_clients (fold (promote env) is (promote env i st)))"
    if "c \<in> set (ss_clients st)" "\<forall>j \<in> set (i # is). ss_clients st ! j \<noteq> c" for c
    using that IH(2) swap_remove_mem [of c "ss_clients st" i] swap_remove_nth [of _ i "ss_clients st"] less i by auto
  with IH(1) show ?case by auto
qed simp

lemma socks_inv_fewer_clients:
  "socks_inv st \<Longrightarrow> length cs \<le> length (ss_clients st) \<Longrightarrow> socks_inv (st\<lparr>ss_clients := cs\<rparr>)"
  by (simp add: socks_inv_def used_connections_def)

lemma poll_clients_inv:
  assumes "socks_inv st"
  shows "socks_inv (poll_clients env st)"
    "\<lbrakk>c \<in> set (ss_clients st); \<not> connection_ready (poll_client env (so_max_request_bytes (ss_options st)) c);
      keep_client (poll_client env (so_max_request_bytes (ss_options st)) c)\<rbrakk> \<Longrightarrow>
     poll_client env (so_max_request_bytes (ss_options st)) c \<in> set (ss_clients (poll_clients env st))"
proof -
  let ?cs = "map (poll_client env (so_max_request_bytes (ss_options st))) (ss_clients st)"
  let ?is = "rev (filter (\<lambda>i. connection_ready (?cs ! i)) [0..<length ?cs])"
  let ?st = "fold (promote env) ?is (st\<lparr>ss_clients := ?cs\<rparr>)"
  have e: "poll_clients env st = ?st\<lparr>ss_clients := filter keep_client (ss_clients ?st)\<rparr>"
    unfolding poll_clients_def Let_def ..
  have "sorted_wrt (<) (filter (\<lambda>i. connection_ready (?cs ! i)) [0..<length ?cs])"
    by (simp add: sorted_wrt_filter)
  then have "sorted_wrt (>) ?is" by (simp add: sorted_wrt_rev)
  moreover have "\<forall>i \<in> set ?is. i < length (ss_clients (st\<lparr>ss_clients := ?cs\<rparr>))" by auto
  moreover have "socks_inv (st\<lparr>ss_clients := ?cs\<rparr>)" using assms by (rule socks_inv_fewer_clients) simp
  ultimately have f: "socks_inv ?st"
    "\<forall>c \<in> set ?cs. (\<forall>i \<in> set ?is. ?cs ! i \<noteq> c) \<longrightarrow> c \<in> set (ss_clients ?st)"
    using fold_promote [of ?is "st\<lparr>ss_clients := ?cs\<rparr>" env] by simp_all
  from f(1) show "socks_inv (poll_clients env st)" unfolding e by (rule socks_inv_fewer_clients) simp
  assume c: "c \<in> set (ss_clients st)" "\<not> connection_ready (poll_client env (so_max_request_bytes (ss_options st)) c)"
    "keep_client (poll_client env (so_max_request_bytes (ss_options st)) c)"
  let ?c = "poll_client env (so_max_request_bytes (ss_options st)) c"
  have "?c \<in> set ?cs" using c(1) by simp
  moreover have "\<forall>i \<in> set ?is. ?cs ! i \<noteq> ?c" using c(2) by auto
  ultimately have "?c \<in> set (ss_clients ?st)" using f(2) by blast
  with c(3) show "?c \<in> set (ss_clients (poll_clients env st))" unfolding e by simp
qed

lemma handle_packet_inv:
  fixes st :: "('c, 'u, 'p, 's) socks_state"
  assumes st: "socks_inv st"
  shows "socks_inv (handle_packet env (i, source, p) st) \<and> ss_clients (handle_packet env (i, source, p) st) = ss_clients st"
proof -
  have t: "tables_ok (ss_next_flow st) (ss_flows st) (ss_udp_flows st)" using st by (simp add: socks_inv_def)
  then have wf: "hm_wf (ss_udp_flows st)" by (simp add: tables_ok_def)
  let ?a = "ss_associations st ! i" and ?key = "(up_address p, up_port p)"
  let ?a1 = "?a\<lparr>ua_destinations := hm_remove ?key (ua_destinations ?a)\<rparr>"
  let ?st1 = "st\<lparr>ss_associations := (ss_associations st)[i := ?a1]\<rparr>"
  have inv1: "socks_inv ?st1" using st by (simp add: socks_inv_def used_connections_def)
  show ?thesis
  proof (cases "Option.bind (hm_get (ua_destinations ?a) ?key) (\<lambda>h. map_option (Pair h) (hm_get (ss_udp_flows st) h))")
    case (Some hf)
    then obtain h f where hf: "hf = (h, f)" "hm_get (ss_udp_flows st) h = Some f"
      by (cases hf) (auto simp: bind_eq_Some_conv)
    have "tables_ok (ss_next_flow st) (ss_flows st) (hm_insert h g (ss_udp_flows st))" for g
      using tables_ok_update(2) [OF t hf(2)] .
    moreover have "hm_len (hm_insert h g (ss_udp_flows st)) = hm_len (ss_udp_flows st)" for g
      using wf hf(2) by (simp add: hm.len_insert)
    ultimately show ?thesis using Some hf(1) st
      by (simp add: handle_packet_def Let_def socks_inv_def used_connections_def)
  next
    case None
    show ?thesis
    proof (cases "hm_len (ss_flows st) + hm_len (ss_udp_flows st) < so_max_connections (ss_options st)
        \<and> checked_add (ss_next_flow st) 1 \<noteq> None \<and> en_clone env (ua_socket ?a) \<noteq> None")
      case False
      with None inv1 show ?thesis
        by (auto simp: handle_packet_def Let_def split: option.splits)
    next
      case True
      then obtain n socket where n: "checked_add (ss_next_flow st) 1 = Some n" "en_clone env (ua_socket ?a) = Some socket" by blast
      show ?thesis
      proof (cases "udp_flow_new (en_nonblocking env) socket source (up_address p) (up_port p) (up_payload p) :: ('u, 's) udp_flow option")
        case fl: None
        with None True n inv1 show ?thesis by (simp add: handle_packet_def Let_def)
      next
        case (Some f)
        have "hm_len (hm_insert (ss_next_flow st) f (ss_udp_flows st)) = Suc (hm_len (ss_udp_flows st))"
          using wf tables_ok_new_flow(4) [OF t n(1)] by (simp add: hm.len_insert)
        with None True n Some st tables_ok_new_flow(3) [OF t n(1), of f] show ?thesis
          by (simp add: handle_packet_def Let_def socks_inv_def used_connections_def)
      qed
    qed
  qed
qed

lemma fold_packets_inv:
  "socks_inv st \<Longrightarrow> socks_inv (fold (handle_packet env) packets st) \<and> ss_clients (fold (handle_packet env) packets st) = ss_clients st"
proof (induction packets arbitrary: st)
  case (Cons p packets)
  obtain i source pk where p: "p = (i, source, pk)" by (cases p)
  from handle_packet_inv [OF Cons.prems, of env i source pk] Cons.IH [of "handle_packet env p st"] p
  show ?case by simp
qed simp

lemma poll_udp_associations_inv:
  assumes "socks_inv st"
  shows "socks_inv (poll_udp_associations env st) \<and> ss_clients (poll_udp_associations env st) = ss_clients st"
proof -
  define polled where "polled = map (poll_association env) (ss_associations st)"
  define packets where "packets = concat (map (\<lambda>i. case fst (snd (polled ! i)) of None \<Rightarrow> []
      | Some (source, p) \<Rightarrow> [(i, source, p)]) [0..<length polled])"
  define closed where "closed = filter (\<lambda>i. snd (snd (polled ! i))) [0..<length polled]"
  define st1 where "st1 = fold (handle_packet env) packets (st\<lparr>ss_associations := map fst polled\<rparr>)"
  define st2 where "st2 = st1\<lparr>ss_udp_flows := poll_table (udp_flow_poll env) (ss_udp_flows st1)\<rparr>"
  have e: "poll_udp_associations env st = st2\<lparr>ss_associations := fold swap_remove (rev closed) (ss_associations st2)\<rparr>"
    unfolding poll_udp_associations_def Let_def polled_def packets_def closed_def st1_def st2_def ..
  have "socks_inv (st\<lparr>ss_associations := map fst polled\<rparr>)"
    using assms by (simp add: socks_inv_def used_connections_def polled_def)
  from fold_packets_inv [OF this, of env packets] have st1: "socks_inv st1" "ss_clients st1 = ss_clients st"
    unfolding st1_def by simp_all
  then have t: "tables_ok (ss_next_flow st1) (ss_flows st1) (ss_udp_flows st1)" by (simp add: socks_inv_def)
  then have "hm_wf (ss_udp_flows st1)" by (simp add: tables_ok_def)
  from poll_table_shrinks(2) [OF this, of "udp_flow_poll env"] st1(1) tables_ok_poll(2) [OF t, of "udp_flow_poll env"]
  have st2: "socks_inv st2" unfolding st2_def by (simp add: socks_inv_def used_connections_def)
  have "length (fold swap_remove (rev closed) (ss_associations st2)) \<le> length (ss_associations st2)"
    by (rule length_fold_swap_remove)
  with st2 have "socks_inv (poll_udp_associations env st)" unfolding e by (simp add: socks_inv_def used_connections_def)
  moreover have "ss_clients (poll_udp_associations env st) = ss_clients st" unfolding e by (simp add: st2_def st1(2))
  ultimately show ?thesis ..
qed

lemma take_clients_keeps:
  "set (ss_clients st) \<subseteq> set (ss_clients (snd (take_clients configured q st))) \<and>
   ss_options (snd (take_clients configured q st)) = ss_options st"
proof (induction configured q st rule: take_clients.induct)
  case (2 configured stream q st)
  then show ?case by (cases "connection_new stream (configured stream)") (auto simp: subset_iff)
qed simp

lemma accept_clients_keeps:
  "set (ss_clients st) \<subseteq> set (ss_clients (snd (accept_clients env i ls st))) \<and>
   ss_options (snd (accept_clients env i ls st)) = ss_options st"
  using take_clients_keeps [of st "en_configured env"]
  by (auto simp: accept_clients_def Let_def split_beta split: option.splits)

lemma poll_state_parts:
  "snd (poll_state env i ls st) =
     (let st2 = poll_clients env (snd (accept_clients env i ls st))
      in poll_udp_associations env (st2\<lparr>ss_flows := poll_table (client_flow_poll env) (ss_flows st2)\<rparr>))"
  by (simp add: poll_state_def Let_def split_beta)

lemma poll_flows_inv: "socks_inv st \<Longrightarrow> socks_inv (st\<lparr>ss_flows := poll_table p (ss_flows st)\<rparr>)"
proof -
  assume st: "socks_inv st"
  then have t: "tables_ok (ss_next_flow st) (ss_flows st) (ss_udp_flows st)" by (simp add: socks_inv_def)
  then have "hm_wf (ss_flows st)" by (simp add: tables_ok_def)
  from poll_table_shrinks(2) [OF this, of p] tables_ok_poll(1) [OF t, of p] st
  show ?thesis by (simp add: socks_inv_def used_connections_def)
qed

lemma poll_state_inv: "socks_inv st \<Longrightarrow> socks_inv (snd (poll_state env i ls st))"
  unfolding poll_state_parts Let_def
  by (intro poll_udp_associations_inv [THEN conjunct1] poll_flows_inv poll_clients_inv(1) accept_clients_inv)

text \<open>The calls of the host, in any order.\<close>

datatype ('c, 'u, 'p, 's) socks_call =
    Initialize bool u64 bytes
  | Accept "('c, 'u, 'p, 's) socks_env" bool u64
  | Attach bool u64 u64 u64 "'s option"
  | Attach_Datagram bool u64 u64 u64 "'s option"
  | Complete bool u64 u64 status nat
  | Close_Flow bool u64 u64
  | Poll_Instance "('c, 'u, 'p, 's) socks_env" u64
  | Shutdown_Instance u64

fun host_call ::
  "(str \<Rightarrow> socks_options option) \<Rightarrow> ('c, 'u, 'p, 's) socks_call \<Rightarrow> ('c, 'u, 'p, 's) socks_adapter \<Rightarrow> ('c, 'u, 'p, 's) socks_adapter" where
  "host_call toml (Initialize bound i config) ad = snd (socks_initialize toml bound i config ad)"
| "host_call toml (Accept env known i) ad = snd (socks_accept env known i ad)"
| "host_call toml (Attach known i flow socket stack) ad = snd (socks_attach known i flow socket stack ad)"
| "host_call toml (Attach_Datagram known i flow socket stack) ad = snd (socks_attach_datagram known i flow socket stack ad)"
| "host_call toml (Complete known i flow s n) ad = snd (socks_complete known i flow s n ad)"
| "host_call toml (Close_Flow known i flow) ad = snd (socks_close_flow known i flow ad)"
| "host_call toml (Poll_Instance env i) ad = snd (socks_poll_instance env i ad)"
| "host_call toml (Shutdown_Instance i) ad = snd (socks_shutdown i ad)"

definition adapter_inv :: "('c, 'u, 'p, 's) socks_adapter \<Rightarrow> bool" where
  "adapter_inv ad \<longleftrightarrow> (\<forall>i st. hm_get (sa_states ad) i = Some st \<longrightarrow> socks_inv st)"

lemma socks_inv_flows:
  assumes "socks_inv st" and "hm_get (ss_flows st) h = Some f"
  shows "socks_inv (st\<lparr>ss_flows := hm_insert h f' (ss_flows st)\<rparr>)"
proof -
  from assms(1) have t: "tables_ok (ss_next_flow st) (ss_flows st) (ss_udp_flows st)" by (simp add: socks_inv_def)
  then have "hm_len (hm_insert h f' (ss_flows st)) = hm_len (ss_flows st)"
    using assms(2) by (simp add: tables_ok_def hm.len_insert)
  with assms(1) tables_ok_update(1) [OF t assms(2)] show ?thesis by (simp add: socks_inv_def used_connections_def)
qed

lemma socks_inv_udp_flows:
  assumes "socks_inv st" and "hm_get (ss_udp_flows st) h = Some f"
  shows "socks_inv (st\<lparr>ss_udp_flows := hm_insert h f' (ss_udp_flows st)\<rparr>)"
proof -
  from assms(1) have t: "tables_ok (ss_next_flow st) (ss_flows st) (ss_udp_flows st)" by (simp add: socks_inv_def)
  then have "hm_len (hm_insert h f' (ss_udp_flows st)) = hm_len (ss_udp_flows st)"
    using assms(2) by (simp add: tables_ok_def hm.len_insert)
  with assms(1) tables_ok_update(2) [OF t assms(2)] show ?thesis by (simp add: socks_inv_def used_connections_def)
qed

lemma find_unannounced_get:
  "hm_wf m \<Longrightarrow> find_unannounced p m = Some (h, f) \<Longrightarrow> hm_get m h = Some f"
proof -
  have "find_unannounced p m = Some (h, f) \<Longrightarrow> (h, f) \<in> set m"
    by (induction p m rule: find_unannounced.induct) (auto split: if_splits)
  then show "hm_wf m \<Longrightarrow> find_unannounced p m = Some (h, f) \<Longrightarrow> hm_get m h = Some f"
    by (simp add: hm_get_Some)
qed

lemma announce_inv:
  assumes "socks_inv st"
  shows "socks_inv (snd (announce st))"
proof -
  have wf: "hm_wf (ss_flows st)" "hm_wf (ss_udp_flows st)" using assms by (simp_all add: socks_inv_def tables_ok_def)
  show ?thesis
    using assms socks_inv_flows [OF assms] socks_inv_udp_flows [OF assms]
      find_unannounced_get [OF wf(1)] find_unannounced_get [OF wf(2)]
    by (auto simp: announce_def split: option.splits)
qed

lemma adapter_inv_insert:
  "adapter_inv ad \<Longrightarrow> socks_inv st \<Longrightarrow> adapter_inv (ad\<lparr>sa_states := hm_insert i st (sa_states ad)\<rparr>)"
  by (simp add: adapter_inv_def)

lemma with_state_inv:
  assumes "adapter_inv ad" and "\<And>st. socks_inv st \<Longrightarrow> socks_inv (snd (f st))"
  shows "adapter_inv (snd (with_state valid i f ad))"
proof (cases "hm_get (sa_states ad) i")
  case (Some st)
  with assms(1) have "socks_inv st" by (simp add: adapter_inv_def)
  from adapter_inv_insert [OF assms(1) assms(2) [OF this], of i] Some assms(1)
  show ?thesis by (simp add: with_state_def split_beta)
qed (use assms(1) in \<open>simp add: with_state_def\<close>)

lemma close_inv:
  assumes "socks_inv st"
  shows "socks_inv (st\<lparr>ss_flows := hm_remove h (ss_flows st), ss_udp_flows := hm_remove h (ss_udp_flows st)\<rparr>)"
proof -
  from assms have t: "tables_ok (ss_next_flow st) (ss_flows st) (ss_udp_flows st)" by (simp add: socks_inv_def)
  then have wf: "hm_wf (ss_flows st)" "hm_wf (ss_udp_flows st)" by (simp_all add: tables_ok_def)
  from hm.len_remove_le [OF wf(1), of h] hm.len_remove_le [OF wf(2), of h] tables_ok_remove [OF t, of h] assms
  show ?thesis by (simp add: socks_inv_def used_connections_def)
qed

lemma poll_instance_inv: "adapter_inv ad \<Longrightarrow> adapter_inv (snd (socks_poll_instance env i ad))"
  using poll_state_inv [of _ env i "sa_listeners ad"]
  by (auto simp: socks_poll_instance_def adapter_inv_def Let_def split_beta split: option.splits)

lemma accept_inv: "adapter_inv ad \<Longrightarrow> adapter_inv (snd (socks_accept env known i ad))"
  using poll_state_inv [of _ env i "sa_listeners ad"] announce_inv
  by (auto simp: socks_accept_def adapter_inv_def Let_def split_beta split: option.splits)

lemma host_call_inv: "adapter_inv ad \<Longrightarrow> adapter_inv (host_call toml call ad)"
proof (cases call)
  case (Initialize bound i config)
  assume "adapter_inv ad"
  with Initialize show ?thesis
    by (auto simp: socks_initialize_def adapter_inv_def socks_inv_def used_connections_def tables_ok_def
        split: result.splits option.splits)
next
  case (Shutdown_Instance i)
  assume "adapter_inv ad"
  with Shutdown_Instance show ?thesis
    by (auto simp: socks_shutdown_def adapter_inv_def split: option.splits if_splits)
next
  case (Attach known i flow socket stack)
  assume "adapter_inv ad"
  with Attach show ?thesis
    by (auto simp: socks_attach_def intro!: with_state_inv socks_inv_flows split: option.splits)
next
  case (Attach_Datagram known i flow socket stack)
  assume "adapter_inv ad"
  with Attach_Datagram show ?thesis
    by (auto simp: socks_attach_datagram_def intro!: with_state_inv socks_inv_udp_flows split: option.splits)
next
  case (Complete known i flow s n)
  assume "adapter_inv ad"
  with Complete show ?thesis
    by (auto simp: socks_complete_def intro!: with_state_inv socks_inv_flows socks_inv_udp_flows split: option.splits)
next
  case (Close_Flow known i flow)
  assume "adapter_inv ad"
  with Close_Flow show ?thesis
    by (auto simp: socks_close_flow_def intro!: with_state_inv close_inv)
qed (simp_all add: accept_inv poll_instance_inv)

text \<open>C31. Resources of the SOCKS5 adapter are bounded. After any sequence of host calls, with any
  behaviour of the sockets, the stack and the pumps, an instance holds at most \<open>max_connections\<close>
  connections (clients, flows and associations together), at most \<open>max_udp_associations\<close>
  associations and at most \<open>max_connections\<close> UDP flows; every flow handle is non-zero, below the
  next handle to be given out, and names one flow only.\<close>

theorem socks_resources_bounded:
  assumes "hm_get (sa_states (fold (host_call toml) calls \<lparr>sa_listeners = [], sa_states = []\<rparr>)) i = Some st"
  shows "length (ss_clients st) + hm_len (ss_flows st) + length (ss_associations st) \<le> so_max_connections (ss_options st) \<and>
    length (ss_associations st) \<le> so_max_udp_associations (ss_options st) \<and>
    hm_len (ss_udp_flows st) \<le> so_max_connections (ss_options st) \<and>
    hm_wf (ss_flows st) \<and> hm_wf (ss_udp_flows st) \<and>
    (\<forall>h. hm_contains (ss_flows st) h \<or> hm_contains (ss_udp_flows st) h \<longrightarrow> 0 < h \<and> h < ss_next_flow st) \<and>
    (\<forall>h. \<not> (hm_contains (ss_flows st) h \<and> hm_contains (ss_udp_flows st) h))"
proof -
  have "adapter_inv ad \<Longrightarrow> adapter_inv (fold (host_call toml) calls ad)" for ad
    by (induction calls arbitrary: ad) (simp_all add: host_call_inv)
  moreover have "adapter_inv \<lparr>sa_listeners = [], sa_states = []\<rparr>" by (simp add: adapter_inv_def)
  ultimately have "adapter_inv (fold (host_call toml) calls \<lparr>sa_listeners = [], sa_states = []\<rparr>)" by blast
  with assms have "socks_inv st" by (simp add: adapter_inv_def)
  then show ?thesis unfolding socks_inv_def used_connections_def tables_ok_def hm_contains_def by auto
qed

definition example_env :: "(nat, nat, nat, nat) socks_env" where
  "example_env = \<lparr>en_accepted = [7, 8, 9], en_configured = \<lambda>_. True, en_reads = \<lambda>_. chunk_reads [[5, 1, 0]],
     en_writes = \<lambda>s k bs. Write_Count (length bs), en_peek = \<lambda>_. Read_Pending, en_bind = \<lambda>i a. Some i,
     en_nonblocking = \<lambda>_. True, en_local_addr = \<lambda>_. Some (Sock_V4 0x7F000001 9),
     en_recv_from = \<lambda>_. Udp_Packet [0, 0, 0, 1, 1, 2, 3, 4, 0, 53, 65] (Sock_V4 0x7F000001 5),
     en_clone = Some, en_send_to = \<lambda>_ _ bs. Write_Count (length bs), en_send_datagram = \<lambda>_ _. Datagram_Sent,
     en_recv_datagram = \<lambda>_. Recv_Pending, en_pump_new = \<lambda>_. Some 0,
     en_upload = \<lambda>p c prefix s. (Pump_Pending, p, []), en_download = \<lambda>p s c. (Pump_Pending, p)\<rparr>"

definition example_socks_options :: socks_options where
  "example_socks_options = \<lparr>so_listen = str_lit ''127.0.0.1:1080'', so_max_connections = 2, so_max_udp_associations = 1,
     so_max_request_bytes = 262, so_reject_fragments = True\<rparr>"

definition example_calls :: "(nat, nat, nat, nat) socks_call list" where
  "example_calls = [Initialize True 1 [], Poll_Instance example_env 1]"

definition example_client :: "nat \<Rightarrow> client_phase \<Rightarrow> nat client_connection" where
  "example_client s phase = \<lparr>cc_stream = s, cc_input = [], cc_output = [], cc_output_offset = 0, cc_phase = phase\<rparr>"

definition example_state :: "nat client_connection list \<Rightarrow> (nat, nat, nat, nat) socks_state" where
  "example_state clients = \<lparr>ss_listen = Sock_V4 0x7F000001 1080, ss_options = example_socks_options,
     ss_clients = clients, ss_flows = [], ss_associations = [], ss_udp_flows = [], ss_next_flow = 1\<rparr>"

definition example_listeners :: "nat list \<Rightarrow> nat listeners" where
  "example_listeners q = [(Sock_V4 0x7F000001 1080, \<lparr>lg_members = [1], lg_queues = [(1, q)], lg_next = 0\<rparr>)]"

lemma example_init:
  "host_call (\<lambda>_. Some example_socks_options) (Initialize True 1 []) \<lparr>sa_listeners = [], sa_states = []\<rparr> =
     \<lparr>sa_listeners = example_listeners [], sa_states = [(1, example_state [])]\<rparr>"
  by code_simp

lemma example_accept:
  "accept_clients example_env 1 (example_listeners []) (example_state []) =
     (example_listeners [9], example_state [example_client 7 Greeting, example_client 8 Greeting])"
  by code_simp

lemma example_poll_clients:
  "poll_clients example_env (example_state [example_client 7 Greeting, example_client 8 Greeting]) =
     example_state [example_client 7 Request_Phase, example_client 8 Request_Phase]"
  by code_simp

lemma example_poll_udp: "poll_udp_associations example_env (example_state clients) = example_state clients"
  by (simp add: poll_udp_associations_def example_state_def poll_table_def)

lemma example_poll:
  "poll_state example_env 1 (example_listeners []) (example_state []) =
     (example_listeners [9], example_state [example_client 7 Request_Phase, example_client 8 Request_Phase])"
  using example_poll_udp [of "[example_client 7 Request_Phase, example_client 8 Request_Phase]"]
  by (simp add: poll_state_def example_accept example_poll_clients poll_table_def) (simp add: example_state_def)

theorem socks_resources_bounded_witness:
  "\<exists>st. hm_get (sa_states (fold (host_call (\<lambda>_. Some example_socks_options)) example_calls
           \<lparr>sa_listeners = [], sa_states = []\<rparr>)) 1 = Some st \<and>
     st = example_state [example_client 7 Request_Phase, example_client 8 Request_Phase] \<and>
     length (ss_clients st) + hm_len (ss_flows st) + length (ss_associations st) \<le> so_max_connections (ss_options st)"
proof -
  let ?st = "example_state [example_client 7 Request_Phase, example_client 8 Request_Phase]"
  have "hm_get (sa_states (fold (host_call (\<lambda>_. Some example_socks_options)) example_calls
           \<lparr>sa_listeners = [], sa_states = []\<rparr>)) 1 = Some ?st"
    by (simp add: example_calls_def example_init socks_poll_instance_def hm_get_def hm_insert_def example_poll del: host_call.simps(1))
  with socks_resources_bounded [OF this] show ?thesis by blast
qed

text \<open>A socket that can neither be read nor written any more.\<close>

definition dead_stream :: "('c, 'u, 'p, 's) socks_env \<Rightarrow> 'c \<Rightarrow> bool" where
  "dead_stream env s \<longleftrightarrow> en_reads env s 0 = Read_Error \<or>
     en_reads env s 0 = Read_Data [] \<and> (\<forall>k bs. en_writes env s k bs = Write_Error)"

definition stuck :: "'c client_connection \<Rightarrow> bool" where
  "stuck c \<longleftrightarrow> cc_phase c = Failed \<and> cc_output_offset c < length (cc_output c)"

lemma poll_client_stuck:
  assumes "stuck c" and "dead_stream env (cc_stream c)"
  shows "poll_client env limit c = c"
proof (cases "en_reads env (cc_stream c) 0 = Read_Error")
  case True
  then have "read_client (en_reads env (cc_stream c)) 0 limit c = (True, c)" by (simp add: read_client.simps)
  with assms(1) show ?thesis by (simp add: poll_client_def connection_poll_def stuck_def)
next
  case False
  with assms(2) have d: "en_reads env (cc_stream c) 0 = Read_Data []" "\<forall>k bs. en_writes env (cc_stream c) k bs = Write_Error"
    by (auto simp: dead_stream_def)
  from d(1) have "read_client (en_reads env (cc_stream c)) 0 limit c = (False, c)"
    using assms(1) by (simp add: read_client.simps stuck_def)
  moreover have "connection_parse c = c"
    using assms(1) by (simp add: connection_parse_def parse_greeting_def parse_request_phase_def stuck_def)
  moreover have "write_loop (en_writes env (cc_stream c)) 0 (cc_output c) (cc_output_offset c) = (Write_Failed, cc_output_offset c, [])"
    using assms(1) d(2) by (simp add: write_loop.simps stuck_def)
  ultimately show ?thesis using assms(1) by (simp add: poll_client_def connection_poll_def write_pending_def stuck_def)
qed

lemma poll_state_stuck:
  assumes "socks_inv st" and "c \<in> set (ss_clients st)" and "stuck c" and "dead_stream env (cc_stream c)"
  shows "c \<in> set (ss_clients (snd (poll_state env i ls st)))"
proof -
  let ?st1 = "snd (accept_clients env i ls st)"
  have st1: "socks_inv ?st1" "c \<in> set (ss_clients ?st1)"
    using assms accept_clients_inv accept_clients_keeps [of st env i ls] by blast+
  have p: "poll_client env l c = c" for l by (rule poll_client_stuck [OF assms(3,4)])
  have "cc_output c \<noteq> []" using assms(3) by (auto simp: stuck_def)
  then have "c \<in> set (ss_clients (poll_clients env ?st1))"
    using poll_clients_inv(2) [OF st1, of env] assms(3)
    by (auto simp: p connection_ready_def keep_client_def stuck_def)
  moreover have "ss_clients (poll_udp_associations env s) = ss_clients s" if "socks_inv s" for s
    using poll_udp_associations_inv [OF that] by blast
  ultimately show ?thesis unfolding poll_state_parts Let_def
    using poll_flows_inv [OF poll_clients_inv(1) [OF st1(1)], of "client_flow_poll env" env] by simp
qed

text \<open>C34. A client whose socket fails while a reply is still queued is never released: it stays in
  the table of its instance, and takes one of the \<open>max_connections\<close> places, however often the
  instance is polled.\<close>

theorem failed_client_never_released:
  assumes "socks_inv st" and "c \<in> set (ss_clients st)"
    and "cc_phase c = Failed" and "cc_output_offset c < length (cc_output c)"
    and "\<forall>env \<in> set envs. dead_stream env (cc_stream c)"
  shows "c \<in> set (ss_clients (snd (fold (\<lambda>env (ls, st). poll_state env i ls st) envs (ls, st))))"
proof -
  have c: "stuck c" using assms(3,4) by (simp add: stuck_def)
  show ?thesis using assms(1,2,5)
  proof (induction envs arbitrary: ls st)
    case (Cons env envs)
    obtain ls1 st1 where p: "poll_state env i ls st = (ls1, st1)" by force
    from poll_state_inv [OF Cons.prems(1), of env i ls] poll_state_stuck [OF Cons.prems(1,2) c, of env i ls] Cons.prems(3) p
    have "socks_inv st1" "c \<in> set (ss_clients st1)" by auto
    with Cons.IH Cons.prems(3) p show ?case by simp
  qed simp
qed

definition example_stuck :: "nat client_connection" where
  "example_stuck = \<lparr>cc_stream = 7, cc_input = [4], cc_output = [5, 255], cc_output_offset = 0, cc_phase = Failed\<rparr>"

definition example_dead :: "(nat, nat, nat, nat) socks_env" where
  "example_dead = example_env\<lparr>en_reads := \<lambda>s k. Read_Data [], en_writes := \<lambda>s k bs. Write_Error\<rparr>"

theorem failed_client_never_released_witness:
  "example_stuck \<in> set (ss_clients (snd (fold (\<lambda>env (ls, st). poll_state env 1 ls st) [example_dead, example_dead]
     ([], example_state [example_stuck]))))"
  by (rule failed_client_never_released)
    (simp_all add: example_state_def example_stuck_def example_dead_def example_socks_options_def socks_inv_def
      used_connections_def tables_ok_def dead_stream_def)

end
