(* ===== verification/Policy_Flow.thy ===== *)
theory Policy_Flow
  imports Rules Sniff Poll_Io
begin

text \<open>
  Flows of the policy module (\<^verbatim>\<open>policy-local/src/lib.rs\<close>, \<open>PolicyFlow\<close>, \<open>DatagramSniff\<close> and
  \<open>PolicyDatagramFlow\<close>). A TCP flow with a sniff policy reads its first bytes, classifies them, and
  only then forwards anything. The byte pumps of the module kit are opaque values of type \<open>'p\<close>;
  the streams, the pumps and the clock answer through the record \<open>flow_io\<close>. Instants are integers
  (nanoseconds). \<open>classify_tcp\<close> never panics (lemma \<open>classify_tcp_classified\<close>), so its value is used
  directly.
\<close>

type_synonym instant = int

record pump_report =
  pr_read :: nat
  pr_written :: nat
  pr_finished :: bool

definition report_default :: pump_report where
  "report_default = \<lparr>pr_read = 0, pr_written = 0, pr_finished = False\<rparr>"

datatype pump_error = Pump_Io | Pump_Denied | Pump_WriteZero

record tcp_sniff =
  ts_policy :: sniff_policy
  ts_prefix :: bytes
  ts_deadline :: instant
  ts_allowed :: bool

record ('b, 'p) policy_flow =
  pf_session :: u64
  pf_user_id :: "str option"
  pf_credential_digest :: "str option"
  pf_stack :: 'b
  pf_mux :: 'b
  pf_upload :: 'p
  pf_download :: 'p
  pf_sniff :: "tcp_sniff option"
  pf_prefix_offset :: nat

text \<open>
  The \<open>k\<close>-th read of the mux stream into \<open>n\<close> bytes, the \<open>k\<close>-th look at the clock, a write to
  the stack, and the pumps called with a limit.
\<close>

record 'p flow_io =
  fi_read :: "nat \<Rightarrow> nat \<Rightarrow> io_read"
  fi_clock :: "nat \<Rightarrow> instant"
  fi_write :: "bytes \<Rightarrow> io_write"
  fi_upload :: "'p \<Rightarrow> nat \<Rightarrow> (pump_report, pump_error) poll \<times> 'p"
  fi_download :: "'p \<Rightarrow> nat \<Rightarrow> (pump_report, pump_error) poll \<times> 'p"

definition policy_flow_new ::
  "(nat \<Rightarrow> 'p option) \<Rightarrow> instant \<Rightarrow> 'b \<Rightarrow> 'b \<Rightarrow> nat \<Rightarrow> u64 \<Rightarrow> str option \<Rightarrow> str option \<Rightarrow> sniff_policy option \<Rightarrow>
     ('b, 'p) policy_flow option" where
  "policy_flow_new pump_new now stack mux buffer_bytes session user_id credential_digest sniff =
     Option.bind (pump_new buffer_bytes) (\<lambda>up. Option.bind (pump_new buffer_bytes) (\<lambda>down.
       Some \<lparr>pf_session = session, pf_user_id = user_id, pf_credential_digest = credential_digest,
             pf_stack = stack, pf_mux = mux, pf_upload = up, pf_download = down,
             pf_sniff = map_option (\<lambda>policy. \<lparr>ts_policy = policy, ts_prefix = [],
               ts_deadline = now + uint (sp_timeout_ms policy) * 1000000, ts_allowed = False\<rparr>) sniff,
             pf_prefix_offset = 0\<rparr>))"

section \<open>Sniffing\<close>

definition classified :: "bytes \<Rightarrow> bool \<Rightarrow> classification" where
  "classified prefix complete = (case classify_tcp prefix complete of Some c \<Rightarrow> c | None \<Rightarrow> NeedMore)"

lemma classify_tcp_classified: "classify_tcp prefix complete = Some (classified prefix complete)"
  using classify_tcp_decides [of prefix complete] by (auto simp: classified_def)

lemma classified_complete: "classified prefix True \<noteq> NeedMore"
  using classify_tcp_decides [of prefix True] by (auto simp: classified_def)

datatype sniff_end = Sniff_Ready | Sniff_Denied | Sniff_Failed | Sniff_Pending

definition sniff_verdict :: "tcp_sniff \<Rightarrow> observed \<Rightarrow> sniff_end \<times> tcp_sniff" where
  "sniff_verdict s ob =
     (if observed_allowed (ts_policy s) ob then (Sniff_Ready, s\<lparr>ts_allowed := True\<rparr>) else (Sniff_Denied, s))"

function sniff_loop :: "'p flow_io \<Rightarrow> nat \<Rightarrow> tcp_sniff \<Rightarrow> sniff_end \<times> tcp_sniff" where
  "sniff_loop io k s =
     (let complete = sp_max_bytes (ts_policy s) \<le> length (ts_prefix s) \<or> ts_deadline s \<le> fi_clock io k in
      case classified (ts_prefix s) complete of
        Complete ob \<Rightarrow> sniff_verdict s ob
      | NeedMore \<Rightarrow>
          let remaining = sp_max_bytes (ts_policy s) - length (ts_prefix s) in
          if remaining = 0 then sniff_loop io (Suc k) s
          else (case fi_read io k (min remaining 1024) of
                  Read_Pending \<Rightarrow> (Sniff_Pending, s)
                | Read_Error \<Rightarrow> (Sniff_Failed, s)
                | Read_Data bs \<Rightarrow>
                    if bs = []
                    then sniff_verdict s (case classified (ts_prefix s) True of Complete ob \<Rightarrow> ob | NeedMore \<Rightarrow> Unknown)
                    else sniff_loop io (Suc k) (s\<lparr>ts_prefix := ts_prefix s @ bs\<rparr>)))"
  by pat_completeness auto
termination
proof (relation "measure (\<lambda>(io, k, s). sp_max_bytes (ts_policy s) - length (ts_prefix s))", goal_cases)
  case (2 io k s complete remaining)
  then show ?case using classified_complete [of "ts_prefix s"] by simp
next
  case (3 io k s complete remaining bs)
  then have "0 < length bs" by simp
  with 3 show ?case by (simp del: length_greater_0_conv)
qed simp

declare sniff_loop.simps [simp del]

text \<open>Forwarding the sniffed bytes to the stack.\<close>

definition write_prefix ::
  "'p flow_io \<Rightarrow> nat \<Rightarrow> tcp_sniff \<Rightarrow> ('b, 'p) policy_flow \<Rightarrow>
     (pump_report, pump_error) poll \<times> ('b, 'p) policy_flow \<times> bytes" where
  "write_prefix io max_write s f =
     (if length (ts_prefix s) \<le> pf_prefix_offset f
      then (Ready (Ok report_default), f\<lparr>pf_sniff := None, pf_prefix_offset := 0\<rparr>, [])
      else if max_write = 0 then (Pending, f, [])
      else let stop = min (length (ts_prefix s)) (pf_prefix_offset f + max_write);
               offered = take (stop - pf_prefix_offset f) (drop (pf_prefix_offset f) (ts_prefix s))
           in case fi_write io offered of
             Write_Pending \<Rightarrow> (Pending, f, [])
           | Write_Error \<Rightarrow> (Ready (Err Pump_Io), f, [])
           | Write_Count n \<Rightarrow>
               if n = 0 then (Ready (Err Pump_WriteZero), f, [])
               else let offset = pf_prefix_offset f + n;
                        report = \<lparr>pr_read = 0, pr_written = n, pr_finished = False\<rparr>
                    in (Ready (Ok report),
                        if offset = length (ts_prefix s) then f\<lparr>pf_sniff := None, pf_prefix_offset := 0\<rparr>
                        else f\<lparr>pf_prefix_offset := offset\<rparr>,
                        take n offered))"

definition poll_sniff ::
  "'p flow_io \<Rightarrow> nat \<Rightarrow> ('b, 'p) policy_flow \<Rightarrow> (pump_report, pump_error) poll \<times> ('b, 'p) policy_flow \<times> bytes" where
  "poll_sniff io max_write f = (case pf_sniff f of
     None \<Rightarrow> (Ready (Ok report_default), f, [])
   | Some s \<Rightarrow>
       (case (if ts_allowed s then (Sniff_Ready, s) else sniff_loop io 0 s) of
          (Sniff_Denied, s') \<Rightarrow> (Ready (Err Pump_Denied), f\<lparr>pf_sniff := Some s'\<rparr>, [])
        | (Sniff_Failed, s') \<Rightarrow> (Ready (Err Pump_Io), f\<lparr>pf_sniff := Some s'\<rparr>, [])
        | (Sniff_Pending, s') \<Rightarrow> (Pending, f\<lparr>pf_sniff := Some s'\<rparr>, [])
        | (Sniff_Ready, s') \<Rightarrow> write_prefix io max_write s' (f\<lparr>pf_sniff := Some s'\<rparr>)))"

definition usize_saturating_sub :: "nat \<Rightarrow> nat \<Rightarrow> nat" where
  "usize_saturating_sub a b = a - b"

definition or_default :: "(pump_report, pump_error) poll \<Rightarrow> (pump_report, pump_error) result" where
  "or_default r = (case r of Ready x \<Rightarrow> x | Pending \<Rightarrow> Ok report_default)"

text \<open>\<open>PolicyFlow::poll\<close>; the last component is what was forwarded of the sniffed bytes, and
  whether the pumps were called.\<close>

definition policy_flow_poll ::
  "'p flow_io \<Rightarrow> nat \<Rightarrow> nat \<Rightarrow> nat \<Rightarrow> ('b, 'p) policy_flow \<Rightarrow>
     (pump_report \<times> pump_report, pump_error) poll \<times> ('b, 'p) policy_flow \<times> bytes \<times> bool" where
  "policy_flow_poll io max_stack_to_mux max_mux_to_stack max_total f =
     (case poll_sniff io (min max_mux_to_stack max_total) f of
        (Ready (Err e), f1, out) \<Rightarrow> (Ready (Err e), f1, out, False)
      | (Pending, f1, out) \<Rightarrow> (Pending, f1, out, False)
      | (Ready (Ok prefix), f1, out) \<Rightarrow>
          if pf_sniff f1 \<noteq> None then (Ready (Ok (report_default, prefix)), f1, out, False)
          else (case fi_upload io (pf_upload f1) (min max_stack_to_mux max_total) of (up, u) \<Rightarrow>
            let f2 = f1\<lparr>pf_upload := u\<rparr> in
            (case or_default up of
               Err e \<Rightarrow> (Ready (Err e), f2, out, True)
             | Ok upload \<Rightarrow>
                 let remaining = usize_saturating_sub (usize_saturating_sub max_total (pr_written upload)) (pr_written prefix) in
                 (case fi_download io (pf_download f2) (min max_mux_to_stack remaining) of (down, d) \<Rightarrow>
                   let f3 = f2\<lparr>pf_download := d\<rparr> in
                   (case or_default down of
                      Err e \<Rightarrow> (Ready (Err e), f3, out, True)
                    | Ok download0 \<Rightarrow>
                        let download = download0\<lparr>pr_read := usize_saturating_add (pr_read download0) (pr_read prefix),
                              pr_written := usize_saturating_add (pr_written download0) (pr_written prefix)\<rparr>
                        in if upload = report_default \<and> download = report_default then (Pending, f3, out, True)
                           else (Ready (Ok (upload, download)), f3, out, True))))))"

section \<open>Datagram flows\<close>

record ('b, 'p) policy_datagram_flow =
  df_session :: u64
  df_user_id :: "str option"
  df_credential_digest :: "str option"
  df_stack :: 'b
  df_mux :: 'b
  df_policy :: "sniff_policy option"
  df_upload :: 'p
  df_download :: 'p

datatype datagram_in = Datagram_In bytes | Datagram_Invalid | Datagram_Rest

text \<open>Receiving through the sniffer: \<open>Datagram_In\<close> is a datagram that fits the buffer,
  \<open>Datagram_Invalid\<close> one whose length exceeds it, \<open>Datagram_Rest\<close> any other result, passed on.\<close>

definition datagram_sniff ::
  "sniff_policy option \<Rightarrow> datagram_in \<Rightarrow> (datagram_in, pump_error) result \<times> sniff_policy option" where
  "datagram_sniff policy r = (case r of
     Datagram_In bs \<Rightarrow> (case policy of
       None \<Rightarrow> (Ok (Datagram_In bs), None)
     | Some p \<Rightarrow>
         if \<not> observed_allowed p (classify_udp (take (min (length bs) (sp_max_bytes p)) bs))
         then (Err Pump_Denied, Some p) else (Ok (Datagram_In bs), None))
   | Datagram_Invalid \<Rightarrow> (Err Pump_Io, policy)
   | Datagram_Rest \<Rightarrow> (Ok Datagram_Rest, policy))"

definition max_udp_payload :: nat where
  "max_udp_payload = 65507"

definition datagram_flow_new ::
  "(nat \<Rightarrow> 'p option) \<Rightarrow> 'b \<Rightarrow> 'b \<Rightarrow> u64 \<Rightarrow> str option \<Rightarrow> str option \<Rightarrow> sniff_policy option \<Rightarrow>
     ('b, 'p) policy_datagram_flow option" where
  "datagram_flow_new pump_new stack mux session user_id credential_digest sniff =
     Option.bind (pump_new max_udp_payload) (\<lambda>up. Option.bind (pump_new max_udp_payload) (\<lambda>down.
       Some \<lparr>df_session = session, df_user_id = user_id, df_credential_digest = credential_digest,
             df_stack = stack, df_mux = mux, df_policy = sniff, df_upload = up, df_download = down\<rparr>))"

text \<open>The datagram pumps run on the streams with the sniffer in between; they may clear the policy.\<close>

record 'p datagram_io =
  di_upload :: "'p \<Rightarrow> nat \<Rightarrow> (pump_report, pump_error) poll \<times> 'p"
  di_download :: "'p \<Rightarrow> sniff_policy option \<Rightarrow> nat \<Rightarrow> (pump_report, pump_error) poll \<times> 'p \<times> sniff_policy option"

definition datagram_flow_poll ::
  "'p datagram_io \<Rightarrow> nat \<Rightarrow> nat \<Rightarrow> nat \<Rightarrow> ('b, 'p) policy_datagram_flow \<Rightarrow>
     (pump_report \<times> pump_report, pump_error) poll \<times> ('b, 'p) policy_datagram_flow" where
  "datagram_flow_poll io max_stack_to_mux max_mux_to_stack max_total f =
     (case di_upload io (df_upload f) (min max_stack_to_mux max_total) of (up, u) \<Rightarrow>
       let f1 = f\<lparr>df_upload := u\<rparr> in
       (case or_default up of
          Err e \<Rightarrow> (Ready (Err e), f1)
        | Ok upload \<Rightarrow>
            (case di_download io (df_download f1) (df_policy f1)
                    (min max_mux_to_stack (usize_saturating_sub max_total (pr_written upload))) of
               (down, d, policy) \<Rightarrow>
                 let f2 = f1\<lparr>df_download := d, df_policy := policy\<rparr> in
                 (case or_default down of
                    Err e \<Rightarrow> (Ready (Err e), f2)
                  | Ok download \<Rightarrow>
                      if upload = report_default \<and> download = report_default then (Pending, f2)
                      else (Ready (Ok (upload, download)), f2)))))"

section \<open>The sniffing loop ends\<close>

text \<open>The same loop with the number of turns as fuel.\<close>

fun sniff_turns :: "nat \<Rightarrow> 'p flow_io \<Rightarrow> nat \<Rightarrow> tcp_sniff \<Rightarrow> (sniff_end \<times> tcp_sniff) option" where
  "sniff_turns 0 io k s = None"
| "sniff_turns (Suc fuel) io k s =
     (let complete = sp_max_bytes (ts_policy s) \<le> length (ts_prefix s) \<or> ts_deadline s \<le> fi_clock io k in
      case classified (ts_prefix s) complete of
        Complete ob \<Rightarrow> Some (sniff_verdict s ob)
      | NeedMore \<Rightarrow>
          let remaining = sp_max_bytes (ts_policy s) - length (ts_prefix s) in
          if remaining = 0 then sniff_turns fuel io (Suc k) s
          else (case fi_read io k (min remaining 1024) of
                  Read_Pending \<Rightarrow> Some (Sniff_Pending, s)
                | Read_Error \<Rightarrow> Some (Sniff_Failed, s)
                | Read_Data bs \<Rightarrow>
                    if bs = []
                    then Some (sniff_verdict s (case classified (ts_prefix s) True of Complete ob \<Rightarrow> ob | NeedMore \<Rightarrow> Unknown))
                    else sniff_turns fuel io (Suc k) (s\<lparr>ts_prefix := ts_prefix s @ bs\<rparr>)))"

lemma sniff_turns_enough:
  "sp_max_bytes (ts_policy s) - length (ts_prefix s) < fuel \<Longrightarrow> sniff_turns fuel io k s = Some (sniff_loop io k s)"
proof (induction fuel arbitrary: k s)
  case (Suc fuel)
  let ?complete = "sp_max_bytes (ts_policy s) \<le> length (ts_prefix s) \<or> ts_deadline s \<le> fi_clock io k"
  show ?case
  proof (cases "classified (ts_prefix s) ?complete")
    case (Complete ob)
    then show ?thesis by (simp add: sniff_loop.simps [of io k s])
  next
    case NeedMore
    then have rem: "length (ts_prefix s) < sp_max_bytes (ts_policy s)"
      using classified_complete [of "ts_prefix s"] by (metis not_le)
    show ?thesis
    proof (cases "fi_read io k (min (sp_max_bytes (ts_policy s) - length (ts_prefix s)) 1024)")
      case (Read_Data bs)
      show ?thesis
      proof (cases "bs = []")
        case True
        with NeedMore Read_Data rem show ?thesis by (simp add: sniff_loop.simps [of io k s])
      next
        case False
        then have "0 < length bs" by simp
        with Suc.prems rem have "sp_max_bytes (ts_policy s) - length (ts_prefix s @ bs) < fuel"
          by (simp del: length_greater_0_conv)
        from Suc.IH [of "s\<lparr>ts_prefix := ts_prefix s @ bs\<rparr>" "Suc k"] this NeedMore Read_Data rem False
        show ?thesis by (simp add: sniff_loop.simps [of io k s])
      qed
    qed (use NeedMore rem in \<open>simp_all add: sniff_loop.simps [of io k s]\<close>)
  qed
qed simp

section \<open>Nothing passes before the verdict\<close>

definition verdict_ok :: "sniff_policy \<Rightarrow> bytes \<Rightarrow> bool" where
  "verdict_ok p bs \<longleftrightarrow> (\<exists>complete ob. classify_tcp bs complete = Some (Complete ob) \<and> observed_allowed p ob)"

lemma classified_verdict: "classified bs c = Complete ob \<Longrightarrow> observed_allowed p ob \<Longrightarrow> verdict_ok p bs"
  unfolding verdict_ok_def using classify_tcp_classified [of bs c] by auto

lemma sniff_loop_keeps:
  "sniff_loop io k s = (r, s') \<Longrightarrow> \<not> ts_allowed s \<Longrightarrow>
     ts_policy s' = ts_policy s \<and> (\<exists>more. ts_prefix s' = ts_prefix s @ more) \<and>
     (ts_allowed s' \<longleftrightarrow> r = Sniff_Ready) \<and> (r = Sniff_Ready \<longrightarrow> verdict_ok (ts_policy s) (ts_prefix s'))"
proof (induction io k s rule: sniff_loop.induct)
  case (1 io k s)
  let ?complete = "sp_max_bytes (ts_policy s) \<le> length (ts_prefix s) \<or> ts_deadline s \<le> fi_clock io k"
  let ?rem = "sp_max_bytes (ts_policy s) - length (ts_prefix s)"
  have verdict: ?case if "sniff_verdict s ob = (r, s')" "classified (ts_prefix s) c = Complete ob" for ob c
    using that 1(4) classified_verdict [OF that(2)] by (auto simp: sniff_verdict_def split: if_splits)
  show ?case
  proof (cases "classified (ts_prefix s) ?complete")
    case (Complete ob)
    with 1(3) verdict [OF _ Complete] show ?thesis by (simp add: sniff_loop.simps [of io k s])
  next
    case NeedMore
    then have rem: "?rem \<noteq> 0" using classified_complete [of "ts_prefix s"] by (metis diff_is_0_eq)
    show ?thesis
    proof (cases "fi_read io k (min ?rem 1024)")
      case (Read_Data bs)
      show ?thesis
      proof (cases "bs = []")
        case True
        obtain ob where ob: "classified (ts_prefix s) True = Complete ob"
          using classified_complete [of "ts_prefix s"] by (cases "classified (ts_prefix s) True") auto
        with True NeedMore Read_Data rem 1(3) have "sniff_verdict s ob = (r, s')"
          by (simp add: sniff_loop.simps [of io k s])
        from verdict [OF this ob] show ?thesis .
      next
        case False
        let ?s = "s\<lparr>ts_prefix := ts_prefix s @ bs\<rparr>"
        from False NeedMore Read_Data rem 1(3) have "sniff_loop io (Suc k) ?s = (r, s')"
          by (simp add: sniff_loop.simps [of io k s])
        from "1.IH"(2) [OF refl NeedMore refl rem Read_Data False this] 1(4) show ?thesis by auto
      qed
    qed (use NeedMore rem 1(3,4) in \<open>auto simp: sniff_loop.simps [of io k s]\<close>)
  qed
qed

text \<open>What holds of a flow with policy \<open>p\<close> that has forwarded \<open>out\<close> of the sniffed bytes.\<close>

definition gate :: "sniff_policy \<Rightarrow> ('b, 'p) policy_flow \<Rightarrow> bytes \<Rightarrow> bool \<Rightarrow> bool" where
  "gate p f out pumped \<longleftrightarrow> (case pf_sniff f of
     None \<Rightarrow> verdict_ok p out
   | Some s \<Rightarrow> ts_policy s = p \<and> \<not> pumped \<and> pf_prefix_offset f \<le> length (ts_prefix s) \<and>
       (if ts_allowed s then verdict_ok p (ts_prefix s) \<and> out = take (pf_prefix_offset f) (ts_prefix s)
        else out = [] \<and> pf_prefix_offset f = 0))"

definition io_ok :: "'p flow_io \<Rightarrow> bool" where
  "io_ok io \<longleftrightarrow> (\<forall>bs n. fi_write io bs = Write_Count n \<longrightarrow> n \<le> length bs)"

lemma write_prefix_gate:
  assumes gate: "gate p f out pumped" and s: "pf_sniff f = Some s" "ts_allowed s" and io: "io_ok io"
    and w: "write_prefix io n s f = (r, f', o1)"
  shows "gate p f' (out @ o1) pumped"
proof -
  let ?off = "pf_prefix_offset f" and ?px = "ts_prefix s"
  from gate s have g: "ts_policy s = p" "\<not> pumped" "?off \<le> length ?px" "verdict_ok p ?px" "out = take ?off ?px"
    by (simp_all add: gate_def)
  let ?offered = "take (min (length ?px) (?off + n) - ?off) (drop ?off ?px)"
  show ?thesis
  proof (cases "length ?px \<le> ?off")
    case True
    with w g show ?thesis by (auto simp: write_prefix_def gate_def)
  next
    case False
    show ?thesis
    proof (cases "n \<noteq> 0 \<and> (\<exists>k. fi_write io ?offered = Write_Count k \<and> k \<noteq> 0)")
      case True
      then obtain k where k: "n \<noteq> 0" "fi_write io ?offered = Write_Count k" "k \<noteq> 0" by blast
      from io k(2) have "k \<le> length ?offered" unfolding io_ok_def by blast
      then have le: "?off + k \<le> length ?px" "take k ?offered = take k (drop ?off ?px)" using False by auto
      from w False k have o1: "o1 = take k (drop ?off ?px)" and f': "f' = (if ?off + k = length ?px
          then f\<lparr>pf_sniff := None, pf_prefix_offset := 0\<rparr> else f\<lparr>pf_prefix_offset := ?off + k\<rparr>)"
        using le(2) by (auto simp: write_prefix_def Let_def)
      have "out @ o1 = take (?off + k) ?px" using g(5) o1 by (simp add: take_add)
      with f' g s le(1) show ?thesis by (auto simp: gate_def)
    next
      case nf: False
      with w False have "f' = f" "o1 = []"
        by (auto simp: write_prefix_def Let_def split: io_write.splits if_splits)
      with gate show ?thesis by simp
    qed
  qed
qed

lemma poll_sniff_gate:
  assumes gate: "gate p f out pumped" and io: "io_ok io" and r: "poll_sniff io n f = (r, f', o1)"
  shows "gate p f' (out @ o1) pumped"
proof (cases "pf_sniff f")
  case None
  with gate r show ?thesis by (simp add: poll_sniff_def)
next
  case (Some s)
  obtain e s' where e: "(if ts_allowed s then (Sniff_Ready, s) else sniff_loop io 0 s) = (e, s')" by force
  let ?f = "f\<lparr>pf_sniff := Some s'\<rparr>"
  have g: "gate p ?f out pumped" and ready: "ts_allowed s' \<longleftrightarrow> e = Sniff_Ready"
  proof -
    have "gate p ?f out pumped \<and> (ts_allowed s' \<longleftrightarrow> e = Sniff_Ready)"
    proof (cases "ts_allowed s")
      case True
      with e have "e = Sniff_Ready" "s' = s" by simp_all
      with gate Some True show ?thesis by (simp add: gate_def)
    next
      case False
      with e have "sniff_loop io 0 s = (e, s')" by simp
      from sniff_loop_keeps [OF this False] obtain k where k: "ts_policy s' = ts_policy s" "ts_prefix s' = ts_prefix s @ k"
        "ts_allowed s' \<longleftrightarrow> e = Sniff_Ready" "e = Sniff_Ready \<longrightarrow> verdict_ok (ts_policy s) (ts_prefix s')" by blast
      from gate Some False have "ts_policy s = p" "\<not> pumped" "out = []" "pf_prefix_offset f = 0" by (simp_all add: gate_def)
      with k show ?thesis by (simp add: gate_def)
    qed
    then show "gate p ?f out pumped" "ts_allowed s' \<longleftrightarrow> e = Sniff_Ready" by auto
  qed
  show ?thesis
  proof (cases "e = Sniff_Ready")
    case True
    with r Some e have w: "write_prefix io n s' ?f = (r, f', o1)" by (simp add: poll_sniff_def)
    have "ts_allowed s'" using ready True by simp
    from write_prefix_gate [OF g _ this io w] show ?thesis by simp
  next
    case False
    then have "f' = ?f \<and> o1 = []" using r Some e by (cases e) (simp_all add: poll_sniff_def)
    with g show ?thesis by simp
  qed
qed

lemma policy_flow_poll_gate:
  assumes gate: "gate p f out pumped" and io: "io_ok io"
    and r: "policy_flow_poll io a b c f = (r, f', o1, pumped1)"
  shows "gate p f' (out @ o1) (pumped \<or> pumped1)"
proof -
  obtain q f1 ob where s: "poll_sniff io (min b c) f = (q, f1, ob)" by (metis prod_cases3)
  note g = poll_sniff_gate [OF gate io s]
  show ?thesis
  proof (cases "(\<exists>px. q = Ready (Ok px)) \<and> pf_sniff f1 = None")
    case False
    then have "f' = f1 \<and> o1 = ob \<and> \<not> pumped1"
      using r s by (auto simp: policy_flow_poll_def split: poll.splits result.splits)
    with g show ?thesis by simp
  next
    case True
    then obtain px where px: "q = Ready (Ok px)" and none: "pf_sniff f1 = None" by blast
    from r s px none have "pf_sniff f' = None \<and> o1 = ob"
      by (auto simp: policy_flow_poll_def Let_def split: prod.splits result.splits if_splits)
    with g none show ?thesis by (simp add: gate_def)
  qed
qed

fun flow_run ::
  "('p flow_io \<times> nat \<times> nat \<times> nat) list \<Rightarrow> ('b, 'p) policy_flow \<Rightarrow> bytes \<Rightarrow> bool \<Rightarrow> ('b, 'p) policy_flow \<times> bytes \<times> bool" where
  "flow_run [] f out pumped = (f, out, pumped)"
| "flow_run ((io, a, b, c) # polls) f out pumped = (case policy_flow_poll io a b c f of
     (r, f', o1, pumped1) \<Rightarrow> flow_run polls f' (out @ o1) (pumped \<or> pumped1))"

lemma flow_run_gate:
  "gate p f out pumped \<Longrightarrow> list_all (\<lambda>(io, a, b, c). io_ok io) polls \<Longrightarrow> flow_run polls f out pumped = (f', out', pumped') \<Longrightarrow>
     gate p f' out' pumped'"
proof (induction polls arbitrary: f out pumped)
  case (Cons q polls)
  obtain io a b c where q: "q = (io, a, b, c)" by (metis prod_cases4)
  obtain r f1 o1 pumped1 where r: "policy_flow_poll io a b c f = (r, f1, o1, pumped1)" by (metis prod_cases4)
  from policy_flow_poll_gate [OF Cons.prems(1) _ r] Cons.prems(2) q have "gate p f1 (out @ o1) (pumped \<or> pumped1)" by simp
  from Cons.IH [OF this] Cons.prems(2,3) q r show ?case by simp
qed simp


definition example_sniff_policy :: sniff_policy where
  "example_sniff_policy = \<lparr>sp_entries = [], sp_terminal = Allow, sp_unknown = Unknown_Deny, sp_max_bytes = 16, sp_timeout_ms = 5\<rparr>"

definition example_banner :: bytes where
  "example_banner = str_lit ''SSH-'' @ [13, 10]"

definition example_flow_io :: "bytes \<Rightarrow> nat \<Rightarrow> unit flow_io" where
  "example_flow_io first n = \<lparr>fi_read = \<lambda>k m. if k = 0 then Read_Data (take m first) else Read_Pending, fi_clock = \<lambda>k. 0,
     fi_write = \<lambda>bs. Write_Count (length bs),
     fi_upload = \<lambda>p m. (Ready (Ok \<lparr>pr_read = 0, pr_written = min m n, pr_finished = False\<rparr>), p),
     fi_download = \<lambda>p m. (Pending, p)\<rparr>"

definition example_flow :: "(unit, unit) policy_flow" where
  "example_flow = \<lparr>pf_session = 1, pf_user_id = None, pf_credential_digest = None, pf_stack = (), pf_mux = (),
     pf_upload = (), pf_download = (), pf_sniff = Some \<lparr>ts_policy = example_sniff_policy, ts_prefix = [],
       ts_deadline = 5000000, ts_allowed = False\<rparr>, pf_prefix_offset = 0\<rparr>"

lemma example_classified: "classified [] False = NeedMore" "classified example_banner False = Complete Ssh"
  by code_simp+

definition example_sniffed :: tcp_sniff where
  "example_sniffed = \<lparr>ts_policy = example_sniff_policy, ts_prefix = example_banner, ts_deadline = 5000000, ts_allowed = True\<rparr>"

lemma example_sniff_loop:
  "sniff_loop (example_flow_io example_banner 3) 0 (the (pf_sniff example_flow)) = (Sniff_Ready, example_sniffed)"
proof -
  have len: "length example_banner = 6" by (simp add: example_banner_def str_lit_def)
  let ?s = "(the (pf_sniff example_flow))\<lparr>ts_prefix := example_banner\<rparr>"
  have "sniff_loop (example_flow_io example_banner 3) 1 ?s = (Sniff_Ready, example_sniffed)"
    using example_classified(2) len
    by (simp add: sniff_loop.simps sniff_verdict_def example_flow_def example_flow_io_def example_sniffed_def
        example_sniff_policy_def observed_allowed_def)
  moreover have "example_banner \<noteq> []" using len by auto
  ultimately show ?thesis using example_classified(1) len
    by (subst sniff_loop.simps)
      (simp add: example_flow_def example_flow_io_def example_sniff_policy_def)
qed

lemmas example_poll_simps = policy_flow_poll_def poll_sniff_def write_prefix_def Let_def or_default_def report_default_def
  usize_saturating_sub_def usize_saturating_add_def

lemma example_poll_sniff:
  "poll_sniff (example_flow_io example_banner 3) n example_flow =
     write_prefix (example_flow_io example_banner 3) n example_sniffed (example_flow\<lparr>pf_sniff := Some example_sniffed\<rparr>)"
proof -
  have s: "pf_sniff example_flow = Some (the (pf_sniff example_flow))" "\<not> ts_allowed (the (pf_sniff example_flow))"
    by (simp_all add: example_flow_def)
  show ?thesis unfolding poll_sniff_def by (subst s(1)) (simp add: s(2) example_sniff_loop del: option.sel)
qed

lemma example_write_prefix:
  "write_prefix (example_flow_io example_banner 3) 4 example_sniffed (example_flow\<lparr>pf_sniff := Some example_sniffed\<rparr>) =
     (Ready (Ok \<lparr>pr_read = 0, pr_written = 4, pr_finished = False\<rparr>),
      example_flow\<lparr>pf_sniff := Some example_sniffed, pf_prefix_offset := 4\<rparr>, take 4 example_banner)"
  "write_prefix (example_flow_io example_banner 3) 6 example_sniffed (example_flow\<lparr>pf_sniff := Some example_sniffed\<rparr>) =
     (Ready (Ok \<lparr>pr_read = 0, pr_written = 6, pr_finished = False\<rparr>), example_flow\<lparr>pf_sniff := None\<rparr>, example_banner)"
  by (simp_all add: write_prefix_def Let_def example_flow_def example_sniffed_def example_banner_def str_lit_def example_flow_io_def)

lemma example_first_poll:
  "policy_flow_poll (example_flow_io example_banner 3) 4 4 4 example_flow =
     (Ready (Ok (report_default, \<lparr>pr_read = 0, pr_written = 4, pr_finished = False\<rparr>)),
      example_flow\<lparr>pf_sniff := Some example_sniffed, pf_prefix_offset := 4\<rparr>, take 4 example_banner, False)"
  by (simp add: policy_flow_poll_def example_poll_sniff example_write_prefix)

lemma example_second_poll:
  "policy_flow_poll (example_flow_io [] 3) 4 4 4 (example_flow\<lparr>pf_sniff := Some example_sniffed, pf_prefix_offset := 4\<rparr>) =
     (Ready (Ok (\<lparr>pr_read = 0, pr_written = 3, pr_finished = False\<rparr>, \<lparr>pr_read = 0, pr_written = 2, pr_finished = False\<rparr>)),
      example_flow\<lparr>pf_sniff := None\<rparr>, [13, 10], True)"
  by (simp add: example_poll_simps example_flow_def example_sniffed_def example_banner_def str_lit_def
      example_flow_io_def usize_max_def)




text \<open>The pumps move at most what they are allowed to.\<close>

definition pumps_bounded :: "'p flow_io \<Rightarrow> bool" where
  "pumps_bounded io \<longleftrightarrow>
     (\<forall>p n r p'. fi_upload io p n = (Ready (Ok r), p') \<longrightarrow> pr_written r \<le> n) \<and>
     (\<forall>p n r p'. fi_download io p n = (Ready (Ok r), p') \<longrightarrow> pr_written r \<le> n)"

lemma or_default_bounded:
  "or_default r = Ok x \<Longrightarrow> (\<And>y. r = Ready (Ok y) \<Longrightarrow> pr_written y \<le> n) \<Longrightarrow> pr_written x \<le> n"
  by (auto simp: or_default_def report_default_def split: poll.splits)

text \<open>A flow stays within its grant. When no sniffed bytes are waiting, the bytes a poll reports
  in each direction are within the limit of that direction, and both together within the total.\<close>

theorem flow_poll_within_grant:
  assumes "pumps_bounded io" and "pf_sniff f = None"
    and "policy_flow_poll io max_stack_to_mux max_mux_to_stack max_total f = (Ready (Ok (upload, download)), f', out, pumped)"
  shows "pr_written upload \<le> max_stack_to_mux \<and> pr_written download \<le> max_mux_to_stack \<and>
    pr_written upload + pr_written download \<le> max_total"
proof -
  obtain up u where up: "fi_upload io (pf_upload f) (min max_stack_to_mux max_total) = (up, u)" by force
  from assms(2,3) up obtain x where x: "or_default up = Ok x"
    by (cases "or_default up") (auto simp: policy_flow_poll_def poll_sniff_def Let_def)
  obtain down d where down: "fi_download io (pf_download f) (min max_mux_to_stack (max_total - pr_written x)) = (down, d)" by force
  from assms(2,3) up x down obtain y where y: "or_default down = Ok y" and e: "upload = x"
    "download = y\<lparr>pr_read := usize_saturating_add (pr_read y) 0, pr_written := usize_saturating_add (pr_written y) 0\<rparr>"
    by (cases "or_default down")
      (auto simp: policy_flow_poll_def poll_sniff_def Let_def usize_saturating_sub_def report_default_def split: if_splits)
  have "pr_written x \<le> min max_stack_to_mux max_total"
    by (rule or_default_bounded [OF x]) (use up assms(1) [unfolded pumps_bounded_def] in blast)
  moreover have "pr_written y \<le> min max_mux_to_stack (max_total - pr_written x)"
    by (rule or_default_bounded [OF y]) (use down assms(1) [unfolded pumps_bounded_def] in blast)
  moreover have "min (pr_written y) usize_max \<le> pr_written y" by simp
  ultimately show ?thesis unfolding e by (simp add: usize_saturating_add_def) linarith
qed

theorem flow_poll_within_grant_witness:
  "\<exists>upload download f' out pumped.
     policy_flow_poll (example_flow_io [] 3) 2 9 5 (example_flow\<lparr>pf_sniff := None\<rparr>) = (Ready (Ok (upload, download)), f', out, pumped) \<and>
     pr_written upload \<le> 2 \<and> pr_written upload + pr_written download \<le> 5"
proof -
  let ?f = "example_flow\<lparr>pf_sniff := None\<rparr>"
  have b: "pumps_bounded (example_flow_io [] 3)" by (simp add: pumps_bounded_def example_flow_io_def)
  have r: "policy_flow_poll (example_flow_io [] 3) 2 9 5 ?f =
    (Ready (Ok (\<lparr>pr_read = 0, pr_written = 2, pr_finished = False\<rparr>, report_default)), ?f, [], True)"
    by (simp add: example_poll_simps example_flow_io_def)
  from flow_poll_within_grant [OF b _ r] r show ?thesis by auto
qed


end
