(* ===== verification/Policy_State.thy ===== *)
theory Policy_State
  imports Accounting Sequencer Rules Service Storage Policy_Flow
begin

text \<open>
  The state of a policy instance (\<^verbatim>\<open>policy-local/src/lib.rs\<close>, \<open>State\<close> and the types it holds).
  Database, streams and pumps are the opaque types \<open>'d\<close>, \<open>'b\<close> and \<open>'p\<close>. A reply channel of the
  storage worker is the token of its command. Hash sets are sets.
\<close>

datatype policy_role = Client | Server

datatype auth_state =
    Waiting
  | Credential_Lookup str nat
  | User_Lookup str nat
  | Clock_Update user_record nat
  | Authenticated str

record flow_identity =
  fid_user_id :: str
  fid_credential_digest :: "str option"
  fid_sniff :: "sniff_policy option"

record policy_session =
  pn_channel :: session_channel
  pn_role :: policy_role
  pn_auth :: auth_state
  pn_subscribed :: bool
  pn_last_status :: instant
  pn_credential_digest :: "str option"
  pn_pending_flows :: "flow_identity list"

record pending_charge =
  pc_amount :: u64
  pc_record :: user_record
  pc_reply :: nat

record user_traffic =
  ut_quota :: quota_account
  ut_upload :: "token_bucket option"
  ut_download :: "token_bucket option"
  ut_combined :: "token_bucket option"
  ut_debit :: "pending_charge option"
  ut_refund :: "pending_charge option"
  ut_failed :: bool
  ut_checkpoint_at :: instant

record rate_grant =
  rg_stack_to_mux :: u64
  rg_mux_to_stack :: u64
  rg_combined :: u64
  rg_global :: u64

definition grant_default :: rate_grant where
  "grant_default = \<lparr>rg_stack_to_mux = 0, rg_mux_to_stack = 0, rg_combined = 0, rg_global = 0\<rparr>"

record admin_state =
  ad_sequencer :: admin_sequencer
  ad_users :: "(str, user_record) hashmap"
  ad_loaded_users :: "str set"
  ad_credentials :: "(str, credential_record) hashmap"
  ad_loaded_credentials :: "str set"
  ad_rules :: "(str, str) hashmap"

record admin_mutation =
  am_users :: "(str \<times> user_record option) list"
  am_credentials :: "(str \<times> credential_record option) list"
  am_rules :: "(str \<times> str) list"
  am_active_rule_profiles :: "str list"
  am_disconnect :: "u64 option"

definition mutation_default :: admin_mutation where
  "mutation_default = \<lparr>am_users = [], am_credentials = [], am_rules = [], am_active_rule_profiles = [], am_disconnect = None\<rparr>"

record prepared_admin =
  pa_response :: bytes
  pa_mutation :: admin_mutation
  pa_changes :: "change list"

record pending_write =
  pw_request :: bytes
  pw_client_id :: str
  pw_receipt :: bytes
  pw_response :: bytes
  pw_mutation :: admin_mutation
  pw_reply :: nat

datatype read_kind = Read_User str | Read_Credential str

datatype pending_control =
    Pending_Write pending_write
  | Pending_Read bytes read_kind nat
  | Pending_Backup bytes str nat

record ('d, 'b, 'p) policy_state =
  ps_started :: instant
  ps_shutting_down :: bool
  ps_maintenance :: bool
  ps_global_rate :: "token_bucket option"
  ps_user_deficit :: "(str, u64) hashmap"
  ps_user_cursor :: u64
  ps_options :: options
  ps_storage :: "'d storage_worker"
  ps_admin :: admin_state
  ps_pending_control :: "pending_control option"
  ps_client_credential :: "bytes option"
  ps_sessions :: "(u64, policy_session) hashmap"
  ps_flows :: "(u64, ('b, 'p) policy_flow) hashmap"
  ps_datagram_flows :: "(u64, ('b, 'p) policy_datagram_flow) hashmap"
  ps_traffic :: "(str, user_traffic) hashmap"
  ps_flow_cursor :: "(str, u64) hashmap"

text \<open>The postcard and TOML functions the module uses, and SHA-256.\<close>

record policy_codec =
  px_enc_user :: "stored_user_record \<Rightarrow> bytes option"
  px_dec_user :: "bytes \<Rightarrow> stored_user_record option"
  px_enc_credential :: "credential_record \<Rightarrow> bytes option"
  px_dec_credential :: "bytes \<Rightarrow> credential_record option"
  px_enc_receipt :: "receipt \<Rightarrow> bytes option"
  px_dec_receipt :: "bytes \<Rightarrow> receipt option"
  px_sha256 :: "bytes \<Rightarrow> bytes"

definition user_key :: "str \<Rightarrow> str" where
  "user_key user_id = str_lit ''user/'' @ user_id"

definition credential_key :: "str \<Rightarrow> str" where
  "credential_key digest = str_lit ''credential/'' @ digest"

definition client_key :: "str \<Rightarrow> str" where
  "client_key client = str_lit ''client/'' @ client"

abbreviation ps_users :: "('d, 'b, 'p) policy_state \<Rightarrow> (str, user_record) hashmap" where
  "ps_users st \<equiv> ad_users (ps_admin st)"

definition set_users :: "(str, user_record) hashmap \<Rightarrow> ('d, 'b, 'p) policy_state \<Rightarrow> ('d, 'b, 'p) policy_state" where
  "set_users users st = st\<lparr>ps_admin := (ps_admin st)\<lparr>ad_users := users\<rparr>\<rparr>"

definition elapsed_nanos :: "('d, 'b, 'p) policy_state \<Rightarrow> instant \<Rightarrow> u64" where
  "elapsed_nanos st now = (let n = now - ps_started st in
     if n < 0 then 0 else if uint (- 1 :: u64) < n then - 1 else of_int n)"

definition quota_limit :: "user_record \<Rightarrow> u64 option" where
  "quota_limit user = (case us_quota (ur_spec user) of Bytes_Unlimited \<Rightarrow> None | Bytes_Limited n \<Rightarrow> Some n)"

end
