(* ===== verification/Traffic.thy ===== *)
theory Traffic
  imports Policy_State
begin

text \<open>
  Traffic accounting of an instance: rate grants and their refunds, the charge of a flow, the shares
  of the users, and \<open>advance_quota\<close>, which buys credit from the durable quota and gives it back.
  One reading of the clock serves a whole call.
\<close>

section \<open>Rates\<close>

definition rate_bucket :: "rate_limit \<Rightarrow> u64 \<Rightarrow> u64 \<Rightarrow> (token_bucket option, quota_error) result" where
  "rate_bucket rate burst_bytes now_nanos = (case rate of
     Rate_Unlimited \<Rightarrow> Ok None
   | Rate_Limited bytes_per_second \<Rightarrow> try_bind (bucket_new bytes_per_second burst_bytes now_nanos) (\<lambda>b. Ok (Some b)))"

text \<open>Taking from an optional bucket.\<close>

definition take_optional ::
  "token_bucket option \<Rightarrow> u64 \<Rightarrow> u64 \<Rightarrow> (u64, quota_error) result \<times> token_bucket option" where
  "take_optional b n now_nanos = (case b of
     None \<Rightarrow> (Ok n, None)
   | Some bucket \<Rightarrow> (case bucket_take bucket n now_nanos of (r, bucket') \<Rightarrow> (r, Some bucket')))"

definition take_rate_grant ::
  "user_traffic \<Rightarrow> u64 \<Rightarrow> u64 \<Rightarrow> (rate_grant, quota_error) result \<times> user_traffic" where
  "take_rate_grant t budget now_nanos =
     (case take_optional (ut_combined t) budget now_nanos of
        (Err e, b) \<Rightarrow> (Err e, t\<lparr>ut_combined := b\<rparr>)
      | (Ok combined, b) \<Rightarrow>
          let t1 = t\<lparr>ut_combined := b\<rparr> in
          (case take_optional (ut_upload t1) combined now_nanos of
             (Err e, u) \<Rightarrow> (Err e, t1\<lparr>ut_upload := u\<rparr>)
           | (Ok user_upload, u) \<Rightarrow>
               let t2 = t1\<lparr>ut_upload := u\<rparr> in
               (case take_optional (ut_download t2) combined now_nanos of
                  (Err e, d) \<Rightarrow> (Err e, t2\<lparr>ut_download := d\<rparr>)
                | (Ok user_download, d) \<Rightarrow>
                    (Ok \<lparr>rg_stack_to_mux = user_download, rg_mux_to_stack = user_upload,
                         rg_combined = combined, rg_global = combined\<rparr>, t2\<lparr>ut_download := d\<rparr>))))"

text \<open>A usize as a u64, which fits on a 64-bit platform.\<close>

definition as_u64 :: "nat \<Rightarrow> u64" where
  "as_u64 n = (if n \<le> usize_max then of_nat n else - 1)"

definition refund_traffic :: "rate_grant \<Rightarrow> u64 \<Rightarrow> u64 \<Rightarrow> user_traffic \<Rightarrow> user_traffic" where
  "refund_traffic grant stack_written mux_written t =
     t\<lparr>ut_download := map_option (\<lambda>b. bucket_refund b (saturating_sub (rg_stack_to_mux grant) stack_written)) (ut_download t),
       ut_upload := map_option (\<lambda>b. bucket_refund b (saturating_sub (rg_mux_to_stack grant) mux_written)) (ut_upload t),
       ut_combined := map_option (\<lambda>b. bucket_refund b
         (saturating_sub (rg_combined grant) (saturating_add stack_written mux_written))) (ut_combined t)\<rparr>"

definition refund_rate ::
  "str option \<Rightarrow> rate_grant \<Rightarrow> pump_report \<Rightarrow> pump_report \<Rightarrow> ('d, 'b, 'p) policy_state \<Rightarrow> ('d, 'b, 'p) policy_state" where
  "refund_rate user grant stack_to_mux mux_to_stack st = (case user of
     None \<Rightarrow> st
   | Some user_id \<Rightarrow> (case hm_get (ps_traffic st) user_id of
       None \<Rightarrow> st
     | Some t \<Rightarrow>
         let stack_written = as_u64 (pr_written stack_to_mux); mux_written = as_u64 (pr_written mux_to_stack);
             written = saturating_add stack_written mux_written
         in st\<lparr>ps_traffic := hm_insert user_id (refund_traffic grant stack_written mux_written t) (ps_traffic st),
               ps_global_rate := map_option (\<lambda>b. bucket_refund b (saturating_sub (rg_global grant) written)) (ps_global_rate st),
               ps_user_deficit := (case hm_get (ps_user_deficit st) user_id of
                 None \<Rightarrow> ps_user_deficit st
               | Some deficit \<Rightarrow> hm_insert user_id (saturating_sub deficit written) (ps_user_deficit st))\<rparr>))"

section \<open>Charging a flow\<close>

definition usize_checked_add :: "nat \<Rightarrow> nat \<Rightarrow> nat option" where
  "usize_checked_add a b = (if a + b \<le> usize_max then Some (a + b) else None)"

definition charge_counters :: "user_record \<Rightarrow> pump_report \<Rightarrow> pump_report \<Rightarrow> (unit, quota_error) result \<times> user_record" where
  "charge_counters user upload download =
     (case checked_add (ur_upload_bytes user) (as_u64 (pr_written download)) of
        None \<Rightarrow> (Err Quota_Overflow, user)
      | Some up \<Rightarrow>
          let user1 = user\<lparr>ur_upload_bytes := up\<rparr> in
          (case checked_add (ur_download_bytes user1) (as_u64 (pr_written upload)) of
             None \<Rightarrow> (Err Quota_Overflow, user1)
           | Some down \<Rightarrow> (Ok (), user1\<lparr>ur_download_bytes := down\<rparr>)))"

definition charge_flow ::
  "str option \<Rightarrow> pump_report \<Rightarrow> pump_report \<Rightarrow> ('d, 'b, 'p) policy_state \<Rightarrow> (unit, quota_error) result \<times> ('d, 'b, 'p) policy_state" where
  "charge_flow user upload download st = (case user of
     None \<Rightarrow> (Ok (), st)
   | Some user_id \<Rightarrow> (case usize_checked_add (pr_written upload) (pr_written download) of
       None \<Rightarrow> (Err Quota_Overflow, st)
     | Some accepted \<Rightarrow> (case hm_get (ps_traffic st) user_id of
         None \<Rightarrow> (Err Quota_State, st)
       | Some t \<Rightarrow> (case charge (ut_quota t) (as_u64 accepted) of
           (Err e, q) \<Rightarrow> (Err e, st\<lparr>ps_traffic := hm_insert user_id (t\<lparr>ut_quota := q\<rparr>) (ps_traffic st)\<rparr>)
         | (Ok u, q) \<Rightarrow>
             let st1 = st\<lparr>ps_traffic := hm_insert user_id (t\<lparr>ut_quota := q\<rparr>) (ps_traffic st)\<rparr> in
             (case hm_get (ps_users st1) user_id of
                None \<Rightarrow> (Err Quota_State, st1)
              | Some user \<Rightarrow> (case charge_counters user upload download of
                  (r, user') \<Rightarrow> (r, set_users (hm_insert user_id user' (ps_users st1)) st1)))))))"

section \<open>Scheduling\<close>

definition weighted_share :: "u64 \<Rightarrow> u64 \<Rightarrow> u64 \<Rightarrow> u64" where
  "weighted_share available weight total_weight =
     (if total_weight = 0 then 0
      else let share = saturating_mul (ucast available) (ucast weight) div (ucast total_weight :: u128)
           in if share \<le> ucast (- 1 :: u64) then ucast share else - 1)"

text \<open>\<open>flows\<close> is not empty; the cursor is a usize that wraps.\<close>

definition select_flow :: "u64 \<Rightarrow> u64 list \<Rightarrow> u64 \<times> u64" where
  "select_flow cursor flows = (flows ! (unat cursor mod length flows), cursor + 1)"

section \<open>Buying and returning credit\<close>

text \<open>What a turn of the loop over the users accumulates.\<close>

record ('d, 'b, 'p) quota_turn =
  qt_state :: "('d, 'b, 'p) policy_state"
  qt_stopped :: "str set"
  qt_removed :: "str list"

definition put_traffic :: "str \<Rightarrow> user_traffic \<Rightarrow> ('d, 'b, 'p) quota_turn \<Rightarrow> ('d, 'b, 'p) quota_turn" where
  "put_traffic user_id t q = q\<lparr>qt_state := (qt_state q)\<lparr>ps_traffic := hm_insert user_id t (ps_traffic (qt_state q))\<rparr>\<rparr>"

definition stop_user :: "str \<Rightarrow> ('d, 'b, 'p) quota_turn \<Rightarrow> ('d, 'b, 'p) quota_turn" where
  "stop_user user_id q = q\<lparr>qt_stopped := insert user_id (qt_stopped q)\<rparr>"

definition drop_traffic :: "str \<Rightarrow> ('d, 'b, 'p) quota_turn \<Rightarrow> ('d, 'b, 'p) quota_turn" where
  "drop_traffic user_id q = q\<lparr>qt_removed := qt_removed q @ [user_id]\<rparr>"

definition next_checkpoint :: "('d, 'b, 'p) policy_state \<Rightarrow> instant \<Rightarrow> instant" where
  "next_checkpoint st now = now + uint (op_checkpoint_interval_ms (ps_options st)) * 1000000"

definition new_traffic :: "('d, 'b, 'p) policy_state \<Rightarrow> instant \<Rightarrow> user_record \<Rightarrow> (user_traffic, quota_error) result" where
  "new_traffic st now user =
     (let spec = ur_spec user; now_nanos = elapsed_nanos st now in
      try_bind (quota_new (quota_limit user) (ur_durable_charged_bytes user) (so_accounting_block_bytes (op_storage (ps_options st)))) (\<lambda>quota.
      try_bind (rate_bucket (us_upload_rate spec) (us_burst_bytes spec) now_nanos) (\<lambda>upload.
      try_bind (rate_bucket (us_download_rate spec) (us_burst_bytes spec) now_nanos) (\<lambda>download.
      try_bind (rate_bucket (us_combined_rate spec) (us_burst_bytes spec) now_nanos) (\<lambda>combined.
        Ok \<lparr>ut_quota = quota, ut_upload = upload, ut_download = download, ut_combined = combined,
            ut_debit = None, ut_refund = None, ut_failed = False, ut_checkpoint_at = next_checkpoint st now\<rparr>)))))"

text \<open>Each part of the loop body either ends the turn of the user (\<open>Inl\<close>) or hands the traffic of the
  user to the next part (\<open>Inr\<close>).\<close>

definition open_traffic ::
  "instant \<Rightarrow> bool \<Rightarrow> str \<Rightarrow> ('d, 'b, 'p) quota_turn \<Rightarrow> ('d, 'b, 'p) quota_turn + user_traffic \<times> ('d, 'b, 'p) quota_turn" where
  "open_traffic now active user_id q = (case hm_get (ps_traffic (qt_state q)) user_id of
     Some t \<Rightarrow> Inr (t, q)
   | None \<Rightarrow>
       if \<not> active then Inl q
       else (case hm_get (ps_users (qt_state q)) user_id of
         None \<Rightarrow> Inl (stop_user user_id q)
       | Some user \<Rightarrow> (case new_traffic (qt_state q) now user of
           Err e \<Rightarrow> Inl (stop_user user_id q)
         | Ok t \<Rightarrow> Inr (t, put_traffic user_id t q))))"

definition receive_write :: "nat \<Rightarrow> ('d, 'b, 'p) policy_state \<Rightarrow> recv \<times> ('d, 'b, 'p) policy_state" where
  "receive_write token st = (case try_recv (ps_storage st) token of (r, w) \<Rightarrow> (r, st\<lparr>ps_storage := w\<rparr>))"

definition settle_debit ::
  "str \<Rightarrow> user_traffic \<Rightarrow> ('d, 'b, 'p) quota_turn \<Rightarrow> ('d, 'b, 'p) quota_turn + user_traffic \<times> ('d, 'b, 'p) quota_turn" where
  "settle_debit user_id t q = (case ut_debit t of
     None \<Rightarrow> Inr (t, q)
   | Some pending \<Rightarrow>
       (case receive_write (pc_reply pending) (qt_state q) of (reply, st) \<Rightarrow>
         let q1 = q\<lparr>qt_state := st\<rparr>; t1 = t\<lparr>ut_debit := None\<rparr> in
         (case reply of
            Received (Reply_Write (Ok u)) \<Rightarrow>
              (case commit_credit (ut_quota t1) (pc_amount pending) of
                 (Err e, quota) \<Rightarrow> Inl (stop_user user_id (put_traffic user_id (t1\<lparr>ut_quota := quota, ut_failed := True\<rparr>) q1))
               | (Ok v, quota) \<Rightarrow>
                   let t2 = t1\<lparr>ut_quota := quota\<rparr>;
                       q2 = put_traffic user_id t2 (q1\<lparr>qt_state := set_users (hm_insert user_id (pc_record pending) (ps_users (qt_state q1))) (qt_state q1)\<rparr>)
                   in Inr (t2, q2))
          | Empty \<Rightarrow> Inl q1
          | _ \<Rightarrow> Inl (stop_user user_id (put_traffic user_id (t1\<lparr>ut_quota := fail_credit (ut_quota t1), ut_failed := True\<rparr>) q1)))))"

definition stop_active :: "bool \<Rightarrow> str \<Rightarrow> ('d, 'b, 'p) quota_turn \<Rightarrow> ('d, 'b, 'p) quota_turn" where
  "stop_active active user_id q = (if active then stop_user user_id q else q)"

definition settle_refund ::
  "instant \<Rightarrow> bool \<Rightarrow> str \<Rightarrow> user_traffic \<Rightarrow> ('d, 'b, 'p) quota_turn \<Rightarrow> ('d, 'b, 'p) quota_turn + user_traffic \<times> ('d, 'b, 'p) quota_turn" where
  "settle_refund now active user_id t q = (case ut_refund t of
     None \<Rightarrow> Inr (t, q)
   | Some pending \<Rightarrow>
       (case receive_write (pc_reply pending) (qt_state q) of (reply, st) \<Rightarrow>
         let q1 = q\<lparr>qt_state := st\<rparr>; t1 = t\<lparr>ut_refund := None\<rparr> in
         (case reply of
            Received (Reply_Write (Ok u)) \<Rightarrow>
              (case commit_refund (ut_quota t1) (pc_amount pending) of
                 (Err e, quota) \<Rightarrow> Inl (stop_active active user_id (put_traffic user_id (t1\<lparr>ut_quota := quota, ut_failed := True\<rparr>) q1))
               | (Ok v, quota) \<Rightarrow>
                   let t2 = t1\<lparr>ut_quota := quota, ut_checkpoint_at := next_checkpoint st now\<rparr>;
                       q2 = put_traffic user_id t2 (q1\<lparr>qt_state := set_users (hm_insert user_id (pc_record pending) (ps_users (qt_state q1))) (qt_state q1)\<rparr>)
                   in if \<not> active then Inl (drop_traffic user_id q2) else Inr (t2, q2))
          | Empty \<Rightarrow> Inl q1
          | _ \<Rightarrow> Inl (stop_active active user_id
                 (put_traffic user_id (t1\<lparr>ut_quota := fail_refund (ut_quota t1), ut_failed := True\<rparr>) q1)))))"

text \<open>Storing a changed record: the token of the write, or \<open>None\<close> when it cannot be queued.\<close>

definition store_record ::
  "policy_codec \<Rightarrow> str \<Rightarrow> user_record \<Rightarrow> ('d, 'b, 'p) policy_state \<Rightarrow> nat option \<times> ('d, 'b, 'p) policy_state" where
  "store_record px user_id user st = (case encode_user_record (px_enc_user px) user of
     Err e \<Rightarrow> (None, st)
   | Ok value \<Rightarrow> (case storage_put (ps_storage st) (user_key user_id) value of
       (Ok token, w) \<Rightarrow> (Some token, st\<lparr>ps_storage := w\<rparr>)
     | (Err e, w) \<Rightarrow> (None, st\<lparr>ps_storage := w\<rparr>)))"

definition return_credit ::
  "policy_codec \<Rightarrow> instant \<Rightarrow> bool \<Rightarrow> str \<Rightarrow> user_traffic \<Rightarrow> ('d, 'b, 'p) quota_turn \<Rightarrow> ('d, 'b, 'p) quota_turn" where
  "return_credit px now active user_id t q = (case request_refund (ut_quota t) of
     (Err e, quota) \<Rightarrow>
       let t1 = t\<lparr>ut_quota := quota\<rparr> in
       if credit_remaining quota = 0 \<and> \<not> active then drop_traffic user_id (put_traffic user_id t1 q)
       else if credit_remaining quota = 0
            then put_traffic user_id (t1\<lparr>ut_checkpoint_at := next_checkpoint (qt_state q) now\<rparr>) q
            else put_traffic user_id (t1\<lparr>ut_failed := True\<rparr>) q
   | (Ok amount, quota) \<Rightarrow>
       let t1 = t\<lparr>ut_quota := quota\<rparr>;
           failed = (\<lambda>st. put_traffic user_id (t1\<lparr>ut_quota := fail_refund quota, ut_failed := True\<rparr>) (q\<lparr>qt_state := st\<rparr>))
       in case hm_get (ps_users (qt_state q)) user_id of
            None \<Rightarrow> failed (qt_state q)
          | Some user \<Rightarrow> (case checked_sub (ur_durable_charged_bytes user) amount of
              None \<Rightarrow> failed (qt_state q)
            | Some charged \<Rightarrow>
                let user1 = user\<lparr>ur_durable_charged_bytes := charged\<rparr> in
                (case store_record px user_id user1 (qt_state q) of
                   (None, st) \<Rightarrow> failed st
                 | (Some token, st) \<Rightarrow> put_traffic user_id
                     (t1\<lparr>ut_refund := Some \<lparr>pc_amount = amount, pc_record = user1, pc_reply = token\<rparr>\<rparr>) (q\<lparr>qt_state := st\<rparr>))))"

definition buy_credit ::
  "policy_codec \<Rightarrow> str \<Rightarrow> user_traffic \<Rightarrow> ('d, 'b, 'p) quota_turn \<Rightarrow> ('d, 'b, 'p) quota_turn" where
  "buy_credit px user_id t q = (case request_credit (ut_quota t) of
     (Err Quota_Exhausted, quota) \<Rightarrow> stop_user user_id (put_traffic user_id (t\<lparr>ut_quota := quota\<rparr>) q)
   | (Err e, quota) \<Rightarrow> stop_user user_id (put_traffic user_id (t\<lparr>ut_quota := quota, ut_failed := True\<rparr>) q)
   | (Ok amount, quota) \<Rightarrow>
       let t1 = t\<lparr>ut_quota := quota\<rparr>;
           failed = (\<lambda>st. stop_user user_id
             (put_traffic user_id (t1\<lparr>ut_quota := fail_credit quota, ut_failed := True\<rparr>) (q\<lparr>qt_state := st\<rparr>)))
       in case hm_get (ps_users (qt_state q)) user_id of
            None \<Rightarrow> failed (qt_state q)
          | Some user \<Rightarrow> (case checked_add (ur_durable_charged_bytes user) amount of
              None \<Rightarrow> failed (qt_state q)
            | Some charged \<Rightarrow>
                let user1 = user\<lparr>ur_durable_charged_bytes := charged\<rparr> in
                (case store_record px user_id user1 (qt_state q) of
                   (None, st) \<Rightarrow> failed st
                 | (Some token, st) \<Rightarrow> put_traffic user_id
                     (t1\<lparr>ut_debit := Some \<lparr>pc_amount = amount, pc_record = user1, pc_reply = token\<rparr>\<rparr>) (q\<lparr>qt_state := st\<rparr>))))"

definition advance_user ::
  "policy_codec \<Rightarrow> instant \<Rightarrow> str set \<Rightarrow> str \<Rightarrow> ('d, 'b, 'p) quota_turn \<Rightarrow> ('d, 'b, 'p) quota_turn" where
  "advance_user px now active_users user_id q =
     (let active = user_id \<in> active_users in
      case open_traffic now active user_id q of
        Inl q1 \<Rightarrow> q1
      | Inr (t1, q1) \<Rightarrow>
          if ut_failed t1 then (if active then stop_user user_id q1 else drop_traffic user_id q1)
          else (case settle_debit user_id t1 q1 of
            Inl q2 \<Rightarrow> q2
          | Inr (t2, q2) \<Rightarrow> (case settle_refund now active user_id t2 q2 of
              Inl q3 \<Rightarrow> q3
            | Inr (t3, q3) \<Rightarrow>
                if \<not> active \<or> ut_checkpoint_at t3 \<le> now then return_credit px now active user_id t3 q3
                else if credit_remaining (ut_quota t3) \<noteq> 0 then q3
                else buy_credit px user_id t3 q3)))"

definition flow_users :: "('d, 'b, 'p) policy_state \<Rightarrow> str list" where
  "flow_users st = remdups (List.map_filter (\<lambda>(h, f). pf_user_id f) (ps_flows st) @
     List.map_filter (\<lambda>(h, f). df_user_id f) (ps_datagram_flows st))"

definition forget_traffic :: "str \<Rightarrow> ('d, 'b, 'p) policy_state \<Rightarrow> ('d, 'b, 'p) policy_state" where
  "forget_traffic user_id st = st\<lparr>ps_traffic := hm_remove user_id (ps_traffic st),
     ps_flow_cursor := hm_remove user_id (ps_flow_cursor st), ps_user_deficit := hm_remove user_id (ps_user_deficit st)\<rparr>"

definition advance_quota ::
  "policy_codec \<Rightarrow> instant \<Rightarrow> ('d, 'b, 'p) policy_state \<Rightarrow> str set \<times> ('d, 'b, 'p) policy_state" where
  "advance_quota px now st =
     (let active = flow_users st; users = remdups (active @ map fst (ps_traffic st));
          q = fold (advance_user px now (set active)) users \<lparr>qt_state = st, qt_stopped = {}, qt_removed = []\<rparr>
      in (qt_stopped q, fold forget_traffic (qt_removed q) (qt_state q)))"

section \<open>Shares and turns\<close>

lemma weighted_share_value:
  assumes "w \<le> total_weight" and "total_weight \<noteq> 0"
  shows "unat (weighted_share a w total_weight) = unat a * unat w div unat total_weight"
proof -
  let ?m = "saturating_mul (ucast a) (ucast w) :: u128"
  have ca: "unat (ucast x :: u128) = unat x" for x :: u64
  proof -
    have "unat x < 2 ^ 128" using unat_le_max [of x] by (simp add: unat_max_word)
    then show ?thesis by (simp add: unsigned_ucast_eq take_bit_nat_eq_self)
  qed
  have lt: "unat a * unat w < 2 ^ 128"
    using mult_le_mono [OF unat_le_max [of a] unat_le_max [of w]] by (simp add: unat_max_word)
  have m: "unat ?m = unat a * unat w"
    using lt by (simp add: unat_saturating_mul ca unat_max_word)
  have t0: "0 < unat total_weight" using assms(2) by (simp add: unat_gt_0)
  have "unat a * unat w div unat total_weight \<le> unat a * unat total_weight div unat total_weight"
    using assms(1) by (intro div_le_mono mult_le_mono) (simp_all add: word_le_nat_alt)
  then have le: "unat a * unat w div unat total_weight \<le> unat a" using t0 by simp
  let ?s = "?m div ucast total_weight"
  have s: "unat ?s = unat a * unat w div unat total_weight" by (simp add: unat_div m ca)
  have "?s \<le> ucast (- 1 :: u64)"
    using le unat_le_max [of a] by (simp add: word_le_nat_alt s ca)
  moreover have "unat (ucast ?s :: u64) = unat ?s"
    using le unat_le_max [of a] by (simp add: unsigned_ucast_eq take_bit_nat_eq_self s unat_max_word)
  ultimately show ?thesis using assms(2) by (simp add: weighted_share_def Let_def s)
qed

lemma saturating_sum:
  "unat acc + sum_list (map unat ws) \<le> unat (- 1 :: u64) \<Longrightarrow>
     unat (fold (\<lambda>w acc. saturating_add acc w) ws acc) = unat acc + sum_list (map unat ws)" for acc :: u64
proof (induction ws arbitrary: acc)
  case (Cons w ws)
  then have "unat (saturating_add acc w) = unat acc + unat w" by (simp add: unat_saturating_add)
  with Cons.IH [of "saturating_add acc w"] Cons.prems show ?case by simp
qed simp

lemma unat_ucast_u32: "unat (ucast w :: u64) = unat w" for w :: u32
proof -
  have "unat w < 2 ^ 64" using unat_le_max [of w] by (simp add: unat_max_word)
  then show ?thesis by (simp add: unsigned_ucast_eq take_bit_nat_eq_self)
qed

lemma total_weight_value:
  fixes weights :: "u32 list"
  assumes "length weights < 2 ^ 32"
  shows "unat (fold (\<lambda>w acc. saturating_add acc (ucast w)) weights (0 :: u64)) = (\<Sum>w\<leftarrow>weights. unat w)"
proof -
  have "unat w \<le> 2 ^ 32 - 1" for w :: u32 using unat_le_max [of w] by (simp add: unat_max_word)
  then have "(\<Sum>w\<leftarrow>weights. unat w) \<le> length weights * (2 ^ 32 - 1)"
    using sum_list_mono [of weights unat "\<lambda>_. 2 ^ 32 - 1"] by (simp add: sum_list_triv)
  also have "\<dots> \<le> (2 ^ 32 - 1) * (2 ^ 32 - 1)" using assms by (intro mult_le_mono1) simp
  finally have "sum_list (map unat (map (ucast :: u32 \<Rightarrow> u64) weights)) \<le> unat (- 1 :: u64)"
    by (simp add: unat_max_word o_def unat_ucast_u32)
  with saturating_sum [of 0 "map ucast weights"] show ?thesis by (simp add: fold_map o_def unat_ucast_u32)
qed

lemma div_superadditive: "a div t + b div t \<le> (a + b) div (t::nat)"
proof (cases "t = 0")
  case False
  have "(a div t + b div t) * t \<le> a + b"
    by (metis add_mono_thms_linordered_semiring(1) div_times_less_eq_dividend add_mult_distrib)
  with False show ?thesis by (simp add: less_eq_div_iff_mult_less_eq)
qed simp

lemma sum_div_le: "sum_list (map (\<lambda>w. a * w div t) ws) \<le> a * sum_list ws div (t::nat)"
proof (induction ws)
  case (Cons w ws)
  have "a * w div t + a * sum_list ws div t \<le> (a * w + a * sum_list ws) div t" by (rule div_superadditive)
  with Cons show ?case by (simp add: distrib_left)
qed simp

section \<open>Accounts and records\<close>

text \<open>The account of a user and the record of the user agree: the durable charge is the same, and a
  write in flight holds the record as it will be once the account has settled it.\<close>

definition account_ok :: "user_record option \<Rightarrow> user_traffic \<Rightarrow> bool" where
  "account_ok user t \<longleftrightarrow> quota_inv (ut_quota t) \<and> (\<not> ut_failed t \<longrightarrow>
     (case user of None \<Rightarrow> False | Some r \<Rightarrow> ur_durable_charged_bytes r = durable_charged (ut_quota t)) \<and>
     (case ut_debit t of
        None \<Rightarrow> \<not> debit_pending (ut_quota t)
      | Some p \<Rightarrow> debit_pending (ut_quota t) \<and> ut_refund t = None \<and>
          checked_add (durable_charged (ut_quota t)) (pc_amount p) = Some (ur_durable_charged_bytes (pc_record p))) \<and>
     (case ut_refund t of
        None \<Rightarrow> \<not> refund_pending (ut_quota t)
      | Some p \<Rightarrow> refund_pending (ut_quota t) \<and>
          checked_sub (durable_charged (ut_quota t)) (pc_amount p) = Some (ur_durable_charged_bytes (pc_record p))))"

definition accounts_ok :: "('d, 'b, 'p) policy_state \<Rightarrow> bool" where
  "accounts_ok st \<longleftrightarrow> (\<forall>u t. hm_get (ps_traffic st) u = Some t \<longrightarrow> account_ok (hm_get (ps_users st) u) t)"

abbreviation turn_ok :: "('d, 'b, 'p) quota_turn \<Rightarrow> bool" where
  "turn_ok q \<equiv> accounts_ok (qt_state q)"

lemma accounts_ok_storage [simp]: "accounts_ok (st\<lparr>ps_storage := w\<rparr>) = accounts_ok st"
  by (simp add: accounts_ok_def)

lemma turn_ok_simps [simp]:
  "turn_ok (stop_user u q) = turn_ok q" "turn_ok (stop_active a u q) = turn_ok q"
  "turn_ok (drop_traffic u q) = turn_ok q"
  by (simp_all add: stop_user_def stop_active_def drop_traffic_def)

lemma turn_ok_put [intro]:
  "turn_ok q \<Longrightarrow> account_ok (hm_get (ps_users (qt_state q)) u) t \<Longrightarrow> turn_ok (put_traffic u t q)"
  by (auto simp: accounts_ok_def put_traffic_def)

lemma turn_ok_settle:
  "turn_ok q \<Longrightarrow> account_ok (Some r) t \<Longrightarrow>
     turn_ok (put_traffic u t (q\<lparr>qt_state := set_users (hm_insert u r (ps_users (qt_state q))) (qt_state q)\<rparr>))"
  by (auto simp: accounts_ok_def put_traffic_def set_users_def)

lemma account_failed: "quota_inv (ut_quota t) \<Longrightarrow> ut_failed t \<Longrightarrow> account_ok r t"
  by (simp add: account_ok_def)

lemma account_quota_inv: "account_ok r t \<Longrightarrow> quota_inv (ut_quota t)"
  by (simp add: account_ok_def)

lemma new_traffic_ok: "new_traffic st now user = Ok t \<Longrightarrow> account_ok (Some user) t"
  by (auto simp: new_traffic_def Let_def try_bind_Ok_iff account_ok_def quota_new_inv)
    (auto simp: quota_new_def split: if_splits)

text \<open>What a turn passes to its next part: the state is fine and holds the traffic of the user.\<close>

definition handed :: "str \<Rightarrow> ('d, 'b, 'p) quota_turn + user_traffic \<times> ('d, 'b, 'p) quota_turn \<Rightarrow> bool" where
  "handed u s = (case s of Inl q \<Rightarrow> turn_ok q
     | Inr (t, q) \<Rightarrow> turn_ok q \<and> hm_get (ps_traffic (qt_state q)) u = Some t)"

lemma handed_simps [simp]:
  "handed u (Inl q) = turn_ok q"
  "handed u (Inr (t, q)) = (turn_ok q \<and> hm_get (ps_traffic (qt_state q)) u = Some t)"
  by (simp_all add: handed_def)

lemma account_of_turn:
  "turn_ok q \<Longrightarrow> hm_get (ps_traffic (qt_state q)) u = Some t \<Longrightarrow> account_ok (hm_get (ps_users (qt_state q)) u) t"
  by (simp add: accounts_ok_def)

lemma put_traffic_get [simp]: "hm_get (ps_traffic (qt_state (put_traffic u t q))) u = Some t"
  by (simp add: put_traffic_def)

lemma open_traffic_ok: "turn_ok q \<Longrightarrow> handed u (open_traffic now active u q)"
  by (auto simp: open_traffic_def new_traffic_ok split: option.splits result.splits)

lemma receive_write_state: "receive_write token st = (r, st') \<Longrightarrow> \<exists>w. st' = st\<lparr>ps_storage := w\<rparr>"
  by (auto simp: receive_write_def split: prod.splits)

lemma commit_credit_account:
  assumes "account_ok (Some r) t" and "\<not> ut_failed t" and "ut_debit t = Some p"
    and "commit_credit (ut_quota t) (pc_amount p) = (Ok u, quota)"
  shows "account_ok (Some (pc_record p)) (t\<lparr>ut_debit := None, ut_quota := quota\<rparr>)"
proof -
  have "quota_inv quota"
    using commit_credit_inv [of "ut_quota t" "pc_amount p"] assms by (simp add: account_ok_def)
  with assms show ?thesis
    by (auto simp: account_ok_def commit_credit_def split: if_splits option.splits)
qed

lemma commit_refund_account:
  assumes "account_ok (Some r) t" and "\<not> ut_failed t" and "ut_refund t = Some p"
    and "commit_refund (ut_quota t) (pc_amount p) = (Ok u, quota)"
  shows "account_ok (Some (pc_record p)) (t\<lparr>ut_refund := None, ut_quota := quota, ut_checkpoint_at := c\<rparr>)"
proof -
  have "quota_inv quota"
    using commit_refund_inv [of "ut_quota t" "pc_amount p"] assms by (simp add: account_ok_def)
  with assms show ?thesis
    by (auto simp: account_ok_def commit_refund_def split: if_splits option.splits)
qed

lemma account_record: "account_ok r t \<Longrightarrow> \<not> ut_failed t \<Longrightarrow> \<exists>u. r = Some u"
  by (auto simp: account_ok_def split: option.splits)

lemma settle_debit_ok:
  assumes ok: "turn_ok q" and get: "hm_get (ps_traffic (qt_state q)) u = Some t" and nf: "\<not> ut_failed t"
  shows "handed u (settle_debit u t q)"
proof (cases "ut_debit t")
  case None
  with assms show ?thesis by (simp add: settle_debit_def)
next
  case (Some p)
  note acc = account_of_turn [OF ok get]
  from account_record [OF acc nf] obtain r where r: "hm_get (ps_users (qt_state q)) u = Some r" by blast
  obtain reply st where recv: "receive_write (pc_reply p) (qt_state q) = (reply, st)" by force
  from receive_write_state [OF recv] obtain w where st: "st = (qt_state q)\<lparr>ps_storage := w\<rparr>" by blast
  let ?q = "q\<lparr>qt_state := st\<rparr>"
  have q1: "turn_ok ?q" using ok by (simp add: st)
  have inv: "quota_inv (ut_quota t)" using acc by (rule account_quota_inv)
  show ?thesis
  proof (cases "reply = Received (Reply_Write (Ok ()))")
    case True
    obtain c quota where cc: "commit_credit (ut_quota t) (pc_amount p) = (c, quota)" by force
    have qi: "quota_inv quota" using commit_credit_inv [OF inv, of "pc_amount p"] cc by simp
    show ?thesis
    proof (cases c)
      case (Ok v)
      with True Some recv cc show ?thesis
        using turn_ok_settle [OF q1 commit_credit_account [OF acc [unfolded r] nf Some cc [unfolded Ok]], of u]
        by (simp add: settle_debit_def Let_def)
    next
      case (Err e)
      with True Some recv cc show ?thesis
        by (auto simp: settle_debit_def Let_def intro!: turn_ok_put q1 account_failed qi)
    qed
  next
    case False
    with Some recv q1 show ?thesis
      by (cases reply; cases "case reply of Received r \<Rightarrow> r | _ \<Rightarrow> Reply_Write (Ok ())")
        (auto simp: settle_debit_def Let_def fail_credit_inv inv intro!: turn_ok_put q1 account_failed
          split: result.splits unit.splits)
  qed
qed

lemma settle_refund_ok:
  assumes ok: "turn_ok q" and get: "hm_get (ps_traffic (qt_state q)) u = Some t" and nf: "\<not> ut_failed t"
  shows "handed u (settle_refund now active u t q)"
proof (cases "ut_refund t")
  case None
  with assms show ?thesis by (simp add: settle_refund_def)
next
  case (Some p)
  note acc = account_of_turn [OF ok get]
  from account_record [OF acc nf] obtain r where r: "hm_get (ps_users (qt_state q)) u = Some r" by blast
  obtain reply st where recv: "receive_write (pc_reply p) (qt_state q) = (reply, st)" by force
  from receive_write_state [OF recv] obtain w where st: "st = (qt_state q)\<lparr>ps_storage := w\<rparr>" by blast
  let ?q = "q\<lparr>qt_state := st\<rparr>"
  have q1: "turn_ok ?q" using ok by (simp add: st)
  have inv: "quota_inv (ut_quota t)" using acc by (rule account_quota_inv)
  show ?thesis
  proof (cases "reply = Received (Reply_Write (Ok ()))")
    case True
    obtain c quota where cc: "commit_refund (ut_quota t) (pc_amount p) = (c, quota)" by force
    have qi: "quota_inv quota" using commit_refund_inv [OF inv, of "pc_amount p"] cc by simp
    show ?thesis
    proof (cases c)
      case (Ok v)
      with True Some recv cc show ?thesis
        using turn_ok_settle [OF q1 commit_refund_account [OF acc [unfolded r] nf Some cc [unfolded Ok]], of u "next_checkpoint st now"]
        by (simp add: settle_refund_def Let_def)
    next
      case (Err e)
      with True Some recv cc show ?thesis
        by (auto simp: settle_refund_def Let_def intro!: turn_ok_put q1 account_failed qi)
    qed
  next
    case False
    with Some recv q1 show ?thesis
      by (cases reply; cases "case reply of Received r \<Rightarrow> r | _ \<Rightarrow> Reply_Write (Ok ())")
        (auto simp: settle_refund_def Let_def fail_refund_inv inv intro!: turn_ok_put q1 account_failed
          split: result.splits unit.splits)
  qed
qed

lemma store_record_state: "store_record px u r st = (k, st') \<Longrightarrow> \<exists>w. st' = st\<lparr>ps_storage := w\<rparr>"
  by (auto simp: store_record_def intro: exI [of _ "ps_storage st"] split: result.splits prod.splits)

lemma account_settled:
  assumes "account_ok r t" and "ut_debit t = None" and "ut_refund t = None" and "\<not> ut_failed t"
  obtains u where "r = Some u" "ur_durable_charged_bytes u = durable_charged (ut_quota t)" "quota_inv (ut_quota t)"
    "\<not> debit_pending (ut_quota t)" "\<not> refund_pending (ut_quota t)"
  using assms by (auto simp: account_ok_def split: option.splits)

text \<open>A turn that ends with traffic that agrees with the record, or with traffic that has failed.\<close>

lemma turn_ok_stored:
  assumes "turn_ok q" and "st = (qt_state q)\<lparr>ps_storage := w\<rparr>" and "account_ok (hm_get (ps_users (qt_state q)) u) t"
  shows "turn_ok (put_traffic u t (q\<lparr>qt_state := st\<rparr>))"
  using assms by (intro turn_ok_put) simp_all

lemma return_credit_ok:
  assumes ok: "turn_ok q" and get: "hm_get (ps_traffic (qt_state q)) u = Some t" and nf: "\<not> ut_failed t"
    and none: "ut_debit t = None" "ut_refund t = None"
  shows "turn_ok (return_credit px now active u t q)"
proof -
  note acc = account_of_turn [OF ok get]
  from account_settled [OF acc none nf] obtain r where r: "hm_get (ps_users (qt_state q)) u = Some r"
    "ur_durable_charged_bytes r = durable_charged (ut_quota t)" and inv: "quota_inv (ut_quota t)"
    and np: "\<not> debit_pending (ut_quota t)" "\<not> refund_pending (ut_quota t)" .
  have same: "account_ok (hm_get (ps_users (qt_state q)) u) (t\<lparr>ut_checkpoint_at := c\<rparr>)" for c
    using acc by (auto simp: account_ok_def split: option.splits)
  show ?thesis
  proof (cases "credit_remaining (ut_quota t) = 0")
    case True
    with np ok acc same show ?thesis by (auto simp: return_credit_def request_refund_def Let_def)
  next
    case False
    let ?a = "credit_remaining (ut_quota t)"
    let ?quota = "(ut_quota t)\<lparr>refund_pending := True\<rparr>"
    have req: "request_refund (ut_quota t) = (Ok ?a, ?quota)" using np False by (simp add: request_refund_def Let_def)
    have qi: "quota_inv ?quota" using request_refund_inv [OF inv] req by simp
    have "\<not> ur_durable_charged_bytes r < ?a" using inv r(2) by (simp add: quota_inv_def not_less)
    then obtain charged where ch: "checked_sub (ur_durable_charged_bytes r) ?a = Some charged"
      by (simp add: checked_sub_def)
    let ?r = "r\<lparr>ur_durable_charged_bytes := charged\<rparr>"
    obtain k st where sr: "store_record px u ?r (qt_state q) = (k, st)" by force
    from store_record_state [OF sr] obtain w where st: "st = (qt_state q)\<lparr>ps_storage := w\<rparr>" by blast
    show ?thesis
    proof (cases k)
      case None
      with req r(1) ch sr show ?thesis
        by (auto simp: return_credit_def Let_def fail_refund_inv qi intro!: turn_ok_stored [OF ok st] account_failed)
    next
      case (Some token)
      have "account_ok (Some r) (t\<lparr>ut_quota := ?quota, ut_refund := Some \<lparr>pc_amount = ?a, pc_record = ?r, pc_reply = token\<rparr>\<rparr>)"
        using none np r qi ch by (simp add: account_ok_def)
      with Some req r(1) ch sr show ?thesis
        by (auto simp: return_credit_def Let_def intro!: turn_ok_stored [OF ok st])
    qed
  qed
qed

lemma buy_credit_ok:
  assumes ok: "turn_ok q" and get: "hm_get (ps_traffic (qt_state q)) u = Some t" and nf: "\<not> ut_failed t"
    and none: "ut_debit t = None" "ut_refund t = None"
  shows "turn_ok (buy_credit px u t q)"
proof -
  note acc = account_of_turn [OF ok get]
  from account_settled [OF acc none nf] obtain r where r: "hm_get (ps_users (qt_state q)) u = Some r"
    "ur_durable_charged_bytes r = durable_charged (ut_quota t)" and inv: "quota_inv (ut_quota t)"
    and np: "\<not> debit_pending (ut_quota t)" "\<not> refund_pending (ut_quota t)" .
  obtain a quota where req: "request_credit (ut_quota t) = (a, quota)" by force
  have qi: "quota_inv quota" using request_credit_inv [OF inv] req by simp
  show ?thesis
  proof (cases a)
    case (Err e)
    then have "quota = ut_quota t" using req by (auto simp: request_credit_def Let_def split: if_splits)
    with acc have "account_ok (hm_get (ps_users (qt_state q)) u) (t\<lparr>ut_quota := quota\<rparr>)" by simp
    with ok Err req qi show ?thesis
      by (cases e) (auto simp: buy_credit_def intro!: turn_ok_put account_failed)
  next
    case (Ok amount)
    then have quota: "quota = (ut_quota t)\<lparr>debit_pending := True\<rparr>"
      using req by (auto simp: request_credit_def Let_def split: if_splits)
    show ?thesis
    proof (cases "checked_add (ur_durable_charged_bytes r) amount")
      case None
      with req Ok r(1) ok qi show ?thesis
        by (auto simp: buy_credit_def Let_def fail_credit_inv intro!: turn_ok_put account_failed)
    next
      case (Some charged)
      let ?r = "r\<lparr>ur_durable_charged_bytes := charged\<rparr>"
      obtain k st where sr: "store_record px u ?r (qt_state q) = (k, st)" by force
      from store_record_state [OF sr] obtain w where st: "st = (qt_state q)\<lparr>ps_storage := w\<rparr>" by blast
      have "account_ok (Some r) (t\<lparr>ut_quota := quota, ut_debit := Some \<lparr>pc_amount = amount, pc_record = ?r, pc_reply = token\<rparr>\<rparr>)" for token
        using none np r qi Some by (simp add: account_ok_def quota)
      with Some req Ok r(1) sr qi turn_ok_stored [OF ok st, of u] show ?thesis
        by (cases k) (simp_all add: buy_credit_def Let_def fail_credit_inv account_failed)
    qed
  qed
qed

lemma settle_debit_none: "settle_debit u t q = Inr (t', q') \<Longrightarrow> ut_debit t' = None \<and> ut_failed t' = ut_failed t"
  by (auto simp: settle_debit_def Let_def split: option.splits prod.splits recv.splits reply.splits result.splits)

lemma settle_refund_none:
  "settle_refund now active u t q = Inr (t', q') \<Longrightarrow>
     ut_refund t' = None \<and> ut_debit t' = ut_debit t \<and> ut_failed t' = ut_failed t"
  by (auto simp: settle_refund_def Let_def split: option.splits prod.splits recv.splits reply.splits result.splits if_splits)

lemma advance_user_ok: 
  assumes "turn_ok q" shows "turn_ok (advance_user px now active_users u q)"
proof -
  let ?a = "u \<in> active_users"
  have o: "handed u (open_traffic now ?a u q)" using assms by (rule open_traffic_ok)
  show ?thesis
  proof (cases "open_traffic now ?a u q")
    case (Inl q1)
    with o show ?thesis by (simp add: advance_user_def Let_def)
  next
    case (Inr p1)
    obtain t1 q1 where p1: "p1 = (t1, q1)" by force
    note opened = Inr [unfolded p1]
    from o opened have ok1: "turn_ok q1" and get1: "hm_get (ps_traffic (qt_state q1)) u = Some t1" by simp_all
    show ?thesis
    proof (cases "ut_failed t1")
      case True
      with opened ok1 show ?thesis by (simp add: advance_user_def)
    next
      case nf: False
      have d: "handed u (settle_debit u t1 q1)" using ok1 get1 nf by (rule settle_debit_ok)
      show ?thesis
      proof (cases "settle_debit u t1 q1")
        case (Inl q2)
        with d opened nf show ?thesis by (simp add: advance_user_def)
      next
        case (Inr p2)
        obtain t2 q2 where "p2 = (t2, q2)" by force
        note debited = Inr [unfolded this]
        from d debited have ok2: "turn_ok q2" and get2: "hm_get (ps_traffic (qt_state q2)) u = Some t2" by simp_all
        have nd: "ut_debit t2 = None" and nf2: "\<not> ut_failed t2" using settle_debit_none [OF debited] nf by simp_all
        have s: "handed u (settle_refund now ?a u t2 q2)" using ok2 get2 nf2 by (rule settle_refund_ok)
        show ?thesis
        proof (cases "settle_refund now ?a u t2 q2")
          case (Inl q3)
          with s opened debited nf show ?thesis by (simp add: advance_user_def)
        next
          case (Inr p3)
          obtain t3 q3 where "p3 = (t3, q3)" by force
          note refunded = Inr [unfolded this]
          note n = settle_refund_none [OF refunded]
          from s refunded n nd nf2 opened debited nf show ?thesis
            by (simp add: advance_user_def Let_def return_credit_ok buy_credit_ok)
        qed
      qed
    qed
  qed
qed

lemma advance_users_ok: "turn_ok q \<Longrightarrow> turn_ok (fold (advance_user px now active_users) users q)"
  by (induction users arbitrary: q) (simp_all add: advance_user_ok)

lemma forget_traffic_ok: "accounts_ok st \<Longrightarrow> accounts_ok (forget_traffic u st)"
  by (simp add: accounts_ok_def forget_traffic_def)

lemma forget_all_ok: "accounts_ok st \<Longrightarrow> accounts_ok (fold forget_traffic us st)"
  by (induction us arbitrary: st) (simp_all add: forget_traffic_ok)

section \<open>Grants\<close>

text \<open>What a bucket should be after \<open>w\<close> bytes have passed at time \<open>now_nanos\<close>: refilled, less those bytes.\<close>

definition spend :: "u64 \<Rightarrow> u64 \<Rightarrow> token_bucket option \<Rightarrow> token_bucket option" where
  "spend w now_nanos b = map_option (\<lambda>bucket. let b' = snd (refill bucket now_nanos) in b'\<lparr>tb_tokens := tb_tokens b' - w\<rparr>) b"

definition buckets_ok :: "user_traffic \<Rightarrow> bool" where
  "buckets_ok t \<longleftrightarrow> pred_option bucket_inv (ut_upload t) \<and> pred_option bucket_inv (ut_download t) \<and>
     pred_option bucket_inv (ut_combined t)"

lemma refund_tokens:
  assumes "w \<le> g" and "g \<le> (x::u64)" and "x \<le> burst"
  shows "min (saturating_add (x - g) (saturating_sub g w)) burst = x - w"
proof -
  have le: "unat w \<le> unat g" "unat g \<le> unat x" using assms(1,2) by (simp_all add: word_le_nat_alt)
  have wx: "w \<le> x" using assms(1,2) by (rule order_trans)
  have "unat (saturating_add (x - g) (saturating_sub g w)) = unat (x - w)"
    using le wx assms(1,2) unat_le_max [of x]
    by (simp add: unat_saturating_add unat_saturating_sub unat_sub word_le_nat_alt)
  then have "saturating_add (x - g) (saturating_sub g w) = x - w" by (simp only: word_unat_eq_iff)
  moreover have "x - w \<le> burst" using wx assms(3) word_sub_le order_trans by blast
  ultimately show ?thesis by (simp add: min_def)
qed

lemma take_optional_refund:
  assumes "take_optional b n now_nanos = (Ok g, b')" and "pred_option bucket_inv b" and "w \<le> g"
  shows "map_option (\<lambda>bucket. bucket_refund bucket (saturating_sub g w)) b' = spend w now_nanos b"
proof (cases b)
  case None
  with assms show ?thesis by (simp add: take_optional_def spend_def)
next
  case (Some bucket)
  show ?thesis
  proof (cases rule: bucket_take_cases [where b = bucket and n = n and now = now_nanos])
    case (1 e)
    with Some assms(1) show ?thesis by (simp add: take_optional_def)
  next
    case (2 u b2)
    from Some assms(1) 2 have g: "g = min n (tb_tokens b2)" and b': "b' = Some (b2\<lparr>tb_tokens := tb_tokens b2 - g\<rparr>)"
      by (auto simp: take_optional_def)
    have "tb_tokens b2 \<le> tb_burst b2"
      using refill_Ok(1) [OF 2(1)] assms(2) Some by (simp add: bucket_inv_def)
    moreover have "g \<le> tb_tokens b2" by (simp add: g)
    ultimately show ?thesis
      using assms(3) Some 2(1) by (simp add: b' bucket_refund_def refund_tokens spend_def)
  qed
qed

lemma take_rate_grant_Ok:
  assumes "take_rate_grant t budget now_nanos = (Ok grant, t')"
  obtains c u d where "take_optional (ut_combined t) budget now_nanos = (Ok (rg_combined grant), c)"
    "take_optional (ut_upload t) (rg_combined grant) now_nanos = (Ok (rg_mux_to_stack grant), u)"
    "take_optional (ut_download t) (rg_combined grant) now_nanos = (Ok (rg_stack_to_mux grant), d)"
    "t' = t\<lparr>ut_combined := c, ut_upload := u, ut_download := d\<rparr>" "rg_global grant = rg_combined grant"
proof -
  obtain rc c where c: "take_optional (ut_combined t) budget now_nanos = (rc, c)" by force
  from assms c obtain vc where vc: "rc = Ok vc" by (cases rc) (simp_all add: take_rate_grant_def)
  obtain ru u where u: "take_optional (ut_upload t) vc now_nanos = (ru, u)" by force
  from assms c vc u obtain vu where vu: "ru = Ok vu" by (cases ru) (simp_all add: take_rate_grant_def Let_def)
  obtain rd d where d: "take_optional (ut_download t) vc now_nanos = (rd, d)" by force
  from assms c vc u vu d obtain vd where vd: "rd = Ok vd" by (cases rd) (simp_all add: take_rate_grant_def Let_def)
  from assms c vc u vu d vd have "grant = \<lparr>rg_stack_to_mux = vd, rg_mux_to_stack = vu, rg_combined = vc, rg_global = vc\<rparr>"
    "t' = t\<lparr>ut_combined := c, ut_upload := u, ut_download := d\<rparr>" by (auto simp: take_rate_grant_def Let_def)
  with c vc u vu d vd that show ?thesis by simp
qed

section \<open>Properties\<close>


text \<open>A state in which one user has a flow and the purchase of 500 bytes has just been acknowledged.\<close>

definition example_traffic :: user_traffic where
  "example_traffic = \<lparr>ut_quota = \<lparr>limit_bytes = Some 1000, durable_charged = 10, credit_remaining = 0, block_bytes = 500,
       debit_pending = True, refund_pending = False\<rparr>, ut_upload = None,
     ut_download = Some \<lparr>tb_rate = 100, tb_burst = 500, tb_tokens = 500, tb_last_nanos = 0, tb_fractional = 0\<rparr>,
     ut_combined = None,
     ut_debit = Some \<lparr>pc_amount = 500, pc_record = example_user\<lparr>ur_durable_charged_bytes := 510\<rparr>, pc_reply = 7\<rparr>,
     ut_refund = None, ut_failed = False, ut_checkpoint_at = 5\<rparr>"

definition example_user_flow :: "(unit, unit) policy_flow" where
  "example_user_flow = example_flow\<lparr>pf_user_id := Some (str_lit ''u'')\<rparr>"

definition example_state :: "((str \<times> bytes) list, unit, unit) policy_state" where
  "example_state = \<lparr>ps_started = 0, ps_shutting_down = False, ps_maintenance = False, ps_global_rate = None,
     ps_user_deficit = [], ps_user_cursor = 0, ps_options = example_options,
     ps_storage = example_worker\<lparr>sw_next_token := 8, sw_replies := [(7, Reply_Write (Ok ()))]\<rparr>,
     ps_admin = \<lparr>ad_sequencer = \<lparr>sq_max_clients = 2, sq_clients = []\<rparr>, ad_users = [(str_lit ''u'', example_user)],
       ad_loaded_users = {str_lit ''u''}, ad_credentials = [], ad_loaded_credentials = {}, ad_rules = []\<rparr>,
     ps_pending_control = None, ps_client_credential = None, ps_sessions = [], ps_flows = [(1, example_user_flow)],
     ps_datagram_flows = [], ps_traffic = [(str_lit ''u'', example_traffic)], ps_flow_cursor = []\<rparr>"

definition example_codec :: policy_codec where
  "example_codec = \<lparr>px_enc_user = \<lambda>_. Some [], px_dec_user = \<lambda>_. None, px_enc_credential = \<lambda>_. Some [],
     px_dec_credential = \<lambda>_. None, px_enc_receipt = \<lambda>_. Some [], px_dec_receipt = \<lambda>_. None, px_sha256 = id\<rparr>"

lemma example_accounts: "accounts_ok example_state"
  by (simp add: accounts_ok_def example_state_def account_ok_def example_traffic_def example_user_def quota_inv_def
      hm_get_def checked_add_def)

lemma example_advance:
  "map_option (\<lambda>t. credit_remaining (ut_quota t))
     (hm_get (ps_traffic (snd (advance_quota example_codec 1 example_state))) (str_lit ''u'')) = Some 500"
  by (simp add: advance_quota_def flow_users_def Let_def map_filter_simps example_state_def example_user_flow_def
      example_flow_def example_traffic_def)
    (simp add: advance_user_def open_traffic_def settle_debit_def settle_refund_def receive_write_def try_recv_def hm_get_def
      commit_credit_def checked_add_def put_traffic_def set_users_def Let_def example_user_def hm_insert_def)


text \<open>Grants are exact: when a flow has written at most what it was granted, returning the rest
  leaves every bucket of the user as if only the written bytes had been taken from it, whatever the
  other buckets had left and however often the grant was cut down.\<close>

theorem unused_grant_is_returned:
  assumes "take_rate_grant t budget now_nanos = (Ok grant, t')" and "buckets_ok t"
    and "stack_written \<le> rg_stack_to_mux grant" and "mux_written \<le> rg_mux_to_stack grant"
    and "saturating_add stack_written mux_written \<le> rg_combined grant"
  shows "refund_traffic grant stack_written mux_written t' =
    t\<lparr>ut_combined := spend (saturating_add stack_written mux_written) now_nanos (ut_combined t),
      ut_upload := spend mux_written now_nanos (ut_upload t), ut_download := spend stack_written now_nanos (ut_download t)\<rparr>"
proof (cases rule: take_rate_grant_Ok [OF assms(1)])
  case (1 c u d)
  note refunds = take_optional_refund [OF 1(1) _ assms(5)] take_optional_refund [OF 1(2) _ assms(4)]
    take_optional_refund [OF 1(3) _ assms(3)]
  from assms(2) refunds show ?thesis by (simp add: refund_traffic_def 1(4) buckets_ok_def)
qed

theorem unused_grant_is_returned_witness:
  "\<exists>grant t'. take_rate_grant example_traffic 400 1000000000 = (Ok grant, t') \<and>
     refund_traffic grant 30 20 t' = example_traffic\<lparr>ut_download := Some \<lparr>tb_rate = 100, tb_burst = 500, tb_tokens = 470,
       tb_last_nanos = 1000000000, tb_fractional = 0\<rparr>\<rparr>"
proof -
  let ?r = "take_rate_grant example_traffic 400 1000000000"
  obtain grant t' where r: "?r = (Ok grant, t')" and g: "grant = \<lparr>rg_stack_to_mux = 400, rg_mux_to_stack = 400, rg_combined = 400, rg_global = 400\<rparr>"
    by (simp add: take_rate_grant_def take_optional_def example_traffic_def bucket_take_def refill_def bucket_produced_def
        checked_mul_def checked_add_def saturating_add_def unat_max_word Let_def)
  have b: "buckets_ok example_traffic" by (simp add: buckets_ok_def example_traffic_def bucket_inv_def)
  from unused_grant_is_returned [OF r b, of 30 20] g r show ?thesis
    by (simp add: saturating_add_def checked_add_def example_traffic_def spend_def refill_def bucket_produced_def checked_mul_def unat_max_word Let_def)
qed

text \<open>Fair sharing never oversells: with fewer than \<open>2\<close> to the \<open>32\<close> scheduled users, the weighted
  shares of the available bytes add up to at most the available bytes.\<close>

theorem weighted_shares_within_budget:
  fixes weights :: "u32 list"
  assumes "length weights < 2 ^ 32" and "total_weight = fold (\<lambda>w acc. saturating_add acc (ucast w)) weights 0"
  shows "(\<Sum>w\<leftarrow>weights. unat (weighted_share available (ucast w) total_weight)) \<le> unat available"
proof (cases "total_weight = 0")
  case True
  then show ?thesis by (simp add: weighted_share_def)
next
  case False
  have total: "unat total_weight = (\<Sum>w\<leftarrow>weights. unat w)" using assms by (simp add: total_weight_value)
  have "unat (weighted_share available (ucast w) total_weight) = unat available * unat w div unat total_weight"
    if "w \<in> set weights" for w
  proof -
    have "unat w \<le> (\<Sum>w\<leftarrow>weights. unat w)" using that by (intro member_le_sum_list) auto
    then show ?thesis using False by (subst weighted_share_value) (simp_all add: word_le_nat_alt total unat_ucast_u32)
  qed
  then have "(\<Sum>w\<leftarrow>weights. unat (weighted_share available (ucast w) total_weight)) =
      (\<Sum>w\<leftarrow>map unat weights. unat available * w div unat total_weight)" by (simp add: o_def cong: map_cong)
  also have "\<dots> \<le> unat available * unat total_weight div unat total_weight"
    using sum_div_le [of "unat available" "unat total_weight" "map unat weights"] by (simp add: total)
  also have "\<dots> = unat available" using False by (simp add: unat_eq_0)
  finally show ?thesis .
qed

theorem weighted_shares_within_budget_witness:
  "weighted_share 100 1 4 = 25 \<and> weighted_share 100 3 4 = 75 \<and>
   unat (weighted_share 100 (ucast (1 :: u32)) 4) + unat (weighted_share 100 (ucast (3 :: u32)) 4) \<le> unat (100 :: u64)"
proof -
  have s: "weighted_share 100 1 4 = 25" "weighted_share 100 3 4 = 75" by code_simp+
  have t: "(4 :: u64) = fold (\<lambda>w acc. saturating_add acc (ucast w)) [1 :: u32, 3] 0"
    by (simp add: saturating_add_def checked_add_def)
  from weighted_shares_within_budget [OF _ t, of 100] s show ?thesis by simp
qed

end
