(* ===== verification/Session_Auth.thy ===== *)
theory Session_Auth
  imports Traffic
begin

text \<open>
  Policy sessions (\<^verbatim>\<open>policy-local/src/lib.rs\<close>, \<open>poll_policy_session\<close> and what it calls): requests of
  the client, the look-ups that authenticate it, the status messages, and the limits on sessions and
  flows. TOML and the clocks are in \<open>session_env\<close>; the state is the one without the polled session,
  as in \<open>poll_instance\<close>. The bytes that the channel sends are those of \<open>channel_poll\<close>.
\<close>

section \<open>Status codes\<close>

fun admin_status :: "admin_error \<Rightarrow> status" where
  "admin_status Admin_ClientLimit = STATUS_RESOURCE"
| "admin_status Admin_Random = STATUS_INTERNAL"
| "admin_status Admin_Encode = STATUS_INTERNAL"
| "admin_status Admin_Invalid = STATUS_DENIED"
| "admin_status Admin_Sequence = STATUS_DENIED"
| "admin_status Admin_State = STATUS_DENIED"

fun storage_status :: "storage_error \<Rightarrow> status" where
  "storage_status Storage_QueueFull = STATUS_RESOURCE"
| "storage_status Storage_Limit = STATUS_RESOURCE"
| "storage_status Storage_Invalid = STATUS_INVALID"
| "storage_status _ = STATUS_IO"

text \<open>A storage call as a step of the instance.\<close>

definition with_storage ::
  "('d storage_worker \<Rightarrow> ('a, storage_error) result \<times> 'd storage_worker) \<Rightarrow> ('d, 'b, 'p) policy_state \<Rightarrow>
     ('a, status) result \<times> ('d, 'b, 'p) policy_state" where
  "with_storage call st = (case call (ps_storage st) of (r, w) \<Rightarrow> (map_err storage_status r, st\<lparr>ps_storage := w\<rparr>))"

section \<open>Limits\<close>

definition flow_available_at :: "('d, 'b, 'p) policy_state \<Rightarrow> user_record \<Rightarrow> u64 \<Rightarrow> bool" where
  "flow_available_at st user now =
     (if \<not> user_access_allowed_at user now then False
      else (case hm_get (ps_traffic st) (ur_id user) of Some t \<Rightarrow> credit_remaining (ut_quota t) \<noteq> 0 | None \<Rightarrow> False) \<or>
           \<not> quota_used_up user)"

definition authenticated_as :: "str \<Rightarrow> policy_session \<Rightarrow> bool" where
  "authenticated_as user_id s \<longleftrightarrow> pn_auth s = Authenticated user_id"

definition session_limit_reached :: "('d, 'b, 'p) policy_state \<Rightarrow> user_record \<Rightarrow> bool" where
  "session_limit_reached st user = (case us_max_sessions (ur_spec user) of
     Count_Limited n \<Rightarrow> unat n \<le> length (filter (\<lambda>(h, s). authenticated_as (ur_id user) s) (ps_sessions st))
   | Count_Unlimited \<Rightarrow> False)"

definition flow_limit_reached :: "('d, 'b, 'p) policy_state \<Rightarrow> user_record \<Rightarrow> bool" where
  "flow_limit_reached st user = (case us_max_flows (ur_spec user) of
     Count_Limited n \<Rightarrow>
       let active = usize_saturating_add
             (length (filter (\<lambda>(h, f). pf_user_id f = Some (ur_id user)) (ps_flows st)))
             (length (filter (\<lambda>(h, f). df_user_id f = Some (ur_id user)) (ps_datagram_flows st)));
           pending = sum_list (map (\<lambda>(h, s). length (filter (\<lambda>i. fid_user_id i = ur_id user) (pn_pending_flows s))) (ps_sessions st))
       in unat n \<le> usize_saturating_add active pending
   | Count_Unlimited \<Rightarrow> False)"

section \<open>Status messages\<close>

record policy_status =
  po_status :: str
  po_server_id :: str
  po_user_id :: str
  po_used_bytes :: u64
  po_limit_bytes :: "u64 option"
  po_upload_rate :: "u64 option"
  po_download_rate :: "u64 option"
  po_expires_at :: "u64 option"
  po_revision :: u64
  po_reason :: str

text \<open>What a session takes from outside: TOML in and out, the clocks, and the stream of its channel.\<close>

record session_env =
  se_request :: "str \<Rightarrow> client_request option"
  se_status :: "policy_status \<Rightarrow> str option"
  se_reply :: "str \<Rightarrow> (str option \<times> str option) option"
  se_now :: instant
  se_now_utc :: u64
  se_read :: io_read
  se_write :: "bytes \<Rightarrow> io_write"

definition rate_value :: "rate_limit \<Rightarrow> u64 option" where
  "rate_value rate = (case rate of Rate_Unlimited \<Rightarrow> None | Rate_Limited n \<Rightarrow> Some n)"

definition status_message ::
  "session_env \<Rightarrow> ('d, 'b, 'p) policy_state \<Rightarrow> str \<Rightarrow> str \<Rightarrow> (str, status) result" where
  "status_message env st user_id status =
     try_bind (ok_or (hm_get (ps_users st) user_id) STATUS_INVALID) (\<lambda>user.
       ok_or (se_status env
         \<lparr>po_status = status, po_server_id = op_server_id (ps_options st), po_user_id = user_id,
          po_used_bytes = ur_durable_charged_bytes user, po_limit_bytes = quota_limit user,
          po_upload_rate = rate_value (us_upload_rate (ur_spec user)),
          po_download_rate = rate_value (us_download_rate (ur_spec user)),
          po_expires_at = (case us_expiration (ur_spec user) of Expiration_Unlimited \<Rightarrow> None | AtUtc t \<Rightarrow> Some t),
          po_revision = ur_revision user, po_reason = str_lit ''ok''\<rparr>) STATUS_INTERNAL)"

section \<open>Requests of the client\<close>

type_synonym ('d, 'b, 'p) session_result = "(unit, status) result \<times> policy_session \<times> ('d, 'b, 'p) policy_state"

text \<open>An operation of the channel within the session.\<close>

definition on_channel ::
  "(session_channel \<Rightarrow> (unit, service_error) result \<times> session_channel) \<Rightarrow> policy_session \<Rightarrow> (unit, status) result \<times> policy_session" where
  "on_channel call s = (case call (pn_channel s) of (r, ch) \<Rightarrow> (map_err (\<lambda>_. STATUS_RESOURCE) r, s\<lparr>pn_channel := ch\<rparr>))"

definition handle_auth ::
  "policy_codec \<Rightarrow> str \<Rightarrow> policy_session \<Rightarrow> ('d, 'b, 'p) policy_state \<Rightarrow> ('d, 'b, 'p) session_result" where
  "handle_auth px text s st =
     (if pn_auth s \<noteq> Waiting then (Err STATUS_DENIED, s, st)
      else (case credential_parse_hex text of
        Err e \<Rightarrow> (Err (admin_status e), s, st)
      | Ok credential \<Rightarrow>
          let digest = credential_digest_hex (credential_digest_id (px_sha256 px) credential);
              s1 = s\<lparr>pn_credential_digest := Some digest\<rparr>
          in (case with_storage (\<lambda>w. storage_get w (credential_key digest)) st of
                (Err e, st1) \<Rightarrow> (Err e, s1, st1)
              | (Ok token, st1) \<Rightarrow> (Ok (), s1\<lparr>pn_auth := Credential_Lookup digest token\<rparr>, st1))))"

definition handle_status_request ::
  "session_env \<Rightarrow> policy_session \<Rightarrow> ('d, 'b, 'p) policy_state \<Rightarrow> ('d, 'b, 'p) session_result" where
  "handle_status_request env s st = (case pn_auth s of
     Authenticated user_id \<Rightarrow> (case status_message env st user_id (str_lit ''ok'') of
       Err e \<Rightarrow> (Err e, s, st)
     | Ok text \<Rightarrow> (case on_channel (\<lambda>ch. queue_response ch text) s of (r, s1) \<Rightarrow> (r, s1, st)))
   | _ \<Rightarrow> (Err STATUS_DENIED, s, st))"

definition handle_subscribe ::
  "session_env \<Rightarrow> policy_session \<Rightarrow> ('d, 'b, 'p) policy_state \<Rightarrow> ('d, 'b, 'p) session_result" where
  "handle_subscribe env s st = (case pn_auth s of
     Authenticated user_id \<Rightarrow> (case status_message env st user_id (str_lit ''ok'') of
       Err e \<Rightarrow> (Err e, s, st)
     | Ok text \<Rightarrow> (case on_channel (\<lambda>ch. replace_snapshot ch text) s of
         (Err e, s1) \<Rightarrow> (Err e, s1, st)
       | (Ok u, s1) \<Rightarrow> (Ok (), s1\<lparr>pn_subscribed := True, pn_last_status := se_now env\<rparr>, st)))
   | _ \<Rightarrow> (Err STATUS_DENIED, s, st))"

definition handle_client_request ::
  "session_env \<Rightarrow> policy_codec \<Rightarrow> str \<Rightarrow> policy_session \<Rightarrow> ('d, 'b, 'p) policy_state \<Rightarrow> ('d, 'b, 'p) session_result" where
  "handle_client_request env px input s st = (case client_request_parse (se_request env) input of
     Err e \<Rightarrow> (Err STATUS_DENIED, s, st)
   | Ok (Auth credential) \<Rightarrow> handle_auth px credential s st
   | Ok Status \<Rightarrow> handle_status_request env s st
   | Ok Subscribe \<Rightarrow> handle_subscribe env s st
   | Ok DisconnectSelf \<Rightarrow> (Err STATUS_OK, s, st))"

text \<open>\<open>se_reply\<close> is the parsed status of the server: its \<open>status\<close> and \<open>user_id\<close> when they are strings.\<close>

definition handle_server_status :: "session_env \<Rightarrow> str \<Rightarrow> policy_session \<Rightarrow> (unit, status) result \<times> policy_session" where
  "handle_server_status env input s = (case se_reply env input of
     None \<Rightarrow> (Err STATUS_DENIED, s)
   | Some (None, user_id) \<Rightarrow> (Err STATUS_DENIED, s)
   | Some (Some status, user_id) \<Rightarrow>
       if status = str_lit ''authenticated'' \<or> status = str_lit ''ok''
       then (Ok (), s\<lparr>pn_auth := Authenticated (case user_id of Some u \<Rightarrow> u | None \<Rightarrow> str_lit ''remote'')\<rparr>)
       else (Err STATUS_DENIED, s))"

section \<open>Authentication\<close>

definition queue_denied :: "str \<Rightarrow> policy_session \<Rightarrow> (unit, status) result \<times> policy_session" where
  "queue_denied reason s = on_channel (\<lambda>ch. queue_response ch
     (str_lit ''status = \"denied\"'' @ [10] @ str_lit ''reason = \"'' @ reason @ str_lit ''\"'' @ [10])) s"

definition finish_authentication ::
  "session_env \<Rightarrow> user_record \<Rightarrow> policy_session \<Rightarrow> ('d, 'b, 'p) policy_state \<Rightarrow> ('d, 'b, 'p) session_result" where
  "finish_authentication env user s st =
     (let user_id = ur_id user;
          st1 = st\<lparr>ps_admin := (ps_admin st)\<lparr>ad_loaded_users := insert user_id (ad_loaded_users (ps_admin st)),
                 ad_users := hm_insert user_id user (ad_users (ps_admin st))\<rparr>\<rparr>;
          s1 = s\<lparr>pn_auth := Authenticated user_id\<rparr>
      in case status_message env st1 user_id (str_lit ''authenticated'') of
           Err e \<Rightarrow> (Err e, s1, st1)
         | Ok text \<Rightarrow> (case on_channel (\<lambda>ch. queue_response ch text) s1 of (r, s2) \<Rightarrow> (r, s2, st1)))"

text \<open>A denial leaves the session waiting for another attempt.\<close>

definition deny :: "str \<Rightarrow> policy_session \<Rightarrow> ('d, 'b, 'p) policy_state \<Rightarrow> ('d, 'b, 'p) session_result" where
  "deny reason s st = (case queue_denied reason (s\<lparr>pn_auth := Waiting\<rparr>) of (r, s1) \<Rightarrow> (r, s1, st))"

definition check_credential ::
  "policy_codec \<Rightarrow> str \<Rightarrow> bytes \<Rightarrow> policy_session \<Rightarrow> ('d, 'b, 'p) policy_state \<Rightarrow> ('d, 'b, 'p) session_result" where
  "check_credential px digest value s st = (case px_dec_credential px value of
     None \<Rightarrow> (Err STATUS_IO, s\<lparr>pn_auth := Waiting\<rparr>, st)
   | Some credential \<Rightarrow>
       if cr_digest credential \<noteq> digest \<or> cr_revoked credential then deny (str_lit ''credential-revoked'') s st
       else (case with_storage (\<lambda>w. storage_get w (user_key (cr_user_id credential))) st of
               (Err e, st1) \<Rightarrow> (Err e, s\<lparr>pn_auth := Waiting\<rparr>, st1)
             | (Ok token, st1) \<Rightarrow> (Ok (), s\<lparr>pn_auth := User_Lookup (cr_user_id credential) token\<rparr>, st1)))"

definition check_user ::
  "session_env \<Rightarrow> policy_codec \<Rightarrow> str \<Rightarrow> bytes \<Rightarrow> policy_session \<Rightarrow> ('d, 'b, 'p) policy_state \<Rightarrow> ('d, 'b, 'p) session_result" where
  "check_user env px user_id value s st = (case decode_user_record (px_dec_user px) value of
     Err e \<Rightarrow> (Err STATUS_IO, s\<lparr>pn_auth := Waiting\<rparr>, st)
   | Ok user \<Rightarrow>
       let now = se_now_utc env in
       if ur_id user \<noteq> user_id \<or> \<not> user_available_at user now then deny (str_lit ''user-disabled'') s st
       else if session_limit_reached st user then deny (str_lit ''session-limit'') s st
       else if ur_max_observed_utc user < now then
         (let user1 = user\<lparr>ur_max_observed_utc := now\<rparr> in
          case encode_user_record (px_enc_user px) user1 of
            Err e \<Rightarrow> (Err (admin_status e), s\<lparr>pn_auth := Waiting\<rparr>, st)
          | Ok encoded \<Rightarrow> (case with_storage (\<lambda>w. storage_put w (user_key user_id) encoded) st of
              (Err e, st1) \<Rightarrow> (Err e, s\<lparr>pn_auth := Waiting\<rparr>, st1)
            | (Ok token, st1) \<Rightarrow> (Ok (), s\<lparr>pn_auth := Clock_Update user1 token\<rparr>, st1)))
       else finish_authentication env user (s\<lparr>pn_auth := Waiting\<rparr>) st)"

definition advance_authentication ::
  "session_env \<Rightarrow> policy_codec \<Rightarrow> policy_session \<Rightarrow> ('d, 'b, 'p) policy_state \<Rightarrow> ('d, 'b, 'p) session_result" where
  "advance_authentication env px s st = (case pn_auth s of
     Credential_Lookup digest token \<Rightarrow> (case receive_write token st of
       (Received (Reply_Get (Ok (Some value))), st1) \<Rightarrow> check_credential px digest value s st1
     | (Received (Reply_Get (Ok None)), st1) \<Rightarrow> deny (str_lit ''credential-unknown'') s st1
     | (Empty, st1) \<Rightarrow> (Ok (), s, st1)
     | (_, st1) \<Rightarrow> (Err STATUS_IO, s\<lparr>pn_auth := Waiting\<rparr>, st1))
   | User_Lookup user_id token \<Rightarrow> (case receive_write token st of
       (Received (Reply_Get (Ok (Some value))), st1) \<Rightarrow> check_user env px user_id value s st1
     | (Received (Reply_Get (Ok None)), st1) \<Rightarrow> deny (str_lit ''user-unknown'') s st1
     | (Empty, st1) \<Rightarrow> (Ok (), s, st1)
     | (_, st1) \<Rightarrow> (Err STATUS_IO, s\<lparr>pn_auth := Waiting\<rparr>, st1))
   | Clock_Update user token \<Rightarrow> (case receive_write token st of
       (Received (Reply_Write (Ok u)), st1) \<Rightarrow> finish_authentication env user (s\<lparr>pn_auth := Waiting\<rparr>) st1
     | (Empty, st1) \<Rightarrow> (Ok (), s, st1)
     | (_, st1) \<Rightarrow> (Err STATUS_IO, s\<lparr>pn_auth := Waiting\<rparr>, st1))
   | _ \<Rightarrow> (Ok (), s, st))"

section \<open>Polling a session\<close>

fun handle_messages ::
  "session_env \<Rightarrow> policy_codec \<Rightarrow> str list \<Rightarrow> policy_session \<Rightarrow> ('d, 'b, 'p) policy_state \<Rightarrow> ('d, 'b, 'p) session_result" where
  "handle_messages env px [] s st = (Ok (), s, st)"
| "handle_messages env px (m # ms) s st =
     (case (case pn_role s of
              Server \<Rightarrow> handle_client_request env px m s st
            | Client \<Rightarrow> (case handle_server_status env m s of (r, s1) \<Rightarrow> (r, s1, st))) of
        (Err e, s1, st1) \<Rightarrow> (Err e, s1, st1)
      | (Ok u, s1, st1) \<Rightarrow> handle_messages env px ms s1 st1)"

definition send_snapshot ::
  "session_env \<Rightarrow> policy_session \<Rightarrow> ('d, 'b, 'p) policy_state \<Rightarrow> ('d, 'b, 'p) session_result" where
  "send_snapshot env s st = (case pn_auth s of
     Authenticated user_id \<Rightarrow>
       if pn_subscribed s \<and> uint (op_status_interval_ms (ps_options st)) * 1000000 \<le> se_now env - pn_last_status s
       then (case status_message env st user_id (str_lit ''ok'') of
               Err e \<Rightarrow> (Err e, s, st)
             | Ok text \<Rightarrow> (case on_channel (\<lambda>ch. replace_snapshot ch text) s of
                 (Err e, s1) \<Rightarrow> (Err e, s1, st)
               | (Ok u, s1) \<Rightarrow> (Ok (), s1\<lparr>pn_last_status := se_now env\<rparr>, st)))
       else (Ok (), s, st)
   | _ \<Rightarrow> (Ok (), s, st))"

text \<open>The messages that the poll of the channel delivers.\<close>

definition poll_messages :: "session_env \<Rightarrow> policy_session \<Rightarrow> (str list, status) result \<times> policy_session" where
  "poll_messages env s = (case channel_poll (pn_channel s) (se_read env) (se_write env) of
     (Ready (Ok messages), ch, out) \<Rightarrow> (Ok messages, s\<lparr>pn_channel := ch\<rparr>)
   | (Ready (Err e), ch, out) \<Rightarrow> (Err STATUS_IO, s\<lparr>pn_channel := ch\<rparr>)
   | (Pending, ch, out) \<Rightarrow> (Ok [], s\<lparr>pn_channel := ch\<rparr>))"

definition poll_policy_session ::
  "session_env \<Rightarrow> policy_codec \<Rightarrow> policy_session \<Rightarrow> ('d, 'b, 'p) policy_state \<Rightarrow> ('d, 'b, 'p) session_result" where
  "poll_policy_session env px s st = (case poll_messages env s of
     (Err e, s1) \<Rightarrow> (Err e, s1, st)
   | (Ok messages, s1) \<Rightarrow> (case handle_messages env px messages s1 st of
       (Err e, s2, st2) \<Rightarrow> (Err e, s2, st2)
     | (Ok u, s2, st2) \<Rightarrow> (case advance_authentication env px s2 st2 of
         (Err e, s3, st3) \<Rightarrow> (Err e, s3, st3)
       | (Ok u, s3, st3) \<Rightarrow> send_snapshot env s3 st3)))"

section \<open>What a session has seen\<close>

text \<open>The evidence of a poll: the requests its channel delivers and the replies of the storage
  worker that are available to it, with the time of the poll.\<close>

datatype auth_event = Saw_Request client_request | Saw_Reply u64 reply

definition request_events :: "session_env \<Rightarrow> str list \<Rightarrow> auth_event set" where
  "request_events env ms = {Saw_Request r | m r. m \<in> set ms \<and> client_request_parse (se_request env) m = Ok r}"

definition reply_events :: "session_env \<Rightarrow> ('d, 'b, 'p) policy_state \<Rightarrow> auth_event set" where
  "reply_events env st = (\<lambda>(token, r). Saw_Reply (se_now_utc env) r) ` set (sw_replies (ps_storage st))"

definition poll_events :: "session_env \<Rightarrow> policy_session \<Rightarrow> ('d, 'b, 'p) policy_state \<Rightarrow> auth_event set" where
  "poll_events env s st =
     (case poll_messages env s of (Ok ms, s1) \<Rightarrow> request_events env ms | _ \<Rightarrow> {}) \<union> reply_events env st"

text \<open>The polls of one server session while everything else in the instance may change at will: a poll
  that fails ends the session.\<close>

inductive auth_run :: "('d, 'b, 'p) policy_state itself \<Rightarrow> policy_codec \<Rightarrow> policy_session \<Rightarrow> auth_event set \<Rightarrow> bool"
  for ty :: "('d, 'b, 'p) policy_state itself" and px :: policy_codec where
  start: "pn_role s = Server \<Longrightarrow> pn_auth s = Waiting \<Longrightarrow> auth_run ty px s {}"
| poll: "auth_run ty px s seen \<Longrightarrow>
    poll_policy_session env px s (st :: ('d, 'b, 'p) policy_state) = (Ok u, s', st') \<Longrightarrow>
    auth_run ty px s' (seen \<union> poll_events env s st)"

text \<open>Justifications.\<close>

definition presented :: "policy_codec \<Rightarrow> auth_event set \<Rightarrow> str \<Rightarrow> bool" where
  "presented px seen digest \<longleftrightarrow> (\<exists>text credential. Saw_Request (Auth text) \<in> seen \<and> credential_parse_hex text = Ok credential \<and>
     digest = credential_digest_hex (credential_digest_id (px_sha256 px) credential))"

definition credential_seen :: "policy_codec \<Rightarrow> auth_event set \<Rightarrow> str \<Rightarrow> str \<Rightarrow> bool" where
  "credential_seen px seen digest user_id \<longleftrightarrow> (\<exists>now value c. Saw_Reply now (Reply_Get (Ok (Some value))) \<in> seen \<and>
     px_dec_credential px value = Some c \<and> cr_digest c = digest \<and> \<not> cr_revoked c \<and> cr_user_id c = user_id)"

definition user_seen :: "policy_codec \<Rightarrow> auth_event set \<Rightarrow> str \<Rightarrow> bool" where
  "user_seen px seen user_id \<longleftrightarrow> (\<exists>now value user. Saw_Reply now (Reply_Get (Ok (Some value))) \<in> seen \<and>
     decode_user_record (px_dec_user px) value = Ok user \<and> ur_id user = user_id \<and> user_available_at user now)"

fun justified :: "policy_codec \<Rightarrow> auth_event set \<Rightarrow> str option \<Rightarrow> auth_state \<Rightarrow> bool" where
  "justified px seen d Waiting = True"
| "justified px seen d (Credential_Lookup digest token) = (d = Some digest \<and> presented px seen digest)"
| "justified px seen d (User_Lookup user_id token) =
     (\<exists>digest. d = Some digest \<and> presented px seen digest \<and> credential_seen px seen digest user_id)"
| "justified px seen d (Clock_Update user token) =
     (\<exists>digest. d = Some digest \<and> presented px seen digest \<and> credential_seen px seen digest (ur_id user) \<and> user_seen px seen (ur_id user))"
| "justified px seen d (Authenticated user_id) =
     (\<exists>digest. d = Some digest \<and> presented px seen digest \<and> credential_seen px seen digest user_id \<and> user_seen px seen user_id)"

abbreviation session_ok :: "policy_codec \<Rightarrow> auth_event set \<Rightarrow> policy_session \<Rightarrow> bool" where
  "session_ok px seen s \<equiv> justified px seen (pn_credential_digest s) (pn_auth s)"

lemma seen_mono:
  "presented px seen d \<Longrightarrow> seen \<subseteq> seen' \<Longrightarrow> presented px seen' d"
  "credential_seen px seen d u \<Longrightarrow> seen \<subseteq> seen' \<Longrightarrow> credential_seen px seen' d u"
  "user_seen px seen u \<Longrightarrow> seen \<subseteq> seen' \<Longrightarrow> user_seen px seen' u"
  unfolding presented_def credential_seen_def user_seen_def by blast+

lemma justified_mono: "justified px seen d a \<Longrightarrow> seen \<subseteq> seen' \<Longrightarrow> justified px seen' d a"
  by (cases a) (auto intro: seen_mono)

lemma storage_get_replies: "storage_get w k = (r, w') \<Longrightarrow> sw_replies w' = sw_replies w"
  by (auto simp: storage_get_def guarded_send_def storage_send_def split: if_splits result.splits option.splits)

lemma with_get_replies:
  "with_storage (\<lambda>w. storage_get w k) st = (r, st') \<Longrightarrow> sw_replies (ps_storage st') = sw_replies (ps_storage st)"
  by (auto simp: with_storage_def dest: storage_get_replies split: prod.splits)

lemma on_channel_keeps:
  "on_channel call s = (r, s') \<Longrightarrow>
     pn_auth s' = pn_auth s \<and> pn_credential_digest s' = pn_credential_digest s \<and> pn_role s' = pn_role s"
  by (auto simp: on_channel_def split: prod.splits)

lemma poll_messages_keeps:
  "poll_messages env s = (r, s') \<Longrightarrow>
     pn_auth s' = pn_auth s \<and> pn_credential_digest s' = pn_credential_digest s \<and> pn_role s' = pn_role s"
  by (auto simp: poll_messages_def split: prod.splits poll.splits result.splits)

lemma send_snapshot_keeps:
  "send_snapshot env s st = (r, s', st') \<Longrightarrow>
     pn_auth s' = pn_auth s \<and> pn_credential_digest s' = pn_credential_digest s \<and> pn_role s' = pn_role s"
  by (auto simp: send_snapshot_def dest: on_channel_keeps split: auth_state.splits if_splits result.splits prod.splits)

text \<open>What one step of a session has to show: its role stays and its state is justified.\<close>

definition keeps :: "policy_codec \<Rightarrow> auth_event set \<Rightarrow> policy_session \<Rightarrow> ('d, 'b, 'p) session_result \<Rightarrow> bool" where
  "keeps px seen s r \<longleftrightarrow> (case r of (q, s', st') \<Rightarrow> pn_role s' = pn_role s \<and> session_ok px seen s')"

lemma keepsI: "pn_role s' = pn_role s \<Longrightarrow> session_ok px seen s' \<Longrightarrow> keeps px seen s (q, s', st')"
  by (simp add: keeps_def)

lemma handle_auth_keeps:
  assumes "session_ok px seen s" and "Saw_Request (Auth text) \<in> seen"
  shows "keeps px seen s (handle_auth px text s st)"
proof (cases "pn_auth s = Waiting")
  case False
  with assms(1) show ?thesis by (simp add: handle_auth_def keepsI)
next
  case w: True
  show ?thesis
  proof (cases "credential_parse_hex text")
    case (Err e)
    with w show ?thesis by (simp add: handle_auth_def keepsI)
  next
    case (Ok credential)
    let ?d = "credential_digest_hex (credential_digest_id (px_sha256 px) credential)"
    have "presented px seen ?d" using Ok assms(2) by (auto simp: presented_def)
    with w Ok show ?thesis
      by (auto simp: handle_auth_def Let_def intro!: keepsI split: prod.split result.split)
  qed
qed

lemma handle_client_request_keeps:
  assumes "session_ok px seen s" and "request_events env [input] \<subseteq> seen"
  shows "keeps px seen s (handle_client_request env px input s st)"
proof (cases "client_request_parse (se_request env) input")
  case (Err e)
  with assms(1) show ?thesis by (simp add: handle_client_request_def keepsI)
next
  case (Ok r)
  with assms(2) have seen: "Saw_Request r \<in> seen" by (auto simp: request_events_def)
  show ?thesis
  proof (cases r)
    case (Auth secret)
    with Ok seen assms(1) show ?thesis by (simp add: handle_client_request_def handle_auth_keeps)
  next
    case Status
    with Ok assms(1) show ?thesis
      by (auto simp: handle_client_request_def handle_status_request_def intro!: keepsI dest: on_channel_keeps
          split: auth_state.split result.split prod.split)
  next
    case Subscribe
    with Ok assms(1) show ?thesis
      by (auto simp: handle_client_request_def handle_subscribe_def intro!: keepsI dest: on_channel_keeps
          split: auth_state.split result.split prod.split)
  next
    case DisconnectSelf
    with Ok assms(1) show ?thesis by (simp add: handle_client_request_def keepsI)
  qed
qed

lemma handle_client_request_replies:
  "handle_client_request env px input s st = (r, s', st') \<Longrightarrow> sw_replies (ps_storage st') = sw_replies (ps_storage st)"
  by (auto simp: handle_client_request_def handle_auth_def handle_status_request_def handle_subscribe_def Let_def
      dest: with_get_replies
      split: result.splits client_request.splits if_splits auth_state.splits prod.splits)

lemma handle_messages_keeps:
  assumes "session_ok px seen s" and "pn_role s = Server" and "request_events env ms \<subseteq> seen"
    and "handle_messages env px ms s st = (r, s', st')"
  shows "pn_role s' = Server \<and> session_ok px seen s' \<and> sw_replies (ps_storage st') = sw_replies (ps_storage st)"
  using assms
proof (induction ms arbitrary: s st)
  case (Cons m ms)
  obtain q s1 st1 where h: "handle_client_request env px m s st = (q, s1, st1)" by (metis prod_cases3)
  have m: "request_events env [m] \<subseteq> seen" and rest: "request_events env ms \<subseteq> seen"
    using Cons.prems(3) by (auto simp: request_events_def)
  from handle_client_request_keeps [OF Cons.prems(1) m, of st] h Cons.prems(2)
  have s1: "pn_role s1 = Server" "session_ok px seen s1" by (simp_all add: keeps_def)
  note r1 = handle_client_request_replies [OF h]
  show ?case
  proof (cases q)
    case (Err e)
    with h Cons.prems(2,4) s1 r1 show ?thesis by simp
  next
    case (Ok u)
    with h Cons.prems(2,4) have "handle_messages env px ms s1 st1 = (r, s', st')" by simp
    from Cons.IH [OF s1(2,1) rest this] r1 show ?thesis by simp
  qed
qed simp

lemma deny_keeps: "keeps px seen s (deny reason s st)"
  by (auto simp: deny_def queue_denied_def intro!: keepsI dest: on_channel_keeps split: prod.split)

lemma finish_authentication_keeps:
  assumes "pn_credential_digest s = Some digest" and "presented px seen digest"
    and "credential_seen px seen digest (ur_id user)" and "user_seen px seen (ur_id user)"
  shows "keeps px seen s (finish_authentication env user (s\<lparr>pn_auth := a\<rparr>) st)"
  using assms by (auto simp: finish_authentication_def Let_def intro!: keepsI dest: on_channel_keeps
      split: result.split prod.split)

lemma check_credential_keeps:
  assumes "pn_credential_digest s = Some digest" and "presented px seen digest"
    and "Saw_Reply now (Reply_Get (Ok (Some value))) \<in> seen"
  shows "keeps px seen s (check_credential px digest value s st)"
proof (cases "px_dec_credential px value")
  case None
  then show ?thesis by (simp add: check_credential_def keepsI)
next
  case (Some c)
  show ?thesis
  proof (cases "cr_digest c \<noteq> digest \<or> cr_revoked c")
    case True
    with Some show ?thesis by (simp add: check_credential_def deny_keeps)
  next
    case False
    with Some assms(3) have "credential_seen px seen digest (cr_user_id c)"
      unfolding credential_seen_def by blast
    with assms Some False show ?thesis
      by (auto simp: check_credential_def intro!: keepsI split: result.split prod.split)
  qed
qed

lemma check_user_keeps:
  assumes "pn_credential_digest s = Some digest" and "presented px seen digest"
    and cred: "credential_seen px seen digest user_id"
    and "Saw_Reply (se_now_utc env) (Reply_Get (Ok (Some value))) \<in> seen"
  shows "keeps px seen s (check_user env px user_id value s st)"
proof (cases "decode_user_record (px_dec_user px) value")
  case (Err e)
  then show ?thesis by (simp add: check_user_def keepsI)
next
  case (Ok user)
  show ?thesis
  proof (cases "ur_id user \<noteq> user_id \<or> \<not> user_available_at user (se_now_utc env) \<or> session_limit_reached st user")
    case True
    with Ok show ?thesis by (auto simp: check_user_def Let_def deny_keeps)
  next
    case False
    with Ok assms(4) have u: "user_seen px seen user_id" unfolding user_seen_def by blast
    show ?thesis
    proof (cases "ur_max_observed_utc user < se_now_utc env")
      case late: True
      with Ok False u assms show ?thesis
        by (auto simp: check_user_def Let_def intro!: keepsI split: result.split prod.split)
    next
      case nlate: False
      with Ok False u assms finish_authentication_keeps [OF assms(1,2), of user env] show ?thesis
        by (simp add: check_user_def Let_def)
    qed
  qed
qed

lemma receive_events:
  "receive_write token st = (Received r, st') \<Longrightarrow> Saw_Reply (se_now_utc env) r \<in> reply_events env st"
  by (auto simp: receive_write_def try_recv_def reply_events_def image_iff split: prod.splits option.splits if_splits
      dest!: map_of_SomeD)

lemma advance_authentication_keeps:
  assumes "session_ok px seen s" and "reply_events env st \<subseteq> seen"
  shows "keeps px seen s (advance_authentication env px s st)"
proof -
  note ev = subsetD [OF assms(2) receive_events]
  show ?thesis
  proof (cases "pn_auth s")
    case Waiting
    with assms(1) show ?thesis by (simp add: advance_authentication_def keepsI)
  next
    case (Authenticated u)
    with assms(1) show ?thesis by (simp add: advance_authentication_def keepsI)
  next
    case (Credential_Lookup digest token)
    obtain r st1 where r: "receive_write token st = (r, st1)" by force
    with Credential_Lookup assms(1) show ?thesis
      by (auto simp: advance_authentication_def deny_keeps intro!: keepsI check_credential_keeps ev
          split: recv.split reply.split result.split option.split)
  next
    case (User_Lookup user_id token)
    obtain r st1 where r: "receive_write token st = (r, st1)" by force
    with User_Lookup assms(1) show ?thesis
      by (auto simp: advance_authentication_def deny_keeps intro!: keepsI check_user_keeps ev
          split: recv.split reply.split result.split option.split)
  next
    case (Clock_Update user token)
    obtain r st1 where r: "receive_write token st = (r, st1)" by force
    with Clock_Update assms(1) show ?thesis
      by (auto simp: advance_authentication_def intro!: keepsI finish_authentication_keeps
          split: recv.split reply.split result.split option.split)
  qed
qed

lemma poll_policy_session_keeps:
  assumes ok: "session_ok px seen s" and server: "pn_role s = Server"
    and run: "poll_policy_session env px s st = (Ok u, s', st')"
  shows "pn_role s' = Server \<and> session_ok px (seen \<union> poll_events env s st) s'"
proof -
  let ?seen = "seen \<union> poll_events env s st"
  obtain q s1 where m: "poll_messages env s = (q, s1)" by force
  from run m obtain ms where q: "q = Ok ms" by (cases q) (simp_all add: poll_policy_session_def)
  from m q have req: "request_events env ms \<subseteq> ?seen" and rep: "reply_events env st \<subseteq> ?seen"
    by (auto simp: poll_events_def)
  have s1: "session_ok px ?seen s1" "pn_role s1 = Server"
    using poll_messages_keeps [OF m] server justified_mono [OF ok, of ?seen] by simp_all
  obtain r2 s2 st2 where h: "handle_messages env px ms s1 st = (r2, s2, st2)" by (metis prod_cases3)
  from run m q h obtain v where r2: "r2 = Ok v" by (cases r2) (simp_all add: poll_policy_session_def)
  note k2 = handle_messages_keeps [OF s1 req h]
  then have rep2: "reply_events env st2 \<subseteq> ?seen" using rep by (simp add: reply_events_def)
  obtain r3 s3 st3 where a: "advance_authentication env px s2 st2 = (r3, s3, st3)" by (metis prod_cases3)
  from run m q h r2 a obtain v3 where r3: "r3 = Ok v3" by (cases r3) (simp_all add: poll_policy_session_def)
  from advance_authentication_keeps [OF _ rep2, of px s2] k2 a
  have k3: "pn_role s3 = Server" "session_ok px ?seen s3" by (simp_all add: keeps_def)
  from run m q h r2 a r3 have "send_snapshot env s3 st3 = (Ok u, s', st')" by (simp add: poll_policy_session_def)
  from send_snapshot_keeps [OF this] k3 show ?thesis by simp
qed

lemma auth_run_ok: "auth_run ty px s seen \<Longrightarrow> pn_role s = Server \<and> session_ok px seen s"
  by (induction rule: auth_run.induct) (auto dest: poll_policy_session_keeps)

section \<open>Properties\<close>

text \<open>C10. Nobody gets in without a stored credential. Whatever the client sends, however its bytes
  arrive, and whatever else the instance does meanwhile, a server session that counts as
  authenticated for a user has been shown a credential whose digest it remembers, storage has
  returned an unrevoked record of that digest for that user, and storage has returned the record of
  that user, who was available at that time.\<close>

theorem authenticated_by_stored_credential:
  assumes "auth_run TYPE(('d, 'b, 'p) policy_state) px s seen" and "pn_auth s = Authenticated user_id"
  shows "\<exists>digest. pn_credential_digest s = Some digest \<and> presented px seen digest \<and>
    credential_seen px seen digest user_id \<and> user_seen px seen user_id"
  using auth_run_ok [OF assms(1)] assms(2) by simp

definition example_member :: user_record where
  "example_member = example_user\<lparr>ur_id := str_lit ''u'', ur_spec := (ur_spec example_user)\<lparr>us_weekly_access := Weekly_Unlimited\<rparr>\<rparr>"

definition example_auth_codec :: policy_codec where
  "example_auth_codec = \<lparr>px_enc_user = \<lambda>_. Some [2], px_dec_user = \<lambda>b. if b = [2] then Some (stored_user example_member) else None,
     px_enc_credential = \<lambda>_. Some [1], px_dec_credential = \<lambda>b. if b = [1] then Some \<lparr>cr_digest = str_lit ''01'',
       cr_user_id = str_lit ''u'', cr_revoked = False, cr_revision = 1\<rparr> else None,
     px_enc_receipt = \<lambda>_. None, px_dec_receipt = \<lambda>_. None, px_sha256 = \<lambda>_. [1]\<rparr>"

definition example_session :: policy_session where
  "example_session = \<lparr>pn_channel = \<lparr>sc_decoder = \<lparr>fd_buffer = [], fd_expected = None, fd_limit = 1024\<rparr>, sc_responses = [],
     sc_snapshot = None, sc_writing = None, sc_write_offset = 0, sc_frame_limit = 1024, sc_eof = False\<rparr>,
     pn_role = Server, pn_auth = Waiting, pn_subscribed = False, pn_last_status = 0, pn_credential_digest = None,
     pn_pending_flows = []\<rparr>"

definition example_env :: "io_read \<Rightarrow> session_env" where
  "example_env r = \<lparr>se_request = \<lambda>m. if m = [97] then Some (Auth (replicate 64 48)) else None, se_status = \<lambda>_. Some [98],
     se_reply = \<lambda>_. None, se_now = 0, se_now_utc = 5, se_read = r, se_write = \<lambda>bs. Write_Count (length bs)\<rparr>"

definition example_replies :: "(nat \<times> reply) list \<Rightarrow> ((str \<times> bytes) list, unit, unit) policy_state" where
  "example_replies rs = example_state\<lparr>ps_storage := example_worker\<lparr>sw_next_token := 1 + length rs, sw_replies := rs\<rparr>, ps_sessions := []\<rparr>"

text \<open>Three polls: the request arrives, the credential arrives, the user arrives.\<close>

definition example_polls :: "(session_env \<times> ((str \<times> bytes) list, unit, unit) policy_state) list" where
  "example_polls = [(example_env (Read_Data [0, 0, 0, 1, 97]), example_replies []),
     (example_env Read_Pending, example_replies [(1, Reply_Get (Ok (Some [1])))]),
     (example_env Read_Pending, example_replies [(2, Reply_Get (Ok (Some [2])))])]"

fun run_polls :: "policy_codec \<Rightarrow> policy_session \<Rightarrow> (session_env \<times> ('d, 'b, 'p) policy_state) list \<Rightarrow> policy_session option" where
  "run_polls px s [] = Some s"
| "run_polls px s ((env, st) # rest) = (case poll_policy_session env px s st of
     (Ok u, s', st') \<Rightarrow> run_polls px s' rest | _ \<Rightarrow> None)"

lemma run_polls_auth_run:
  fixes polls :: "(session_env \<times> ('d, 'b, 'p) policy_state) list"
  shows "run_polls px s polls = Some s' \<Longrightarrow> auth_run TYPE(('d, 'b, 'p) policy_state) px s seen \<Longrightarrow>
    \<exists>seen'. auth_run TYPE(('d, 'b, 'p) policy_state) px s' seen'"
proof (induction polls arbitrary: s seen)
  case (Cons p polls)
  obtain env st where p: "p = (env, st)" by force
  obtain r s1 st1 where r: "poll_policy_session env px s st = (r, s1, st1)" by (metis prod_cases3)
  with Cons.prems(1) p obtain u where "r = Ok u" by (cases r) simp_all
  with Cons r p auth_run.poll [OF Cons.prems(2), of env st u s1 st1] show ?case by auto
qed auto

lemma example_push:
  "push \<lparr>fd_buffer = [], fd_expected = None, fd_limit = 1024\<rparr> [0, 0, 0, 1, 97] =
     (Ok [[97]], \<lparr>fd_buffer = [], fd_expected = None, fd_limit = 1024\<rparr>)"
  by (simp add: push_def push_byte_def read_header_def usize_saturating_add_def usize_max_def be_value_def Let_def) code_simp

lemma example_messages:
  "poll_messages (example_env (Read_Data [0, 0, 0, 1, 97])) example_session = (Ok [[97]], example_session)"
  "pn_channel s = pn_channel example_session \<Longrightarrow> poll_messages (example_env Read_Pending) s = (Ok [], s)"
  by (simp_all add: poll_messages_def channel_poll_def channel_read_def channel_next_def channel_write_def Let_def
      example_session_def example_env_def example_push)

lemma example_credential: "credential_parse_hex (replicate 64 48) = Ok (replicate 32 0)"
  by code_simp

lemma example_digest: "credential_digest_hex [1] = str_lit ''01''"
  by code_simp

lemma example_available: "user_available_at example_member 5"
  by (simp add: user_available_at_def user_access_allowed_at_def quota_used_up_def example_member_def example_user_def Let_def)

lemma example_decoded: "decode_user_record (px_dec_user example_auth_codec) [2] = Ok example_member"
  by (simp add: decode_user_record_def example_auth_codec_def runtime_stored_user example_member_def)

lemma example_keys: "validate_key (credential_key (str_lit ''01'')) = Ok ()" "validate_key (user_key (str_lit ''u'')) = Ok ()"
  by code_simp+

abbreviation example_looking :: "nat \<Rightarrow> policy_session" where
  "example_looking token \<equiv> example_session\<lparr>pn_credential_digest := Some (str_lit ''01''), pn_auth := Credential_Lookup (str_lit ''01'') token\<rparr>"

abbreviation example_found :: "nat \<Rightarrow> policy_session" where
  "example_found token \<equiv> example_session\<lparr>pn_credential_digest := Some (str_lit ''01''), pn_auth := User_Lookup (str_lit ''u'') token\<rparr>"

lemma example_session_fields:
  "pn_role example_session = Server" "pn_auth example_session = Waiting" "pn_subscribed example_session = False"
  "pn_pending_flows example_session = []"
  by (simp_all add: example_session_def)

lemma example_poll_1:
  fixes st :: "('d, 'b, 'p) policy_state"
  assumes "storage_get (ps_storage st) (credential_key (str_lit ''01'')) = (Ok token, w)" and "try_recv w token = (Empty, w)"
  shows "poll_policy_session (example_env (Read_Data [0, 0, 0, 1, 97])) example_auth_codec example_session st =
     (Ok (), example_looking token, st\<lparr>ps_storage := w\<rparr>)"
proof -
  have "client_request_parse (se_request (example_env r)) [97] = Ok (Auth (replicate 64 48))" for r by code_simp
  then have "handle_client_request (example_env r) example_auth_codec [97] example_session st' = handle_auth example_auth_codec (replicate 64 48) example_session st'" for r and st' :: "('d, 'b, 'p) policy_state"
    by (simp add: handle_client_request_def)
  then show ?thesis using assms
    by (simp add: poll_policy_session_def example_messages example_session_fields handle_auth_def example_credential
        credential_digest_id_def example_auth_codec_def example_digest with_storage_def Let_def
        advance_authentication_def receive_write_def send_snapshot_def)
qed

lemma example_poll_2:
  assumes "try_recv (ps_storage st) token = (Received (Reply_Get (Ok (Some [1]))), w)"
    and "storage_get w (user_key (str_lit ''u'')) = (Ok token', w')"
  shows "poll_policy_session (example_env Read_Pending) example_auth_codec (example_looking token) st =
     (Ok (), example_found token', st\<lparr>ps_storage := w'\<rparr>)"
  using assms by (simp add: poll_policy_session_def example_messages example_session_fields example_auth_codec_def
      with_storage_def check_credential_def advance_authentication_def receive_write_def send_snapshot_def)

lemma example_poll_3:
  assumes "try_recv (ps_storage st) token = (Received (Reply_Get (Ok (Some [2]))), w)" and "ps_sessions st = []"
  shows "\<exists>s. poll_policy_session (example_env Read_Pending) example_auth_codec (example_found token) st =
     (Ok (), s, st\<lparr>ps_storage := w, ps_admin := (ps_admin st)\<lparr>ad_loaded_users := insert (str_lit ''u'') (ad_loaded_users (ps_admin st)),
        ad_users := hm_insert (str_lit ''u'') example_member (ad_users (ps_admin st))\<rparr>\<rparr>) \<and>
     pn_auth s = Authenticated (str_lit ''u'') \<and> pn_role s = Server \<and> pn_credential_digest s = Some (str_lit ''01'') \<and> pn_pending_flows s = []"
proof -
  let ?st = "st\<lparr>ps_storage := w\<rparr>"
  have q: "\<exists>s'. on_channel (\<lambda>ch. queue_response ch [98]) (example_found token\<lparr>pn_auth := a\<rparr>) = (Ok (), s') \<and> pn_auth s' = a \<and> \<not> pn_subscribed s' \<and>
      pn_role s' = Server \<and> pn_credential_digest s' = Some (str_lit ''01'') \<and> pn_pending_flows s' = []" for a
    by (simp add: on_channel_def queue_response_def queue_frame_def encode_frame_def example_session_def response_queue_limit_def)
  obtain s' where s': "on_channel (\<lambda>ch. queue_response ch [98]) (example_found token\<lparr>pn_auth := Authenticated (str_lit ''u'')\<rparr>) = (Ok (), s')"
    "pn_auth s' = Authenticated (str_lit ''u'')" "\<not> pn_subscribed s'" "pn_role s' = Server" "pn_credential_digest s' = Some (str_lit ''01'')"
    "pn_pending_flows s' = []" using q by blast
  have m: "ur_id example_member = str_lit ''u''" "ur_max_observed_utc example_member = 1700000000"
    by (simp_all add: example_member_def example_user_def)
  let ?st' = "st\<lparr>ps_storage := w, ps_admin := (ps_admin st)\<lparr>ad_loaded_users := insert (str_lit ''u'') (ad_loaded_users (ps_admin st)),
        ad_users := hm_insert (str_lit ''u'') example_member (ad_users (ps_admin st))\<rparr>\<rparr>"
  have "finish_authentication (example_env Read_Pending) example_member (example_found token\<lparr>pn_auth := Waiting\<rparr>) ?st = (Ok (), s', ?st')"
    using s' by (simp add: finish_authentication_def m status_message_def example_env_def Let_def)
  moreover have "\<not> session_limit_reached ?st example_member"
    by (simp add: session_limit_reached_def assms(2) example_member_def example_user_def)
  ultimately have "check_user (example_env Read_Pending) example_auth_codec (str_lit ''u'') [2] (example_found token) ?st = (Ok (), s', ?st')"
    by (simp add: check_user_def example_decoded m example_env_def Let_def example_available)
  with assms(1) have "advance_authentication (example_env Read_Pending) example_auth_codec (example_found token) st = (Ok (), s', ?st')"
    by (simp add: advance_authentication_def receive_write_def)
  then show ?thesis using s'(2-)
    by (auto simp: poll_policy_session_def example_messages send_snapshot_def)
qed

lemma example_run:
  "\<exists>s. run_polls example_auth_codec example_session example_polls = Some s \<and> pn_auth s = Authenticated (str_lit ''u'')"
proof -
  have g1: "storage_get (ps_storage (example_replies [])) (credential_key (str_lit ''01'')) = (Ok 1, example_worker\<lparr>sw_next_token := 2,
      sw_queue := [(1, Get (credential_key (str_lit ''01'')))]\<rparr>)"
    by (simp add: storage_get_def guarded_send_def example_keys storage_send_def example_replies_def example_worker_def)
  have e1: "try_recv (example_worker\<lparr>sw_next_token := 2, sw_queue := [(1, Get (credential_key (str_lit ''01'')))]\<rparr>) 1 =
      (Empty, example_worker\<lparr>sw_next_token := 2, sw_queue := [(1, Get (credential_key (str_lit ''01'')))]\<rparr>)"
    by (simp add: try_recv_def example_worker_def)
  have r: "try_recv (ps_storage (example_replies [(n, v)])) n = (Received v, example_worker\<lparr>sw_next_token := 2\<rparr>)" for n v
    by (simp add: try_recv_def example_replies_def example_worker_def)
  have g2: "storage_get (example_worker\<lparr>sw_next_token := 2\<rparr>) (user_key (str_lit ''u'')) = (Ok 2, example_worker\<lparr>sw_next_token := 3,
      sw_queue := [(2, Get (user_key (str_lit ''u'')))]\<rparr>)"
    by (simp add: storage_get_def guarded_send_def example_keys storage_send_def example_worker_def)
  have s: "ps_sessions (example_replies rs) = []" for rs by (simp add: example_replies_def)
  from example_poll_3 [OF r s, of 2] show ?thesis
    by (auto simp: example_polls_def example_poll_1 [OF g1 e1] example_poll_2 [OF r g2])
qed


theorem authenticated_by_stored_credential_witness:
  "\<exists>(s :: policy_session) seen digest. pn_auth s = Authenticated (str_lit ''u'') \<and> pn_credential_digest s = Some digest \<and>
     presented example_auth_codec seen digest \<and> credential_seen example_auth_codec seen digest (str_lit ''u'')"
proof -
  from example_run obtain s where s: "run_polls example_auth_codec example_session example_polls = Some s"
    and a: "pn_auth s = Authenticated (str_lit ''u'')" by auto
  have "auth_run TYPE(((str \<times> bytes) list, unit, unit) policy_state) example_auth_codec example_session {}"
    by (rule auth_run.start) (simp_all add: example_session_def)
  from run_polls_auth_run [OF s this] obtain seen
    where "auth_run TYPE(((str \<times> bytes) list, unit, unit) policy_state) example_auth_codec s seen" by blast
  from authenticated_by_stored_credential [OF this a] a show ?thesis by blast
qed

end
