(* ===== verification/Admin_Control.thy ===== *)
theory Admin_Control
  imports Session_Auth
begin

text \<open>
  Control requests of an administrator (\<^verbatim>\<open>policy-local/src/lib.rs\<close>, \<open>control_instance\<close> and what it calls).
  A request first reads the records it needs, is then prepared against the state in memory, written
  to storage in one transaction together with its receipt, and applied in memory once the write has
  been acknowledged. TOML, the random source and the clock are in \<open>admin_env\<close>. The user evicted from
  the cache is the first of the map.
\<close>

record mutation_response =
  mr_status :: str
  mr_revision :: u64
  mr_user_id :: "str option"

record usage_response =
  ug_status :: str
  ug_user_id :: str
  ug_revision :: u64
  ug_used_bytes :: u64
  ug_limit_bytes :: "u64 option"
  ug_upload_bytes :: u64
  ug_download_bytes :: u64

record sessions_response =
  sn_status :: str
  sn_sessions :: "u64 list"

record backup_response =
  bk_status :: str
  bk_destination :: str

record admin_env =
  ae_request :: "str \<Rightarrow> control_request option"
  ae_rules :: "str \<Rightarrow> rules option"
  ae_mutation :: "mutation_response \<Rightarrow> bytes option"
  ae_usage :: "usage_response \<Rightarrow> bytes option"
  ae_sessions :: "sessions_response \<Rightarrow> bytes option"
  ae_backup :: "backup_response \<Rightarrow> bytes option"
  ae_random :: "bytes option"
  ae_now_utc :: u64

definition encode_response :: "('r \<Rightarrow> bytes option) \<Rightarrow> 'r \<Rightarrow> (bytes, status) result" where
  "encode_response toml response = ok_or (toml response) STATUS_INTERNAL"

section \<open>Reading\<close>

fun request_user :: "control_request \<Rightarrow> str option" where
  "request_user (UserUpdate _ _ user_id _ _) = Some user_id"
| "request_user (UserDisable _ _ user_id _) = Some user_id"
| "request_user (UserDelete _ _ user_id _) = Some user_id"
| "request_user (CredentialAdd _ _ user_id _) = Some user_id"
| "request_user (QuotaAdd _ _ user_id _) = Some user_id"
| "request_user (QuotaNewPeriod _ _ user_id _) = Some user_id"
| "request_user (UsageGet user_id) = Some user_id"
| "request_user (SessionsList user_id) = user_id"
| "request_user _ = None"

fun request_digest :: "control_request \<Rightarrow> str option" where
  "request_digest (CredentialAdd _ _ _ digest) = Some digest"
| "request_digest (CredentialRevoke _ _ digest) = Some digest"
| "request_digest _ = None"

definition required_admin_read :: "('d, 'b, 'p) policy_state \<Rightarrow> control_request \<Rightarrow> (str \<times> read_kind) option" where
  "required_admin_read st request =
     (let user = (case request_user request of
            Some u \<Rightarrow> if u \<in> ad_loaded_users (ps_admin st) then None else Some (user_key u, Read_User u)
          | None \<Rightarrow> None)
      in case user of
           Some r \<Rightarrow> Some r
         | None \<Rightarrow> (case request_digest request of
             Some d \<Rightarrow> if d \<in> ad_loaded_credentials (ps_admin st) then None else Some (credential_key d, Read_Credential d)
           | None \<Rightarrow> None))"

definition evict_user :: "admin_state \<Rightarrow> admin_state" where
  "evict_user a = (case ad_users a of
     [] \<Rightarrow> a
   | (evicted, u) # _ \<Rightarrow> a\<lparr>ad_users := hm_remove evicted (ad_users a), ad_loaded_users := ad_loaded_users a - {evicted}\<rparr>)"

definition load_user :: "policy_codec \<Rightarrow> nat \<Rightarrow> str \<Rightarrow> bytes option \<Rightarrow> admin_state \<Rightarrow> (unit, status) result \<times> admin_state" where
  "load_user px max_cached user_id value a =
     (let a1 = a\<lparr>ad_loaded_users := insert user_id (ad_loaded_users a)\<rparr> in
      case value of
        None \<Rightarrow> (Ok (), a1)
      | Some bs \<Rightarrow> (case decode_user_record (px_dec_user px) bs of
          Err e \<Rightarrow> (Err STATUS_IO, a1)
        | Ok user \<Rightarrow>
            if ur_id user \<noteq> user_id then (Err STATUS_IO, a1)
            else let a2 = (if max_cached \<le> hm_len (ad_users a1) then evict_user a1 else a1)
                 in (Ok (), a2\<lparr>ad_users := hm_insert user_id user (ad_users a2)\<rparr>)))"

definition load_credential :: "policy_codec \<Rightarrow> str \<Rightarrow> bytes option \<Rightarrow> admin_state \<Rightarrow> (unit, status) result \<times> admin_state" where
  "load_credential px digest value a =
     (let a1 = a\<lparr>ad_loaded_credentials := insert digest (ad_loaded_credentials a)\<rparr> in
      case value of
        None \<Rightarrow> (Ok (), a1)
      | Some bs \<Rightarrow> (case px_dec_credential px bs of
          None \<Rightarrow> (Err STATUS_IO, a1)
        | Some c \<Rightarrow>
            if cr_digest c \<noteq> digest then (Err STATUS_IO, a1)
            else (Ok (), a1\<lparr>ad_credentials := hm_insert digest c (ad_credentials a1)\<rparr>)))"

definition finish_admin_read ::
  "policy_codec \<Rightarrow> read_kind \<Rightarrow> bytes option \<Rightarrow> ('d, 'b, 'p) policy_state \<Rightarrow> (unit, status) result \<times> ('d, 'b, 'p) policy_state" where
  "finish_admin_read px kind value st =
     (case (case kind of
              Read_User u \<Rightarrow> load_user px (op_max_cached_users (ps_options st)) u value (ps_admin st)
            | Read_Credential d \<Rightarrow> load_credential px d value (ps_admin st)) of
        (r, a) \<Rightarrow> (r, st\<lparr>ps_admin := a\<rparr>))"

definition read_admin_state :: "admin_env \<Rightarrow> ('d, 'b, 'p) policy_state \<Rightarrow> control_request \<Rightarrow> (bytes, status) result" where
  "read_admin_state env st request = (case request of
     UsageGet user_id \<Rightarrow>
       try_bind (ok_or (hm_get (ps_users st) user_id) STATUS_INVALID) (\<lambda>user.
         encode_response (ae_usage env)
           \<lparr>ug_status = str_lit ''ok'', ug_user_id = ur_id user, ug_revision = ur_revision user,
            ug_used_bytes = ur_durable_charged_bytes user, ug_limit_bytes = quota_limit user,
            ug_upload_bytes = ur_upload_bytes user, ug_download_bytes = ur_download_bytes user\<rparr>)
   | SessionsList user_id \<Rightarrow>
       encode_response (ae_sessions env) \<lparr>sn_status = str_lit ''ok'', sn_sessions = List.map_filter (\<lambda>(h, s). case pn_auth s of
           Authenticated u \<Rightarrow> if (case user_id of None \<Rightarrow> True | Some requested \<Rightarrow> requested = u) then Some h else None
         | _ \<Rightarrow> None) (ps_sessions st)\<rparr>
   | _ \<Rightarrow> Err STATUS_INVALID)"

section \<open>Preparing\<close>

text \<open>What a request asks for: the user and revision of its response, the change in memory, the
  changes in storage.\<close>

type_synonym prepared_change = "(str option \<times> u64) \<times> admin_mutation \<times> change list"

definition next_revision :: "u64 \<Rightarrow> (u64, status) result" where
  "next_revision revision = ok_or (checked_add revision 1) STATUS_RESOURCE"

definition checked_user :: "('d, 'b, 'p) policy_state \<Rightarrow> str \<Rightarrow> u64 \<Rightarrow> (user_record, status) result" where
  "checked_user st user_id expected_revision =
     try_bind (ok_or (hm_get (ps_users st) user_id) STATUS_INVALID) (\<lambda>user.
       if ur_revision user \<noteq> expected_revision then Err STATUS_DENIED else Ok user)"

definition put_user ::
  "policy_codec \<Rightarrow> user_record \<Rightarrow> admin_mutation \<times> change list \<Rightarrow> (admin_mutation \<times> change list, status) result" where
  "put_user px user = (\<lambda>(m, changes).
     try_bind (map_err admin_status (encode_user_record (px_enc_user px) user)) (\<lambda>value.
       Ok (m\<lparr>am_users := am_users m @ [(ur_id user, Some user)]\<rparr>, changes @ [(user_key (ur_id user), Some value)])))"

text \<open>A changed record of an existing user, with the next revision.\<close>

definition change_user :: "policy_codec \<Rightarrow> str \<Rightarrow> user_record \<Rightarrow> (prepared_change, status) result" where
  "change_user px user_id user =
     try_bind (next_revision (ur_revision user)) (\<lambda>revision.
     try_bind (put_user px (user\<lparr>ur_revision := revision\<rparr>) (mutation_default, [])) (\<lambda>(m, changes).
       Ok ((Some user_id, revision), m, changes)))"

definition new_user :: "admin_env \<Rightarrow> str \<Rightarrow> user_spec \<Rightarrow> user_record" where
  "new_user env uid spec = \<lparr>ur_id = uid, ur_spec = spec, ur_revision = 1, ur_durable_charged_bytes = 0,
     ur_upload_bytes = 0, ur_download_bytes = 0, ur_max_observed_utc = ae_now_utc env\<rparr>"

definition delete_user :: "('d, 'b, 'p) policy_state \<Rightarrow> user_record \<Rightarrow> str \<Rightarrow> (prepared_change, status) result" where
  "delete_user st user user_id =
     try_bind (next_revision (ur_revision user)) (\<lambda>revision.
       let digests = map fst (filter (\<lambda>(d, c). cr_user_id c = user_id) (ad_credentials (ps_admin st)))
       in Ok ((Some user_id, revision),
          mutation_default\<lparr>am_users := [(user_id, None)], am_credentials := map (\<lambda>d. (d, None)) digests\<rparr>,
          (user_key user_id, None) # map (\<lambda>d. (credential_key d, None)) digests))"

definition add_credential ::
  "policy_codec \<Rightarrow> ('d, 'b, 'p) policy_state \<Rightarrow> str \<Rightarrow> str \<Rightarrow> (prepared_change, status) result" where
  "add_credential px st user_id digest =
     try_bind (ok_or (hm_get (ps_users st) user_id) STATUS_INVALID) (\<lambda>user.
     try_bind (next_revision (ur_revision user)) (\<lambda>revision.
       case hm_get (ad_credentials (ps_admin st)) digest of
         Some existing \<Rightarrow>
           if cr_user_id existing \<noteq> user_id \<or> cr_revoked existing then Err STATUS_DENIED
           else Ok ((Some user_id, revision), mutation_default, [])
       | None \<Rightarrow>
           let c = \<lparr>cr_digest = digest, cr_user_id = user_id, cr_revoked = False, cr_revision = revision\<rparr>
           in try_bind (ok_or (px_enc_credential px c) STATUS_INTERNAL) (\<lambda>value.
                Ok ((Some user_id, revision), mutation_default\<lparr>am_credentials := [(digest, Some c)]\<rparr>,
                  [(credential_key digest, Some value)]))))"

definition revoke_credential ::
  "policy_codec \<Rightarrow> ('d, 'b, 'p) policy_state \<Rightarrow> str \<Rightarrow> (prepared_change, status) result" where
  "revoke_credential px st digest =
     try_bind (ok_or (hm_get (ad_credentials (ps_admin st)) digest) STATUS_INVALID) (\<lambda>c.
     try_bind (next_revision (cr_revision c)) (\<lambda>revision.
       let c1 = c\<lparr>cr_revoked := True, cr_revision := revision\<rparr>
       in try_bind (ok_or (px_enc_credential px c1) STATUS_INTERNAL) (\<lambda>value.
            Ok ((Some (cr_user_id c), revision), mutation_default\<lparr>am_credentials := [(digest, Some c1)]\<rparr>,
              [(credential_key digest, Some value)]))))"

definition rules_key :: "str \<Rightarrow> str" where
  "rules_key profile = str_lit ''meta/rules/'' @ profile"

definition replace_rules :: "admin_env \<Rightarrow> str \<Rightarrow> rule_apply \<Rightarrow> str \<Rightarrow> (prepared_change, status) result" where
  "replace_rules env profile apply rules_toml =
     try_bind (ok_or (ae_rules env rules_toml) STATUS_INVALID) (\<lambda>r.
     try_bind (map_err (\<lambda>_. STATUS_INVALID) (rules_validate r)) (\<lambda>_.
       Ok ((None, 0), mutation_default\<lparr>am_rules := [(profile, rules_toml)],
           am_active_rule_profiles := (if apply = Apply_Active then [profile] else [])\<rparr>,
         [(rules_key profile, Some rules_toml)])))"

definition quota_add :: "user_record \<Rightarrow> u64 \<Rightarrow> (user_record, status) result" where
  "quota_add user bytes = (case us_quota (ur_spec user) of
     Bytes_Unlimited \<Rightarrow> Err STATUS_INVALID
   | Bytes_Limited limit \<Rightarrow> try_bind (ok_or (checked_add limit bytes) STATUS_RESOURCE) (\<lambda>n.
       Ok (user\<lparr>ur_spec := (ur_spec user)\<lparr>us_quota := Bytes_Limited n\<rparr>\<rparr>)))"

fun prepare_change ::
  "admin_env \<Rightarrow> policy_codec \<Rightarrow> ('d, 'b, 'p) policy_state \<Rightarrow> control_request \<Rightarrow> (prepared_change, status) result" where
  "prepare_change env px st (UserCreate _ _ spec) =
     try_bind (map_err admin_status (ok_or (ae_random env) Admin_Random)) (\<lambda>raw.
     try_bind (put_user px (new_user env (user_id_hex raw) spec) (mutation_default, [])) (\<lambda>(m, changes).
       Ok ((Some (user_id_hex raw), 1), m, changes)))"
| "prepare_change env px st (UserUpdate _ _ user_id expected_revision spec) =
     try_bind (checked_user st user_id expected_revision) (\<lambda>user. change_user px user_id (user\<lparr>ur_spec := spec\<rparr>))"
| "prepare_change env px st (UserDisable _ _ user_id expected_revision) =
     try_bind (checked_user st user_id expected_revision) (\<lambda>user.
       change_user px user_id (user\<lparr>ur_spec := (ur_spec user)\<lparr>us_status := Disabled\<rparr>\<rparr>))"
| "prepare_change env px st (UserDelete _ _ user_id expected_revision) =
     try_bind (checked_user st user_id expected_revision) (\<lambda>user. delete_user st user user_id)"
| "prepare_change env px st (CredentialAdd _ _ user_id digest) = add_credential px st user_id digest"
| "prepare_change env px st (CredentialRevoke _ _ digest) = revoke_credential px st digest"
| "prepare_change env px st (QuotaAdd _ _ user_id bytes) =
     try_bind (ok_or (hm_get (ps_users st) user_id) STATUS_INVALID) (\<lambda>user.
     try_bind (quota_add user bytes) (change_user px user_id))"
| "prepare_change env px st (QuotaNewPeriod _ _ user_id quota) =
     try_bind (ok_or (hm_get (ps_users st) user_id) STATUS_INVALID) (\<lambda>user.
       change_user px user_id (user\<lparr>ur_spec := (ur_spec user)\<lparr>us_quota := quota\<rparr>, ur_durable_charged_bytes := 0,
         ur_upload_bytes := 0, ur_download_bytes := 0\<rparr>))"
| "prepare_change env px st (SessionsDisconnect _ _ session_id) =
     (if \<not> hm_contains (ps_sessions st) session_id then Err STATUS_INVALID
      else Ok ((None, 0), mutation_default\<lparr>am_disconnect := Some session_id\<rparr>, []))"
| "prepare_change env px st (RulesReplace _ _ profile apply rules_toml) = replace_rules env profile apply rules_toml"
| "prepare_change env px st (UsageGet _) = Err STATUS_INVALID"
| "prepare_change env px st (SessionsList _) = Err STATUS_INVALID"
| "prepare_change env px st (MaintenanceBackup _) = Err STATUS_INVALID"

definition prepare_admin_mutation ::
  "admin_env \<Rightarrow> policy_codec \<Rightarrow> ('d, 'b, 'p) policy_state \<Rightarrow> control_request \<Rightarrow> (prepared_admin, status) result" where
  "prepare_admin_mutation env px st request =
     try_bind (prepare_change env px st request) (\<lambda>((user_id, revision), m, changes).
     try_bind (encode_response (ae_mutation env) \<lparr>mr_status = str_lit ''ok'', mr_revision = revision, mr_user_id = user_id\<rparr>) (\<lambda>response.
       Ok \<lparr>pa_response = response, pa_mutation = m, pa_changes = changes\<rparr>))"

section \<open>Applying\<close>

text \<open>Dropping the flows of a set of users or of a set of credentials.\<close>

definition drop_user_flows :: "str set \<Rightarrow> ('d, 'b, 'p) policy_state \<Rightarrow> ('d, 'b, 'p) policy_state" where
  "drop_user_flows users st = st\<lparr>
     ps_flows := hm_retain (\<lambda>h f. \<not> (case pf_user_id f of Some u \<Rightarrow> u \<in> users | None \<Rightarrow> False)) (ps_flows st),
     ps_datagram_flows := hm_retain (\<lambda>h f. \<not> (case df_user_id f of Some u \<Rightarrow> u \<in> users | None \<Rightarrow> False)) (ps_datagram_flows st)\<rparr>"

definition drop_credential_flows :: "str set \<Rightarrow> ('d, 'b, 'p) policy_state \<Rightarrow> ('d, 'b, 'p) policy_state" where
  "drop_credential_flows digests st = st\<lparr>
     ps_flows := hm_retain (\<lambda>h f. \<not> (case pf_credential_digest f of Some d \<Rightarrow> d \<in> digests | None \<Rightarrow> False)) (ps_flows st),
     ps_datagram_flows := hm_retain (\<lambda>h f. \<not> (case df_credential_digest f of Some d \<Rightarrow> d \<in> digests | None \<Rightarrow> False)) (ps_datagram_flows st)\<rparr>"

definition mutation_stopped :: "u64 \<Rightarrow> admin_mutation \<Rightarrow> str set" where
  "mutation_stopped now m = set (List.map_filter (\<lambda>(u, user). case user of
     Some r \<Rightarrow> if user_available_at r now then None else Some u | None \<Rightarrow> Some u) (am_users m))"

definition mutation_revoked :: "admin_mutation \<Rightarrow> str set" where
  "mutation_revoked m = set (List.map_filter (\<lambda>(d, credential). case credential of
     Some c \<Rightarrow> if \<not> cr_revoked c then None else Some d | None \<Rightarrow> Some d) (am_credentials m))"

definition apply_user :: "nat \<Rightarrow> str \<times> user_record option \<Rightarrow> admin_state \<Rightarrow> admin_state" where
  "apply_user max_cached = (\<lambda>(u, user) a. case user of
     Some r \<Rightarrow>
       let a1 = (if \<not> hm_contains (ad_users a) u \<and> max_cached \<le> hm_len (ad_users a) then evict_user a else a)
       in a1\<lparr>ad_loaded_users := insert u (ad_loaded_users a1), ad_users := hm_insert u r (ad_users a1)\<rparr>
   | None \<Rightarrow> a\<lparr>ad_users := hm_remove u (ad_users a), ad_loaded_users := insert u (ad_loaded_users a)\<rparr>)"

definition apply_credential :: "str \<times> credential_record option \<Rightarrow> admin_state \<Rightarrow> admin_state" where
  "apply_credential = (\<lambda>(d, credential) a. case credential of
     Some c \<Rightarrow> a\<lparr>ad_loaded_credentials := insert d (ad_loaded_credentials a), ad_credentials := hm_insert d c (ad_credentials a)\<rparr>
   | None \<Rightarrow> a\<lparr>ad_credentials := hm_remove d (ad_credentials a), ad_loaded_credentials := insert d (ad_loaded_credentials a)\<rparr>)"

definition apply_records :: "nat \<Rightarrow> admin_mutation \<Rightarrow> admin_state \<Rightarrow> admin_state" where
  "apply_records max_cached m a =
     (let a1 = fold (apply_user max_cached) (am_users m) a; a2 = fold apply_credential (am_credentials m) a1
      in a2\<lparr>ad_rules := fold (\<lambda>(p, r). hm_insert p r) (am_rules m) (ad_rules a2)\<rparr>)"

definition stop_users :: "str set \<Rightarrow> ('d, 'b, 'p) policy_state \<Rightarrow> ('d, 'b, 'p) policy_state" where
  "stop_users stopped st =
     (let st1 = drop_user_flows stopped (st\<lparr>ps_traffic := hm_retain (\<lambda>u t. u \<notin> stopped) (ps_traffic st),
            ps_flow_cursor := hm_retain (\<lambda>u c. u \<notin> stopped) (ps_flow_cursor st),
            ps_user_deficit := hm_retain (\<lambda>u d. u \<notin> stopped) (ps_user_deficit st)\<rparr>)
      in st1\<lparr>ps_sessions := hm_retain (\<lambda>h s. \<not> (case pn_auth s of Authenticated u \<Rightarrow> u \<in> stopped | _ \<Rightarrow> False)) (ps_sessions st1)\<rparr>)"

definition stop_credentials :: "str set \<Rightarrow> ('d, 'b, 'p) policy_state \<Rightarrow> ('d, 'b, 'p) policy_state" where
  "stop_credentials revoked st =
     (let st1 = drop_credential_flows revoked st
      in st1\<lparr>ps_sessions := hm_retain (\<lambda>h s. \<not> (case pn_credential_digest s of Some d \<Rightarrow> d \<in> revoked | None \<Rightarrow> False)) (ps_sessions st1)\<rparr>)"

definition affected_users :: "admin_mutation \<Rightarrow> ('d, 'b, 'p) policy_state \<Rightarrow> str set" where
  "affected_users m st = (\<lambda>(k, user). ur_id user) `
     set (filter (\<lambda>(k, user). us_rule_profile (ur_spec user) \<in> set (am_active_rule_profiles m)) (ps_users st))"

definition apply_admin_mutation :: "u64 \<Rightarrow> admin_mutation \<Rightarrow> ('d, 'b, 'p) policy_state \<Rightarrow> ('d, 'b, 'p) policy_state" where
  "apply_admin_mutation now m st =
     (let stopped = mutation_stopped now m; revoked = mutation_revoked m;
          st1 = st\<lparr>ps_admin := apply_records (op_max_cached_users (ps_options st)) m (ps_admin st)\<rparr>;
          st2 = (if am_active_rule_profiles m = [] then st1 else drop_user_flows (affected_users m st1) st1);
          st3 = (case am_disconnect m of Some h \<Rightarrow> st2\<lparr>ps_sessions := hm_remove h (ps_sessions st2)\<rparr> | None \<Rightarrow> st2);
          st4 = (if stopped = {} then st3 else stop_users stopped st3)
      in if revoked = {} then st4 else stop_credentials revoked st4)"

section \<open>Requests\<close>

fun pending_request :: "pending_control \<Rightarrow> bytes" where
  "pending_request (Pending_Write w) = pw_request w"
| "pending_request (Pending_Read request _ _) = request"
| "pending_request (Pending_Backup request _ _) = request"

type_synonym ('d, 'b, 'p) control_result = "(bytes, status) result \<times> ('d, 'b, 'p) policy_state"

definition queue_write ::
  "admin_env \<Rightarrow> policy_codec \<Rightarrow> bytes \<Rightarrow> control_request \<Rightarrow> str \<Rightarrow> u64 \<Rightarrow> bytes \<Rightarrow> ('d, 'b, 'p) policy_state \<Rightarrow> ('d, 'b, 'p) control_result" where
  "queue_write env px request parsed client_id seq request_hash st =
     (case prepare_admin_mutation env px st parsed of
        Err e \<Rightarrow> (Err e, st)
      | Ok prepared \<Rightarrow>
          (case prepare_commit (px_enc_receipt px) (ad_sequencer (ps_admin st)) client_id seq request_hash (pa_response prepared) of
             Err e \<Rightarrow> (Err (admin_status e), st)
           | Ok receipt \<Rightarrow>
               (case with_storage (\<lambda>w. storage_apply w (pa_changes prepared @ [(client_key client_id, Some receipt)])) st of
                  (Err e, st1) \<Rightarrow> (Err e, st1)
                | (Ok token, st1) \<Rightarrow> (Err STATUS_PENDING, st1\<lparr>ps_pending_control := Some (Pending_Write
                    \<lparr>pw_request = request, pw_client_id = client_id, pw_receipt = receipt, pw_response = pa_response prepared,
                     pw_mutation = pa_mutation prepared, pw_reply = token\<rparr>)\<rparr>))))"

definition start_backup :: "bytes \<Rightarrow> str \<Rightarrow> ('d, 'b, 'p) policy_state \<Rightarrow> ('d, 'b, 'p) control_result" where
  "start_backup request destination st = (case with_storage (\<lambda>w. storage_backup w destination) st of
     (Err e, st1) \<Rightarrow> (Err e, st1)
   | (Ok token, st1) \<Rightarrow> (Err STATUS_PENDING,
       st1\<lparr>ps_maintenance := True, ps_pending_control := Some (Pending_Backup request destination token)\<rparr>))"

definition sequenced_request ::
  "admin_env \<Rightarrow> policy_codec \<Rightarrow> bytes \<Rightarrow> control_request \<Rightarrow> ('d, 'b, 'p) policy_state \<Rightarrow> ('d, 'b, 'p) control_result" where
  "sequenced_request env px request parsed st = (case request_sequence parsed of
     None \<Rightarrow> (read_admin_state env st parsed, st)
   | Some (client_id, seq) \<Rightarrow>
       (case sequencer_check (px_sha256 px) (ad_sequencer (ps_admin st)) client_id seq request of
          Err e \<Rightarrow> (Err (admin_status e), st)
        | Ok (Replay response) \<Rightarrow> (Ok response, st)
        | Ok (Execute request_hash) \<Rightarrow> queue_write env px request parsed client_id seq request_hash st))"

definition plain_request ::
  "admin_env \<Rightarrow> policy_codec \<Rightarrow> bytes \<Rightarrow> control_request \<Rightarrow> ('d, 'b, 'p) policy_state \<Rightarrow> ('d, 'b, 'p) control_result" where
  "plain_request env px request parsed st = (case required_admin_read st parsed of
     Some (key, kind) \<Rightarrow> (case with_storage (\<lambda>w. storage_get w key) st of
       (Err e, st1) \<Rightarrow> (Err e, st1)
     | (Ok token, st1) \<Rightarrow> (Err STATUS_PENDING, st1\<lparr>ps_pending_control := Some (Pending_Read request kind token)\<rparr>))
   | None \<Rightarrow> sequenced_request env px request parsed st)"

definition new_request :: "admin_env \<Rightarrow> policy_codec \<Rightarrow> bytes \<Rightarrow> ('d, 'b, 'p) policy_state \<Rightarrow> ('d, 'b, 'p) control_result" where
  "new_request env px request st =
     (if op_max_control_frame_bytes (ps_options st) < length request then (Err STATUS_RESOURCE, st)
      else (case request_parse (ae_request env) request of
        Err e \<Rightarrow> (Err STATUS_INVALID, st)
      | Ok (MaintenanceBackup destination) \<Rightarrow> start_backup request destination st
      | Ok parsed \<Rightarrow> plain_request env px request parsed st))"

definition finish_write ::
  "admin_env \<Rightarrow> policy_codec \<Rightarrow> pending_write \<Rightarrow> ('d, 'b, 'p) policy_state \<Rightarrow> ('d, 'b, 'p) control_result" where
  "finish_write env px w st =
     (case apply_commit (px_enc_receipt px) (px_dec_receipt px) (ad_sequencer (ps_admin st)) (pw_client_id w) (pw_receipt w) of
        (Err e, sq) \<Rightarrow> (Err STATUS_INTERNAL, st\<lparr>ps_admin := (ps_admin st)\<lparr>ad_sequencer := sq\<rparr>\<rparr>)
      | (Ok u, sq) \<Rightarrow> (Ok (pw_response w),
          apply_admin_mutation (ae_now_utc env) (pw_mutation w) (st\<lparr>ps_admin := (ps_admin st)\<lparr>ad_sequencer := sq\<rparr>\<rparr>)))"

text \<open>\<open>Inl\<close> answers the call; \<open>Inr\<close> goes on with the request as if it were new.\<close>

definition resume_request ::
  "admin_env \<Rightarrow> policy_codec \<Rightarrow> pending_control \<Rightarrow> ('d, 'b, 'p) policy_state \<Rightarrow> ('d, 'b, 'p) control_result + ('d, 'b, 'p) policy_state" where
  "resume_request env px pending st = (case pending of
     Pending_Write w \<Rightarrow> (case receive_write (pw_reply w) st of
       (Received (Reply_Write (Ok u)), st1) \<Rightarrow> Inl (finish_write env px w st1)
     | (Empty, st1) \<Rightarrow> Inl (Err STATUS_PENDING, st1\<lparr>ps_pending_control := Some pending\<rparr>)
     | (_, st1) \<Rightarrow> Inl (Err STATUS_IO, st1))
   | Pending_Read request kind token \<Rightarrow> (case receive_write token st of
       (Received (Reply_Get (Ok value)), st1) \<Rightarrow> (case finish_admin_read px kind value st1 of
         (Err e, st2) \<Rightarrow> Inl (Err e, st2)
       | (Ok u, st2) \<Rightarrow> Inr st2)
     | (Empty, st1) \<Rightarrow> Inl (Err STATUS_PENDING, st1\<lparr>ps_pending_control := Some pending\<rparr>)
     | (_, st1) \<Rightarrow> Inl (Err STATUS_IO, st1))
   | Pending_Backup request destination token \<Rightarrow> (case receive_write token st of
       (Received (Reply_Write (Ok u)), st1) \<Rightarrow>
         Inl (encode_response (ae_backup env) \<lparr>bk_status = str_lit ''ok'', bk_destination = destination\<rparr>, st1\<lparr>ps_maintenance := False\<rparr>)
     | (Empty, st1) \<Rightarrow> Inl (Err STATUS_PENDING, st1\<lparr>ps_pending_control := Some pending\<rparr>)
     | (_, st1) \<Rightarrow> Inl (Err STATUS_IO, st1\<lparr>ps_maintenance := False\<rparr>)))"

definition control_instance ::
  "admin_env \<Rightarrow> policy_codec \<Rightarrow> bytes \<Rightarrow> ('d, 'b, 'p) policy_state \<Rightarrow> ('d, 'b, 'p) control_result" where
  "control_instance env px request st = (case ps_pending_control st of
     None \<Rightarrow> new_request env px request st
   | Some pending \<Rightarrow>
       if pending_request pending \<noteq> request then (Err STATUS_PENDING, st)
       else (case resume_request env px pending (st\<lparr>ps_pending_control := None\<rparr>) of
         Inl r \<Rightarrow> r
       | Inr st1 \<Rightarrow> new_request env px request st1))"

section \<open>What an acknowledged change leaves behind\<close>

text \<open>No flow or session of the given users, no flow or session of the given credentials.\<close>

definition users_gone :: "str set \<Rightarrow> ('d, 'b, 'p) policy_state \<Rightarrow> bool" where
  "users_gone users st \<longleftrightarrow> (\<forall>(h, f) \<in> set (ps_flows st). pf_user_id f \<notin> Some ` users) \<and>
     (\<forall>(h, f) \<in> set (ps_datagram_flows st). df_user_id f \<notin> Some ` users) \<and>
     (\<forall>(h, s) \<in> set (ps_sessions st). pn_auth s \<notin> Authenticated ` users)"

definition credentials_gone :: "str set \<Rightarrow> ('d, 'b, 'p) policy_state \<Rightarrow> bool" where
  "credentials_gone digests st \<longleftrightarrow> (\<forall>(h, f) \<in> set (ps_flows st). pf_credential_digest f \<notin> Some ` digests) \<and>
     (\<forall>(h, f) \<in> set (ps_datagram_flows st). df_credential_digest f \<notin> Some ` digests) \<and>
     (\<forall>(h, s) \<in> set (ps_sessions st). pn_credential_digest s \<notin> Some ` digests)"

lemma users_gone_empty [simp]: "users_gone {} st"
  by (simp add: users_gone_def)

lemma credentials_gone_empty [simp]: "credentials_gone {} st"
  by (simp add: credentials_gone_def)

lemma users_gone_stop_users: "users_gone stopped (stop_users stopped st)"
  by (auto simp: users_gone_def stop_users_def drop_user_flows_def hm_retain_def Let_def)

lemma users_gone_stop_credentials: "users_gone stopped st \<Longrightarrow> users_gone stopped (stop_credentials revoked st)"
  by (auto simp: users_gone_def stop_credentials_def drop_credential_flows_def hm_retain_def Let_def)

lemma credentials_gone_stop: "credentials_gone revoked (stop_credentials revoked st)"
  by (auto simp: credentials_gone_def stop_credentials_def drop_credential_flows_def hm_retain_def Let_def)

lemma apply_admin_mutation_gone:
  "users_gone (mutation_stopped now m) (apply_admin_mutation now m st) \<and>
   credentials_gone (mutation_revoked m) (apply_admin_mutation now m st)"
  by (simp add: apply_admin_mutation_def Let_def users_gone_stop_users users_gone_stop_credentials credentials_gone_stop)

lemma control_pending_write:
  assumes "control_instance env px request st = (Ok response, st')" and "ps_pending_control st = Some (Pending_Write w)"
  obtains st1 sq u where "receive_write (pw_reply w) (st\<lparr>ps_pending_control := None\<rparr>) = (Received (Reply_Write (Ok ())), st1)"
    "apply_commit (px_enc_receipt px) (px_dec_receipt px) (ad_sequencer (ps_admin st1)) (pw_client_id w) (pw_receipt w) = (Ok u, sq)"
    "response = pw_response w" "pw_request w = request"
    "st' = apply_admin_mutation (ae_now_utc env) (pw_mutation w) (st1\<lparr>ps_admin := (ps_admin st1)\<lparr>ad_sequencer := sq\<rparr>\<rparr>)"
proof -
  let ?st = "st\<lparr>ps_pending_control := None\<rparr>"
  obtain r st1 where r: "receive_write (pw_reply w) ?st = (r, st1)" by force
  obtain c sq where c: "apply_commit (px_enc_receipt px) (px_dec_receipt px) (ad_sequencer (ps_admin st1)) (pw_client_id w) (pw_receipt w) = (c, sq)"
    by force
  from assms have req: "pw_request w = request" by (simp add: control_instance_def split: if_splits)
  with assms r have fw: "r = Received (Reply_Write (Ok ())) \<and> finish_write env px w st1 = (Ok response, st')"
    by (auto simp: control_instance_def resume_request_def split: recv.splits reply.splits result.splits)
  with c obtain u where cu: "c = Ok u" by (cases c) (auto simp: finish_write_def)
  with fw c r req that show ?thesis by (simp add: finish_write_def)
qed

section \<open>Replaying\<close>

lemma apply_admin_mutation_sequencer [simp]:
  "ad_sequencer (ps_admin (apply_admin_mutation now m st)) = ad_sequencer (ps_admin st)"
  "ps_pending_control (apply_admin_mutation now m st) = ps_pending_control st"
  "ps_options (apply_admin_mutation now m st) = ps_options st"
proof -
  have u: "ad_sequencer (fold (apply_user n) us a) = ad_sequencer a" for n us a
    by (induction us arbitrary: a) (auto simp: apply_user_def evict_user_def Let_def split: option.splits list.splits prod.splits)
  have c: "ad_sequencer (fold apply_credential cs a) = ad_sequencer a" for cs a
    by (induction cs arbitrary: a) (auto simp: apply_credential_def split: option.splits prod.splits)
  show "ad_sequencer (ps_admin (apply_admin_mutation now m st)) = ad_sequencer (ps_admin st)"
    "ps_pending_control (apply_admin_mutation now m st) = ps_pending_control st"
    "ps_options (apply_admin_mutation now m st) = ps_options st"
    by (simp_all add: apply_admin_mutation_def apply_records_def Let_def u c stop_users_def drop_user_flows_def
        stop_credentials_def drop_credential_flows_def split: option.split)
qed

lemma receive_write_keeps:
  "receive_write token st = (r, st') \<Longrightarrow> ps_admin st' = ps_admin st \<and> ps_pending_control st' = ps_pending_control st \<and>
     ps_options st' = ps_options st \<and> ps_flows st' = ps_flows st \<and> ps_datagram_flows st' = ps_datagram_flows st \<and> ps_sessions st' = ps_sessions st"
  by (auto simp: receive_write_def split: prod.splits)

lemma with_storage_keeps:
  "with_storage call st = (r, st') \<Longrightarrow> ps_admin st' = ps_admin st \<and> ps_pending_control st' = ps_pending_control st \<and>
     ps_options st' = ps_options st \<and> ps_flows st' = ps_flows st \<and> ps_datagram_flows st' = ps_datagram_flows st \<and> ps_sessions st' = ps_sessions st"
  by (auto simp: with_storage_def split: prod.splits)

text \<open>The call that queues a write, and all it has checked.\<close>

lemma queue_write_cases:
  assumes "queue_write env px request parsed client_id seq request_hash st = (r, st')" and "ps_pending_control st = None"
    and "ps_pending_control st' = Some (Pending_Write w)"
  obtains prepared token where "prepare_admin_mutation env px st parsed = Ok prepared"
    "prepare_commit (px_enc_receipt px) (ad_sequencer (ps_admin st)) client_id seq request_hash (pa_response prepared) = Ok (pw_receipt w)"
    "storage_apply (ps_storage st) (pa_changes prepared @ [(client_key client_id, Some (pw_receipt w))]) = (Ok token, ps_storage st')"
    "w = \<lparr>pw_request = request, pw_client_id = client_id, pw_receipt = pw_receipt w, pw_response = pa_response prepared,
       pw_mutation = pa_mutation prepared, pw_reply = token\<rparr>"
    "r = Err STATUS_PENDING" "st' = st\<lparr>ps_storage := ps_storage st', ps_pending_control := Some (Pending_Write w)\<rparr>"
proof -
  from assms obtain prepared where p: "prepare_admin_mutation env px st parsed = Ok prepared"
    by (cases "prepare_admin_mutation env px st parsed") (auto simp: queue_write_def)
  from assms p obtain receipt where c: "prepare_commit (px_enc_receipt px) (ad_sequencer (ps_admin st)) client_id seq request_hash (pa_response prepared) = Ok receipt"
    by (cases "prepare_commit (px_enc_receipt px) (ad_sequencer (ps_admin st)) client_id seq request_hash (pa_response prepared)")
      (auto simp: queue_write_def)
  obtain q sw where s: "storage_apply (ps_storage st) (pa_changes prepared @ [(client_key client_id, Some receipt)]) = (q, sw)" by force
  with assms p c obtain token where "q = Ok token"
    by (cases q) (auto simp: queue_write_def with_storage_def)
  with assms p c s that show ?thesis by (auto simp: queue_write_def with_storage_def)
qed

lemma new_request_write:
  assumes "new_request env px request st = (r, st')" and "ps_pending_control st = None"
    and "ps_pending_control st' = Some (Pending_Write w)"
  obtains parsed client_id seq where "length request \<le> op_max_control_frame_bytes (ps_options st)"
    "request_parse (ae_request env) request = Ok parsed" "\<And>d. parsed \<noteq> MaintenanceBackup d" "required_admin_read st parsed = None"
    "request_sequence parsed = Some (client_id, seq)"
    "sequencer_check (px_sha256 px) (ad_sequencer (ps_admin st)) client_id seq request = Ok (Execute (px_sha256 px request))"
    "queue_write env px request parsed client_id seq (px_sha256 px request) st = (r, st')"
proof -
  from assms have len: "length request \<le> op_max_control_frame_bytes (ps_options st)"
    by (auto simp: new_request_def split: if_splits)
  from assms len obtain parsed where p: "request_parse (ae_request env) request = Ok parsed"
    by (cases "request_parse (ae_request env) request") (auto simp: new_request_def)
  have nb: "parsed \<noteq> MaintenanceBackup d" for d
    using assms len p by (auto simp: new_request_def start_backup_def dest!: with_storage_keeps split: prod.splits result.splits)
  then have eq: "new_request env px request st = plain_request env px request parsed st"
    using len p by (cases parsed) (auto simp: new_request_def)
  have rr: "required_admin_read st parsed = None"
    using assms eq by (auto simp: plain_request_def split: option.splits prod.splits result.splits dest!: with_storage_keeps)
  with assms eq have sr: "sequenced_request env px request parsed st = (r, st')" by (simp add: plain_request_def)
  with assms obtain client_id seq where cs: "request_sequence parsed = Some (client_id, seq)"
    by (cases "request_sequence parsed") (auto simp: sequenced_request_def)
  from sr assms cs obtain h where ch: "sequencer_check (px_sha256 px) (ad_sequencer (ps_admin st)) client_id seq request = Ok (Execute h)"
    and qw: "queue_write env px request parsed client_id seq h st = (r, st')"
    by (auto simp: sequenced_request_def split: result.splits admin_decision.splits)
  moreover have "h = px_sha256 px request"
    using ch by (auto simp: sequencer_check_def try_bind_Ok_iff Let_def split: option.splits if_splits)
  ultimately show ?thesis using len p nb rr cs that by blast
qed

lemma new_request_replay:
  assumes "length request \<le> op_max_control_frame_bytes (ps_options st)" and "request_parse (ae_request env) request = Ok parsed"
    and "\<And>d. parsed \<noteq> MaintenanceBackup d" and "required_admin_read st parsed = None"
    and "request_sequence parsed = Some (client_id, seq)"
    and "sequencer_check (px_sha256 px) (ad_sequencer (ps_admin st)) client_id seq request = Ok (Replay response)"
  shows "new_request env px request st = (Ok response, st)"
proof (cases parsed)
  case (MaintenanceBackup d)
  with assms(3) show ?thesis by blast
qed (use assms in \<open>simp_all add: new_request_def plain_request_def sequenced_request_def\<close>)

lemma sequencer_check_valid: "sequencer_check sha s client seq request = Ok d \<Longrightarrow> validate_client_id client = Ok ()"
  by (auto simp: sequencer_check_def try_bind_Ok_iff)

lemma sequencer_check_committed:
  "validate_client_id client = Ok () \<Longrightarrow> hm_get (sq_clients s) client = Some \<lparr>rc_seq = seq, rc_request_hash = sha request, rc_response = response\<rparr> \<Longrightarrow>
     sequencer_check sha s client seq request = Ok (Replay response)"
  by (simp add: sequencer_check_def)

section \<open>Properties\<close>


definition example_admin_env :: admin_env where
  "example_admin_env = \<lparr>ae_request = \<lambda>_. Some (SessionsDisconnect [97] 1 5), ae_rules = \<lambda>_. None, ae_mutation = \<lambda>_. Some [111],
     ae_usage = \<lambda>_. None, ae_sessions = \<lambda>_. None, ae_backup = \<lambda>_. None, ae_random = None, ae_now_utc = 5\<rparr>"

definition example_receipt :: receipt where
  "example_receipt = \<lparr>rc_seq = 1, rc_request_hash = [1], rc_response = [111]\<rparr>"

definition example_admin_codec :: policy_codec where
  "example_admin_codec = example_auth_codec\<lparr>px_enc_receipt := \<lambda>r. if r = example_receipt then Some [9] else None,
     px_dec_receipt := \<lambda>b. if b = [9] then Some example_receipt else None\<rparr>"

definition example_admin_state :: "((str \<times> bytes) list, unit, unit) policy_state" where
  "example_admin_state = example_state\<lparr>ps_sessions := [(5, example_session)], ps_storage := example_worker\<rparr>"

definition example_write :: pending_write where
  "example_write = \<lparr>pw_request = [98], pw_client_id = [97], pw_receipt = [9], pw_response = [111],
     pw_mutation = mutation_default\<lparr>am_disconnect := Some 5\<rparr>, pw_reply = 0\<rparr>"

lemma example_codec_ok: "codec_ok (px_enc_receipt example_admin_codec) (px_dec_receipt example_admin_codec)"
  by (simp add: codec_ok_def example_admin_codec_def)

lemma example_parse: "request_parse (ae_request example_admin_env) [98] = Ok (SessionsDisconnect [97] 1 5)"
  by code_simp

lemma example_client: "validate_client_id [97] = Ok ()" "validate_changes [(client_key [97], Some [9])] = Ok ()"
  by code_simp+

lemma example_queued:
  "\<exists>q. new_request example_admin_env example_admin_codec [98] example_admin_state =
     (Err STATUS_PENDING, example_admin_state\<lparr>ps_storage := example_worker\<lparr>sw_queue := q, sw_next_token := 1\<rparr>,
       ps_pending_control := Some (Pending_Write example_write)\<rparr>)"
proof -
  have seq: "ad_sequencer (ps_admin example_admin_state) = \<lparr>sq_max_clients = 2, sq_clients = []\<rparr>"
    and opt: "op_max_control_frame_bytes (ps_options example_admin_state) = 1024"
    and sess: "hm_contains (ps_sessions example_admin_state) 5" and sto: "ps_storage example_admin_state = example_worker"
    by (simp_all add: example_admin_state_def example_state_def example_options_def hm_contains_def hm_get_def)
  have "sequencer_check (px_sha256 example_admin_codec) \<lparr>sq_max_clients = 2, sq_clients = []\<rparr> [97] 1 [98] = Ok (Execute [1])"
    by (simp add: sequencer_check_def example_client hm_len_def hm_get_def example_admin_codec_def example_auth_codec_def)
  moreover have "prepare_commit (px_enc_receipt example_admin_codec) \<lparr>sq_max_clients = 2, sq_clients = []\<rparr> [97] 1 [1] [111] = Ok [9]"
    by (simp add: prepare_commit_def example_client hm_len_def hm_get_def example_admin_codec_def example_receipt_def)
  moreover have "prepare_admin_mutation example_admin_env example_admin_codec example_admin_state (SessionsDisconnect [97] 1 5) =
      Ok \<lparr>pa_response = [111], pa_mutation = mutation_default\<lparr>am_disconnect := Some 5\<rparr>, pa_changes = []\<rparr>"
    by (simp add: encode_response_def prepare_admin_mutation_def sess example_admin_env_def)
  moreover have "\<exists>q. storage_apply example_worker [(client_key [97], Some [9])] =
      (Ok 0, example_worker\<lparr>sw_queue := q, sw_next_token := 1\<rparr>)"
    by (simp add: storage_apply_def guarded_send_def example_client storage_send_def example_worker_def)
  ultimately show ?thesis
    by (auto simp: new_request_def opt example_parse plain_request_def required_admin_read_def sequenced_request_def seq
        queue_write_def with_storage_def sto example_write_def)
qed

lemma example_acked:
  fixes st :: "('d, 'b, 'p) policy_state"
  assumes "ad_sequencer (ps_admin st) = \<lparr>sq_max_clients = 2, sq_clients = []\<rparr>" and "map_of (sw_replies (ps_storage st)) 0 = Some (Reply_Write (Ok ()))"
    and "ps_pending_control st = Some (Pending_Write (example_write\<lparr>pw_mutation := m\<rparr>))"
  shows "\<exists>sq. control_instance example_admin_env example_admin_codec [98] st =
    (Ok [111], apply_admin_mutation 5 m (st\<lparr>ps_pending_control := None,
       ps_storage := (ps_storage st)\<lparr>sw_replies := filter (\<lambda>(t, _). t \<noteq> 0) (sw_replies (ps_storage st))\<rparr>,
       ps_admin := (ps_admin st)\<lparr>ad_sequencer := sq\<rparr>\<rparr>))"
proof -
  obtain sq where ac: "apply_commit (px_enc_receipt example_admin_codec) (px_dec_receipt example_admin_codec) \<lparr>sq_max_clients = 2, sq_clients = []\<rparr> [97] [9] = (Ok (), sq)"
    by (simp add: apply_commit_def prepare_commit_def example_client hm_len_def hm_get_def example_admin_codec_def example_receipt_def)
  have rw: "receive_write 0 (st\<lparr>ps_pending_control := None\<rparr>) =
      (Received (Reply_Write (Ok ())), st\<lparr>ps_pending_control := None,
        ps_storage := (ps_storage st)\<lparr>sw_replies := filter (\<lambda>(t, _). t \<noteq> 0) (sw_replies (ps_storage st))\<rparr>\<rparr>)"
    using assms(2) by (simp add: receive_write_def try_recv_def)
  from ac rw assms(1,3) show ?thesis
    by (intro exI [of _ sq])
      (simp add: control_instance_def resume_request_def finish_write_def example_write_def example_admin_env_def)
qed




section \<open>Nothing before the commit\<close>

definition same_effects :: "('d, 'b, 'p) policy_state \<Rightarrow> ('d, 'b, 'p) policy_state \<Rightarrow> bool" where
  "same_effects st st' \<longleftrightarrow> ad_sequencer (ps_admin st') = ad_sequencer (ps_admin st) \<and> ad_rules (ps_admin st') = ad_rules (ps_admin st) \<and>
     ps_flows st' = ps_flows st \<and> ps_datagram_flows st' = ps_datagram_flows st \<and> ps_sessions st' = ps_sessions st"

lemma with_storage_effects: "with_storage call st = (r, st') \<Longrightarrow> same_effects st st'"
  by (auto simp: same_effects_def dest: with_storage_keeps)

lemma effects_pending [simp]:
  "same_effects st (st'\<lparr>ps_pending_control := p\<rparr>) = same_effects st st'"
  "same_effects (st\<lparr>ps_pending_control := p\<rparr>) st' = same_effects st st'"
  "same_effects st (st'\<lparr>ps_maintenance := b\<rparr>) = same_effects st st'" "same_effects st st"
  by (simp_all add: same_effects_def)

lemma effects_trans: "same_effects st st' \<Longrightarrow> same_effects st' st'' \<Longrightarrow> same_effects st st''"
  by (simp add: same_effects_def)

lemma queue_write_effects: "queue_write env px request parsed c n h st = (r, st') \<Longrightarrow> same_effects st st'"
  by (auto simp: queue_write_def dest!: with_storage_effects split: result.splits prod.splits)

lemma sequenced_request_effects: "sequenced_request env px request parsed st = (r, st') \<Longrightarrow> same_effects st st'"
  by (auto simp: sequenced_request_def dest: queue_write_effects split: option.splits result.splits admin_decision.splits prod.splits)

lemma plain_request_effects: "plain_request env px request parsed st = (r, st') \<Longrightarrow> same_effects st st'"
  by (auto simp: plain_request_def dest: sequenced_request_effects dest!: with_storage_effects split: option.splits result.splits prod.splits)

lemma start_backup_effects: "start_backup request d st = (r, st') \<Longrightarrow> same_effects st st'"
  by (auto simp: start_backup_def dest!: with_storage_effects split: result.splits prod.splits)

lemma new_request_effects:
  assumes "new_request env px request st = (r, st')"
  shows "same_effects st st'"
proof (cases "request_parse (ae_request env) request")
  case (Err e)
  with assms show ?thesis by (auto simp: new_request_def split: if_splits)
next
  case (Ok parsed)
  with assms show ?thesis
    by (cases parsed) (auto simp: new_request_def intro: plain_request_effects start_backup_effects split: if_splits)
qed

lemma finish_admin_read_effects: "finish_admin_read px kind value st = (r, st') \<Longrightarrow> same_effects st st'"
  by (auto simp: finish_admin_read_def load_user_def load_credential_def evict_user_def same_effects_def Let_def
      split: read_kind.splits option.splits result.splits if_splits list.splits prod.splits)

lemma receive_effects: "receive_write token st = (r, st') \<Longrightarrow> same_effects st st'"
  by (auto simp: same_effects_def dest: receive_write_keeps)

lemma resume_effects:
  assumes "resume_request env px pending st = r"
  shows "(case r of Inl (q, st') \<Rightarrow> same_effects st st' | Inr st' \<Rightarrow> same_effects st st') \<or>
    (\<exists>w st1. pending = Pending_Write w \<and> receive_write (pw_reply w) st = (Received (Reply_Write (Ok ())), st1))"
proof (cases pending)
  case (Pending_Write w)
  obtain q st1 where q: "receive_write (pw_reply w) st = (q, st1)" by force
  show ?thesis
  proof (cases "q = Received (Reply_Write (Ok ()))")
    case True
    with q Pending_Write show ?thesis by simp
  next
    case False
    with q Pending_Write assms receive_effects [OF q] show ?thesis
      by (auto simp: resume_request_def split: recv.splits reply.splits result.splits)
  qed
next
  case (Pending_Read request kind token)
  obtain q st1 where q: "receive_write token st = (q, st1)" by force
  with Pending_Read assms receive_effects [OF q] show ?thesis
    by (auto simp: resume_request_def split: recv.split reply.split result.split prod.split
        intro: effects_trans dest!: finish_admin_read_effects)
next
  case (Pending_Backup request d token)
  obtain q st1 where q: "receive_write token st = (q, st1)" by force
  with Pending_Backup assms receive_effects [OF q] show ?thesis
    by (auto simp: resume_request_def split: recv.split reply.split result.split)
qed



section \<open>Races\<close>

text \<open>The update of a user who stays available: revision 4 and another weight.\<close>

definition example_update :: user_record where
  "example_update = example_member\<lparr>ur_revision := 4, ur_spec := (ur_spec example_member)\<lparr>us_weight := 9\<rparr>\<rparr>"

definition example_race :: "user_record \<Rightarrow> ((str \<times> bytes) list, unit, unit) policy_state" where
  "example_race user = example_state\<lparr>
     ps_storage := example_worker\<lparr>sw_replies := [(0, Reply_Write (Ok ())), (7, Reply_Write (Ok ()))]\<rparr>,
     ps_pending_control := Some (Pending_Write (example_write\<lparr>pw_mutation := mutation_default\<lparr>am_users := [(str_lit ''u'', Some user)]\<rparr>\<rparr>))\<rparr>"

lemma example_race_acked:
  "\<exists>sq. control_instance example_admin_env example_admin_codec [98] (example_race user) =
     (Ok [111], apply_admin_mutation 5 (mutation_default\<lparr>am_users := [(str_lit ''u'', Some user)]\<rparr>)
       (example_state\<lparr>ps_storage := example_worker\<lparr>sw_replies := [(7, Reply_Write (Ok ()))]\<rparr>,
         ps_admin := (ps_admin example_state)\<lparr>ad_sequencer := sq\<rparr>\<rparr>))"
  using example_acked [of "example_race user" "mutation_default\<lparr>am_users := [(str_lit ''u'', Some user)]\<rparr>"]
  by (simp add: example_race_def example_state_def)

lemma example_race_applied:
  assumes "user_available_at user 5"
  shows "apply_admin_mutation 5 (mutation_default\<lparr>am_users := [(str_lit ''u'', Some user)]\<rparr>)
       (example_state\<lparr>ps_storage := w, ps_admin := (ps_admin example_state)\<lparr>ad_sequencer := sq\<rparr>\<rparr>) =
     example_state\<lparr>ps_storage := w, ps_admin := (ps_admin example_state)\<lparr>ad_sequencer := sq, ad_users := [(str_lit ''u'', user)]\<rparr>\<rparr>"
  using assms
  by (simp add: apply_admin_mutation_def Let_def mutation_stopped_def mutation_revoked_def map_filter_simps mutation_default_def
      apply_records_def apply_user_def hm_contains_def hm_get_def hm_insert_def example_state_def)


text \<open>A session that waits for the write of its clock, and the user disabled in the meantime.\<close>

definition example_clocking :: policy_session where
  "example_clocking = example_session\<lparr>pn_credential_digest := Some (str_lit ''01''), pn_auth := Clock_Update example_member 7\<rparr>"

definition example_disabled :: user_record where
  "example_disabled = example_member\<lparr>ur_revision := 4, ur_spec := (ur_spec example_member)\<lparr>us_status := Disabled\<rparr>\<rparr>"

lemma example_clocking_finish:
  fixes st :: "((str \<times> bytes) list, unit, unit) policy_state"
  assumes "map_of (sw_replies (ps_storage st)) 7 = Some (Reply_Write (Ok ()))"
  shows "\<exists>s' st'. poll_policy_session (example_env Read_Pending) example_auth_codec example_clocking st = (Ok (), s', st') \<and>
    pn_auth s' = Authenticated (str_lit ''u'') \<and> hm_get (ps_users st') (str_lit ''u'') = Some example_member"
proof -
  have q: "\<exists>s'. on_channel (\<lambda>ch. queue_response ch [98]) (example_clocking\<lparr>pn_auth := a\<rparr>) = (Ok (), s') \<and> pn_auth s' = a \<and> \<not> pn_subscribed s'" for a
    by (simp add: on_channel_def queue_response_def queue_frame_def encode_frame_def example_clocking_def example_session_def response_queue_limit_def)
  obtain s' where s': "on_channel (\<lambda>ch. queue_response ch [98]) (example_clocking\<lparr>pn_auth := Authenticated (str_lit ''u'')\<rparr>) = (Ok (), s')"
    "pn_auth s' = Authenticated (str_lit ''u'')" "\<not> pn_subscribed s'" using q by blast
  have m: "ur_id example_member = str_lit ''u''" by (simp add: example_member_def)
  obtain st1 where rw: "receive_write 7 st = (Received (Reply_Write (Ok ())), st1)"
    using assms by (simp add: receive_write_def try_recv_def)
  have a: "pn_auth example_clocking = Clock_Update example_member 7" by (simp add: example_clocking_def)
  have "\<exists>st'. advance_authentication (example_env Read_Pending) example_auth_codec example_clocking st = (Ok (), s', st') \<and>
      hm_get (ps_users st') (str_lit ''u'') = Some example_member"
    using s' by (simp add: advance_authentication_def a rw finish_authentication_def m status_message_def example_env_def Let_def)
  moreover have "poll_messages (example_env Read_Pending) example_clocking = (Ok [], example_clocking)"
    by (rule example_messages(2)) (simp add: example_clocking_def)
  ultimately show ?thesis using s'(2,3) by (auto simp: poll_policy_session_def send_snapshot_def)
qed


end
