(* ===== verification/Policy_Poll.thy ===== *)
theory Policy_Poll
  imports Admin_Control "HOL-Library.List_Lexorder"
begin

text \<open>
  One poll of a policy instance (\<^verbatim>\<open>policy-local/src/lib.rs\<close>, \<open>poll_instance\<close>): the clocks of the users,
  the purchase of credit, the grants of the round, the flows, their charges, and the sessions. Streams,
  pumps and clocks are in \<open>poll_env\<close>; one reading of the clock serves the whole poll.
\<close>

record 'p poll_env =
  pe_now :: instant
  pe_now_utc :: u64
  pe_flow :: "u64 \<Rightarrow> 'p flow_io"
  pe_datagram :: "u64 \<Rightarrow> 'p datagram_io"
  pe_session :: "u64 \<Rightarrow> session_env"

section \<open>Users\<close>

definition observe_clock :: "u64 \<Rightarrow> ('d, 'b, 'p) policy_state \<Rightarrow> ('d, 'b, 'p) policy_state" where
  "observe_clock now st = set_users (map (\<lambda>(k, user). (k, user\<lparr>ur_max_observed_utc := max (ur_max_observed_utc user) now\<rparr>)) (ps_users st)) st"

definition expired_users :: "u64 \<Rightarrow> ('d, 'b, 'p) policy_state \<Rightarrow> str set" where
  "expired_users now st = fst ` set (filter (\<lambda>(k, user). \<not> user_access_allowed_at user now) (ps_users st))"

definition drop_stopped :: "str set \<Rightarrow> ('d, 'b, 'p) policy_state \<Rightarrow> ('d, 'b, 'p) policy_state" where
  "drop_stopped stopped st = (if stopped = {} then st else drop_user_flows stopped st)"

definition user_weight :: "('d, 'b, 'p) policy_state \<Rightarrow> str \<Rightarrow> u64" where
  "user_weight st user_id = (case hm_get (ps_users st) user_id of Some user \<Rightarrow> ucast (us_weight (ur_spec user)) | None \<Rightarrow> 1)"

text \<open>The flows of each user, first the streams and then the datagram flows.\<close>

definition add_handle :: "str option \<times> u64 \<Rightarrow> (str, u64 list) hashmap \<Rightarrow> (str, u64 list) hashmap" where
  "add_handle = (\<lambda>(user, h) m. case user of
     None \<Rightarrow> m
   | Some u \<Rightarrow> hm_insert u ((case hm_get m u of Some hs \<Rightarrow> hs | None \<Rightarrow> []) @ [h]) m)"

definition user_handles :: "('d, 'b, 'p) policy_state \<Rightarrow> (str, u64 list) hashmap" where
  "user_handles st = fold add_handle
     (map (\<lambda>(h, f). (pf_user_id f, h)) (ps_flows st) @ map (\<lambda>(h, f). (df_user_id f, h)) (ps_datagram_flows st)) []"

text \<open>The users in order of their identifiers, starting with the one whose turn it is.\<close>

definition schedule :: "('d, 'b, 'p) policy_state \<Rightarrow> (str \<times> u64 list) list \<times> ('d, 'b, 'p) policy_state" where
  "schedule st =
     (let scheduled = sort_key fst (user_handles st) in
      if scheduled = [] then ([], st)
      else (rotate (unat (ps_user_cursor st) mod length scheduled) scheduled, st\<lparr>ps_user_cursor := ps_user_cursor st + 1\<rparr>))"

definition total_weight :: "('d, 'b, 'p) policy_state \<Rightarrow> (str \<times> u64 list) list \<Rightarrow> u64" where
  "total_weight st scheduled = fold (\<lambda>(u, hs) acc. saturating_add acc (user_weight st u)) scheduled 0"

definition global_available :: "u64 \<Rightarrow> ('d, 'b, 'p) policy_state \<Rightarrow> u64 option \<times> ('d, 'b, 'p) policy_state" where
  "global_available now_nanos st = (case ps_global_rate st of
     None \<Rightarrow> (None, st)
   | Some b \<Rightarrow> (case bucket_available b now_nanos of
       (Ok n, b') \<Rightarrow> (Some n, st\<lparr>ps_global_rate := Some b'\<rparr>)
     | (Err e, b') \<Rightarrow> (None, st\<lparr>ps_global_rate := Some b'\<rparr>)))"

section \<open>Grants\<close>

definition max_work :: "('d, 'b, 'p) policy_state \<Rightarrow> u64 \<Rightarrow> nat" where
  "max_work st flow = (if hm_contains (ps_datagram_flows st) flow then max_udp_payload else op_sniff_bytes (ps_options st))"

definition or_zero :: "u64 option \<Rightarrow> u64" where
  "or_zero m = (case m of Some n \<Rightarrow> n | None \<Rightarrow> 0)"

definition take_global :: "u64 \<Rightarrow> u64 \<Rightarrow> token_bucket option \<Rightarrow> u64 \<times> token_bucket option" where
  "take_global budget now_nanos b = (case b of
     None \<Rightarrow> (budget, None)
   | Some bucket \<Rightarrow> (case bucket_take bucket budget now_nanos of
       (Ok n, bucket') \<Rightarrow> (n, Some bucket') | (Err e, bucket') \<Rightarrow> (0, Some bucket')))"

definition grant_budget :: "nat \<Rightarrow> u64 \<Rightarrow> u64 \<Rightarrow> u64 option \<Rightarrow> u64 \<Rightarrow> user_traffic \<Rightarrow> u64" where
  "grant_budget work weight weights available deficit t =
     (let quota_budget = min (unat (credit_remaining (ut_quota t))) work;
          weighted = (case available of Some a \<Rightarrow> weighted_share a weight weights | None \<Rightarrow> - 1)
      in of_nat (min (min quota_budget (unat deficit)) (unat weighted)))"

definition grant_user ::
  "u64 \<Rightarrow> u64 \<Rightarrow> u64 option \<Rightarrow> str \<times> u64 list \<Rightarrow> (u64, rate_grant) hashmap \<times> ('d, 'b, 'p) policy_state \<Rightarrow>
     (u64, rate_grant) hashmap \<times> ('d, 'b, 'p) policy_state" where
  "grant_user now_nanos weights available = (\<lambda>(user_id, handles) (grants, st).
     let (flow, cursor) = select_flow (or_zero (hm_get (ps_flow_cursor st) user_id)) (sort handles);
         st1 = st\<lparr>ps_flow_cursor := hm_insert user_id cursor (ps_flow_cursor st)\<rparr>; work = max_work st1 flow
     in case hm_get (ps_traffic st1) user_id of
          None \<Rightarrow> (grants, st1)
        | Some t \<Rightarrow>
            if ut_debit t \<noteq> None \<or> ut_refund t \<noteq> None \<or> ut_failed t then (grants, st1)
            else
              let weight = user_weight st1 user_id;
                  deficit = saturating_add (or_zero (hm_get (ps_user_deficit st1) user_id)) (saturating_mul (as_u64 work) weight);
                  (taken, global) = take_global (grant_budget work weight weights available deficit t) now_nanos (ps_global_rate st1);
                  st2 = st1\<lparr>ps_user_deficit := hm_insert user_id deficit (ps_user_deficit st1), ps_global_rate := global\<rparr>
              in case take_rate_grant t taken now_nanos of
                   (Err e, t') \<Rightarrow> (grants, st2\<lparr>ps_traffic := hm_insert user_id t' (ps_traffic st2)\<rparr>)
                 | (Ok grant, t') \<Rightarrow>
                     let grant = grant\<lparr>rg_global := rg_combined grant\<rparr>
                     in (hm_insert flow grant grants,
                         st2\<lparr>ps_traffic := hm_insert user_id t' (ps_traffic st2),
                             ps_global_rate := map_option (\<lambda>b. bucket_refund b (saturating_sub taken (rg_global grant))) global\<rparr>))"

section \<open>Flows\<close>

type_synonym usage = "u64 \<times> str option \<times> rate_grant \<times> pump_report \<times> pump_report"

record 'f flow_turn =
  ft_grants :: "(u64, rate_grant) hashmap"
  ft_usage :: "usage list"
  ft_finished :: "u64 list"
  ft_flows :: "(u64 \<times> 'f) list"

definition flow_grant :: "nat \<Rightarrow> str option \<Rightarrow> u64 \<Rightarrow> (u64, rate_grant) hashmap \<Rightarrow> rate_grant \<times> (u64, rate_grant) hashmap" where
  "flow_grant work user h grants = (case user of
     None \<Rightarrow> let n = as_u64 work in (\<lparr>rg_stack_to_mux = n, rg_mux_to_stack = n, rg_combined = n, rg_global = n\<rparr>, grants)
   | Some u \<Rightarrow> (case hm_get grants h of
       Some g \<Rightarrow> (g, hm_remove h grants) | None \<Rightarrow> (grant_default, grants)))"

text \<open>The poll of one flow, for the streams and for the datagram flows alike.\<close>

type_synonym 'f flow_poll = "u64 \<Rightarrow> nat \<Rightarrow> nat \<Rightarrow> nat \<Rightarrow> 'f \<Rightarrow> (pump_report \<times> pump_report, pump_error) poll \<times> 'f"

definition poll_one ::
  "nat \<Rightarrow> ('f \<Rightarrow> str option) \<Rightarrow> 'f flow_poll \<Rightarrow> u64 \<times> 'f \<Rightarrow> 'f flow_turn \<Rightarrow> 'f flow_turn" where
  "poll_one work user_of poll_flow = (\<lambda>(h, f) turn.
     case flow_grant work (user_of f) h (ft_grants turn) of (grant, grants) \<Rightarrow>
       let t1 = turn\<lparr>ft_grants := grants\<rparr> in
       if rg_combined grant = 0 then t1\<lparr>ft_flows := ft_flows t1 @ [(h, f)]\<rparr>
       else (case poll_flow h (unat (rg_stack_to_mux grant)) (unat (rg_mux_to_stack grant)) (unat (rg_combined grant)) f of
         (result, f') \<Rightarrow>
           let t2 = t1\<lparr>ft_flows := ft_flows t1 @ [(h, f')]\<rparr> in
           (case result of
              Ready (Ok (upload, download)) \<Rightarrow>
                t2\<lparr>ft_usage := ft_usage t2 @ [(h, user_of f, grant, upload, download)],
                   ft_finished := ft_finished t2 @ (if pr_finished upload \<and> pr_finished download then [h] else [])\<rparr>
            | Ready (Err e) \<Rightarrow>
                t2\<lparr>ft_usage := ft_usage t2 @ [(h, user_of f, grant, report_default, report_default)],
                   ft_finished := ft_finished t2 @ [h]\<rparr>
            | Pending \<Rightarrow> t2\<lparr>ft_usage := ft_usage t2 @ [(h, user_of f, grant, report_default, report_default)]\<rparr>)))"

definition poll_all ::
  "nat \<Rightarrow> ('f \<Rightarrow> str option) \<Rightarrow> 'f flow_poll \<Rightarrow> (u64, 'f) hashmap \<Rightarrow> (u64, rate_grant) hashmap \<Rightarrow> 'f flow_turn" where
  "poll_all work user_of poll_flow flows grants =
     fold (poll_one work user_of poll_flow) flows \<lparr>ft_grants = grants, ft_usage = [], ft_finished = [], ft_flows = []\<rparr>"

definition settle_usage :: "usage \<Rightarrow> u64 list \<times> ('d, 'b, 'p) policy_state \<Rightarrow> u64 list \<times> ('d, 'b, 'p) policy_state" where
  "settle_usage = (\<lambda>(h, user, grant, upload, download) (finished, st).
     case charge_flow user upload download (refund_rate user grant upload download st) of
       (Ok u, st') \<Rightarrow> (finished, st') | (Err e, st') \<Rightarrow> (finished @ [h], st'))"

definition stream_poll :: "'p poll_env \<Rightarrow> ('b, 'p) policy_flow flow_poll" where
  "stream_poll env h a b c f = (case policy_flow_poll (pe_flow env h) a b c f of (r, f', out, pumped) \<Rightarrow> (r, f'))"

definition poll_flows ::
  "'p poll_env \<Rightarrow> (u64, rate_grant) hashmap \<Rightarrow> ('d, 'b, 'p) policy_state \<Rightarrow> (u64, rate_grant) hashmap \<times> ('d, 'b, 'p) policy_state" where
  "poll_flows env grants st =
     (let turn = poll_all (op_sniff_bytes (ps_options st)) pf_user_id (stream_poll env) (ps_flows st) grants;
          (finished, st1) = fold settle_usage (ft_usage turn) (ft_finished turn, st\<lparr>ps_flows := ft_flows turn\<rparr>)
      in (ft_grants turn, st1\<lparr>ps_flows := fold hm_remove finished (ps_flows st1)\<rparr>))"

definition poll_datagrams ::
  "'p poll_env \<Rightarrow> (u64, rate_grant) hashmap \<Rightarrow> ('d, 'b, 'p) policy_state \<Rightarrow> ('d, 'b, 'p) policy_state" where
  "poll_datagrams env grants st =
     (let turn = poll_all max_udp_payload df_user_id (\<lambda>h. datagram_flow_poll (pe_datagram env h)) (ps_datagram_flows st) grants;
          (finished, st1) = fold settle_usage (ft_usage turn) (ft_finished turn, st\<lparr>ps_datagram_flows := ft_flows turn\<rparr>)
      in st1\<lparr>ps_datagram_flows := fold hm_remove finished (ps_datagram_flows st1)\<rparr>)"

section \<open>Sessions\<close>

definition poll_session :: "'p poll_env \<Rightarrow> policy_codec \<Rightarrow> u64 \<Rightarrow> ('d, 'b, 'p) policy_state \<Rightarrow> ('d, 'b, 'p) policy_state" where
  "poll_session env px h st = (case hm_get (ps_sessions st) h of
     None \<Rightarrow> st
   | Some s \<Rightarrow> (case poll_policy_session (pe_session env h) px s (st\<lparr>ps_sessions := hm_remove h (ps_sessions st)\<rparr>) of
       (Ok u, s', st') \<Rightarrow> st'\<lparr>ps_sessions := hm_insert h s' (ps_sessions st')\<rparr>
     | (Err e, s', st') \<Rightarrow> st'))"

definition drop_orphans :: "('d, 'b, 'p) policy_state \<Rightarrow> ('d, 'b, 'p) policy_state" where
  "drop_orphans st = st\<lparr>ps_flows := hm_retain (\<lambda>h f. hm_contains (ps_sessions st) (pf_session f)) (ps_flows st),
     ps_datagram_flows := hm_retain (\<lambda>h f. hm_contains (ps_sessions st) (df_session f)) (ps_datagram_flows st)\<rparr>"

definition poll_instance ::
  "'p poll_env \<Rightarrow> policy_codec \<Rightarrow> ('d, 'b, 'p) policy_state \<Rightarrow> status \<times> ('d, 'b, 'p) policy_state" where
  "poll_instance env px st =
     (if ps_maintenance st then (STATUS_PENDING, st)
      else
        let st1 = observe_clock (pe_now_utc env) st;
            (quota_stopped, st2) = advance_quota px (pe_now env) st1;
            stopped = expired_users (pe_now_utc env) st1 \<union> quota_stopped;
            st3 = drop_stopped stopped st2;
            now_nanos = elapsed_nanos st3 (pe_now env);
            (scheduled, st4) = schedule st3;
            weights = total_weight st4 scheduled;
            (available, st5) = global_available now_nanos st4;
            (grants, st6) = fold (grant_user now_nanos weights available) scheduled ([], st5);
            (grants1, st7) = poll_flows env grants st6;
            st8 = poll_datagrams env grants1 st7;
            st9 = fold (poll_session env px) (map fst (ps_sessions st8)) st8
        in (STATUS_PENDING, drop_orphans st9))"

end
