(* ===== verification/Policy_Host.thy ===== *)
theory Policy_Host
  imports Policy_Poll
begin

text \<open>
  The calls of the host on the policy module (\<^verbatim>\<open>policy-local/src/lib.rs\<close>): initialization, sessions,
  admission and attachment of flows, shutdown. Which instances the module kit knows, the raw stream
  handles, TOML, the environment and the pump constructor are arguments. Handles come from two counters
  shared by all instances.
\<close>

record ('d, 'b, 'p) policy_host =
  ph_states :: "(u64, ('d, 'b, 'p) policy_state) hashmap"
  ph_session_next :: u64
  ph_flow_next :: u64

record channel_security =
  cs_role :: policy_role
  cs_confidentiality :: bool
  cs_integrity :: bool
  cs_peer_authenticated :: bool
  cs_peer_identity :: "str option"

text \<open>A raw stream: its handle, whether its table pointer is null, and the stream it opens as.\<close>

record 'b stream_ref =
  sr_handle :: u64
  sr_null :: bool
  sr_open :: "'b option"

definition stream_missing :: "'b stream_ref \<Rightarrow> bool" where
  "stream_missing r \<longleftrightarrow> sr_handle r = 0 \<or> sr_null r"

section \<open>Initialization\<close>

definition strip_client_prefix :: "str \<Rightarrow> str option" where
  "strip_client_prefix key = (if starts_with key (str_lit ''client/'') then Some (drop 7 key) else None)"

fun restore_receipts :: "policy_codec \<Rightarrow> (str \<times> bytes) list \<Rightarrow> admin_sequencer \<Rightarrow> (admin_sequencer, status) result" where
  "restore_receipts px [] s = Ok s"
| "restore_receipts px ((key, receipt) # rest) s = (case strip_client_prefix key of
     None \<Rightarrow> Err STATUS_INTERNAL
   | Some client \<Rightarrow> (case sequencer_restore (px_dec_receipt px) s client receipt of
       (Err e, s') \<Rightarrow> Err (admin_status e) | (Ok u, s') \<Rightarrow> restore_receipts px rest s'))"

text \<open>The reply of the scan is awaited: the worker has nothing else to do.\<close>

definition scan_receipts ::
  "('d, 't) redb \<Rightarrow> nat \<Rightarrow> 'd storage_worker \<Rightarrow> ((str \<times> bytes) list, status) result \<times> 'd storage_worker" where
  "scan_receipts db limit w = (case storage_scan w (str_lit ''client/'') limit of
     (Err e, w1) \<Rightarrow> (Err (storage_status e), w1)
   | (Ok token, w1) \<Rightarrow> (case try_recv (worker_step db (Ok ()) Ok w1) token of
       (Received (Reply_Scan r), w2) \<Rightarrow> (map_err storage_status r, w2) | (_, w2) \<Rightarrow> (Err STATUS_IO, w2)))"

definition global_bucket :: "global_rate \<Rightarrow> (token_bucket option, status) result" where
  "global_bucket g = (case g of
     Global_Unlimited \<Rightarrow> Ok None
   | Global_Limited rate burst \<Rightarrow> try_bind (map_err (\<lambda>_. STATUS_INVALID) (bucket_new rate burst 0)) (\<lambda>b. Ok (Some b)))"

definition load_credential_secret :: "(str \<Rightarrow> str option) \<Rightarrow> options \<Rightarrow> (bytes option, status) result" where
  "load_credential_secret env opts = (case op_client opts of
     None \<Rightarrow> Ok None
   | Some source \<Rightarrow>
       try_bind (map_err (\<lambda>_. STATUS_INVALID) (secret_resolve env source)) (\<lambda>secret.
       try_bind (map_err admin_status (credential_parse_hex secret)) (\<lambda>c. Ok (Some c))))"

definition initial_state ::
  "instant \<Rightarrow> token_bucket option \<Rightarrow> options \<Rightarrow> 'd storage_worker \<Rightarrow> admin_sequencer \<Rightarrow> bytes option \<Rightarrow> ('d, 'b, 'p) policy_state" where
  "initial_state started rate opts w s credential =
     \<lparr>ps_started = started, ps_shutting_down = False, ps_maintenance = False, ps_global_rate = rate, ps_user_deficit = [],
      ps_user_cursor = 0, ps_options = opts, ps_storage = w,
      ps_admin = \<lparr>ad_sequencer = s, ad_users = [], ad_loaded_users = {}, ad_credentials = [], ad_loaded_credentials = {}, ad_rules = []\<rparr>,
      ps_pending_control = None, ps_client_credential = credential, ps_sessions = [], ps_flows = [], ps_datagram_flows = [],
      ps_traffic = [], ps_flow_cursor = []\<rparr>"

definition initialize_state ::
  "(str \<Rightarrow> options option) \<Rightarrow> (str \<Rightarrow> str option) \<Rightarrow> ('d, 't) redb \<Rightarrow> (str \<Rightarrow> ('d, storage_error) result) \<Rightarrow> policy_codec \<Rightarrow>
     instant \<Rightarrow> bytes \<Rightarrow> bytes \<Rightarrow> (('d, 'b, 'p) policy_state, status) result" where
  "initialize_state toml env db open_database px started config base =
     try_bind (ok_or (from_utf8 base) STATUS_INVALID) (\<lambda>dir.
     try_bind (map_err (\<lambda>_. STATUS_INVALID) (options_parse toml env config dir)) (\<lambda>opts.
     try_bind (global_bucket (op_global_rate opts)) (\<lambda>rate.
     try_bind (map_err (\<lambda>_. STATUS_IO) (storage_open (so_cache_bytes (op_storage opts)) (so_max_database_bytes (op_storage opts))
         (so_queue_capacity (op_storage opts)) (open_database (so_path (op_storage opts))))) (\<lambda>w.
     try_bind (map_err (\<lambda>_. STATUS_INVALID) (sequencer_new (op_max_admin_clients opts))) (\<lambda>s.
       case scan_receipts db (op_max_admin_clients opts) w of
         (Err e, w1) \<Rightarrow> Err e
       | (Ok receipts, w1) \<Rightarrow>
           try_bind (restore_receipts px receipts s) (\<lambda>s1.
           try_bind (load_credential_secret env opts) (\<lambda>credential.
             Ok (initial_state started rate opts w1 s1 credential))))))))"

definition initialize ::
  "(str \<Rightarrow> options option) \<Rightarrow> (str \<Rightarrow> str option) \<Rightarrow> ('d, 't) redb \<Rightarrow> (str \<Rightarrow> ('d, storage_error) result) \<Rightarrow> policy_codec \<Rightarrow>
     instant \<Rightarrow> u64 \<Rightarrow> bytes \<Rightarrow> bytes \<Rightarrow> ('d, 'b, 'p) policy_host \<Rightarrow> (unit, status) result \<times> ('d, 'b, 'p) policy_host" where
  "initialize toml env db open_database px started inst config base host =
     (case initialize_state toml env db open_database px started config base of
        Err e \<Rightarrow> (Err e, host)
      | Ok st \<Rightarrow> (Ok (), host\<lparr>ph_states := hm_insert inst st (ph_states host)\<rparr>))"

section \<open>Sessions\<close>

definition check_context ::
  "(str \<Rightarrow> channel_security option) \<Rightarrow> (bytes, status) result \<Rightarrow> (policy_role, status) result" where
  "check_context toml context =
     try_bind context (\<lambda>bytes.
     try_bind (ok_or (Option.bind (from_utf8 bytes) toml) STATUS_DENIED) (\<lambda>c.
       if \<not> cs_confidentiality c \<or> \<not> cs_integrity c then Err STATUS_DENIED
       else if cs_role c = Client \<and> \<not> cs_peer_authenticated c then Err STATUS_DENIED
       else if cs_peer_authenticated c \<and> cs_peer_identity c = Some [] then Err STATUS_DENIED
       else Ok (cs_role c)))"

definition auth_request :: "bytes \<Rightarrow> str" where
  "auth_request credential = str_lit ''method = \"auth\"'' @ [10] @ str_lit ''credential = \"'' @ encode_hex credential @ str_lit ''\"'' @ [10]"

definition open_session :: "instant \<Rightarrow> policy_role \<Rightarrow> ('d, 'b, 'p) policy_state \<Rightarrow> (policy_session, status) result" where
  "open_session now role st =
     try_bind (map_err (\<lambda>_. STATUS_RESOURCE) (channel_new (op_max_control_frame_bytes (ps_options st)))) (\<lambda>ch.
     try_bind (case role of
         Server \<Rightarrow> Ok ch
       | Client \<Rightarrow> (case ps_client_credential st of
           None \<Rightarrow> Err STATUS_DENIED
         | Some credential \<Rightarrow> (case queue_secret ch (auth_request credential) of
             (Err e, ch') \<Rightarrow> Err STATUS_RESOURCE | (Ok u, ch') \<Rightarrow> Ok ch'))) (\<lambda>ch1.
       Ok \<lparr>pn_channel = ch1, pn_role = role, pn_auth = Waiting, pn_subscribed = False, pn_last_status = now,
           pn_credential_digest = None, pn_pending_flows = []\<rparr>))"

definition attach_session ::
  "(str \<Rightarrow> channel_security option) \<Rightarrow> instant \<Rightarrow> bool \<Rightarrow> u64 \<Rightarrow> 'b stream_ref \<Rightarrow> (bytes, status) result \<Rightarrow> bool \<Rightarrow>
     ('d, 'b, 'p) policy_host \<Rightarrow> status \<times> u64 option \<times> ('d, 'b, 'p) policy_host" where
  "attach_session toml now known inst stream context output_null host =
     (if \<not> known \<or> stream_missing stream then (STATUS_INVALID, None, host)
      else (case check_context toml context of
        Err e \<Rightarrow> (e, None, host)
      | Ok role \<Rightarrow>
          if output_null \<or> sr_open stream = None then (STATUS_INVALID, None, host)
          else let handle = ph_session_next host; host1 = host\<lparr>ph_session_next := handle + 1\<rparr> in
            if handle = 0 then (STATUS_RESOURCE, None, host1)
            else (case hm_get (ph_states host1) inst of
              None \<Rightarrow> (STATUS_INVALID, None, host1)
            | Some st \<Rightarrow> (case open_session now role st of
                Err e \<Rightarrow> (e, None, host1)
              | Ok s \<Rightarrow> (STATUS_OK, Some handle,
                  host1\<lparr>ph_states := hm_insert inst (st\<lparr>ps_sessions := hm_insert handle s (ps_sessions st)\<rparr>) (ph_states host1)\<rparr>)))))"

section \<open>Admission\<close>

text \<open>The part that both admissions share: a status at once, or the user of a server session.\<close>

definition admission_user ::
  "u64 \<Rightarrow> ('d, 'b, 'p) policy_state \<Rightarrow> status + str \<times> user_record \<times> policy_session" where
  "admission_user session st =
     (if ps_maintenance st then Inl STATUS_PENDING
      else (case hm_get (ps_sessions st) session of
        None \<Rightarrow> Inl STATUS_INVALID
      | Some s \<Rightarrow> (case pn_auth s of
          Authenticated user_id \<Rightarrow>
            if pn_role s = Client then Inl STATUS_OK
            else (case hm_get (ps_users st) user_id of
              None \<Rightarrow> Inl STATUS_DENIED | Some user \<Rightarrow> Inr (user_id, user, s))
        | _ \<Rightarrow> Inl STATUS_PENDING)))"

definition admit_flow_state ::
  "(str \<Rightarrow> rules option) \<Rightarrow> u64 \<Rightarrow> u64 \<Rightarrow> flow_metadata \<Rightarrow> ('d, 'b, 'p) policy_state \<Rightarrow> status \<times> ('d, 'b, 'p) policy_state" where
  "admit_flow_state toml now session md st = (case admission_user session st of
     Inl e \<Rightarrow> (e, st)
   | Inr (user_id, user, s) \<Rightarrow>
       if \<not> flow_available_at st user now \<or> flow_limit_reached st user then (STATUS_DENIED, st)
       else (case destination_policy toml (ad_rules (ps_admin st)) (ps_options st) user md of
         Err e \<Rightarrow> (STATUS_DENIED, st)
       | Ok sniff \<Rightarrow> (STATUS_OK, st\<lparr>ps_sessions := hm_insert session (s\<lparr>pn_pending_flows := pn_pending_flows s @
           [\<lparr>fid_user_id = user_id, fid_credential_digest = pn_credential_digest s, fid_sniff = sniff\<rparr>]\<rparr>) (ps_sessions st)\<rparr>)))"

definition admit_resolved_state ::
  "(str \<Rightarrow> rules option) \<Rightarrow> u64 \<Rightarrow> u64 \<Rightarrow> flow_metadata \<Rightarrow> ('d, 'b, 'p) policy_state \<Rightarrow> status" where
  "admit_resolved_state toml now session md st = (case admission_user session st of
     Inl e \<Rightarrow> e
   | Inr (user_id, user, s) \<Rightarrow>
       if \<not> flow_available_at st user now \<or>
          \<not> is_ok (destination_policy toml (ad_rules (ps_admin st)) (ps_options st) user md) then STATUS_DENIED
       else STATUS_OK)"

definition on_state ::
  "u64 \<Rightarrow> (('d, 'b, 'p) policy_state \<Rightarrow> status \<times> ('d, 'b, 'p) policy_state) \<Rightarrow> ('d, 'b, 'p) policy_host \<Rightarrow> status \<times> ('d, 'b, 'p) policy_host" where
  "on_state inst f host = (case hm_get (ph_states host) inst of
     None \<Rightarrow> (STATUS_INVALID, host)
   | Some st \<Rightarrow> (case f st of (e, st') \<Rightarrow> (e, host\<lparr>ph_states := hm_insert inst st' (ph_states host)\<rparr>)))"

definition admit_flow ::
  "(str \<Rightarrow> rules option) \<Rightarrow> u64 \<Rightarrow> bool \<Rightarrow> u64 \<Rightarrow> u64 \<Rightarrow> (flow_metadata, status) result \<Rightarrow> ('d, 'b, 'p) policy_host \<Rightarrow>
     status \<times> ('d, 'b, 'p) policy_host" where
  "admit_flow toml now known inst session metadata host =
     (if \<not> known \<or> session = 0 then (STATUS_INVALID, host)
      else (case metadata of Err e \<Rightarrow> (e, host) | Ok md \<Rightarrow> on_state inst (admit_flow_state toml now session md) host))"

definition admit_resolved ::
  "(str \<Rightarrow> rules option) \<Rightarrow> u64 \<Rightarrow> bool \<Rightarrow> u64 \<Rightarrow> u64 \<Rightarrow> (flow_metadata, status) result \<Rightarrow> ('d, 'b, 'p) policy_host \<Rightarrow>
     status \<times> ('d, 'b, 'p) policy_host" where
  "admit_resolved toml now known inst session metadata host =
     (if \<not> known \<or> session = 0 then (STATUS_INVALID, host)
      else (case metadata of
        Err e \<Rightarrow> (e, host)
      | Ok md \<Rightarrow>
          if fm_address_type md \<noteq> ADDRESS_IPV4 \<and> fm_address_type md \<noteq> ADDRESS_IPV6 then (STATUS_INVALID, host)
          else on_state inst (\<lambda>st. (admit_resolved_state toml now session md st, st)) host))"

section \<open>Flows\<close>

text \<open>The identity of the next flow of a session; a server session needs an admitted one.\<close>

definition take_identity ::
  "u64 \<Rightarrow> ('d, 'b, 'p) policy_state \<Rightarrow> (flow_identity option, status) result \<times> ('d, 'b, 'p) policy_state" where
  "take_identity session st = (case hm_get (ps_sessions st) session of
     None \<Rightarrow> (Err STATUS_INVALID, st)
   | Some s \<Rightarrow>
       if pn_role s = Server then
         (case pn_pending_flows s of
            [] \<Rightarrow> (Err STATUS_DENIED, st)
          | identity # rest \<Rightarrow> (Ok (Some identity), st\<lparr>ps_sessions := hm_insert session (s\<lparr>pn_pending_flows := rest\<rparr>) (ps_sessions st)\<rparr>))
       else (Ok None, st))"

text \<open>The result of the attachment, the state, and whether a handle has been drawn.\<close>

definition attach_flow_state ::
  "(nat \<Rightarrow> 'p option) \<Rightarrow> instant \<Rightarrow> u64 \<Rightarrow> 'b stream_ref \<Rightarrow> 'b stream_ref \<Rightarrow> u64 \<Rightarrow> ('d, 'b, 'p) policy_state \<Rightarrow>
     status \<times> ('d, 'b, 'p) policy_state \<times> bool" where
  "attach_flow_state pump_new now session stack mux handle st = (case take_identity session st of
     (Err e, st1) \<Rightarrow> (e, st1, False)
   | (Ok identity, st1) \<Rightarrow> (case (sr_open stack, sr_open mux) of
       (Some s, Some m) \<Rightarrow> (case policy_flow_new pump_new now s m (op_sniff_bytes (ps_options st1)) session
             (map_option fid_user_id identity) (Option.bind identity fid_credential_digest) (Option.bind identity fid_sniff) of
           None \<Rightarrow> (STATUS_RESOURCE, st1, False)
         | Some f \<Rightarrow>
             if handle = 0 then (STATUS_RESOURCE, st1, True)
             else (STATUS_OK, st1\<lparr>ps_flows := hm_insert handle f (ps_flows st1)\<rparr>, True))
     | _ \<Rightarrow> (STATUS_INVALID, st1, False)))"

definition attach_datagram_state ::
  "(nat \<Rightarrow> 'p option) \<Rightarrow> u64 \<Rightarrow> 'b stream_ref \<Rightarrow> 'b stream_ref \<Rightarrow> u64 \<Rightarrow> ('d, 'b, 'p) policy_state \<Rightarrow>
     status \<times> ('d, 'b, 'p) policy_state \<times> bool" where
  "attach_datagram_state pump_new session stack mux handle st = (case take_identity session st of
     (Err e, st1) \<Rightarrow> (e, st1, False)
   | (Ok identity, st1) \<Rightarrow> (case (sr_open stack, sr_open mux) of
       (Some s, Some m) \<Rightarrow> (case datagram_flow_new pump_new s m session
             (map_option fid_user_id identity) (Option.bind identity fid_credential_digest) (Option.bind identity fid_sniff) of
           None \<Rightarrow> (STATUS_RESOURCE, st1, False)
         | Some f \<Rightarrow>
             if handle = 0 then (STATUS_RESOURCE, st1, True)
             else (STATUS_OK, st1\<lparr>ps_datagram_flows := hm_insert handle f (ps_datagram_flows st1)\<rparr>, True))
     | _ \<Rightarrow> (STATUS_INVALID, st1, False)))"

definition attach_with ::
  "(u64 \<Rightarrow> ('d, 'b, 'p) policy_state \<Rightarrow> status \<times> ('d, 'b, 'p) policy_state \<times> bool) \<Rightarrow> bool \<Rightarrow> u64 \<Rightarrow> u64 \<Rightarrow> 'b stream_ref \<Rightarrow> 'b stream_ref \<Rightarrow>
     ('d, 'b, 'p) policy_host \<Rightarrow> status \<times> ('d, 'b, 'p) policy_host" where
  "attach_with attach known inst session stack mux host =
     (if \<not> known \<or> session = 0 \<or> stream_missing stack \<or> stream_missing mux then (STATUS_INVALID, host)
      else (case hm_get (ph_states host) inst of
        None \<Rightarrow> (STATUS_INVALID, host)
      | Some st \<Rightarrow> (case attach (ph_flow_next host) st of
          (e, st', drawn) \<Rightarrow> (e, host\<lparr>ph_states := hm_insert inst st' (ph_states host),
            ph_flow_next := ph_flow_next host + (if drawn then 1 else 0)\<rparr>))))"

definition attach_flow where
  "attach_flow pump_new now known inst session stack mux =
     attach_with (attach_flow_state pump_new now session stack mux) known inst session stack mux"

definition attach_datagram_flow where
  "attach_datagram_flow pump_new known inst session stack mux =
     attach_with (attach_datagram_state pump_new session stack mux) known inst session stack mux"

section \<open>Shutdown\<close>

text \<open>\<open>None\<close> when the instance is gone.\<close>

definition shutdown_state ::
  "policy_codec \<Rightarrow> instant \<Rightarrow> ('d, 'b, 'p) policy_state \<Rightarrow> status \<times> ('d, 'b, 'p) policy_state option" where
  "shutdown_state px now st =
     (let st1 = (if ps_shutting_down st then st
            else st\<lparr>ps_shutting_down := True, ps_sessions := [], ps_flows := [], ps_datagram_flows := []\<rparr>);
          st2 = snd (advance_quota px now st1)
      in if ps_traffic st2 \<noteq> [] then (STATUS_PENDING, Some st2)
         else (case poll_shutdown (ps_storage st2) of
           (Ok False, w) \<Rightarrow> (STATUS_PENDING, Some (st2\<lparr>ps_storage := w\<rparr>))
         | (Ok True, w) \<Rightarrow> (STATUS_OK, None)
         | (Err e, w) \<Rightarrow> (STATUS_IO, Some (st2\<lparr>ps_storage := w\<rparr>))))"

definition shutdown_instance :: "policy_codec \<Rightarrow> instant \<Rightarrow> u64 \<Rightarrow> ('d, 'b, 'p) policy_host \<Rightarrow> status \<times> ('d, 'b, 'p) policy_host" where
  "shutdown_instance px now inst host = (case hm_get (ph_states host) inst of
     None \<Rightarrow> (STATUS_INVALID, host)
   | Some st \<Rightarrow> (case shutdown_state px now st of
       (e, Some st') \<Rightarrow> (e, host\<lparr>ph_states := hm_insert inst st' (ph_states host)\<rparr>)
     | (e, None) \<Rightarrow> (e, host\<lparr>ph_states := hm_remove inst (ph_states host)\<rparr>)))"

definition destroy_instance :: "u64 \<Rightarrow> ('d, 'b, 'p) policy_host \<Rightarrow> ('d, 'b, 'p) policy_host" where
  "destroy_instance inst host = host\<lparr>ph_states := hm_remove inst (ph_states host)\<rparr>"

section \<open>Receipts after a restart\<close>

lemma strip_client_prefix_iff: "strip_client_prefix key = Some c \<longleftrightarrow> key = client_key c"
  by (auto simp: strip_client_prefix_def client_key_def starts_with_iff str_lit_def split: if_splits)

lemma sequencer_restore_Ok:
  "sequencer_restore dec s client b = (Ok u, s') \<Longrightarrow>
     \<exists>r. dec b = Some r \<and> s' = s\<lparr>sq_clients := hm_insert client r (sq_clients s)\<rparr>"
  by (auto simp: sequencer_restore_def split: result.splits if_splits option.splits)

lemma restore_receipts_get:
  "restore_receipts px kvs s = Ok s' \<Longrightarrow> distinct (map fst kvs) \<Longrightarrow>
     hm_get (sq_clients s') c = (case map_of kvs (client_key c) of
       Some v \<Rightarrow> px_dec_receipt px v | None \<Rightarrow> hm_get (sq_clients s) c)"
proof (induction kvs arbitrary: s)
  case (Cons kv kvs)
  obtain key v where kv: "kv = (key, v)" by force
  with Cons.prems(1) obtain client where client: "strip_client_prefix key = Some client"
    by (cases "strip_client_prefix key") simp_all
  obtain q s1 where q: "sequencer_restore (px_dec_receipt px) s client v = (q, s1)" by force
  with Cons.prems(1) kv client obtain u where u: "q = Ok u" by (cases q) simp_all
  from sequencer_restore_Ok [OF q [unfolded u]] obtain r where r: "px_dec_receipt px v = Some r"
    and s1: "s1 = s\<lparr>sq_clients := hm_insert client r (sq_clients s)\<rparr>" by blast
  from Cons.prems kv client q u have rest: "restore_receipts px kvs s1 = Ok s'" and d: "distinct (map fst kvs)" and new: "key \<notin> fst ` set kvs"
    by auto
  have key: "key = client_key client" using client by (simp add: strip_client_prefix_iff)
  have inj: "client_key c = client_key client \<longleftrightarrow> c = client" by (simp add: client_key_def)
  have "map_of kvs (client_key client) = None" using new key by (simp add: map_of_eq_None_iff)
  with Cons.IH [OF rest d] show ?case
    by (cases "c = client") (simp_all add: kv key inj s1 r split: option.split)
qed simp

lemma scan_receipts_Ok:
  assumes "scan_receipts db limit \<lparr>sw_capacity = n, sw_queue = [], sw_next_token = 0, sw_replies = [], sw_database = Some d,
      sw_stopping = None, sw_joinable = True\<rparr> = (Ok kvs, w)"
  shows "scan_values db d (str_lit ''client/'') limit = Ok kvs"
  using assms
  by (auto simp: scan_receipts_def storage_scan_def guarded_send_def storage_send_def worker_step_def execute_def try_recv_def
      split: result.splits if_splits)

lemma initialize_state_Ok:
  assumes "initialize_state toml env db open_database px started config base = Ok st"
  obtains w s1 kvs w1 rate credential where
    "storage_open (so_cache_bytes (op_storage (ps_options st))) (so_max_database_bytes (op_storage (ps_options st)))
       (so_queue_capacity (op_storage (ps_options st))) (open_database (so_path (op_storage (ps_options st)))) = Ok w"
    "scan_receipts db (op_max_admin_clients (ps_options st)) w = (Ok kvs, w1)"
    "restore_receipts px kvs \<lparr>sq_max_clients = op_max_admin_clients (ps_options st), sq_clients = []\<rparr> = Ok s1"
    "st = initial_state started rate (ps_options st) w1 s1 credential"
proof -
  let ?rest = "\<lambda>opts rate w s. case scan_receipts db (op_max_admin_clients opts) w of
      (Err e, w1) \<Rightarrow> Err e
    | (Ok receipts, w1) \<Rightarrow> try_bind (restore_receipts px receipts s) (\<lambda>s1.
        try_bind (load_credential_secret env opts) (\<lambda>credential. Ok (initial_state started rate opts w1 s1 credential)))"
  obtain opts rate w s where
    open_: "storage_open (so_cache_bytes (op_storage opts)) (so_max_database_bytes (op_storage opts))
       (so_queue_capacity (op_storage opts)) (open_database (so_path (op_storage opts))) = Ok w"
    and new: "sequencer_new (op_max_admin_clients opts) = Ok s" and rest: "?rest opts rate w s = Ok st"
    using assms by (auto simp: initialize_state_def try_bind_Ok_iff)
  obtain q w1 where scan: "scan_receipts db (op_max_admin_clients opts) w = (q, w1)" by force
  with rest obtain kvs where q: "q = Ok kvs" by (cases q) simp_all
  with rest scan obtain s1 credential where "restore_receipts px kvs s = Ok s1" "st = initial_state started rate opts w1 s1 credential"
    by (auto simp: try_bind_Ok_iff)
  note facts = open_ new scan [unfolded q] this
  have "s = \<lparr>sq_max_clients = op_max_admin_clients opts, sq_clients = []\<rparr>"
    using new by (auto simp: sequencer_new_def split: if_splits)
  with facts that show ?thesis by (simp add: initial_state_def)
qed

section \<open>Properties\<close>

text \<open>C15. A restart forgets no acknowledged request and invents none: the receipts of a freshly
  initialized instance are exactly those that the database holds.\<close>

theorem restart_restores_receipts:
  assumes "redb_ok db contents view"
    and "initialize_state toml env db open_database px started config base = Ok (st :: ('d, 'b, 'p) policy_state)"
    and "open_database (so_path (op_storage (ps_options st))) = Ok d"
  shows "hm_get (sq_clients (ad_sequencer (ps_admin st))) client = Option.bind (contents d (client_key client)) (px_dec_receipt px)"
proof -
  obtain w s1 kvs w1 rate credential where w: "storage_open (so_cache_bytes (op_storage (ps_options st))) (so_max_database_bytes (op_storage (ps_options st)))
       (so_queue_capacity (op_storage (ps_options st))) (open_database (so_path (op_storage (ps_options st)))) = Ok w"
    and scan: "scan_receipts db (op_max_admin_clients (ps_options st)) w = (Ok kvs, w1)"
    and rest: "restore_receipts px kvs \<lparr>sq_max_clients = op_max_admin_clients (ps_options st), sq_clients = []\<rparr> = Ok s1"
    and st: "st = initial_state started rate (ps_options st) w1 s1 credential"
    by (rule initialize_state_Ok [OF assms(2)])
  have s1: "ad_sequencer (ps_admin st) = s1" by (subst st) (simp add: initial_state_def)
  from w assms(3) have "w = \<lparr>sw_capacity = so_queue_capacity (op_storage (ps_options st)), sw_queue = [], sw_next_token = 0,
      sw_replies = [], sw_database = Some d, sw_stopping = None, sw_joinable = True\<rparr>"
    by (auto simp: storage_open_def split: if_splits)
  with scan have sv: "scan_values db d (str_lit ''client/'') (op_max_admin_clients (ps_options st)) = Ok kvs"
    by (intro scan_receipts_Ok [where n = "so_queue_capacity (op_storage (ps_options st))" and w = w1]) simp
  have dist: "distinct (map fst kvs)" using scan_values_Ok(1) [OF assms(1) sv] by (simp add: strict_sorted_iff)
  have pre: "starts_with (client_key client) (str_lit ''client/'')" by (simp add: client_key_def starts_with_iff)
  have "map_of kvs (client_key client) = contents d (client_key client)"
  proof (cases "contents d (client_key client)")
    case None
    with scan_values_Ok(3) [OF assms(1) sv] show ?thesis by (auto simp: map_of_eq_None_iff)
  next
    case (Some v)
    with pre scan_values_Ok(3) [OF assms(1) sv] have "(client_key client, v) \<in> set kvs" by blast
    with dist Some show ?thesis by simp
  qed
  with restore_receipts_get [OF rest dist, of client] show ?thesis
    by (cases "contents d (client_key client)") (simp_all add: s1)
qed

definition example_stored :: "(str \<times> bytes) list" where
  "example_stored = [(client_key [97], [9])]"

lemma example_options_valid: "options_parse (\<lambda>_. Some example_options) (\<lambda>_. None) [] [47] = Ok example_options"
proof -
  have "rules_validate (op_rules example_options) = Ok ()" by code_simp
  moreover have "\<not> limits_inconsistent example_options" "\<not> storage_inconsistent (op_storage example_options)"
    "\<not> global_rate_inconsistent (op_global_rate example_options)" "op_client example_options = None"
    "op_server_id example_options = [115]" "is_absolute (so_path (op_storage example_options))"
    by (simp_all add: limits_inconsistent_def storage_inconsistent_def example_options_def is_absolute_def starts_with_iff str_lit_def)
  moreover have "from_utf8 [] = Some []" by code_simp
  ultimately show ?thesis by (simp add: options_parse_def options_validate_def)
qed

lemma example_initialize:
  "\<exists>st :: ((str \<times> bytes) list, unit, unit) policy_state.
     initialize_state (\<lambda>_. Some example_options) (\<lambda>_. None) example_redb (\<lambda>_. Ok example_stored) example_admin_codec 0 [] [47] = Ok st \<and>
     ps_options st = example_options"
proof -
  let ?w = "\<lparr>sw_capacity = 8, sw_queue = [], sw_next_token = 0, sw_replies = [], sw_database = Some example_stored,
    sw_stopping = None, sw_joinable = True\<rparr>"
  have "scan_values example_redb example_stored (str_lit ''client/'') 2 = Ok [(client_key [97], [9])]" by code_simp
  moreover have "validate_prefix (str_lit ''client/'') = Ok ()" by code_simp
  ultimately have "\<exists>w. scan_receipts example_redb 2 ?w = (Ok [(client_key [97], [9])], w)"
    by (simp add: scan_receipts_def storage_scan_def guarded_send_def storage_send_def worker_step_def execute_def try_recv_def)
  moreover have "strip_client_prefix (client_key [97]) = Some [97]" by (simp add: strip_client_prefix_iff)
  then have "\<exists>s. restore_receipts example_admin_codec [(client_key [97], [9])] \<lparr>sq_max_clients = 2, sq_clients = []\<rparr> = Ok s"
    by (simp add: sequencer_restore_def example_client example_admin_codec_def hm_contains_def hm_len_def hm_get_def)
  moreover have "from_utf8 [47] = Some [47]" by code_simp
  moreover have "op_global_rate example_options = Global_Limited 100000 65507" "op_max_admin_clients example_options = 2"
    "op_client example_options = None" "so_cache_bytes (op_storage example_options) = 1"
    "so_max_database_bytes (op_storage example_options) = 1" "so_queue_capacity (op_storage example_options) = 8"
    by (simp_all add: example_options_def)
  ultimately show ?thesis
    by (auto simp del: restore_receipts.simps simp: initialize_state_def example_options_valid global_bucket_def bucket_new_def
        storage_open_def sequencer_new_def load_credential_secret_def initial_state_def)
qed

theorem restart_restores_receipts_witness:
  "\<exists>st :: ((str \<times> bytes) list, unit, unit) policy_state.
     initialize_state (\<lambda>_. Some example_options) (\<lambda>_. None) example_redb (\<lambda>_. Ok example_stored) example_admin_codec 0 [] [47] = Ok st \<and>
     hm_get (sq_clients (ad_sequencer (ps_admin st))) [97] = Some example_receipt"
proof -
  obtain st :: "((str \<times> bytes) list, unit, unit) policy_state" where st:
    "initialize_state (\<lambda>_. Some example_options) (\<lambda>_. None) example_redb (\<lambda>_. Ok example_stored) example_admin_codec 0 [] [47] = Ok st"
    using example_initialize by blast
  have "Option.bind (map_of example_stored (client_key [97])) (px_dec_receipt example_admin_codec) = Some example_receipt"
    by (simp add: example_stored_def example_admin_codec_def)
  with restart_restores_receipts [OF example_redb_ok st, of example_stored "[97]"] st show ?thesis by auto
qed

end
