(* ===== verification/Policy_Run.thy ===== *)
theory Policy_Run
  imports Policy_Host
begin

text \<open>
  Runs of a policy instance: every interleaving of sessions, admissions, attachments, polls, control
  requests, turns of the storage worker and shutdown. The invariant is that a flow carries the
  identity under which it was admitted.
\<close>

section \<open>Identities\<close>

text \<open>User and credential of every flow and of every admitted flow that is still to be attached.\<close>

definition flow_ids :: "('d, 'b, 'p) policy_state \<Rightarrow> (str option \<times> str option) set" where
  "flow_ids st = (\<lambda>(h, f). (pf_user_id f, pf_credential_digest f)) ` set (ps_flows st) \<union>
     (\<lambda>(h, f). (df_user_id f, df_credential_digest f)) ` set (ps_datagram_flows st)"

definition session_ids :: "policy_session \<Rightarrow> (str option \<times> str option) set" where
  "session_ids s = (\<lambda>i. (Some (fid_user_id i), fid_credential_digest i)) ` set (pn_pending_flows s)"

definition identities :: "('d, 'b, 'p) policy_state \<Rightarrow> (str option \<times> str option) set" where
  "identities st = flow_ids st \<union> (\<Union>(h, s) \<in> set (ps_sessions st). session_ids s)"

text \<open>The tables that hold identities are the same.\<close>

definition same_tables :: "('d, 'b, 'p) policy_state \<Rightarrow> ('d, 'b, 'p) policy_state \<Rightarrow> bool" where
  "same_tables st st' \<longleftrightarrow> ps_flows st' = ps_flows st \<and> ps_datagram_flows st' = ps_datagram_flows st \<and> ps_sessions st' = ps_sessions st"

lemma same_tables_refl [simp]: "same_tables st st"
  by (simp add: same_tables_def)

lemma same_tables_trans: "same_tables st st' \<Longrightarrow> same_tables st' st'' \<Longrightarrow> same_tables st st''"
  by (simp add: same_tables_def)

lemma same_tables_updates [simp]:
  "same_tables st (st'\<lparr>ps_storage := w\<rparr>) = same_tables st st'" "same_tables st (st'\<lparr>ps_admin := a\<rparr>) = same_tables st st'"
  "same_tables st (st'\<lparr>ps_traffic := t\<rparr>) = same_tables st st'" "same_tables st (st'\<lparr>ps_user_deficit := d\<rparr>) = same_tables st st'"
  "same_tables st (st'\<lparr>ps_flow_cursor := c\<rparr>) = same_tables st st'" "same_tables st (st'\<lparr>ps_global_rate := g\<rparr>) = same_tables st st'"
  "same_tables st (st'\<lparr>ps_user_cursor := uc\<rparr>) = same_tables st st'" "same_tables st (st'\<lparr>ps_pending_control := p\<rparr>) = same_tables st st'"
  "same_tables st (st'\<lparr>ps_maintenance := b\<rparr>) = same_tables st st'" "same_tables st (set_users us st') = same_tables st st'"
  by (simp_all add: same_tables_def set_users_def)

lemma same_tables_identities: "same_tables st st' \<Longrightarrow> identities st' = identities st"
  by (simp add: same_tables_def identities_def flow_ids_def)

section \<open>Traffic\<close>

abbreviation same_turn :: "('d, 'b, 'p) quota_turn \<Rightarrow> ('d, 'b, 'p) quota_turn \<Rightarrow> bool" where
  "same_turn q q' \<equiv> same_tables (qt_state q) (qt_state q')"

lemma same_turn_simps [simp]:
  "same_turn q (put_traffic u t q') = same_turn q q'" "same_turn q (stop_user u q') = same_turn q q'"
  "same_turn q (stop_active a u q') = same_turn q q'" "same_turn q (drop_traffic u q') = same_turn q q'"
  by (simp_all add: put_traffic_def stop_user_def stop_active_def drop_traffic_def)

lemma receive_write_tables: "receive_write token st = (r, st') \<Longrightarrow> same_tables st st'"
  by (auto simp: receive_write_def split: prod.splits)

lemma store_record_tables: "store_record px u r st = (k, st') \<Longrightarrow> same_tables st st'"
  by (auto simp: store_record_def split: result.splits prod.splits)

definition handed_same :: "('d, 'b, 'p) quota_turn \<Rightarrow> ('d, 'b, 'p) quota_turn + user_traffic \<times> ('d, 'b, 'p) quota_turn \<Rightarrow> bool" where
  "handed_same q s = (case s of Inl q' \<Rightarrow> same_turn q q' | Inr (t, q') \<Rightarrow> same_turn q q')"

lemma open_traffic_tables: "handed_same q (open_traffic now active u q)"
  by (simp add: handed_same_def open_traffic_def split: option.split result.split)

lemma settle_debit_tables: "handed_same q (settle_debit u t q)"
  by (auto simp: handed_same_def settle_debit_def Let_def dest!: receive_write_tables
      split: option.split prod.split recv.split reply.split result.split)

lemma settle_refund_tables: "handed_same q (settle_refund now active u t q)"
  by (auto simp: handed_same_def settle_refund_def Let_def dest!: receive_write_tables
      split: option.split prod.split recv.split reply.split result.split)

lemma return_credit_tables: "same_turn q (return_credit px now active u t q)"
  by (auto simp: return_credit_def Let_def dest!: store_record_tables split: option.split prod.split result.split)

lemma buy_credit_tables: "same_turn q (buy_credit px u t q)"
  by (auto simp: buy_credit_def Let_def dest!: store_record_tables split: option.split prod.split result.split quota_error.split)

lemma advance_user_tables: "same_turn q (advance_user px now active u q)"
proof -
  let ?a = "u \<in> active"
  note o = open_traffic_tables [of q now ?a u] and s = settle_debit_tables and r = settle_refund_tables
  show ?thesis
  proof (cases "open_traffic now ?a u q")
    case (Inl q1)
    with o show ?thesis by (simp add: advance_user_def handed_same_def)
  next
    case o1: (Inr p)
    obtain t1 q1 where p: "p = (t1, q1)" by force
    have q1: "same_turn q q1" using o o1 p by (simp add: handed_same_def)
    show ?thesis
    proof (cases "ut_failed t1")
      case True
      with o1 p q1 show ?thesis by (simp add: advance_user_def)
    next
      case nf: False
      show ?thesis
      proof (cases "settle_debit u t1 q1")
        case (Inl q2)
        with o1 p nf s [of q1 u t1] q1 show ?thesis
          by (auto simp: advance_user_def handed_same_def intro: same_tables_trans)
      next
        case s1: (Inr p2)
        obtain t2 q2 where p2: "p2 = (t2, q2)" by force
        have q2: "same_turn q q2" using s [of q1 u t1] s1 p2 q1 by (auto simp: handed_same_def intro: same_tables_trans)
        obtain x where x: "settle_refund now ?a u t2 q2 = x" by blast
        with r [of q2 now ?a u t2] have "case x of Inl q3 \<Rightarrow> same_turn q q3 | Inr (t3, q3) \<Rightarrow> same_turn q q3"
          by (auto simp: handed_same_def split: sum.splits intro: same_tables_trans [OF q2])
        with x o1 p nf s1 p2 show ?thesis
          by (auto simp: advance_user_def Let_def split: sum.splits
              intro: same_tables_trans [OF _ return_credit_tables] same_tables_trans [OF _ buy_credit_tables])
      qed
    qed
  qed
qed

lemma advance_users_tables: "same_turn q (fold (advance_user px now active) us q)"
  by (induction us arbitrary: q) (auto intro: same_tables_trans advance_user_tables)

lemma forget_all_tables: "same_tables st (fold forget_traffic us st)"
proof (induction us arbitrary: st)
  case (Cons u us)
  have "same_tables st (forget_traffic u st)" by (simp add: forget_traffic_def)
  from same_tables_trans [OF this Cons] show ?case by simp
qed simp

lemma advance_quota_tables: "same_tables st (snd (advance_quota px now st))"
proof -
  let ?q = "\<lparr>qt_state = st, qt_stopped = {}, qt_removed = []\<rparr>"
  let ?q' = "fold (advance_user px now (set (flow_users st))) (remdups (flow_users st @ map fst (ps_traffic st))) ?q"
  have "same_tables st (qt_state ?q')" using advance_users_tables [of ?q] by simp
  from same_tables_trans [OF this forget_all_tables] show ?thesis by (simp add: advance_quota_def Let_def)
qed

section \<open>The steps of a poll\<close>

lemma drop_identities: "identities (drop_user_flows us st) \<subseteq> identities st" "identities (drop_orphans st) \<subseteq> identities st"
  "identities (drop_credential_flows ds st) \<subseteq> identities st"
  by (auto simp: identities_def flow_ids_def drop_user_flows_def drop_orphans_def drop_credential_flows_def hm_retain_def)

lemma grant_user_tables: "same_tables st (snd (grant_user n w a uh (g, st)))"
  by (auto simp: grant_user_def Let_def split: prod.split option.split result.split)

lemma grant_users_tables: "same_tables (snd gs) (snd (fold (grant_user n w a) us gs))"
proof (induction us arbitrary: gs)
  case (Cons u us)
  have "same_tables (snd gs) (snd (grant_user n w a u gs))" using grant_user_tables [of "snd gs" n w a u "fst gs"] by simp
  from same_tables_trans [OF this Cons] show ?case by simp
qed simp

lemma settle_usage_tables: "same_tables st (snd (settle_usage x (fs, st)))"
  by (auto simp: settle_usage_def refund_rate_def charge_flow_def Let_def
      split: prod.split option.split result.split)

lemma settle_all_tables: "same_tables (snd fs) (snd (fold settle_usage xs fs))"
proof (induction xs arbitrary: fs)
  case (Cons x xs)
  have "same_tables (snd fs) (snd (settle_usage x fs))" using settle_usage_tables [of "snd fs" x "fst fs"] by simp
  from same_tables_trans [OF this Cons] show ?case by simp
qed simp

text \<open>Polling flows keeps what a flow is known by.\<close>

lemma poll_one_flows:
  assumes "\<And>h a b c f r f'. poll_flow h a b c f = (r, f') \<Longrightarrow> key f' = key f"
  shows "(\<lambda>(h, f). key f) ` set (ft_flows (poll_one work user_of poll_flow hf turn)) = insert (key (snd hf)) ((\<lambda>(h, f). key f) ` set (ft_flows turn))"
proof -
  obtain h f where hf: "hf = (h, f)" by force
  obtain grant grants where g: "flow_grant work (user_of f) h (ft_grants turn) = (grant, grants)" by force
  obtain r f' where r: "poll_flow h (unat (rg_stack_to_mux grant)) (unat (rg_mux_to_stack grant)) (unat (rg_combined grant)) f = (r, f')" by force
  from assms [OF r] show ?thesis
    by (auto simp: hf poll_one_def g r Let_def split: poll.split result.split prod.split)
qed

lemma poll_all_flows:
  assumes "\<And>h a b c f r f'. poll_flow h a b c f = (r, f') \<Longrightarrow> key f' = key f"
  shows "(\<lambda>(h, f). key f) ` set (ft_flows (poll_all work user_of poll_flow flows grants)) = (\<lambda>(h, f). key f) ` set flows"
proof -
  have "(\<lambda>(h, f). key f) ` set (ft_flows (fold (poll_one work user_of poll_flow) flows turn)) =
      (\<lambda>(h, f). key f) ` set flows \<union> (\<lambda>(h, f). key f) ` set (ft_flows turn)" for turn
  proof (induction flows arbitrary: turn)
    case (Cons hf flows)
    then show ?case by (auto simp: poll_one_flows [OF assms] split: prod.splits)
  qed simp
  then show ?thesis by (simp add: poll_all_def)
qed

text \<open>What the pumps do to a flow.\<close>

lemma write_prefix_keeps:
  "write_prefix io n s f = (r, f', out) \<Longrightarrow> (pf_user_id f', pf_credential_digest f') = (pf_user_id f, pf_credential_digest f)"
  by (auto simp: write_prefix_def Let_def split: if_splits io_write.splits)

lemma poll_sniff_keeps:
  "poll_sniff io n f = (r, f', out) \<Longrightarrow> (pf_user_id f', pf_credential_digest f') = (pf_user_id f, pf_credential_digest f)"
  by (auto simp: poll_sniff_def dest!: write_prefix_keeps split: option.splits prod.splits sniff_end.splits)

lemma policy_flow_poll_keeps:
  assumes "policy_flow_poll io a b c f = (r, f', out, pumped)"
  shows "(pf_user_id f', pf_credential_digest f') = (pf_user_id f, pf_credential_digest f)"
proof -
  obtain q f1 o1 where q: "poll_sniff io (min b c) f = (q, f1, o1)" by (metis prod_cases3)
  from poll_sniff_keeps [OF q] assms q show ?thesis
    by (auto simp: policy_flow_poll_def Let_def split: poll.splits result.splits prod.splits if_splits)
qed

lemma datagram_flow_poll_keeps:
  "datagram_flow_poll io a b c f = (r, f') \<Longrightarrow> (df_user_id f', df_credential_digest f') = (df_user_id f, df_credential_digest f)"
  by (auto simp: datagram_flow_poll_def Let_def split: result.splits prod.splits if_splits)

lemma fold_remove_subset: "set (fold hm_remove ks m) \<subseteq> set m"
proof (induction ks arbitrary: m)
  case (Cons k ks)
  have "set (hm_remove k m) \<subseteq> set m" by (auto simp: hm_remove_def AList.delete_eq)
  with Cons [of "hm_remove k m"] show ?case by auto
qed simp

lemma poll_flows_identities: "identities (snd (poll_flows env grants st)) \<subseteq> identities st"
proof -
  let ?poll = "stream_poll env"
  let ?key = "\<lambda>f. (pf_user_id f, pf_credential_digest f)"
  let ?turn = "poll_all (op_sniff_bytes (ps_options st)) pf_user_id ?poll (ps_flows st) grants"
  obtain fin st1 where s: "fold settle_usage (ft_usage ?turn) (ft_finished ?turn, st\<lparr>ps_flows := ft_flows ?turn\<rparr>) = (fin, st1)" by force
  have "same_tables (st\<lparr>ps_flows := ft_flows ?turn\<rparr>) st1"
    using settle_all_tables [of "(ft_finished ?turn, st\<lparr>ps_flows := ft_flows ?turn\<rparr>)" "ft_usage ?turn"] s by simp
  then have st1: "ps_flows st1 = ft_flows ?turn" "ps_datagram_flows st1 = ps_datagram_flows st" "ps_sessions st1 = ps_sessions st"
    by (simp_all add: same_tables_def)
  have "?key f' = ?key f" if "?poll h a b c f = (r, f')" for h a b c f r f'
    using that by (auto simp: stream_poll_def split: prod.splits dest: policy_flow_poll_keeps)
  from poll_all_flows [of ?poll ?key, OF this]
  have "(\<lambda>(h, f). ?key f) ` set (ft_flows ?turn) = (\<lambda>(h, f). ?key f) ` set (ps_flows st)" .
  moreover have "set (fold hm_remove fin (ft_flows ?turn)) \<subseteq> set (ft_flows ?turn)" by (rule fold_remove_subset)
  ultimately have "(\<lambda>(h, f). ?key f) ` set (fold hm_remove fin (ft_flows ?turn)) \<subseteq> (\<lambda>(h, f). ?key f) ` set (ps_flows st)" by blast
  then show ?thesis by (auto simp: poll_flows_def Let_def s identities_def flow_ids_def st1)
qed

lemma poll_datagrams_identities: "identities (poll_datagrams env grants st) \<subseteq> identities st"
proof -
  let ?poll = "\<lambda>h. datagram_flow_poll (pe_datagram env h)"
  let ?key = "\<lambda>f. (df_user_id f, df_credential_digest f)"
  let ?turn = "poll_all max_udp_payload df_user_id ?poll (ps_datagram_flows st) grants"
  obtain fin st1 where s: "fold settle_usage (ft_usage ?turn) (ft_finished ?turn, st\<lparr>ps_datagram_flows := ft_flows ?turn\<rparr>) = (fin, st1)" by force
  have "same_tables (st\<lparr>ps_datagram_flows := ft_flows ?turn\<rparr>) st1"
    using settle_all_tables [of "(ft_finished ?turn, st\<lparr>ps_datagram_flows := ft_flows ?turn\<rparr>)" "ft_usage ?turn"] s by simp
  then have st1: "ps_flows st1 = ps_flows st" "ps_datagram_flows st1 = ft_flows ?turn" "ps_sessions st1 = ps_sessions st"
    by (simp_all add: same_tables_def)
  from poll_all_flows [of ?poll ?key, OF datagram_flow_poll_keeps]
  have "(\<lambda>(h, f). ?key f) ` set (ft_flows ?turn) = (\<lambda>(h, f). ?key f) ` set (ps_datagram_flows st)" .
  moreover have "set (fold hm_remove fin (ft_flows ?turn)) \<subseteq> set (ft_flows ?turn)" by (rule fold_remove_subset)
  ultimately have "(\<lambda>(h, f). ?key f) ` set (fold hm_remove fin (ft_flows ?turn)) \<subseteq> (\<lambda>(h, f). ?key f) ` set (ps_datagram_flows st)" by blast
  then show ?thesis by (auto simp: poll_datagrams_def Let_def s identities_def flow_ids_def st1)
qed

section \<open>Sessions\<close>

text \<open>A step of a session leaves the tables alone and keeps the admitted flows of the session.\<close>

definition quiet :: "policy_session \<Rightarrow> ('d, 'b, 'p) policy_state \<Rightarrow> ('d, 'b, 'p) session_result \<Rightarrow> bool" where
  "quiet s st r \<longleftrightarrow> (case r of (q, s', st') \<Rightarrow> pn_pending_flows s' = pn_pending_flows s \<and> same_tables st st')"

lemma quietI [intro]: "pn_pending_flows s' = pn_pending_flows s \<Longrightarrow> same_tables st st' \<Longrightarrow> quiet s st (q, s', st')"
  by (simp add: quiet_def)

lemma quiet_trans: "quiet s st (q, s', st') \<Longrightarrow> quiet s' st' r \<Longrightarrow> quiet s st r"
  by (auto simp: quiet_def split: prod.splits intro: same_tables_trans)

lemma with_storage_tables: "with_storage call st = (r, st') \<Longrightarrow> same_tables st st'"
  by (auto simp: with_storage_def split: prod.splits)

lemma on_channel_pending: "on_channel call s = (r, s') \<Longrightarrow> pn_pending_flows s' = pn_pending_flows s"
  by (auto simp: on_channel_def split: prod.splits)

lemma poll_messages_pending: "poll_messages env s = (r, s') \<Longrightarrow> pn_pending_flows s' = pn_pending_flows s"
  by (auto simp: poll_messages_def split: prod.splits poll.splits result.splits)

lemma handle_client_request_quiet: "quiet s st (handle_client_request env px m s st)"
  by (auto simp: handle_client_request_def handle_auth_def handle_status_request_def handle_subscribe_def Let_def
      dest!: with_storage_tables on_channel_pending split: result.split client_request.split auth_state.split prod.split)

lemma handle_server_status_pending: "handle_server_status env m s = (r, s') \<Longrightarrow> pn_pending_flows s' = pn_pending_flows s"
  by (auto simp: handle_server_status_def split: option.splits prod.splits if_splits)

lemma handle_messages_quiet: "quiet s st (handle_messages env px ms s st)"
proof (induction ms arbitrary: s st)
  case (Cons m ms)
  let ?r = "case pn_role s of Server \<Rightarrow> handle_client_request env px m s st
    | Client \<Rightarrow> (case handle_server_status env m s of (r, s1) \<Rightarrow> (r, s1, st))"
  obtain q s1 st1 where r: "?r = (q, s1, st1)" by (metis prod_cases3)
  have "quiet s st ?r"
    using handle_client_request_quiet [of s st env px m]
    by (cases "pn_role s") (auto dest!: handle_server_status_pending split: prod.split)
  then have one: "quiet s st (q, s1, st1)" unfolding r .
  show ?case
  proof (cases q)
    case (Ok u)
    with r have "handle_messages env px (m # ms) s st = handle_messages env px ms s1 st1" by simp
    with quiet_trans [OF one Cons] show ?thesis by simp
  next
    case (Err e)
    with r one show ?thesis by (simp add: quiet_def)
  qed
qed auto

lemma deny_quiet: "quiet s st (deny reason s st)"
  by (auto simp: deny_def queue_denied_def dest!: on_channel_pending split: prod.split)

lemma finish_authentication_quiet: "quiet s st (finish_authentication env user (s\<lparr>pn_auth := a\<rparr>) st)"
  by (auto simp: finish_authentication_def Let_def dest!: on_channel_pending split: result.split prod.split)

lemma check_credential_quiet: "quiet s st (check_credential px digest value s st)"
  by (auto simp: check_credential_def deny_quiet dest!: with_storage_tables split: option.split result.split prod.split)

lemma check_user_quiet: "quiet s st (check_user env px user_id value s st)"
  by (auto simp: check_user_def Let_def deny_quiet finish_authentication_quiet dest!: with_storage_tables
      split: result.split prod.split)

lemma quiet_received: "receive_write token st = (r, st1) \<Longrightarrow> quiet s st1 x \<Longrightarrow> quiet s st x"
  by (rule quiet_trans [of s st "Ok ()" s st1]) (auto dest: receive_write_tables)

lemma advance_authentication_quiet: "quiet s st (advance_authentication env px s st)"
proof (cases "pn_auth s")
  case (Credential_Lookup digest token)
  obtain r st1 where r: "receive_write token st = (r, st1)" by force
  have "quiet s st1 (case r of Received (Reply_Get (Ok (Some value))) \<Rightarrow> check_credential px digest value s st1
      | Received (Reply_Get (Ok None)) \<Rightarrow> deny (str_lit ''credential-unknown'') s st1 | Empty \<Rightarrow> (Ok (), s, st1)
      | _ \<Rightarrow> (Err STATUS_IO, s\<lparr>pn_auth := Waiting\<rparr>, st1))"
    by (auto simp: check_credential_quiet deny_quiet split: recv.split reply.split result.split option.split)
  from quiet_received [OF r this] Credential_Lookup r show ?thesis
    by (simp add: advance_authentication_def)
next
  case (User_Lookup user_id token)
  obtain r st1 where r: "receive_write token st = (r, st1)" by force
  have "quiet s st1 (case r of Received (Reply_Get (Ok (Some value))) \<Rightarrow> check_user env px user_id value s st1
      | Received (Reply_Get (Ok None)) \<Rightarrow> deny (str_lit ''user-unknown'') s st1 | Empty \<Rightarrow> (Ok (), s, st1)
      | _ \<Rightarrow> (Err STATUS_IO, s\<lparr>pn_auth := Waiting\<rparr>, st1))"
    by (auto simp: check_user_quiet deny_quiet split: recv.split reply.split result.split option.split)
  from quiet_received [OF r this] User_Lookup r show ?thesis
    by (simp add: advance_authentication_def)
next
  case (Clock_Update user token)
  obtain r st1 where r: "receive_write token st = (r, st1)" by force
  have "quiet s st1 (case r of Received (Reply_Write (Ok u)) \<Rightarrow> finish_authentication env user (s\<lparr>pn_auth := Waiting\<rparr>) st1
      | Empty \<Rightarrow> (Ok (), s, st1) | _ \<Rightarrow> (Err STATUS_IO, s\<lparr>pn_auth := Waiting\<rparr>, st1))"
    by (auto simp: finish_authentication_quiet split: recv.split reply.split result.split)
  from quiet_received [OF r this] Clock_Update r show ?thesis
    by (simp add: advance_authentication_def)
qed (auto simp: advance_authentication_def)

lemma send_snapshot_quiet: "quiet s st (send_snapshot env s st)"
  by (auto simp: send_snapshot_def dest!: on_channel_pending split: auth_state.split result.split prod.split)

lemma poll_policy_session_quiet: "quiet s st (poll_policy_session env px s st)"
proof -
  obtain q s1 where m: "poll_messages env s = (q, s1)" by force
  have one: "quiet s st (Ok (), s1, st)" using poll_messages_pending [OF m] by auto
  show ?thesis
  proof (cases q)
    case (Err e)
    with m one show ?thesis by (simp add: poll_policy_session_def quiet_def)
  next
    case (Ok ms)
    obtain r2 s2 st2 where h: "handle_messages env px ms s1 st = (r2, s2, st2)" by (metis prod_cases3)
    have two: "quiet s st (r2, s2, st2)" using quiet_trans [OF one handle_messages_quiet] h by metis
    obtain r3 s3 st3 where a: "advance_authentication env px s2 st2 = (r3, s3, st3)" by (metis prod_cases3)
    have three: "quiet s st (r3, s3, st3)" using quiet_trans [OF two advance_authentication_quiet] a by metis
    note four = quiet_trans [OF three send_snapshot_quiet [of s3 st3 env]]
    show ?thesis
      using m Ok h a two three four by (cases r2; cases r3) (simp_all add: poll_policy_session_def quiet_def)
  qed
qed

section \<open>Host calls\<close>

lemma set_hm_remove: "set (hm_remove k m) \<subseteq> set m"
  by (auto simp: hm_remove_def AList.delete_eq)

lemma set_hm_insert: "set (hm_insert k v m) \<subseteq> insert (k, v) (set m)"
  by (induction m) (auto simp: hm_insert_def)

lemma hm_get_in: "hm_get m k = Some v \<Longrightarrow> (k, v) \<in> set m"
  by (simp add: hm_get_def map_of_SomeD)

lemma identities_sessions:
  "set ss \<subseteq> insert (h, s) (set (ps_sessions st)) \<Longrightarrow>
     identities (st\<lparr>ps_sessions := ss\<rparr>) \<subseteq> identities st \<union> session_ids s"
  by (auto simp: identities_def flow_ids_def)

lemma session_ids_in: "hm_get (ps_sessions st) h = Some s \<Longrightarrow> session_ids s \<subseteq> identities st"
  by (auto simp: identities_def dest: hm_get_in)

lemma poll_session_identities: "identities (poll_session env px h st) \<subseteq> identities st"
proof (cases "hm_get (ps_sessions st) h")
  case None
  then show ?thesis by (simp add: poll_session_def)
next
  case (Some s)
  let ?st = "st\<lparr>ps_sessions := hm_remove h (ps_sessions st)\<rparr>"
  obtain q s' st' where r: "poll_policy_session (pe_session env h) px s ?st = (q, s', st')" by (metis prod_cases3)
  from poll_policy_session_quiet [of s ?st "pe_session env h" px] r
  have p: "session_ids s' = session_ids s" and same: "same_tables ?st st'" by (simp_all add: quiet_def session_ids_def)
  have sub: "identities ?st \<subseteq> identities st" using set_hm_remove [of h "ps_sessions st"] by (auto simp: identities_def flow_ids_def)
  have id': "identities st' = identities ?st" by (rule same_tables_identities [OF same])
  have "identities (st'\<lparr>ps_sessions := hm_insert h s' (ps_sessions st')\<rparr>) \<subseteq> identities st' \<union> session_ids s'"
    by (rule identities_sessions [OF set_hm_insert])
  also have "\<dots> \<subseteq> identities st" using sub id' p session_ids_in [OF Some] by auto
  finally show ?thesis using Some r sub id' by (cases q) (simp_all add: poll_session_def)
qed

lemma poll_sessions_identities: "identities (fold (poll_session env px) hs st) \<subseteq> identities st"
proof (induction hs arbitrary: st)
  case (Cons h hs)
  from Cons [of "poll_session env px h st"] poll_session_identities [of env px h st] show ?case by simp
qed simp

lemma poll_instance_identities:
  assumes "poll_instance env px st = (e, st')"
  shows "identities st' \<subseteq> identities st"
proof (cases "ps_maintenance st")
  case True
  with assms show ?thesis by (simp add: poll_instance_def)
next
  case False
  let ?st1 = "observe_clock (pe_now_utc env) st"
  obtain qs st2 where aq: "advance_quota px (pe_now env) ?st1 = (qs, st2)" by force
  let ?stop = "expired_users (pe_now_utc env) ?st1 \<union> qs"
  let ?st3 = "drop_stopped ?stop st2"
  let ?n = "elapsed_nanos ?st3 (pe_now env)"
  obtain sch st4 where sc: "schedule ?st3 = (sch, st4)" by force
  obtain av st5 where ga: "global_available ?n st4 = (av, st5)" by force
  obtain gr st6 where gu: "fold (grant_user ?n (total_weight st4 sch) av) sch ([], st5) = (gr, st6)" by force
  obtain gr1 st7 where pf: "poll_flows env gr st6 = (gr1, st7)" by force
  let ?st8 = "poll_datagrams env gr1 st7"
  have st': "st' = drop_orphans (fold (poll_session env px) (map fst (ps_sessions ?st8)) ?st8)"
    using assms False by (simp add: poll_instance_def aq sc ga gu pf Let_def)
  have s1: "same_tables st ?st1" by (simp add: observe_clock_def)
  have "same_tables ?st1 st2" using advance_quota_tables [of ?st1 px "pe_now env"] by (simp add: aq)
  with s1 have "identities st2 = identities st" by (metis same_tables_identities)
  then have i3: "identities ?st3 \<subseteq> identities st" using drop_identities(1) [of ?stop st2] by (auto simp: drop_stopped_def)
  have "same_tables ?st3 st4" using sc by (auto simp: schedule_def Let_def split: if_splits)
  moreover have "same_tables st4 st5" using ga by (auto simp: global_available_def split: option.splits prod.splits result.splits)
  moreover have "same_tables st5 st6" using grant_users_tables [of "([], st5)" ?n "total_weight st4 sch" av sch] by (simp add: gu)
  ultimately have "identities st6 = identities ?st3" by (metis same_tables_identities)
  moreover have "identities st7 \<subseteq> identities st6" using poll_flows_identities [of env gr st6] by (simp add: pf)
  moreover note poll_datagrams_identities [of env gr1 st7] poll_sessions_identities [of env px "map fst (ps_sessions ?st8)" ?st8]
    drop_identities(2) [of "fold (poll_session env px) (map fst (ps_sessions ?st8)) ?st8"]
  ultimately show ?thesis unfolding st' using i3 by blast
qed

lemma stop_identities: "identities (stop_users us st) \<subseteq> identities st" "identities (stop_credentials ds st) \<subseteq> identities st"
  by (auto simp: identities_def flow_ids_def stop_users_def stop_credentials_def drop_user_flows_def drop_credential_flows_def
      hm_retain_def Let_def)

lemma apply_admin_mutation_identities:
  fixes st :: "('d, 'b, 'p) policy_state"
  shows "identities (apply_admin_mutation now m st) \<subseteq> identities st"
proof -
  let ?st1 = "st\<lparr>ps_admin := apply_records (op_max_cached_users (ps_options st)) m (ps_admin st)\<rparr>"
  let ?st2 = "if am_active_rule_profiles m = [] then ?st1 else drop_user_flows (affected_users m ?st1) ?st1"
  let ?st3 = "case am_disconnect m of Some h \<Rightarrow> ?st2\<lparr>ps_sessions := hm_remove h (ps_sessions ?st2)\<rparr> | None \<Rightarrow> ?st2"
  let ?st4 = "if mutation_stopped now m = {} then ?st3 else stop_users (mutation_stopped now m) ?st3"
  let ?st5 = "if mutation_revoked m = {} then ?st4 else stop_credentials (mutation_revoked m) ?st4"
  have "identities ?st1 = identities st" by (rule same_tables_identities) simp
  moreover have "identities ?st2 \<subseteq> identities ?st1" using drop_identities(1) by auto
  moreover have "identities (case d of Some h \<Rightarrow> s\<lparr>ps_sessions := hm_remove h (ps_sessions s)\<rparr> | None \<Rightarrow> s) \<subseteq> identities s"
    for d and s :: "('d, 'b, 'p) policy_state"
    using set_hm_remove [of "the d" "ps_sessions s"] by (cases d) (auto simp: identities_def flow_ids_def)
  then have "identities ?st3 \<subseteq> identities ?st2" by blast
  moreover have "identities ?st4 \<subseteq> identities ?st3" using stop_identities(1) by auto
  moreover have "identities ?st5 \<subseteq> identities ?st4" using stop_identities(2) by auto
  ultimately have "identities ?st5 \<subseteq> identities st" by blast
  then show ?thesis by (simp add: apply_admin_mutation_def Let_def)
qed

lemma same_effects_identities: "same_effects st st' \<Longrightarrow> identities st' = identities st"
  by (rule same_tables_identities) (simp add: same_effects_def same_tables_def)

lemma control_instance_identities:
  assumes "control_instance env px request st = (r, st')"
  shows "identities st' \<subseteq> identities st"
proof (cases "ps_pending_control st")
  case None
  with assms new_request_effects [of env px request st r st'] show ?thesis
    by (simp add: control_instance_def same_effects_identities)
next
  case (Some pending)
  let ?st = "st\<lparr>ps_pending_control := None\<rparr>"
  have id0: "identities ?st = identities st" by (rule same_tables_identities) simp
  obtain x where x: "resume_request env px pending ?st = x" by blast
  consider "pending_request pending \<noteq> request" | q where "pending_request pending = request" "x = Inl q" "q = (r, st')"
    | st1 where "pending_request pending = request" "x = Inr st1" "new_request env px request st1 = (r, st')"
    using assms Some x by (cases x) (auto simp: control_instance_def split: if_splits)
  then show ?thesis
  proof cases
    case 1
    with assms Some show ?thesis by (simp add: control_instance_def)
  next
    case (2 q)
    from resume_effects [OF x] show ?thesis
    proof
      assume "case x of Inl (q, st') \<Rightarrow> same_effects ?st st' | Inr st' \<Rightarrow> same_effects ?st st'"
      with 2 have "same_effects ?st st'" by simp
      from same_effects_identities [OF this] id0 show ?thesis by simp
    next
      assume "\<exists>w st1. pending = Pending_Write w \<and> receive_write (pw_reply w) ?st = (Received (Reply_Write (Ok ())), st1)"
      then obtain w st1 where w: "pending = Pending_Write w" and rw: "receive_write (pw_reply w) ?st = (Received (Reply_Write (Ok ())), st1)" by blast
      with x 2 have fw: "finish_write env px w st1 = (r, st')" by (simp add: resume_request_def)
      have i1: "identities st1 = identities st" using same_tables_identities [OF receive_write_tables [OF rw]] id0 by simp
      have same: "identities (st1\<lparr>ps_admin := a\<rparr>) = identities st1" for a by (rule same_tables_identities) simp
      obtain c sq where "apply_commit (px_enc_receipt px) (px_dec_receipt px) (ad_sequencer (ps_admin st1)) (pw_client_id w) (pw_receipt w) = (c, sq)" by force
      with fw i1 same apply_admin_mutation_identities [of "ae_now_utc env" "pw_mutation w" "st1\<lparr>ps_admin := (ps_admin st1)\<lparr>ad_sequencer := sq\<rparr>\<rparr>"]
      show ?thesis by (cases c) (auto simp: finish_write_def)
    qed
  next
    case (3 st1)
    from resume_effects [OF x] 3 have "same_effects ?st st1" by (auto simp: x [symmetric] resume_request_def split: recv.splits reply.splits result.splits)
    from effects_trans [OF this new_request_effects [OF 3(3)]] have "same_effects ?st st'" .
    from same_effects_identities [OF this] id0 show ?thesis by simp
  qed
qed

lemma take_identity_ids:
  assumes "take_identity session st = (Ok identity, st')"
  shows "identities st' \<subseteq> identities st \<and>
    (map_option fid_user_id identity, Option.bind identity fid_credential_digest) \<in> insert (None, None) (identities st)"
proof -
  from assms obtain s where s: "hm_get (ps_sessions st) session = Some s"
    by (cases "hm_get (ps_sessions st) session") (simp_all add: take_identity_def)
  note sub = session_ids_in [OF s]
  consider "identity = None" "st' = st" | i rest where "pn_pending_flows s = i # rest" "identity = Some i"
    "st' = st\<lparr>ps_sessions := hm_insert session (s\<lparr>pn_pending_flows := rest\<rparr>) (ps_sessions st)\<rparr>"
    using assms s by (auto simp: take_identity_def split: if_splits list.splits)
  then show ?thesis
  proof cases
    case (2 i rest)
    have "session_ids (s\<lparr>pn_pending_flows := rest\<rparr>) \<subseteq> session_ids s" using 2 by (auto simp: session_ids_def)
    then have "identities st' \<subseteq> identities st"
      using sub identities_sessions [OF set_hm_insert, of session "s\<lparr>pn_pending_flows := rest\<rparr>" st] 2(3) by auto
    moreover have "(map_option fid_user_id identity, Option.bind identity fid_credential_digest) \<in> insert (None, None) (identities st)"
      using sub 2 by (auto simp: session_ids_def)
    ultimately show ?thesis ..
  qed auto
qed

lemma flow_new_ids:
  "policy_flow_new pump_new now s m n session u d sniff = Some f \<Longrightarrow> pf_user_id f = u \<and> pf_credential_digest f = d"
  "datagram_flow_new pump_new s m session u d sniff = Some g \<Longrightarrow> df_user_id g = u \<and> df_credential_digest g = d"
  by (auto simp: policy_flow_new_def datagram_flow_new_def bind_eq_Some_conv)

lemma take_identity_Err: "take_identity session st = (Err e, st') \<Longrightarrow> st' = st"
  by (auto simp: take_identity_def split: option.splits if_splits list.splits)

lemma attach_flow_identities:
  assumes "attach_flow_state pump_new now session stack mux handle st = (e, st', drawn)"
  shows "identities st' \<subseteq> insert (None, None) (identities st)"
proof -
  obtain q st1 where q: "take_identity session st = (q, st1)" by force
  show ?thesis
  proof (cases q)
    case (Err e)
    with q assms show ?thesis by (auto simp: attach_flow_state_def dest: take_identity_Err)
  next
    case (Ok identity)
    note t = take_identity_ids [OF q [unfolded Ok]]
    let ?k = "(map_option fid_user_id identity, Option.bind identity fid_credential_digest)"
    have "identities (st1\<lparr>ps_flows := hm_insert handle f (ps_flows st1)\<rparr>) \<subseteq> insert ?k (identities st1)"
      if "pf_user_id f = fst ?k" "pf_credential_digest f = snd ?k" for f
      using that set_hm_insert [of handle f "ps_flows st1"] by (auto simp: identities_def flow_ids_def)
    moreover have "st' = st1 \<or> (\<exists>f. pf_user_id f = fst ?k \<and> pf_credential_digest f = snd ?k \<and>
        st' = st1\<lparr>ps_flows := hm_insert handle f (ps_flows st1)\<rparr>)"
      using assms q Ok by (auto simp: attach_flow_state_def split: option.splits if_splits dest: flow_new_ids)
    ultimately have "identities st' \<subseteq> insert ?k (identities st1)" by auto
    with t show ?thesis by auto
  qed
qed

lemma attach_datagram_identities:
  assumes "attach_datagram_state pump_new session stack mux handle st = (e, st', drawn)"
  shows "identities st' \<subseteq> insert (None, None) (identities st)"
proof -
  obtain q st1 where q: "take_identity session st = (q, st1)" by force
  show ?thesis
  proof (cases q)
    case (Err e)
    with q assms show ?thesis by (auto simp: attach_datagram_state_def dest: take_identity_Err)
  next
    case (Ok identity)
    note t = take_identity_ids [OF q [unfolded Ok]]
    let ?k = "(map_option fid_user_id identity, Option.bind identity fid_credential_digest)"
    have "identities (st1\<lparr>ps_datagram_flows := hm_insert handle f (ps_datagram_flows st1)\<rparr>) \<subseteq> insert ?k (identities st1)"
      if "df_user_id f = fst ?k" "df_credential_digest f = snd ?k" for f
      using that set_hm_insert [of handle f "ps_datagram_flows st1"] by (auto simp: identities_def flow_ids_def)
    moreover have "st' = st1 \<or> (\<exists>f. df_user_id f = fst ?k \<and> df_credential_digest f = snd ?k \<and>
        st' = st1\<lparr>ps_datagram_flows := hm_insert handle f (ps_datagram_flows st1)\<rparr>)"
      using assms q Ok by (auto simp: attach_datagram_state_def split: option.splits if_splits dest: flow_new_ids)
    ultimately have "identities st' \<subseteq> insert ?k (identities st1)" by auto
    with t show ?thesis by auto
  qed
qed

lemma shutdown_identities:
  assumes "shutdown_state px now st = (e, Some st')"
  shows "identities st' \<subseteq> identities st"
proof -
  let ?st1 = "if ps_shutting_down st then st else st\<lparr>ps_shutting_down := True, ps_sessions := [], ps_flows := [], ps_datagram_flows := []\<rparr>"
  have "identities ?st1 \<subseteq> identities st" by (auto simp: identities_def flow_ids_def)
  moreover have "identities (snd (advance_quota px now ?st1)) = identities ?st1" by (rule same_tables_identities [OF advance_quota_tables])
  moreover have "same_tables (snd (advance_quota px now ?st1)) st'"
    using assms by (auto simp: shutdown_state_def Let_def split: prod.splits result.splits bool.splits if_splits)
  ultimately show ?thesis using same_tables_identities by blast
qed

text \<open>An admission of user \<open>u\<close> with credential \<open>d\<close>: what \<open>admit_flow\<close> has checked.\<close>

definition admission :: "(str \<Rightarrow> rules option) \<Rightarrow> u64 \<Rightarrow> u64 \<Rightarrow> flow_metadata \<Rightarrow> ('d, 'b, 'p) policy_state \<Rightarrow> str \<Rightarrow> str option \<Rightarrow> bool" where
  "admission toml now session md st u d \<longleftrightarrow> (\<exists>s user. hm_get (ps_sessions st) session = Some s \<and> pn_role s = Server \<and>
     pn_auth s = Authenticated u \<and> pn_credential_digest s = d \<and> hm_get (ps_users st) u = Some user \<and>
     flow_available_at st user now \<and> \<not> flow_limit_reached st user \<and>
     is_ok (destination_policy toml (ad_rules (ps_admin st)) (ps_options st) user md))"

lemma admit_flow_identities:
  assumes "admit_flow_state toml now session md st = (e, st')"
  shows "identities st' \<subseteq> identities st \<union> {(Some u, d) | u d. admission toml now session md st u d}"
proof (cases "admission_user session st")
  case (Inl e')
  with assms show ?thesis by (simp add: admit_flow_state_def)
next
  case (Inr x)
  obtain u user s where x: "x = (u, user, s)" by (metis prod_cases3)
  from Inr x have s: "hm_get (ps_sessions st) session = Some s" and role: "pn_role s = Server"
    and auth: "pn_auth s = Authenticated u" and user: "hm_get (ps_users st) u = Some user"
    by (auto simp: admission_user_def split: if_splits option.splits auth_state.splits) (metis policy_role.exhaust)
  show ?thesis
  proof (cases "st' = st")
    case False
    with assms Inr x obtain sniff where ok: "flow_available_at st user now" "\<not> flow_limit_reached st user"
      "destination_policy toml (ad_rules (ps_admin st)) (ps_options st) user md = Ok sniff"
      and st': "st' = st\<lparr>ps_sessions := hm_insert session (s\<lparr>pn_pending_flows := pn_pending_flows s @
        [\<lparr>fid_user_id = u, fid_credential_digest = pn_credential_digest s, fid_sniff = sniff\<rparr>]\<rparr>) (ps_sessions st)\<rparr>" (is "_ = st\<lparr>ps_sessions := hm_insert session ?s _\<rparr>")
      by (auto simp: admit_flow_state_def split: if_splits result.splits)
    have "session_ids ?s = insert (Some u, pn_credential_digest s) (session_ids s)" by (auto simp: session_ids_def)
    moreover have "identities st' \<subseteq> identities st \<union> session_ids ?s" unfolding st' by (rule identities_sessions [OF set_hm_insert])
    moreover have "admission toml now session md st u (pn_credential_digest s)"
      unfolding admission_def using s role auth user ok by auto
    ultimately show ?thesis using session_ids_in [OF s] by auto
  qed simp
qed

section \<open>Runs\<close>

inductive reachable :: "('d, 't) redb \<Rightarrow> policy_codec \<Rightarrow> ('d, 'b, 'p) policy_state \<Rightarrow> bool"
  for db :: "('d, 't) redb" and px :: policy_codec where
  start: "initialize_state toml env db open_database px started config base = Ok st \<Longrightarrow> reachable db px st"
| session: "reachable db px st \<Longrightarrow> open_session now role st = Ok s \<Longrightarrow> reachable db px (st\<lparr>ps_sessions := hm_insert h s (ps_sessions st)\<rparr>)"
| admit: "reachable db px st \<Longrightarrow> admit_flow_state toml now session md st = (e, st') \<Longrightarrow> reachable db px st'"
| stream: "reachable db px st \<Longrightarrow> attach_flow_state pump_new now session stack mux h st = (e, st', drawn) \<Longrightarrow> reachable db px st'"
| datagram: "reachable db px st \<Longrightarrow> attach_datagram_state pump_new session stack mux h st = (e, st', drawn) \<Longrightarrow> reachable db px st'"
| poll: "reachable db px st \<Longrightarrow> poll_instance env px st = (e, st') \<Longrightarrow> reachable db px st'"
| control: "reachable db px st \<Longrightarrow> control_instance aenv px request st = (r, st') \<Longrightarrow> reachable db px st'"
| worker: "reachable db px st \<Longrightarrow> reachable db px (st\<lparr>ps_storage := worker_step db copied reopen (ps_storage st)\<rparr>)"
| shutdown: "reachable db px st \<Longrightarrow> shutdown_state px now st = (e, Some st') \<Longrightarrow> reachable db px st'"

definition admitted :: "('d, 't) redb \<Rightarrow> policy_codec \<Rightarrow> ('d, 'b, 'p) policy_state itself \<Rightarrow> str \<Rightarrow> str option \<Rightarrow> bool" where
  "admitted db px ty u d \<longleftrightarrow> (\<exists>(st0 :: ('d, 'b, 'p) policy_state) toml now session md. reachable db px st0 \<and> admission toml now session md st0 u d)"

lemma reachable_identities:
  fixes st :: "('d, 'b, 'p) policy_state"
  shows "reachable db px st \<Longrightarrow> identities st \<subseteq> insert (None, None) {(Some u, d) | u d. admitted db px TYPE(('d, 'b, 'p) policy_state) u d}"
proof (induction rule: reachable.induct)
  case (start toml env open_database started config base st)
  obtain w1 s1 rate credential where st: "st = initial_state started rate (ps_options st) w1 s1 credential"
    by (rule initialize_state_Ok [OF start])
  have "ps_sessions st = []" "ps_flows st = []" "ps_datagram_flows st = []" by (subst st; simp add: initial_state_def)+
  then show ?case by (simp add: identities_def flow_ids_def)
next
  case (session st now role s h)
  have "session_ids s = {}"
    using session.hyps by (auto simp: open_session_def try_bind_Ok_iff session_ids_def)
  with session.IH identities_sessions [OF set_hm_insert, of h s st] show ?case by auto
next
  case (admit st toml now session md e st')
  have "{(Some u, d) | u d. admission toml now session md st u d} \<subseteq> {(Some u, d) | u d. admitted db px TYPE(('d, 'b, 'p) policy_state) u d}"
    unfolding admitted_def using admit.hyps(1) by blast
  with admit.IH admit_flow_identities [OF admit.hyps(2)] show ?case by blast
next
  case (stream st pump_new now session stack mux h e st' drawn)
  with attach_flow_identities [OF stream.hyps(2)] show ?case by blast
next
  case (datagram st pump_new session stack mux h e st' drawn)
  with attach_datagram_identities [OF datagram.hyps(2)] show ?case by blast
next
  case (poll st env e st')
  with poll_instance_identities [OF poll.hyps(2)] show ?case by blast
next
  case (control st aenv request r st')
  with control_instance_identities [OF control.hyps(2)] show ?case by blast
next
  case (worker st copied reopen)
  have "identities (st\<lparr>ps_storage := worker_step db copied reopen (ps_storage st)\<rparr>) = identities st"
    by (rule same_tables_identities) simp
  with worker.IH show ?case by simp
next
  case (shutdown st now e st')
  with shutdown_identities [OF shutdown.hyps(2)] show ?case by blast
qed


text \<open>A run: a client logs in with a stored credential and opens a stream.\<close>

definition example_config :: options where
  "example_config = example_options\<lparr>op_global_rate := Global_Unlimited, op_rules := \<lparr>rl_terminal = Allow, rl_entries = []\<rparr>\<rparr>"

definition example_accounts :: "(str \<times> bytes) list" where
  "example_accounts = [(credential_key (str_lit ''01''), [1]), (user_key (str_lit ''u''), [2])]"

definition example_store :: "(nat \<times> command) list \<Rightarrow> nat \<Rightarrow> (nat \<times> reply) list \<Rightarrow> (str \<times> bytes) list storage_worker" where
  "example_store q n rs = \<lparr>sw_capacity = 8, sw_queue = q, sw_next_token = n, sw_replies = rs, sw_database = Some example_accounts,
     sw_stopping = None, sw_joinable = True\<rparr>"

definition example_instance :: "(str \<times> bytes) list storage_worker \<Rightarrow> (u64 \<times> policy_session) list \<Rightarrow> ((str \<times> bytes) list, unit, unit) policy_state" where
  "example_instance w ss = (initial_state 0 None example_config w \<lparr>sq_max_clients = 2, sq_clients = []\<rparr> None)\<lparr>ps_sessions := ss\<rparr>"

definition example_datagram_io :: "unit datagram_io" where
  "example_datagram_io = \<lparr>di_upload = \<lambda>p n. (Pending, p), di_download = \<lambda>p s n. (Pending, p, s)\<rparr>"

definition example_poll_env :: "io_read \<Rightarrow> unit poll_env" where
  "example_poll_env r = \<lparr>pe_now = 0, pe_now_utc = 5, pe_flow = \<lambda>_. example_flow_io [] 0, pe_datagram = \<lambda>_. example_datagram_io, pe_session = \<lambda>_. example_env r\<rparr>"

lemma example_config_valid: "options_parse (\<lambda>_. Some example_config) (\<lambda>_. None) [] [47] = Ok example_config"
proof -
  have "rules_validate (op_rules example_config) = Ok ()" by code_simp
  moreover have "\<not> limits_inconsistent example_config" "\<not> storage_inconsistent (op_storage example_config)"
    "\<not> global_rate_inconsistent (op_global_rate example_config)" "op_client example_config = None"
    "op_server_id example_config = [115]" "is_absolute (so_path (op_storage example_config))"
    by (simp_all add: limits_inconsistent_def storage_inconsistent_def example_config_def example_options_def is_absolute_def starts_with_iff str_lit_def)
  moreover have "from_utf8 [] = Some []" by code_simp
  ultimately show ?thesis by (simp add: options_parse_def options_validate_def)
qed

lemma example_started:
  "initialize_state (\<lambda>_. Some example_config) (\<lambda>_. None) example_redb (\<lambda>_. Ok example_accounts) example_auth_codec 0 [] [47] =
     Ok (example_instance (example_store [] 1 []) [])"
proof -
  have "scan_values example_redb example_accounts (str_lit ''client/'') 2 = Ok []" by code_simp
  moreover have "validate_prefix (str_lit ''client/'') = Ok ()" by code_simp
  ultimately have "scan_receipts example_redb 2 (example_store [] 0 []) = (Ok [], example_store [] 1 [])"
    by (simp add: scan_receipts_def storage_scan_def guarded_send_def storage_send_def worker_step_def execute_def try_recv_def example_store_def)
  moreover have "from_utf8 [47] = Some [47]" by code_simp
  moreover have "op_global_rate example_config = Global_Unlimited" "op_max_admin_clients example_config = 2"
    "op_client example_config = None" "so_cache_bytes (op_storage example_config) = 1"
    "so_max_database_bytes (op_storage example_config) = 1" "so_queue_capacity (op_storage example_config) = 8"
    by (simp_all add: example_config_def example_options_def)
  ultimately show ?thesis
    by (simp add: initialize_state_def example_config_valid global_bucket_def storage_open_def sequencer_new_def
        load_credential_secret_def example_instance_def example_store_def initial_state_def)
qed

lemma example_opened: "open_session 0 Server (example_instance w ss) = Ok example_session"
  by (simp add: open_session_def channel_new_def decoder_new_def example_instance_def initial_state_def example_config_def
      example_options_def example_session_def)

lemma poll_instance_idle:
  assumes "ps_sessions st = [(h, s)]" "\<not> ps_maintenance st" "ps_global_rate st = None" "ps_users st = []" "ps_flows st = []"
    "ps_datagram_flows st = []" "ps_traffic st = []"
  shows "poll_instance env px st = (STATUS_PENDING, drop_orphans (poll_session env px h st))"
proof -
  have "observe_clock (pe_now_utc env) st = st" using assms(4) by (simp add: observe_clock_def set_users_def)
  moreover have "advance_quota px (pe_now env) st = ({}, st)" using assms by (simp add: advance_quota_def flow_users_def Let_def)
  moreover have "drop_stopped (expired_users (pe_now_utc env) st \<union> {}) st = st" using assms(4) by (simp add: drop_stopped_def expired_users_def)
  moreover have "schedule st = ([], st)" using assms by (simp add: schedule_def user_handles_def)
  moreover have "global_available n st = (None, st)" for n using assms(3) by (simp add: global_available_def)
  moreover have "poll_flows env [] st = ([], st)" using assms(5) by (simp add: poll_flows_def poll_all_def)
  moreover have "poll_datagrams env [] st = st" using assms(6) by (simp add: poll_datagrams_def poll_all_def)
  ultimately show ?thesis using assms by (simp add: poll_instance_def)
qed

lemma example_turn:
  assumes "poll_policy_session (example_env r) example_auth_codec s (example_instance w []) = (Ok (), s', st')"
    and "ps_sessions st' = []" "ps_flows st' = []" "ps_datagram_flows st' = []"
  shows "poll_instance (example_poll_env r) example_auth_codec (example_instance w [(5, s)]) = (STATUS_PENDING, st'\<lparr>ps_sessions := [(5, s')]\<rparr>)"
proof -
  have "poll_instance (example_poll_env r) example_auth_codec (example_instance w [(5, s)]) =
      (STATUS_PENDING, drop_orphans (poll_session (example_poll_env r) example_auth_codec 5 (example_instance w [(5, s)])))"
    by (rule poll_instance_idle [where s = s]) (simp_all add: example_instance_def initial_state_def)
  moreover have "ps_sessions (example_instance w [(5, s)]) = [(5, s)]" by (simp add: example_instance_def)
  moreover have "(example_instance w [(5, s)])\<lparr>ps_sessions := []\<rparr> = example_instance w []" by (simp add: example_instance_def)
  ultimately show ?thesis using assms
    by (simp add: poll_session_def hm_get_def hm_remove_def hm_insert_def example_poll_env_def drop_orphans_def hm_retain_def)
qed

abbreviation example_reachable :: "((str \<times> bytes) list, unit, unit) policy_state \<Rightarrow> bool" where
  "example_reachable \<equiv> reachable example_redb example_auth_codec"

lemma example_asked:
  "example_reachable (example_instance (example_store [(1, Get (credential_key (str_lit ''01'')))] 2 []) [(5, example_looking 1)])"
proof -
  have "hm_insert 5 example_session (ps_sessions (example_instance w [])) = [(5, example_session)]" for w
    by (simp add: example_instance_def initial_state_def hm_insert_def)
  with reachable.session [OF reachable.start [OF example_started] example_opened, of 5]
  have opened: "example_reachable (example_instance (example_store [] 1 []) [(5, example_session)])"
    by (simp add: example_instance_def)
  let ?w = "example_store [(1, Get (credential_key (str_lit ''01'')))] 2 []"
  have g: "storage_get (ps_storage (example_instance (example_store [] 1 []) [])) (credential_key (str_lit ''01'')) = (Ok 1, ?w)"
    by (simp add: storage_get_def guarded_send_def example_keys storage_send_def example_instance_def initial_state_def example_store_def)
  have "try_recv ?w 1 = (Empty, ?w)" by (simp add: try_recv_def example_store_def)
  from example_turn [OF example_poll_1 [OF g this]]
  have "poll_instance (example_poll_env (Read_Data [0, 0, 0, 1, 97])) example_auth_codec (example_instance (example_store [] 1 []) [(5, example_session)]) =
      (STATUS_PENDING, example_instance ?w [(5, example_looking 1)])"
    by (simp add: example_instance_def initial_state_def)
  from reachable.poll [OF opened this] show ?thesis .
qed

lemma example_worked:
  assumes "example_reachable (example_instance (example_store [(n, Get key)] m []) ss)" and "map_of example_accounts key = Some v"
  shows "example_reachable (example_instance (example_store [] m [(n, Reply_Get (Ok (Some v)))]) ss)"
proof -
  have "worker_step example_redb (Ok ()) Ok (example_store [(n, Get key)] m []) = example_store [] m [(n, Reply_Get (Ok (Some v)))]"
    using assms(2) by (simp add: worker_step_def execute_def get_value_def example_store_def example_redb_def)
  then show ?thesis using reachable.worker [OF assms(1), of "Ok ()" Ok] by (simp add: example_instance_def initial_state_def)
qed

lemma example_named:
  "example_reachable (example_instance (example_store [(2, Get (user_key (str_lit ''u'')))] 3 []) [(5, example_found 2)])"
proof -
  let ?st = "example_instance (example_store [] 2 [(1, Reply_Get (Ok (Some [1])))])"
  let ?w = "example_store [(2, Get (user_key (str_lit ''u'')))] 3 []"
  have r: "example_reachable (?st [(5, example_looking 1)])"
    by (rule example_worked [OF example_asked]) (simp add: example_accounts_def)
  have t: "try_recv (ps_storage (?st [])) 1 = (Received (Reply_Get (Ok (Some [1]))), example_store [] 2 [])"
    by (simp add: try_recv_def example_store_def example_instance_def initial_state_def)
  have "storage_get (example_store [] 2 []) (user_key (str_lit ''u'')) = (Ok 2, ?w)"
    by (simp add: storage_get_def guarded_send_def example_keys storage_send_def example_store_def)
  from example_turn [OF example_poll_2 [OF t this]]
  have "poll_instance (example_poll_env Read_Pending) example_auth_codec (?st [(5, example_looking 1)]) =
      (STATUS_PENDING, example_instance ?w [(5, example_found 2)])"
    by (simp add: example_instance_def initial_state_def)
  from reachable.poll [OF r this] show ?thesis .
qed

lemma example_logged_in:
  "\<exists>st s. example_reachable st \<and> ps_sessions st = [(5, s)] \<and> pn_auth s = Authenticated (str_lit ''u'') \<and> pn_role s = Server \<and>
     pn_credential_digest s = Some (str_lit ''01'') \<and> pn_pending_flows s = [] \<and> ps_users st = [(str_lit ''u'', example_member)] \<and>
     \<not> ps_maintenance st \<and> ps_traffic st = [] \<and> ad_rules (ps_admin st) = [] \<and> ps_options st = example_config \<and>
     ps_flows st = []"
proof -
  let ?st = "example_instance (example_store [] 3 [(2, Reply_Get (Ok (Some [2])))])"
  have "map_of example_accounts (user_key (str_lit ''u'')) = Some [2]" by code_simp
  then have r: "example_reachable (?st [(5, example_found 2)])" by (rule example_worked [OF example_named])
  have t: "try_recv (ps_storage (?st [])) 2 = (Received (Reply_Get (Ok (Some [2]))), example_store [] 3 [])" "ps_sessions (?st []) = []"
    by (simp_all add: try_recv_def example_store_def example_instance_def initial_state_def)
  let ?st' = "(?st [])\<lparr>ps_storage := example_store [] 3 [], ps_admin := (ps_admin (?st []))\<lparr>ad_loaded_users := insert (str_lit ''u'') (ad_loaded_users (ps_admin (?st []))),
        ad_users := hm_insert (str_lit ''u'') example_member (ad_users (ps_admin (?st [])))\<rparr>\<rparr>"
  from example_poll_3 [OF t] obtain s where
    s: "poll_policy_session (example_env Read_Pending) example_auth_codec (example_found 2) (?st []) = (Ok (), s, ?st')"
      "pn_auth s = Authenticated (str_lit ''u'')" "pn_role s = Server" "pn_credential_digest s = Some (str_lit ''01'')" "pn_pending_flows s = []"
    by blast
  from example_turn [OF s(1)]
  have "poll_instance (example_poll_env Read_Pending) example_auth_codec (?st [(5, example_found 2)]) = (STATUS_PENDING, ?st'\<lparr>ps_sessions := [(5, s)]\<rparr>)"
    by (simp add: example_instance_def initial_state_def)
  from reachable.poll [OF r this] s(2-) show ?thesis
    by (intro exI [of _ "?st'\<lparr>ps_sessions := [(5, s)]\<rparr>"] exI [of _ s]) (simp add: example_instance_def initial_state_def hm_insert_def)
qed


end
