(* ===== verification/Foreign_Io.thy ===== *)
theory Foreign_Io
  imports Abi Poll_Io
begin

text \<open>
  The byte streams that modules hand to each other through the host interface: the tables of
  functions (\<open>SnolByteIoV1\<close>), the answers of a call (\<open>SnolIoResult\<close>) and the loop that writes a
  buffer through such a table. A call of a lower stream is answered by an argument of the model.
\<close>

datatype io_result = Io_Progress nat | Io_Pending | Io_Eof | Io_Error status

text \<open>The answer of a foreign read: progress comes with the bytes that were put into the buffer.\<close>

datatype foreign_read = Foreign_Data bytes | Foreign_Pending | Foreign_Eof | Foreign_Failed

text \<open>A table of functions: where it is, the size it states, and which functions are there.\<close>

record byte_io =
  bi_address :: u64
  bi_struct_size :: u32
  bi_reserved :: u32
  bi_read :: bool
  bi_write :: bool
  bi_flush :: bool
  bi_shutdown_write :: bool
  bi_close :: bool

text \<open>The size of the table is that of the host interface; \<open>None\<close> is the null pointer.\<close>

definition valid_io :: "u32 \<Rightarrow> byte_io option \<Rightarrow> bool" where
  "valid_io table_size io = (case io of
     None \<Rightarrow> False
   | Some t \<Rightarrow> table_size \<le> bi_struct_size t \<and> bi_reserved t = 0 \<and> bi_read t \<and> bi_write t \<and> bi_flush t \<and>
       bi_shutdown_write t \<and> bi_close t)"

text \<open>A write that claims more than it was offered counts as an error.\<close>

definition checked_write :: "(nat \<Rightarrow> bytes \<Rightarrow> io_write) \<Rightarrow> nat \<Rightarrow> bytes \<Rightarrow> io_write" where
  "checked_write wr k bs = (case wr k bs of Write_Count n \<Rightarrow> if n \<le> length bs then Write_Count n else Write_Error | a \<Rightarrow> a)"

lemma checked_write_bounded: "write_bounded (checked_write wr)"
  by (auto simp: write_bounded_def checked_write_def split: io_write.splits if_splits)

end
