(* ===== verification/Noise_Frame.thy ===== *)
theory Noise_Frame
  imports Foreign_Io
begin

text \<open>
  The records of the Noise protection module (\<^verbatim>\<open>protection-noise/src/lib.rs\<close>): two length bytes and a
  message. \<open>FrameReader\<close> collects one record from a lower stream and never reads past it;
  \<open>flush_bytes\<close> writes one. The reader allocates a buffer per call; the answer of the stream carries
  the bytes that were put there.
\<close>

definition MAX_HANDSHAKE :: nat where "MAX_HANDSHAKE = 4096"
definition MAX_PLAINTEXT :: nat where "MAX_PLAINTEXT = 16384"
definition MAX_CIPHERTEXT :: nat where "MAX_CIPHERTEXT = 16400"
definition RECORD_LIMIT :: u64 where "RECORD_LIMIT = 0x100000000"

datatype noise_error =
    Noise_Snow | Noise_Length | Noise_State | Noise_HandshakePayload | Noise_RecordLimit | Noise_Io | Noise_Eof

record frame_reader =
  fr_data :: bytes
  fr_expected :: "nat option"

definition reader_default :: frame_reader where
  "reader_default = \<lparr>fr_data = [], fr_expected = None\<rparr>"

definition reader_push :: "frame_reader \<Rightarrow> bytes \<Rightarrow> nat \<Rightarrow> (unit, noise_error) result \<times> frame_reader" where
  "reader_push r input limit =
     (if limit + 2 < usize_saturating_add (length (fr_data r)) (length input) then (Err Noise_Length, r)
      else let r1 = r\<lparr>fr_data := fr_data r @ input\<rparr> in
        if fr_expected r1 = None \<and> 2 \<le> length (fr_data r1) then
          (let len = be_value (take 2 (fr_data r1)) in
           if len = 0 \<or> limit < len then (Err Noise_Length, r1)
           else (Ok (), r1\<lparr>fr_expected := Some (len + 2)\<rparr>))
        else (Ok (), r1))"

definition reader_take :: "frame_reader \<Rightarrow> bytes option \<times> frame_reader" where
  "reader_take r = (case fr_expected r of
     None \<Rightarrow> (None, r)
   | Some expected \<Rightarrow>
       if length (fr_data r) < expected then (None, r)
       else if length (fr_data r) \<noteq> expected then (None, r)
       else (Some (take (expected - 2) (drop 2 (fr_data r))), \<lparr>fr_data = [], fr_expected = None\<rparr>))"

definition remaining_capacity :: "frame_reader \<Rightarrow> nat \<Rightarrow> nat" where
  "remaining_capacity r limit = (case fr_expected r of
     Some expected \<Rightarrow> expected - length (fr_data r)
   | None \<Rightarrow> min (2 - length (fr_data r)) (limit + 2))"

definition noise_frame :: "bytes \<Rightarrow> nat \<Rightarrow> (bytes, noise_error) result" where
  "noise_frame message limit =
     (if message = [] \<or> limit < length message \<or> 65535 < length message then Err Noise_Length
      else Ok (be_bytes16 (length message) @ message))"

text \<open>Every push within the capacity of the reader brings the current record closer to its end.\<close>

lemma reader_push_Ok:
  "reader_push r bs limit = (Ok u, r1) \<Longrightarrow> fr_data r1 = fr_data r @ bs \<and>
     (case fr_expected r of
        Some e \<Rightarrow> fr_expected r1 = Some e
      | None \<Rightarrow> if length (fr_data r1) < 2 then fr_expected r1 = None
          else \<exists>len. fr_expected r1 = Some (len + 2) \<and> len = be_value (take 2 (fr_data r1)) \<and> 0 < len \<and> len \<le> limit)"
  by (auto simp: reader_push_def Let_def split: if_splits option.splits)

lemma reader_take_None: "reader_take r = (None, r') \<Longrightarrow> r' = r"
  by (auto simp: reader_take_def split: option.splits if_splits)

definition reader_measure :: "nat \<Rightarrow> frame_reader \<Rightarrow> nat" where
  "reader_measure limit r = (case fr_expected r of None \<Rightarrow> limit + 5 - length (fr_data r) | Some e \<Rightarrow> e - length (fr_data r))"

lemma reader_measure_less:
  assumes "reader_push r bs limit = (Ok u, r1)" "bs \<noteq> []" "length bs \<le> remaining_capacity r limit"
  shows "reader_measure limit r1 < reader_measure limit r"
proof -
  obtain n where pos: "length bs = Suc n" using assms(2) by (cases bs) auto
  show ?thesis
  proof (cases "fr_expected r")
    case None
    with assms(3) have "length bs \<le> 2 - length (fr_data r)" by (simp add: remaining_capacity_def)
    with pos have len: "length (fr_data r) + length bs \<le> 2" by linarith
    from reader_push_Ok [OF assms(1)] None have d: "fr_data r1 = fr_data r @ bs"
      and e: "if length (fr_data r1) < 2 then fr_expected r1 = None else \<exists>len. fr_expected r1 = Some (len + 2) \<and> len \<le> limit"
      by (auto split: if_splits)
    show ?thesis
    proof (cases "length (fr_data r1) < 2")
      case True
      with e d pos len None show ?thesis by (simp add: reader_measure_def)
    next
      case False
      with e obtain l where "fr_expected r1 = Some (l + 2)" "l \<le> limit" by auto
      with d pos len None False show ?thesis by (simp add: reader_measure_def)
    qed
  next
    case (Some e)
    with reader_push_Ok [OF assms(1)] assms(3) pos show ?thesis by (auto simp: reader_measure_def remaining_capacity_def)
  qed
qed

text \<open>\<open>rd k n\<close> answers the \<open>k\<close>-th call, which offers a buffer of \<open>n\<close> bytes. The result is the
  end of the loop, the reader and the bytes that were received.\<close>

function read_loop ::
  "(nat \<Rightarrow> nat \<Rightarrow> foreign_read) \<Rightarrow> nat \<Rightarrow> nat \<Rightarrow> frame_reader \<Rightarrow> (bytes option, noise_error) result \<times> frame_reader \<times> bytes" where
  "read_loop rd limit k r =
     (let capacity = remaining_capacity r limit in
      if capacity = 0 then (Err Noise_Length, r, [])
      else (case rd k capacity of
        Foreign_Data bs \<Rightarrow>
          if capacity < length bs then (Err Noise_Io, r, [])
          else if bs = [] then (Err Noise_Io, r, [])
          else (case reader_push r bs limit of
            (Err e, r1) \<Rightarrow> (Err e, r1, bs)
          | (Ok u, r1) \<Rightarrow> (case reader_take r1 of
              (Some f, r2) \<Rightarrow> (Ok (Some f), r2, bs)
            | (None, r2) \<Rightarrow> (case read_loop rd limit (Suc k) r2 of (q, r3, got) \<Rightarrow> (q, r3, bs @ got))))
      | Foreign_Pending \<Rightarrow> (Ok None, r, [])
      | Foreign_Eof \<Rightarrow> (Err Noise_Eof, r, [])
      | Foreign_Failed \<Rightarrow> (Err Noise_Io, r, [])))"
  by pat_completeness auto
termination
  by (relation "measure (\<lambda>(rd, limit, k, r). reader_measure limit r)")
    (auto simp: not_less, metis reader_take_None reader_measure_less)

declare read_loop.simps [simp del]

definition read_frame ::
  "(nat \<Rightarrow> nat \<Rightarrow> foreign_read) \<Rightarrow> nat \<Rightarrow> frame_reader \<Rightarrow> (bytes option, noise_error) result \<times> frame_reader \<times> bytes" where
  "read_frame rd limit r = (case reader_take r of
     (Some f, r1) \<Rightarrow> (Ok (Some f), r1, [])
   | (None, r1) \<Rightarrow> read_loop rd limit 0 r1)"

text \<open>The bytes that reach the lower stream are the third component.\<close>

definition flush_bytes :: "(nat \<Rightarrow> bytes \<Rightarrow> io_write) \<Rightarrow> bytes \<Rightarrow> nat \<Rightarrow> (bool, noise_error) result \<times> nat \<times> bytes" where
  "flush_bytes wr bs offset = (case write_loop (checked_write wr) 0 bs offset of
     (Written, offset', sent) \<Rightarrow> (Ok True, offset', sent)
   | (Blocked, offset', sent) \<Rightarrow> (Ok False, offset', sent)
   | (_, offset', sent) \<Rightarrow> (Err Noise_Io, offset', sent))"

lemma flush_bytes_sent:
  assumes "flush_bytes wr bs offset = (r, offset', sent)" "offset \<le> length bs"
  shows "offset \<le> offset' \<and> offset' \<le> length bs \<and> sent @ drop offset' bs = drop offset bs \<and> (r = Ok True \<longleftrightarrow> offset' = length bs)"
proof -
  obtain e where w: "write_loop (checked_write wr) 0 bs offset = (e, offset', sent)" and r: "r = Ok True \<longleftrightarrow> e = Written"
    using assms(1) by (auto simp: flush_bytes_def split: prod.splits write_end.splits)
  from write_loop_sent [OF checked_write_bounded w assms(2)]
  have s: "offset \<le> offset'" "offset' \<le> length bs" "take offset bs @ sent = take offset' bs" "e = Written \<longleftrightarrow> offset' = length bs" by auto
  have "take offset bs @ sent @ drop offset' bs = take offset bs @ drop offset bs"
    by (metis append.assoc append_take_drop_id s(3))
  then have "sent @ drop offset' bs = drop offset bs" unfolding same_append_eq .
  with s r show ?thesis by simp
qed

section \<open>What the reader collects\<close>

lemma be_bytes16_value:
  assumes "length bs = 2"
  shows "be_bytes16 (be_value bs) = bs"
proof -
  obtain a b where bs: "bs = [a, b]" using assms by (auto simp: length_Suc_conv numeral_2_eq_2)
  have "(unat a * 256 + unat b) div 256 = unat a" using unat_u8_less [of b] by simp
  moreover have "(of_nat (unat a * 256 + unat b) :: u8) = b"
    using unat_u8_less [of b] by (simp only: word_unat_eq_iff unat_of_nat8) simp
  ultimately show ?thesis by (simp add: bs be_value_Cons2 be_bytes16_def del: of_nat_add of_nat_mult)
qed

text \<open>A reader between two calls: less than a header, or a legal header and not yet the message.\<close>

definition reader_wf :: "nat \<Rightarrow> frame_reader \<Rightarrow> bool" where
  "reader_wf limit r \<longleftrightarrow> (case fr_expected r of
     None \<Rightarrow> length (fr_data r) < 2
   | Some e \<Rightarrow> 2 \<le> length (fr_data r) \<and> length (fr_data r) < e \<and> e = be_value (take 2 (fr_data r)) + 2 \<and>
       0 < e - 2 \<and> e - 2 \<le> limit)"

lemma reader_default_wf: "reader_wf limit reader_default" "fr_data reader_default = []"
  by (simp_all add: reader_wf_def reader_default_def)

lemma reader_take_wf: "reader_wf limit r \<Longrightarrow> reader_take r = (None, r)"
  by (auto simp: reader_wf_def reader_take_def split: option.splits)

text \<open>One call of the stream that brings bytes: the record is complete, or the reader waits for more,
  or the header is illegal.\<close>

lemma reader_push_wf:
  assumes "reader_wf limit r" "bs \<noteq> []" "length bs \<le> remaining_capacity r limit" "limit + 2 \<le> usize_max"
    "reader_push r bs limit = (q, r1)"
  shows "fr_data r1 = fr_data r @ bs \<and>
    (q = Ok () \<and> reader_wf limit r1 \<or>
     q = Ok () \<and> (\<exists>f. reader_take r1 = (Some f, reader_default) \<and> fr_data r1 = be_bytes16 (length f) @ f \<and> f \<noteq> [] \<and> length f \<le> limit) \<or>
     q = Err Noise_Length \<and> length (fr_data r1) = 2 \<and> (be_value (fr_data r1) = 0 \<or> limit < be_value (fr_data r1)))"
proof (cases "fr_expected r")
  case None
  with assms(1) have len: "length (fr_data r) < 2" by (simp add: reader_wf_def)
  with assms(3) None have le: "length (fr_data r @ bs) \<le> 2" by (simp add: remaining_capacity_def)
  then have "\<not> limit + 2 < usize_saturating_add (length (fr_data r)) (length bs)"
    by (simp add: usize_saturating_add_def)
  with assms(5) None le show ?thesis
    by (cases "length (fr_data r @ bs) = 2")
      (auto simp: reader_push_def Let_def reader_wf_def split: if_splits)
next
  case (Some e)
  with assms(1) have wf: "2 \<le> length (fr_data r)" "length (fr_data r) < e" "e = be_value (take 2 (fr_data r)) + 2" "0 < e - 2" "e - 2 \<le> limit"
    unfolding reader_wf_def by (auto simp del: One_nat_def)
  from Some assms(3) wf(2) have le: "length (fr_data r @ bs) \<le> e" by (simp add: remaining_capacity_def)
  have "\<not> limit + 2 < usize_saturating_add (length (fr_data r)) (length bs)"
    using le wf(4,5) unfolding usize_saturating_add_def length_append by linarith
  with assms(5) Some have q: "q = Ok ()" and r1: "r1 = r\<lparr>fr_data := fr_data r @ bs\<rparr>"
    by (auto simp: reader_push_def Let_def)
  have t2: "take 2 (fr_data r @ bs) = take 2 (fr_data r)" using wf(1) by simp
  show ?thesis
  proof (cases "length (fr_data r @ bs) = e")
    case True
    let ?f = "drop 2 (fr_data r @ bs)"
    have f: "length ?f = e - 2" using True by simp
    have "fr_data r @ bs = take 2 (fr_data r) @ ?f" using t2 by (metis append_take_drop_id)
    moreover have "take 2 (fr_data r) = be_bytes16 (length ?f)"
      using be_bytes16_value [of "take 2 (fr_data r)"] wf(1,3) f by simp
    moreover have "reader_take r1 = (Some ?f, reader_default)"
      using True f by (simp add: r1 reader_take_def Some reader_default_def)
    ultimately show ?thesis using q f wf(4,5) r1 by (intro conjI disjI2 disjI1 exI [of _ ?f]) auto
  next
    case False
    with le wf q r1 Some t2 show ?thesis by (simp add: reader_wf_def)
  qed
qed

lemma read_loop_collects:
  "reader_wf limit r \<Longrightarrow> limit + 2 \<le> usize_max \<Longrightarrow> read_loop rd limit k r = (q, r', got) \<Longrightarrow>
     (case q of
        Ok (Some f) \<Rightarrow> fr_data r @ got = be_bytes16 (length f) @ f \<and> f \<noteq> [] \<and> length f \<le> limit \<and> r' = reader_default
      | Err Noise_Length \<Rightarrow> length (fr_data r @ got) = 2 \<and> (be_value (fr_data r @ got) = 0 \<or> limit < be_value (fr_data r @ got))
      | _ \<Rightarrow> fr_data r' = fr_data r @ got \<and> reader_wf limit r')"
proof (induction rd limit k r arbitrary: q r' got rule: read_loop.induct)
  case (1 rd limit k r)
  let ?c = "remaining_capacity r limit"
  have c: "?c \<noteq> 0" using 1(2) by (auto simp: reader_wf_def remaining_capacity_def split: option.splits)
  show ?case
  proof (cases "\<exists>bs. rd k ?c = Foreign_Data bs \<and> bs \<noteq> [] \<and> length bs \<le> ?c")
    case False
    with 1(2,4) c show ?thesis
      by (auto simp: read_loop.simps [of rd limit k r] Let_def split: foreign_read.splits if_splits)
  next
    case True
    then obtain bs where bs: "rd k ?c = Foreign_Data bs" "bs \<noteq> []" "length bs \<le> ?c" by blast
    obtain p r1 where p: "reader_push r bs limit = (p, r1)" by force
    from reader_push_wf [OF 1(2) bs(2,3) 1(3) p] have d: "fr_data r1 = fr_data r @ bs"
      and alt: "p = Ok () \<and> reader_wf limit r1 \<or>
        p = Ok () \<and> (\<exists>f. reader_take r1 = (Some f, reader_default) \<and> fr_data r1 = be_bytes16 (length f) @ f \<and> f \<noteq> [] \<and> length f \<le> limit) \<or>
        p = Err Noise_Length \<and> length (fr_data r1) = 2 \<and> (be_value (fr_data r1) = 0 \<or> limit < be_value (fr_data r1))" by auto
    from alt consider (more) "p = Ok ()" "reader_wf limit r1"
      | (complete) f where "p = Ok ()" "reader_take r1 = (Some f, reader_default)" "fr_data r1 = be_bytes16 (length f) @ f" "f \<noteq> []" "length f \<le> limit"
      | (illegal) "p = Err Noise_Length" "length (fr_data r1) = 2" "be_value (fr_data r1) = 0 \<or> limit < be_value (fr_data r1)" by blast
    then show ?thesis
    proof cases
      case more
      then have p': "p = Ok ()" and wf: "reader_wf limit r1" by auto
      note t = reader_take_wf [OF wf]
      obtain got' where rest: "read_loop rd limit (Suc k) r1 = (q, r', got')" and got: "got = bs @ got'"
        using 1(4) c bs p p' t by (auto simp: read_loop.simps [of rd limit k r] Let_def split: prod.splits)
      have eq: "fr_data r1 @ got' = fr_data r @ got" by (simp add: d got)
      have "\<not> length bs > ?c" using bs(3) by simp
      from 1(1) [OF refl c bs(1) this bs(2) p [symmetric] p' t [symmetric] refl wf 1(3) rest]
      show ?thesis unfolding eq .
    next
      case complete
      with 1(4) c bs p d show ?thesis by (auto simp: read_loop.simps [of rd limit k r] Let_def)
    next
      case illegal
      with 1(4) c bs p d show ?thesis by (auto simp: read_loop.simps [of rd limit k r] Let_def)
    qed
  qed
qed

end
