(* ===== verification/Noise_Channel.thy ===== *)
theory Noise_Channel
  imports Noise_Frame Rust_Text
begin

text \<open>
  The Noise protection module (\<^verbatim>\<open>protection-noise/src/lib.rs\<close>): the handshake, and the stream that
  encrypts what is written into records and decrypts what is read. The Noise implementation (snow) is
  the record \<open>snow\<close> of its functions; lower streams answer through arguments. Wake handles are passed
  through and have no effect in this module.
\<close>

text \<open>
  Handshake and transport states of snow. The functions take the message and the capacity of the output
  buffer and return the output (\<open>None\<close> for an error) and the new state.
\<close>

record ('h, 't) snow =
  sy_initiator :: "str \<Rightarrow> bytes \<Rightarrow> bytes \<Rightarrow> 'h option"
  sy_responder :: "str \<Rightarrow> bytes \<Rightarrow> bytes \<Rightarrow> 'h option"
  sy_hs_write :: "'h \<Rightarrow> bytes \<Rightarrow> nat \<Rightarrow> bytes option \<times> 'h"
  sy_hs_read :: "'h \<Rightarrow> bytes \<Rightarrow> nat \<Rightarrow> bytes option \<times> 'h"
  sy_finished :: "'h \<Rightarrow> bool"
  sy_transport :: "'h \<Rightarrow> 't option"
  sy_write :: "'t \<Rightarrow> bytes \<Rightarrow> nat \<Rightarrow> bytes option \<times> 't"
  sy_read :: "'t \<Rightarrow> bytes \<Rightarrow> nat \<Rightarrow> bytes option \<times> 't"

definition PATTERN :: str where "PATTERN = str_lit ''Noise_NK_25519_ChaChaPoly_BLAKE2s''"
definition PROLOGUE :: bytes where "PROLOGUE = str_lit ''snolc/protection-noise/1''"

section \<open>Handshake\<close>

record 'h noise_handshake =
  nh_state :: "'h option"
  nh_responder :: bool

definition handshake_client :: "('h, 't) snow \<Rightarrow> bytes \<Rightarrow> ('h noise_handshake, noise_error) result" where
  "handshake_client sn key = try_bind (ok_or (sy_initiator sn PATTERN PROLOGUE key) Noise_Snow) (\<lambda>h.
     Ok \<lparr>nh_state = Some h, nh_responder = False\<rparr>)"

definition handshake_server :: "('h, 't) snow \<Rightarrow> bytes \<Rightarrow> ('h noise_handshake, noise_error) result" where
  "handshake_server sn key = try_bind (ok_or (sy_responder sn PATTERN PROLOGUE key) Noise_Snow) (\<lambda>h.
     Ok \<lparr>nh_state = Some h, nh_responder = True\<rparr>)"

text \<open>An empty handshake message in a frame.\<close>

definition hs_message :: "('h, 't) snow \<Rightarrow> 'h \<Rightarrow> (bytes, noise_error) result \<times> 'h" where
  "hs_message sn h = (case sy_hs_write sn h [] MAX_HANDSHAKE of
     (None, h') \<Rightarrow> (Err Noise_Snow, h') | (Some m, h') \<Rightarrow> (noise_frame m MAX_HANDSHAKE, h'))"

definition write_handshake :: "('h, 't) snow \<Rightarrow> 'h noise_handshake \<Rightarrow> (bytes, noise_error) result \<times> 'h noise_handshake" where
  "write_handshake sn s = (case nh_state s of
     None \<Rightarrow> (Err Noise_State, s)
   | Some h \<Rightarrow> (case hs_message sn h of (q, h') \<Rightarrow> (q, s\<lparr>nh_state := Some h'\<rparr>)))"

definition handshake_initial :: "('h, 't) snow \<Rightarrow> 'h noise_handshake \<Rightarrow> (bytes, noise_error) result \<times> 'h noise_handshake" where
  "handshake_initial sn s = (if nh_responder s then (Err Noise_State, s) else write_handshake sn s)"

text \<open>A handshake message from the peer must carry nothing.\<close>

definition hs_accept :: "('h, 't) snow \<Rightarrow> 'h \<Rightarrow> bytes \<Rightarrow> (unit, noise_error) result \<times> 'h" where
  "hs_accept sn h message = (case sy_hs_read sn h message MAX_HANDSHAKE of
     (None, h') \<Rightarrow> (Err Noise_Snow, h')
   | (Some payload, h') \<Rightarrow> (if payload \<noteq> [] then Err Noise_HandshakePayload else Ok (), h'))"

definition handshake_receive ::
  "('h, 't) snow \<Rightarrow> 'h noise_handshake \<Rightarrow> bytes \<Rightarrow> (bytes option, noise_error) result \<times> 'h noise_handshake" where
  "handshake_receive sn s message =
     (if MAX_HANDSHAKE < length message then (Err Noise_Length, s)
      else (case nh_state s of
        None \<Rightarrow> (Err Noise_State, s)
      | Some h \<Rightarrow> (case hs_accept sn h message of
          (Err e, h') \<Rightarrow> (Err e, s\<lparr>nh_state := Some h'\<rparr>)
        | (Ok u, h') \<Rightarrow>
            let s1 = s\<lparr>nh_state := Some h'\<rparr> in
            if nh_responder s1 then (case write_handshake sn s1 of
              (Err e, s2) \<Rightarrow> (Err e, s2) | (Ok reply, s2) \<Rightarrow> (Ok (Some reply), s2))
            else (Ok None, s1))))"

definition hs_finish :: "('h, 't) snow \<Rightarrow> 'h option \<Rightarrow> ('t, noise_error) result" where
  "hs_finish sn state = try_bind (ok_or state Noise_State) (\<lambda>h.
     if \<not> sy_finished sn h then Err Noise_State else ok_or (sy_transport sn h) Noise_Snow)"

record 't noise_transport =
  nt_state :: 't
  nt_sent_records :: u64
  nt_received_records :: u64

definition handshake_finish :: "('h, 't) snow \<Rightarrow> 'h noise_handshake \<Rightarrow> ('t noise_transport, noise_error) result" where
  "handshake_finish sn s = try_bind (hs_finish sn (nh_state s)) (\<lambda>t.
     Ok \<lparr>nt_state = t, nt_sent_records = 0, nt_received_records = 0\<rparr>)"

section \<open>Records\<close>

definition seal :: "('h, 't) snow \<Rightarrow> 't noise_transport \<Rightarrow> bytes \<Rightarrow> (bytes, noise_error) result \<times> 't noise_transport" where
  "seal sn t plaintext =
     (if plaintext = [] \<or> MAX_PLAINTEXT < length plaintext then (Err Noise_Length, t)
      else if RECORD_LIMIT \<le> nt_sent_records t then (Err Noise_RecordLimit, t)
      else (case sy_write sn (nt_state t) plaintext MAX_CIPHERTEXT of
        (None, s) \<Rightarrow> (Err Noise_Snow, t\<lparr>nt_state := s\<rparr>)
      | (Some c, s) \<Rightarrow> (noise_frame c MAX_CIPHERTEXT, t\<lparr>nt_state := s, nt_sent_records := nt_sent_records t + 1\<rparr>)))"

definition open_record :: "('h, 't) snow \<Rightarrow> 't noise_transport \<Rightarrow> bytes \<Rightarrow> (bytes, noise_error) result \<times> 't noise_transport" where
  "open_record sn t ciphertext =
     (if ciphertext = [] \<or> MAX_CIPHERTEXT < length ciphertext then (Err Noise_Length, t)
      else if RECORD_LIMIT \<le> nt_received_records t then (Err Noise_RecordLimit, t)
      else (case sy_read sn (nt_state t) ciphertext MAX_PLAINTEXT of
        (None, s) \<Rightarrow> (Err Noise_Snow, t\<lparr>nt_state := s\<rparr>)
      | (Some p, s) \<Rightarrow>
          if p = [] then (Err Noise_Length, t\<lparr>nt_state := s\<rparr>)
          else (Ok p, t\<lparr>nt_state := s, nt_received_records := nt_received_records t + 1\<rparr>)))"

section \<open>The encrypted stream\<close>

record 't wrapped =
  wr_owner :: u64
  wr_lower :: u64
  wr_io :: byte_io
  wr_transport :: 't
  wr_outbound :: bytes
  wr_outbound_offset :: nat
  wr_inbound :: frame_reader
  wr_plaintext :: bytes
  wr_plaintext_offset :: nat
  wr_sent_records :: u64
  wr_received_records :: u64

definition wrapped_new :: "u64 \<Rightarrow> u64 \<Rightarrow> byte_io \<Rightarrow> 't \<Rightarrow> 't wrapped" where
  "wrapped_new owner lower io t =
     \<lparr>wr_owner = owner, wr_lower = lower, wr_io = io, wr_transport = t, wr_outbound = [], wr_outbound_offset = 0,
      wr_inbound = reader_default, wr_plaintext = [], wr_plaintext_offset = 0, wr_sent_records = 0, wr_received_records = 0\<rparr>"

text \<open>The answer, the bytes copied into an output of \<open>n\<close> bytes, and the stream.\<close>

definition copy_plaintext :: "nat \<Rightarrow> 't wrapped \<Rightarrow> io_result \<times> bytes \<times> 't wrapped" where
  "copy_plaintext n w =
     (if n = 0 then (Io_Progress 0, [], w)
      else let remaining = drop (wr_plaintext_offset w) (wr_plaintext w);
               count = min (length remaining) n;
               offset = wr_plaintext_offset w + count
           in (Io_Progress count, take count remaining,
               if offset = length (wr_plaintext w) then w\<lparr>wr_plaintext := [], wr_plaintext_offset := 0\<rparr>
               else w\<lparr>wr_plaintext_offset := offset\<rparr>))"

text \<open>The last component is what the lower stream has delivered.\<close>

definition wrapped_read ::
  "('h, 't) snow \<Rightarrow> (nat \<Rightarrow> nat \<Rightarrow> foreign_read) \<Rightarrow> nat \<Rightarrow> 't wrapped \<Rightarrow> io_result \<times> bytes \<times> 't wrapped \<times> bytes" where
  "wrapped_read sn rd n w =
     (if wr_plaintext_offset w < length (wr_plaintext w) then
        (case copy_plaintext n w of (a, bs, w1) \<Rightarrow> (a, bs, w1, []))
      else if RECORD_LIMIT \<le> wr_received_records w then (Io_Error STATUS_IO, [], w, [])
      else (case read_frame rd MAX_CIPHERTEXT (wr_inbound w) of
        (q, r, got) \<Rightarrow>
          let w1 = w\<lparr>wr_inbound := r\<rparr> in
          (case q of
             Ok None \<Rightarrow> (Io_Pending, [], w1, got)
           | Err Noise_Eof \<Rightarrow> (Io_Eof, [], w1, got)
           | Err e \<Rightarrow> (Io_Error STATUS_IO, [], w1, got)
           | Ok (Some ciphertext) \<Rightarrow>
               (case sy_read sn (wr_transport w1) ciphertext MAX_PLAINTEXT of
                  (None, t) \<Rightarrow> (Io_Error STATUS_IO, [], w1\<lparr>wr_transport := t\<rparr>, got)
                | (Some p, t) \<Rightarrow>
                    if p = [] then (Io_Error STATUS_IO, [], w1\<lparr>wr_transport := t\<rparr>, got)
                    else (case copy_plaintext n (w1\<lparr>wr_transport := t, wr_received_records := wr_received_records w1 + 1,
                            wr_plaintext := p, wr_plaintext_offset := 0\<rparr>) of
                      (a, bs, w2) \<Rightarrow> (a, bs, w2, got))))))"

definition flush_wrapped :: "(nat \<Rightarrow> bytes \<Rightarrow> io_write) \<Rightarrow> 't wrapped \<Rightarrow> (bool, noise_error) result \<times> 't wrapped \<times> bytes" where
  "flush_wrapped wr w = (case flush_bytes wr (wr_outbound w) (wr_outbound_offset w) of
     (q, offset, sent) \<Rightarrow>
       (q, if q = Ok True then w\<lparr>wr_outbound := [], wr_outbound_offset := 0\<rparr> else w\<lparr>wr_outbound_offset := offset\<rparr>, sent))"

text \<open>The part of a write that makes a new record.\<close>

definition write_record :: "('h, 't) snow \<Rightarrow> bytes \<Rightarrow> 't wrapped \<Rightarrow> io_result \<times> 't wrapped" where
  "write_record sn input w =
     (if input = [] then (Io_Progress 0, w)
      else if RECORD_LIMIT \<le> wr_sent_records w then (Io_Error STATUS_IO, w)
      else let count = min (length input) MAX_PLAINTEXT in
        (case sy_write sn (wr_transport w) (take count input) MAX_CIPHERTEXT of
           (None, t) \<Rightarrow> (Io_Error STATUS_IO, w\<lparr>wr_transport := t\<rparr>)
         | (Some c, t) \<Rightarrow> (case noise_frame c MAX_CIPHERTEXT of
             Err e \<Rightarrow> (Io_Error STATUS_IO, w\<lparr>wr_transport := t\<rparr>)
           | Ok f \<Rightarrow> (Io_Progress count, w\<lparr>wr_transport := t, wr_outbound := f, wr_outbound_offset := 0,
               wr_sent_records := wr_sent_records w + 1\<rparr>))))"

definition wrapped_write ::
  "('h, 't) snow \<Rightarrow> (nat \<Rightarrow> bytes \<Rightarrow> io_write) \<Rightarrow> bytes \<Rightarrow> 't wrapped \<Rightarrow> io_result \<times> 't wrapped \<times> bytes" where
  "wrapped_write sn wr input w =
     (if wr_outbound w \<noteq> [] then
        (case flush_wrapped wr w of
           (Ok False, w1, sent) \<Rightarrow> (Io_Pending, w1, sent)
         | (Err e, w1, sent) \<Rightarrow> (Io_Error STATUS_IO, w1, sent)
         | (Ok True, w1, sent) \<Rightarrow> (case write_record sn input w1 of (a, w2) \<Rightarrow> (a, w2, sent)))
      else (case write_record sn input w of (a, w2) \<Rightarrow> (a, w2, [])))"

text \<open>Flushing and closing the write side: first the own buffer, then the lower stream, whose answer
  is \<open>lower\<close>.\<close>

definition then_lower ::
  "(nat \<Rightarrow> bytes \<Rightarrow> io_write) \<Rightarrow> bool \<Rightarrow> io_result \<Rightarrow> 't wrapped \<Rightarrow> io_result \<times> 't wrapped \<times> bytes" where
  "then_lower wr present lower w = (case flush_wrapped wr w of
     (Ok False, w1, sent) \<Rightarrow> (Io_Pending, w1, sent)
   | (Err e, w1, sent) \<Rightarrow> (Io_Error STATUS_IO, w1, sent)
   | (Ok True, w1, sent) \<Rightarrow> (if \<not> present then Io_Error STATUS_INVALID else lower, w1, sent))"

definition wrapped_flush where
  "wrapped_flush wr lower w = then_lower wr (bi_flush (wr_io w)) lower w"

definition wrapped_shutdown_write where
  "wrapped_shutdown_write wr lower w = then_lower wr (bi_shutdown_write (wr_io w)) lower w"

end
