(* ===== verification/Noise_Stream.thy ===== *)
theory Noise_Stream
  imports Noise_Channel
begin

text \<open>
  Two ends of a Noise stream over a byte pipe: what the writer's end accepts arrives at the reader's
  end, in order, whatever the segmentation of the pipe and however often either end is blocked.
\<close>

text \<open>
  What the module relies on of snow's transport states: the ends of a handshake are linked; while
  fewer than \<open>2 ^ 64 - 1\<close> messages were sent, a message that fits into the output buffer with its tag of
  16 bytes is encrypted, the linked end decrypts it into any buffer that is large enough, and the ends
  stay linked.
\<close>

definition snow_ok :: "('h, 't) snow \<Rightarrow> (nat \<Rightarrow> 't \<Rightarrow> 't \<Rightarrow> bool) \<Rightarrow> bool" where
  "snow_ok sn linked \<longleftrightarrow> (\<forall>n s r p size. linked n s r \<and> n < 2 ^ 64 - 1 \<and> length p + 16 \<le> size \<and> size \<le> 65535 \<longrightarrow>
     (\<exists>c s' r'. sy_write sn s p size = (Some c, s') \<and> length c = length p + 16 \<and>
        (\<forall>size'. length p \<le> size' \<longrightarrow> sy_read sn r c size' = (Some p, r')) \<and> linked (Suc n) s' r'))"

lemma snow_okD:
  assumes "snow_ok sn linked" "linked n s r" "n < 2 ^ 64 - 1" "length p \<le> MAX_PLAINTEXT"
  obtains c s' r' where "sy_write sn s p MAX_CIPHERTEXT = (Some c, s')" "c \<noteq> []" "length c \<le> MAX_CIPHERTEXT"
    "sy_read sn r c MAX_PLAINTEXT = (Some p, r')" "linked (Suc n) s' r'"
proof -
  have len: "length p + 16 \<le> MAX_CIPHERTEXT" "MAX_CIPHERTEXT \<le> 65535" using assms(4) by (auto simp: MAX_CIPHERTEXT_def MAX_PLAINTEXT_def)
  from assms(1) [unfolded snow_ok_def, rule_format, OF conjI [OF assms(2) conjI [OF assms(3) conjI [OF len]]]]
  obtain c s' r' where c: "sy_write sn s p MAX_CIPHERTEXT = (Some c, s')" "length c = length p + 16"
    "\<forall>size'. length p \<le> size' \<longrightarrow> sy_read sn r c size' = (Some p, r')" "linked (Suc n) s' r'" by blast
  have "sy_read sn r c MAX_PLAINTEXT = (Some p, r')" using c(3) assms(4) by blast
  with that c(1,2,4) len(1) show ?thesis by fastforce
qed

section \<open>Records in flight\<close>

definition noise_record :: "bytes \<Rightarrow> bytes" where
  "noise_record c = be_bytes16 (length c) @ c"

definition legal_record :: "bytes \<Rightarrow> bool" where
  "legal_record c \<longleftrightarrow> c \<noteq> [] \<and> length c \<le> MAX_CIPHERTEXT"

lemma noise_frame_legal: "legal_record c \<Longrightarrow> noise_frame c MAX_CIPHERTEXT = Ok (noise_record c)"
  by (auto simp: noise_frame_def noise_record_def legal_record_def MAX_CIPHERTEXT_def)

lemma record_first:
  assumes "be_bytes16 (length f) @ f @ x = concat (map noise_record cs)" "list_all legal_record cs" "f \<noteq> []" "length f \<le> MAX_CIPHERTEXT"
  shows "\<exists>cs'. cs = f # cs' \<and> x = concat (map noise_record cs')"
proof (cases cs)
  case Nil
  with assms(1) show ?thesis by (simp add: be_bytes16_def)
next
  case (Cons c cs')
  with assms(1) have eq: "be_bytes16 (length f) @ f @ x = be_bytes16 (length c) @ c @ concat (map noise_record cs')"
    by (simp add: noise_record_def)
  then have h: "be_bytes16 (length f) = be_bytes16 (length c)" and rest: "f @ x = c @ concat (map noise_record cs')"
    by (simp_all add: be_bytes16_def)
  have "length f < 65536" "length c < 65536" using assms(2,4) Cons by (auto simp: legal_record_def MAX_CIPHERTEXT_def)
  with h have "length f = length c" by (metis be_value_bytes16)
  with rest Cons show ?thesis by auto
qed

text \<open>The records, decrypted one after the other from a transport state, are the plaintexts.\<close>

fun opened :: "('h, 't) snow \<Rightarrow> 't \<Rightarrow> bytes list \<Rightarrow> bytes list \<Rightarrow> 't \<Rightarrow> bool" where
  "opened sn r [] [] r' \<longleftrightarrow> r' = r"
| "opened sn r (c # cs) (p # ps) r' \<longleftrightarrow>
     (case sy_read sn r c MAX_PLAINTEXT of (q, r1) \<Rightarrow> q = Some p \<and> opened sn r1 cs ps r') \<and> p \<noteq> []"
| "opened sn r _ _ r' \<longleftrightarrow> False"

lemma opened_snoc:
  "opened sn r cs ps r' \<Longrightarrow> sy_read sn r' c MAX_PLAINTEXT = (Some p, r'') \<Longrightarrow> p \<noteq> [] \<Longrightarrow> opened sn r (cs @ [c]) (ps @ [p]) r''"
  by (induction sn r cs ps r' rule: opened.induct) (auto split: prod.splits)

section \<open>Runs\<close>

text \<open>The bytes of an input that a write has accepted.\<close>

definition accepted :: "io_result \<Rightarrow> bytes \<Rightarrow> bytes" where
  "accepted a input = (case a of Io_Progress n \<Rightarrow> take n input | _ \<Rightarrow> [])"

text \<open>Writer, bytes in the pipe, reader, and what was accepted and delivered so far.\<close>

inductive noise_run ::
  "('h, 't) snow \<Rightarrow> (nat \<Rightarrow> 't \<Rightarrow> 't \<Rightarrow> bool) \<Rightarrow> 't wrapped \<Rightarrow> bytes \<Rightarrow> 't wrapped \<Rightarrow> bytes \<Rightarrow> bytes \<Rightarrow> bool"
  for sn :: "('h, 't) snow" and linked :: "nat \<Rightarrow> 't \<Rightarrow> 't \<Rightarrow> bool" where
  start: "linked 0 s r \<Longrightarrow> noise_run sn linked (wrapped_new o1 l1 io1 s) [] (wrapped_new o2 l2 io2 r) [] []"
| send: "noise_run sn linked s pipe r acc del \<Longrightarrow> wrapped_write sn wr input s = (a, s', sent) \<Longrightarrow>
    noise_run sn linked s' (pipe @ sent) r (acc @ accepted a input) del"
| flush: "noise_run sn linked s pipe r acc del \<Longrightarrow> then_lower wr present lower s = (a, s', sent) \<Longrightarrow>
    noise_run sn linked s' (pipe @ sent) r acc del"
| recv: "noise_run sn linked s (got @ pipe) r acc del \<Longrightarrow> wrapped_read sn rd n r = (a, bs, r', got) \<Longrightarrow>
    noise_run sn linked s pipe r' acc (del @ bs)"

definition undelivered :: "'t wrapped \<Rightarrow> bytes" where
  "undelivered w = drop (wr_plaintext_offset w) (wr_plaintext w)"

definition unsent :: "'t wrapped \<Rightarrow> bytes" where
  "unsent w = drop (wr_outbound_offset w) (wr_outbound w)"

definition noise_inv ::
  "('h, 't) snow \<Rightarrow> (nat \<Rightarrow> 't \<Rightarrow> 't \<Rightarrow> bool) \<Rightarrow> 't wrapped \<Rightarrow> bytes \<Rightarrow> 't wrapped \<Rightarrow> bytes \<Rightarrow> bytes \<Rightarrow> bool" where
  "noise_inv sn linked s pipe r acc del \<longleftrightarrow>
     reader_wf MAX_CIPHERTEXT (wr_inbound r) \<and> wr_outbound_offset s \<le> length (wr_outbound s) \<and>
     wr_sent_records s \<le> RECORD_LIMIT \<and>
     (\<exists>cs ps t. opened sn (wr_transport r) cs ps t \<and> list_all legal_record cs \<and> linked (unat (wr_sent_records s)) (wr_transport s) t \<and>
        fr_data (wr_inbound r) @ pipe @ unsent s = concat (map noise_record cs) \<and> acc = del @ undelivered r @ concat ps)"

lemma noise_invI:
  "reader_wf MAX_CIPHERTEXT (wr_inbound r) \<Longrightarrow> opened sn (wr_transport r) cs ps t \<Longrightarrow> list_all legal_record cs \<Longrightarrow>
     fr_data (wr_inbound r) @ pipe @ unsent s = concat (map noise_record cs) \<Longrightarrow> acc = del @ undelivered r @ concat ps \<Longrightarrow>
     linked (unat (wr_sent_records s)) (wr_transport s) t \<Longrightarrow> wr_sent_records s \<le> RECORD_LIMIT \<Longrightarrow>
     wr_outbound_offset s \<le> length (wr_outbound s) \<Longrightarrow> noise_inv sn linked s pipe r acc del"
  unfolding noise_inv_def by blast

lemma noise_inv_start: "linked 0 s r \<Longrightarrow> noise_inv sn linked (wrapped_new o1 l1 io1 s) [] (wrapped_new o2 l2 io2 r) [] []"
  by (auto simp: noise_inv_def wrapped_new_def reader_default_wf unsent_def undelivered_def intro!: exI [of _ "[]"])

lemma flush_wrapped_inv:
  assumes "noise_inv sn linked s pipe r acc del" "flush_wrapped wr s = (q, s', sent)"
  shows "noise_inv sn linked s' (pipe @ sent) r acc del \<and> (q = Ok True \<longrightarrow> wr_outbound s' = [])"
proof -
  obtain offset where f: "flush_bytes wr (wr_outbound s) (wr_outbound_offset s) = (q, offset, sent)"
    and s': "s' = (if q = Ok True then s\<lparr>wr_outbound := [], wr_outbound_offset := 0\<rparr> else s\<lparr>wr_outbound_offset := offset\<rparr>)"
    using assms(2) by (auto simp: flush_wrapped_def split: prod.splits)
  from assms(1) have "wr_outbound_offset s \<le> length (wr_outbound s)" by (simp add: noise_inv_def)
  from flush_bytes_sent [OF f this] have le: "offset \<le> length (wr_outbound s)"
    and sent: "sent @ drop offset (wr_outbound s) = unsent s" and q: "q = Ok True \<longleftrightarrow> offset = length (wr_outbound s)"
    by (auto simp: unsent_def)
  have "sent @ unsent s' = unsent s" using sent q s' by (auto simp: unsent_def)
  then have "pipe @ unsent s = (pipe @ sent) @ unsent s'" by simp
  moreover have "wr_transport s' = wr_transport s" "wr_sent_records s' = wr_sent_records s" "wr_outbound_offset s' \<le> length (wr_outbound s')"
    "q = Ok True \<longrightarrow> wr_outbound s' = []"
    using le by (simp_all add: s')
  ultimately show ?thesis using assms(1) by (simp add: noise_inv_def)
qed

lemma write_record_inv:
  assumes "snow_ok sn linked" "noise_inv sn linked s pipe r acc del" "wr_outbound s = []" "write_record sn input s = (a, s')"
  shows "noise_inv sn linked s' pipe r (acc @ accepted a input) del"
proof (cases "input = [] \<or> RECORD_LIMIT \<le> wr_sent_records s")
  case True
  with assms(2,4) show ?thesis by (auto simp: write_record_def accepted_def split: if_splits)
next
  case False
  let ?p = "take (min (length input) MAX_PLAINTEXT) input"
  from assms(2) obtain cs ps t where inv: "opened sn (wr_transport r) cs ps t" "list_all legal_record cs"
    "linked (unat (wr_sent_records s)) (wr_transport s) t" "fr_data (wr_inbound r) @ pipe @ unsent s = concat (map noise_record cs)"
    "acc = del @ undelivered r @ concat ps" and wf: "reader_wf MAX_CIPHERTEXT (wr_inbound r)" by (auto simp: noise_inv_def)
  from False have lt: "wr_sent_records s < RECORD_LIMIT" by (simp add: not_le)
  then have nat_lt: "unat (wr_sent_records s) < 4294967296" by (simp add: RECORD_LIMIT_def word_less_nat_alt)
  then have n: "unat (wr_sent_records s) < 2 ^ 64 - 1" "unat (wr_sent_records s + 1) = Suc (unat (wr_sent_records s))"
    by (simp_all add: unat_word_ariths)
  have p: "?p \<noteq> []" using False by (auto simp: MAX_PLAINTEXT_def)
  have "length ?p \<le> MAX_PLAINTEXT" by simp
  from snow_okD [OF assms(1) inv(3) n(1) this] obtain c t1 t2 where c: "sy_write sn (wr_transport s) ?p MAX_CIPHERTEXT = (Some c, t1)"
    "c \<noteq> []" "length c \<le> MAX_CIPHERTEXT" "sy_read sn t c MAX_PLAINTEXT = (Some ?p, t2)" "linked (Suc (unat (wr_sent_records s))) t1 t2" .
  have legal: "legal_record c" using c(2,3) by (simp add: legal_record_def)
  have s': "s' = s\<lparr>wr_transport := t1, wr_outbound := noise_record c, wr_outbound_offset := 0, wr_sent_records := wr_sent_records s + 1\<rparr>"
    and a: "a = Io_Progress (min (length input) MAX_PLAINTEXT)"
    using assms(4) False c(1) noise_frame_legal [OF legal] by (auto simp: write_record_def Let_def)
  have "opened sn (wr_transport r) (cs @ [c]) (ps @ [?p]) t2" by (rule opened_snoc [OF inv(1) c(4) p])
  moreover have "list_all legal_record (cs @ [c])" using inv(2) legal by simp
  moreover have "fr_data (wr_inbound r) @ pipe @ unsent s' = concat (map noise_record (cs @ [c]))"
    using inv(4) assms(3) by (simp add: s' unsent_def)
  moreover have "acc @ accepted a input = del @ undelivered r @ concat (ps @ [?p])" using inv(5) by (simp add: a accepted_def)
  moreover have "linked (unat (wr_sent_records s')) (wr_transport s') t2" using c(5) n(2) by (simp add: s')
  moreover have "wr_sent_records s' \<le> RECORD_LIMIT" using nat_lt n(2) by (simp add: s' RECORD_LIMIT_def word_le_nat_alt)
  moreover have "wr_outbound_offset s' \<le> length (wr_outbound s')" by (simp add: s')
  ultimately show ?thesis by (rule noise_invI [OF wf])
qed

lemma wrapped_write_inv:
  assumes "snow_ok sn linked" "noise_inv sn linked s pipe r acc del" "wrapped_write sn wr input s = (a, s', sent)"
  shows "noise_inv sn linked s' (pipe @ sent) r (acc @ accepted a input) del"
proof (cases "wr_outbound s = []")
  case True
  obtain a1 s1 where w: "write_record sn input s = (a1, s1)" by force
  from write_record_inv [OF assms(1,2) True w] assms(3) True w show ?thesis by (simp add: wrapped_write_def)
next
  case False
  obtain q s1 sent1 where f: "flush_wrapped wr s = (q, s1, sent1)" by (metis prod_cases3)
  from flush_wrapped_inv [OF assms(2) f] have inv: "noise_inv sn linked s1 (pipe @ sent1) r acc del"
    and empty: "q = Ok True \<longrightarrow> wr_outbound s1 = []" by auto
  show ?thesis
  proof (cases "q = Ok True")
    case True
    obtain a1 s2 where w: "write_record sn input s1 = (a1, s2)" by force
    from True empty have "wr_outbound s1 = []" by simp
    from write_record_inv [OF assms(1) inv this w] assms(3) False f True w show ?thesis by (simp add: wrapped_write_def)
  next
    case fails: False
    with assms(3) False f have "s' = s1" "sent = sent1" "accepted a input = []"
      by (auto simp: wrapped_write_def accepted_def split: result.splits bool.splits)
    with inv show ?thesis by simp
  qed
qed

lemma then_lower_inv:
  assumes "noise_inv sn linked s pipe r acc del" "then_lower wr present lower s = (a, s', sent)"
  shows "noise_inv sn linked s' (pipe @ sent) r acc del"
proof -
  obtain q s1 sent1 where f: "flush_wrapped wr s = (q, s1, sent1)" by (metis prod_cases3)
  with assms(2) have "s' = s1" "sent = sent1" by (auto simp: then_lower_def split: result.splits bool.splits)
  with flush_wrapped_inv [OF assms(1) f] show ?thesis by simp
qed

lemma copy_plaintext_parts:
  assumes "copy_plaintext n w = (a, bs, w')"
  shows "undelivered w = bs @ undelivered w' \<and> wr_inbound w' = wr_inbound w \<and> wr_transport w' = wr_transport w"
proof (cases "n = 0")
  case True
  with assms show ?thesis by (simp add: copy_plaintext_def)
next
  case False
  let ?c = "min (length (undelivered w)) n"
  let ?o = "wr_plaintext_offset w + ?c"
  from assms False have bs: "bs = take ?c (undelivered w)"
    and w': "w' = (if ?o = length (wr_plaintext w) then w\<lparr>wr_plaintext := [], wr_plaintext_offset := 0\<rparr> else w\<lparr>wr_plaintext_offset := ?o\<rparr>)"
    by (auto simp: copy_plaintext_def undelivered_def Let_def)
  have "undelivered w' = drop ?o (wr_plaintext w)" by (simp add: w' undelivered_def)
  also have "\<dots> = drop ?c (undelivered w)" by (simp add: undelivered_def add.commute)
  finally show ?thesis by (simp only: bs append_take_drop_id) (simp add: w')
qed

lemma wrapped_read_waits:
  assumes "\<not> wr_plaintext_offset r < length (wr_plaintext r)" "\<not> RECORD_LIMIT \<le> wr_received_records r"
    "read_frame rd MAX_CIPHERTEXT (wr_inbound r) = (q, fr, got)" "\<nexists>f. q = Ok (Some f)"
  shows "\<exists>a. wrapped_read sn rd n r = (a, [], r\<lparr>wr_inbound := fr\<rparr>, got)"
proof (cases q)
  case (Ok x)
  with assms show ?thesis by (cases x) (simp_all add: wrapped_read_def)
next
  case (Err e)
  with assms show ?thesis by (cases e) (simp_all add: wrapped_read_def)
qed

lemma wrapped_read_got:
  assumes "\<not> wr_plaintext_offset r < length (wr_plaintext r)" "\<not> RECORD_LIMIT \<le> wr_received_records r"
    "read_frame rd MAX_CIPHERTEXT (wr_inbound r) = (Ok (Some f), fr, got1)" "wrapped_read sn rd n r = (a, bs, r', got)"
  shows "got = got1"
proof -
  obtain q t where q: "sy_read sn (wr_transport r) f MAX_PLAINTEXT = (q, t)" by force
  show ?thesis
  proof (cases q)
    case None
    with assms q show ?thesis by (simp add: wrapped_read_def)
  next
    case (Some p)
    with assms q show ?thesis by (auto simp: wrapped_read_def Let_def split: if_splits prod.splits)
  qed
qed

lemma wrapped_read_record:
  assumes "\<not> wr_plaintext_offset r < length (wr_plaintext r)" "\<not> RECORD_LIMIT \<le> wr_received_records r"
    "read_frame rd MAX_CIPHERTEXT (wr_inbound r) = (Ok (Some f), fr, got)"
    "sy_read sn (wr_transport r) f MAX_PLAINTEXT = (Some p, t)" "p \<noteq> []"
  shows "wrapped_read sn rd n r = (case copy_plaintext n (r\<lparr>wr_inbound := fr, wr_transport := t,
      wr_received_records := wr_received_records r + 1, wr_plaintext := p, wr_plaintext_offset := 0\<rparr>) of (a, bs, w) \<Rightarrow> (a, bs, w, got))"
  using assms by (simp add: wrapped_read_def)

text \<open>A read either serves what is already decrypted, or takes the next record off the pipe, or waits.\<close>

lemma wrapped_read_inv:
  assumes "noise_inv sn linked s (got @ pipe) r acc del" "wrapped_read sn rd n r = (a, bs, r', got)"
  shows "noise_inv sn linked s pipe r' acc (del @ bs)"
proof -
  from assms(1) obtain cs ps t where inv: "opened sn (wr_transport r) cs ps t" "list_all legal_record cs"
    "linked (unat (wr_sent_records s)) (wr_transport s) t" "fr_data (wr_inbound r) @ got @ pipe @ unsent s = concat (map noise_record cs)"
    "acc = del @ undelivered r @ concat ps" and wf: "reader_wf MAX_CIPHERTEXT (wr_inbound r)"
    and rest: "wr_outbound_offset s \<le> length (wr_outbound s)" "wr_sent_records s \<le> RECORD_LIMIT" by (auto simp: noise_inv_def)
  consider (copy) "wr_plaintext_offset r < length (wr_plaintext r)"
    | (limit) "\<not> wr_plaintext_offset r < length (wr_plaintext r)" "RECORD_LIMIT \<le> wr_received_records r"
    | (next_record) "\<not> wr_plaintext_offset r < length (wr_plaintext r)" "\<not> RECORD_LIMIT \<le> wr_received_records r" by blast
  then show ?thesis
  proof cases
    case copy
    with assms(2) have c: "copy_plaintext n r = (a, bs, r')" and got: "got = []" by (auto simp: wrapped_read_def split: prod.splits)
    from copy_plaintext_parts [OF c] inv wf rest got show ?thesis unfolding noise_inv_def by auto
  next
    case limit
    with assms show ?thesis by (simp add: wrapped_read_def)
  next
    case next_record
    have empty: "undelivered r = []" using next_record(1) by (simp add: undelivered_def)
    obtain q fr got1 where l: "read_loop rd MAX_CIPHERTEXT 0 (wr_inbound r) = (q, fr, got1)" by (metis prod_cases3)
    have rf: "read_frame rd MAX_CIPHERTEXT (wr_inbound r) = (q, fr, got1)" using l reader_take_wf [OF wf] by (simp add: read_frame_def)
    have small: "MAX_CIPHERTEXT + 2 \<le> usize_max" by (simp add: MAX_CIPHERTEXT_def usize_max_def)
    note col = read_loop_collects [OF wf small l]
    show ?thesis
    proof (cases "\<exists>f. q = Ok (Some f)")
      case True
      then obtain f where q: "q = Ok (Some f)" by blast
      with col have f: "fr_data (wr_inbound r) @ got1 = be_bytes16 (length f) @ f" "f \<noteq> []" "length f \<le> MAX_CIPHERTEXT" "fr = reader_default"
        by auto
      have got: "got = got1" by (rule wrapped_read_got [OF next_record rf [unfolded q] assms(2)])
      have "be_bytes16 (length f) @ f @ pipe @ unsent s = concat (map noise_record cs)"
        using inv(4) f(1) got by (metis append.assoc)
      from record_first [OF this inv(2) f(2,3)] obtain cs' where cs: "cs = f # cs'" and x: "pipe @ unsent s = concat (map noise_record cs')" by auto
      from inv(1) cs obtain p ps' t1 where ps: "ps = p # ps'" and rd1: "sy_read sn (wr_transport r) f MAX_PLAINTEXT = (Some p, t1)"
        and p: "p \<noteq> []" and op: "opened sn t1 cs' ps' t" by (cases ps) (auto split: prod.splits)
      let ?w = "r\<lparr>wr_inbound := fr, wr_transport := t1, wr_received_records := wr_received_records r + 1, wr_plaintext := p, wr_plaintext_offset := 0\<rparr>"
      have c: "copy_plaintext n ?w = (a, bs, r')"
        using wrapped_read_record [OF next_record rf [unfolded q] rd1 p, of n] assms(2) by (auto split: prod.splits)
      from copy_plaintext_parts [OF c] have parts: "p = bs @ undelivered r'" "wr_inbound r' = reader_default" "wr_transport r' = t1"
        by (simp_all add: undelivered_def f(4))
      have "acc = (del @ bs) @ undelivered r' @ concat ps'" using inv(5) empty ps parts(1) by simp
      with op inv(2,3) x cs rest parts show ?thesis
        by (intro noise_invI [of r' sn cs' ps' t]) (simp_all add: reader_default_wf)
    next
      case False
      from wrapped_read_waits [OF next_record rf False, of sn n] assms(2)
      have r': "r' = r\<lparr>wr_inbound := fr\<rparr>" and bs: "bs = []" and got: "got1 = got" by auto
      have "q \<noteq> Err Noise_Length"
      proof
        assume "q = Err Noise_Length"
        with col got have h: "length (fr_data (wr_inbound r) @ got) = 2"
          "be_value (fr_data (wr_inbound r) @ got) = 0 \<or> MAX_CIPHERTEXT < be_value (fr_data (wr_inbound r) @ got)" by auto
        have "cs \<noteq> []" using inv(4) h(1) by auto
        then obtain c cs' where cs: "cs = c # cs'" by (cases cs) auto
        have "(fr_data (wr_inbound r) @ got) @ pipe @ unsent s = be_bytes16 (length c) @ c @ concat (map noise_record cs')"
          using inv(4) cs by (simp add: noise_record_def)
        then have "fr_data (wr_inbound r) @ got = be_bytes16 (length c)" using h(1) by (metis append_eq_append_conv length_be_bytes(2))
        then have "be_value (fr_data (wr_inbound r) @ got) = length c" using inv(2) cs by (simp add: legal_record_def MAX_CIPHERTEXT_def)
        with h(2) inv(2) cs show False by (auto simp: legal_record_def)
      qed
      with col False have fr: "fr_data fr = fr_data (wr_inbound r) @ got1" "reader_wf MAX_CIPHERTEXT fr"
        by (auto split: result.splits option.splits noise_error.splits)
      show ?thesis
        by (rule noise_invI [of r' sn cs ps t]) (use fr inv rest in \<open>simp_all add: r' bs got undelivered_def\<close>)
    qed
  qed
qed

lemma noise_run_inv: "noise_run sn linked s pipe r acc del \<Longrightarrow> snow_ok sn linked \<Longrightarrow> noise_inv sn linked s pipe r acc del"
proof (induction rule: noise_run.induct)
  case (start s r o1 l1 io1 o2 l2 io2)
  then show ?case by (intro noise_inv_start)
next
  case (send s pipe r acc del wr input a s' sent)
  from wrapped_write_inv [OF send.prems send.IH [OF send.prems] send.hyps(2)] show ?case .
next
  case (flush s pipe r acc del wr present lower a s' sent)
  from then_lower_inv [OF flush.IH [OF flush.prems] flush.hyps(2)] show ?case .
next
  case (recv s got pipe r acc del rd n a bs r')
  from wrapped_read_inv [OF recv.IH [OF recv.prems] recv.hyps(2)] show ?case .
qed

lemma records_not_partial:
  assumes "reader_wf limit r" "fr_data r = concat (map noise_record cs)" "list_all legal_record cs"
  shows "cs = []"
proof (cases cs)
  case (Cons c cs')
  with assms(2) have d: "fr_data r = be_bytes16 (length c) @ c @ concat (map noise_record cs')" by (simp add: noise_record_def)
  have c: "length c < 65536" using assms(3) Cons by (simp add: legal_record_def MAX_CIPHERTEXT_def)
  have "be_value (take 2 (fr_data r)) = length c" using c by (simp add: d)
  moreover have "length c + 2 \<le> length (fr_data r)" by (simp add: d)
  ultimately show ?thesis using assms(1) by (auto simp: reader_wf_def split: option.splits)
qed

section \<open>Properties\<close>

text \<open>C3. A Noise stream delivers exactly what it accepts. For every sequence of writes, flushes and reads
  on the two ends, every segmentation and blocking of the pipe between them: the bytes delivered are a
  prefix of the bytes accepted, and once nothing is left in the buffers of the ends and in the pipe they
  are all of them.\<close>

theorem noise_stream_exact:
  assumes "snow_ok sn linked" and "noise_run sn linked s pipe r acc del"
  shows "\<exists>rest. acc = del @ rest \<and> (pipe = [] \<and> unsent s = [] \<and> undelivered r = [] \<longrightarrow> rest = [])"
proof -
  from noise_run_inv [OF assms(2,1)] obtain cs ps t where inv: "opened sn (wr_transport r) cs ps t" "list_all legal_record cs"
    "fr_data (wr_inbound r) @ pipe @ unsent s = concat (map noise_record cs)" "acc = del @ undelivered r @ concat ps"
    and wf: "reader_wf MAX_CIPHERTEXT (wr_inbound r)" by (auto simp: noise_inv_def)
  have "undelivered r @ concat ps = []" if "pipe = []" "unsent s = []" "undelivered r = []"
  proof -
    have "fr_data (wr_inbound r) = concat (map noise_record cs)" using inv(3) that by simp
    from records_not_partial [OF wf this inv(2)] inv(1) have "ps = []" by (cases ps) auto
    with that show ?thesis by simp
  qed
  with inv(4) show ?thesis by blast
qed

text \<open>A stand-in for snow that appends an empty tag and counts messages.\<close>

definition example_snow :: "(nat, nat) snow" where
  "example_snow = \<lparr>sy_initiator = \<lambda>_ _ _. Some 0, sy_responder = \<lambda>_ _ _. Some 0, sy_hs_write = \<lambda>h _ _. (Some [1], Suc h),
     sy_hs_read = \<lambda>h _ _. (Some [], Suc h), sy_finished = \<lambda>h. h = 2, sy_transport = \<lambda>h. Some 0,
     sy_write = \<lambda>n p size. (Some (p @ replicate 16 0), Suc n), sy_read = \<lambda>n c size. (Some (take (length c - 16) c), Suc n)\<rparr>"

lemma example_snow_ok: "snow_ok example_snow (\<lambda>n s r. s = n \<and> r = n)"
  by (simp add: snow_ok_def example_snow_def)

abbreviation example_noise_run :: "nat wrapped \<Rightarrow> bytes \<Rightarrow> nat wrapped \<Rightarrow> bytes \<Rightarrow> bytes \<Rightarrow> bool" where
  "example_noise_run \<equiv> noise_run example_snow (\<lambda>n s r. s = n \<and> r = n)"

definition example_byte_io :: byte_io where
  "example_byte_io = \<lparr>bi_address = 1, bi_struct_size = 48, bi_reserved = 0, bi_read = True, bi_write = True, bi_flush = True,
     bi_shutdown_write = True, bi_close = True\<rparr>"

abbreviation example_end :: "nat wrapped" where
  "example_end \<equiv> wrapped_new 1 2 example_byte_io 0"

definition example_record :: bytes where
  "example_record = [0, 19, 1, 2, 3] @ replicate 16 0"

lemma example_send:
  "wrapped_write example_snow (\<lambda>_ bs. Write_Count (length bs)) [1, 2, 3] example_end =
     (Io_Progress 3, example_end\<lparr>wr_transport := 1, wr_outbound := example_record, wr_sent_records := 1\<rparr>, [])"
  by (simp add: wrapped_write_def write_record_def wrapped_new_def example_snow_def noise_frame_def MAX_PLAINTEXT_def
      MAX_CIPHERTEXT_def RECORD_LIMIT_def example_record_def be_bytes16_def)

lemma example_flushed:
  "then_lower (\<lambda>_ bs. Write_Count (length bs)) True (Io_Progress 0)
     (example_end\<lparr>wr_transport := 1, wr_outbound := example_record, wr_sent_records := 1\<rparr>) =
     (Io_Progress 0, example_end\<lparr>wr_transport := 1, wr_sent_records := 1\<rparr>, example_record)"
  by (simp add: then_lower_def flush_wrapped_def flush_bytes_def write_loop.simps checked_write_def wrapped_new_def example_record_def)

lemma example_received:
  "\<exists>r. wrapped_read example_snow (\<lambda>k n. if k = 0 then Foreign_Data [0, 19] else Foreign_Data ([1, 2, 3] @ replicate 16 0)) 8 example_end =
     (Io_Progress 3, [1, 2, 3], r, example_record) \<and> undelivered r = []"
proof -
  let ?rd = "\<lambda>k n. if k = (0 :: nat) then Foreign_Data [0, 19] else Foreign_Data ([1, 2, 3] @ replicate 16 0)"
  have "read_loop ?rd MAX_CIPHERTEXT 1 \<lparr>fr_data = [0, 19], fr_expected = Some 21\<rparr> =
      (Ok (Some ([1, 2, 3] @ replicate 16 0)), reader_default, [1, 2, 3] @ replicate 16 0)"
    by (simp add: read_loop.simps remaining_capacity_def reader_push_def reader_take_def usize_saturating_add_def usize_max_def
        MAX_CIPHERTEXT_def reader_default_def)
  moreover have "reader_push reader_default [0, 19] MAX_CIPHERTEXT = (Ok (), \<lparr>fr_data = [0, 19], fr_expected = Some 21\<rparr>)"
    by (simp add: reader_push_def reader_default_def usize_saturating_add_def usize_max_def MAX_CIPHERTEXT_def be_value_def)
  ultimately have "read_frame ?rd MAX_CIPHERTEXT reader_default =
      (Ok (Some ([1, 2, 3] @ replicate 16 0)), reader_default, example_record)"
    by (simp add: read_frame_def reader_default_def reader_take_def read_loop.simps [of ?rd _ 0] remaining_capacity_def
        MAX_CIPHERTEXT_def example_record_def)
  then show ?thesis
    by (simp add: wrapped_read_def wrapped_new_def RECORD_LIMIT_def example_snow_def copy_plaintext_def undelivered_def)
qed

theorem noise_stream_exact_witness:
  "\<exists>s r rest. example_noise_run s [] r [1, 2, 3] [1, 2, 3] \<and> [1, 2, 3] = [1, 2, 3] @ rest \<and> rest = []"
proof -
  have "example_noise_run example_end [] example_end [] []" by (rule noise_run.start) simp
  from noise_run.send [OF this example_send] have
    "example_noise_run (example_end\<lparr>wr_transport := 1, wr_outbound := example_record, wr_sent_records := 1\<rparr>) [] example_end [1, 2, 3] []"
    by (simp add: accepted_def)
  from noise_run.flush [OF this example_flushed]
  have flushed: "example_noise_run (example_end\<lparr>wr_transport := 1, wr_sent_records := 1\<rparr>) (example_record @ []) example_end [1, 2, 3] []" by simp
  from example_received obtain r where r: "wrapped_read example_snow
      (\<lambda>k n. if k = 0 then Foreign_Data [0, 19] else Foreign_Data ([1, 2, 3] @ replicate 16 0)) 8 example_end =
      (Io_Progress 3, [1, 2, 3], r, example_record)" and u: "undelivered r = []" by blast
  from noise_run.recv [OF flushed r]
  have run: "example_noise_run (example_end\<lparr>wr_transport := 1, wr_sent_records := 1\<rparr>) [] r [1, 2, 3] [1, 2, 3]" by simp
  from noise_stream_exact [OF example_snow_ok run] u run show ?thesis
    by (auto simp: unsent_def wrapped_new_def)
qed

end
