(* ===== verification/Noise_Host.thy ===== *)
theory Noise_Host
  imports Noise_Stream Net_Addr Hash_Map
begin

text \<open>
  The Noise protection module towards the host (\<^verbatim>\<open>protection-noise/src/lib.rs\<close>): keys, instances,
  handshakes under way, wrapped streams. TOML, files, and which pointers of a call are null are
  arguments. A panic is caught at the boundary of the module and becomes a status that the module kit
  chooses.
\<close>

section \<open>Keys\<close>

datatype noise_options = Options_Client str | Options_Server str
datatype role_key = Key_Client bytes | Key_Server bytes

definition char_boundary :: "str \<Rightarrow> nat \<Rightarrow> bool" where
  "char_boundary s i \<longleftrightarrow> i = 0 \<or> i = length s \<or> (i < length s \<and> \<not> utf8_cont (s ! i))"

text \<open>\<open>u8::from_str_radix(s, 16)\<close> for a text of two bytes; a leading plus sign is allowed.\<close>

definition parse_hex_byte :: "str \<Rightarrow> u8 option" where
  "parse_hex_byte s = (case s of
     [a, b] \<Rightarrow>
       if a = 43 then map_option of_nat (char_digit 16 b)
       else (case (char_digit 16 a, char_digit 16 b) of (Some x, Some y) \<Rightarrow> Some (of_nat (16 * x + y)) | _ \<Rightarrow> None)
   | _ \<Rightarrow> None)"

text \<open>The loop over the key bytes; slicing inside a character panics.\<close>

fun decode_key_loop :: "str \<Rightarrow> nat \<Rightarrow> nat \<Rightarrow> (bytes, unit) result may_panic" where
  "decode_key_loop input i 0 = Some (Ok [])"
| "decode_key_loop input i (Suc n) =
     (let offset = i * 2 in
      if \<not> char_boundary input offset \<or> \<not> char_boundary input (offset + 2) then None
      else (case parse_hex_byte (take 2 (drop offset input)) of
        None \<Rightarrow> Some (Err ())
      | Some b \<Rightarrow> map_option (\<lambda>r. try_bind r (\<lambda>bs. Ok (b # bs))) (decode_key_loop input (Suc i) n)))"

definition decode_key_hex :: "str \<Rightarrow> (bytes, unit) result may_panic" where
  "decode_key_hex input = (if length input \<noteq> 64 then Some (Err ()) else decode_key_loop input 0 32)"

definition read_key :: "(str \<Rightarrow> bytes option) \<Rightarrow> str \<Rightarrow> str \<Rightarrow> (bytes, unit) result may_panic" where
  "read_key files base path =
     (case files (if is_absolute path then path else path_join base path) of
        None \<Rightarrow> Some (Err ())
      | Some bs \<Rightarrow>
          if length bs = 32 then Some (Ok bs)
          else (case from_utf8 bs of None \<Rightarrow> Some (Err ()) | Some text \<Rightarrow> decode_key_hex (trim text)))"

definition load_options ::
  "(str \<Rightarrow> noise_options option) \<Rightarrow> (str \<Rightarrow> bytes option) \<Rightarrow> bytes \<Rightarrow> bytes \<Rightarrow> (role_key, unit) result may_panic" where
  "load_options toml files config base = (case (from_utf8 config, from_utf8 base) of
     (Some text, Some dir) \<Rightarrow> (case toml text of
       None \<Rightarrow> Some (Err ())
     | Some (Options_Client path) \<Rightarrow> map_option (\<lambda>r. try_bind r (\<lambda>k. Ok (Key_Client k))) (read_key files dir path)
     | Some (Options_Server path) \<Rightarrow> map_option (\<lambda>r. try_bind r (\<lambda>k. Ok (Key_Server k))) (read_key files dir path))
   | _ \<Rightarrow> Some (Err ()))"

text \<open>Two inputs that a reader of hexadecimal keys should refuse with an error: a text with plus signs is
  taken as a key, and a text of 64 bytes with a character that lies across a pair makes the slice
  panic.\<close>

lemma plus_signs_make_a_key: "decode_key_hex (concat (replicate 32 [43, 49])) = Some (Ok (replicate 32 1))"
  by code_simp

lemma split_character_panics:
  "utf8_valid ([97, 0xC3, 0xA9] @ replicate 61 48) \<and> decode_key_hex ([97, 0xC3, 0xA9] @ replicate 61 48) = None"
  by code_simp

section \<open>Handshakes under way\<close>

record 'h pending_handshake =
  pd_owner :: u64
  pd_lower :: u64
  pd_io :: byte_io
  pd_handshake :: "'h option"
  pd_outbound :: bytes
  pd_outbound_offset :: nat
  pd_inbound :: frame_reader
  pd_server_reply :: bool

type_synonym ('h, 't) driven = "('t option, noise_error) result \<times> 'h pending_handshake"

definition pd_finish :: "('h, 't) snow \<Rightarrow> 'h pending_handshake \<Rightarrow> ('h, 't) driven" where
  "pd_finish sn p = (try_bind (hs_finish sn (pd_handshake p)) (\<lambda>t. Ok (Some t)), p\<lparr>pd_handshake := None\<rparr>)"

definition pd_flush :: "(nat \<Rightarrow> bytes \<Rightarrow> io_write) \<Rightarrow> 'h pending_handshake \<Rightarrow> (bool, noise_error) result \<times> 'h pending_handshake \<times> bytes" where
  "pd_flush wr p = (case flush_bytes wr (pd_outbound p) (pd_outbound_offset p) of
     (q, offset, sent) \<Rightarrow> (q, p\<lparr>pd_outbound_offset := offset\<rparr>, sent))"

text \<open>The message of the peer has arrived.\<close>

definition drive_message ::
  "('h, 't) snow \<Rightarrow> (nat \<Rightarrow> bytes \<Rightarrow> io_write) \<Rightarrow> bytes \<Rightarrow> 'h pending_handshake \<Rightarrow> ('t option, noise_error) result \<times> 'h pending_handshake \<times> bytes" where
  "drive_message sn wr message p = (case pd_handshake p of
     None \<Rightarrow> (Err Noise_State, p, [])
   | Some h \<Rightarrow> (case hs_accept sn h message of
       (Err e, h1) \<Rightarrow> (Err e, p\<lparr>pd_handshake := Some h1\<rparr>, [])
     | (Ok u, h1) \<Rightarrow>
         if pd_server_reply p then (case hs_message sn h1 of
           (Err e, h2) \<Rightarrow> (Err e, p\<lparr>pd_handshake := Some h2\<rparr>, [])
         | (Ok f, h2) \<Rightarrow> (case pd_flush wr (p\<lparr>pd_handshake := Some h2, pd_outbound := f\<rparr>) of
             (Err e, p1, sent) \<Rightarrow> (Err e, p1, sent)
           | (Ok False, p1, sent) \<Rightarrow> (Ok None, p1, sent)
           | (Ok True, p1, sent) \<Rightarrow> (case pd_finish sn p1 of (q, p2) \<Rightarrow> (q, p2, sent))))
         else (case pd_finish sn (p\<lparr>pd_handshake := Some h1\<rparr>) of (q, p1) \<Rightarrow> (q, p1, []))))"

text \<open>The last two components are the bytes sent to and received from the lower stream.\<close>

definition drive_read ::
  "('h, 't) snow \<Rightarrow> (nat \<Rightarrow> bytes \<Rightarrow> io_write) \<Rightarrow> (nat \<Rightarrow> nat \<Rightarrow> foreign_read) \<Rightarrow> 'h pending_handshake \<Rightarrow>
     ('t option, noise_error) result \<times> 'h pending_handshake \<times> bytes \<times> bytes" where
  "drive_read sn wr rd p = (case read_frame rd MAX_HANDSHAKE (pd_inbound p) of
     (Err e, r, got) \<Rightarrow> (Err e, p\<lparr>pd_inbound := r\<rparr>, [], got)
   | (Ok None, r, got) \<Rightarrow> (Ok None, p\<lparr>pd_inbound := r\<rparr>, [], got)
   | (Ok (Some message), r, got) \<Rightarrow>
       (case drive_message sn wr message (p\<lparr>pd_inbound := r\<rparr>) of (q, p1, sent) \<Rightarrow> (q, p1, sent, got)))"

definition drive ::
  "('h, 't) snow \<Rightarrow> (nat \<Rightarrow> bytes \<Rightarrow> io_write) \<Rightarrow> (nat \<Rightarrow> nat \<Rightarrow> foreign_read) \<Rightarrow> 'h pending_handshake \<Rightarrow>
     ('t option, noise_error) result \<times> 'h pending_handshake \<times> bytes \<times> bytes" where
  "drive sn wr rd p =
     (if pd_outbound p \<noteq> [] then (case pd_flush wr p of
        (Err e, p1, sent) \<Rightarrow> (Err e, p1, sent, [])
      | (Ok False, p1, sent) \<Rightarrow> (Ok None, p1, sent, [])
      | (Ok True, p1, sent) \<Rightarrow>
          let p2 = p1\<lparr>pd_outbound := [], pd_outbound_offset := 0\<rparr> in
          if pd_server_reply p2 then (case pd_finish sn p2 of (q, p3) \<Rightarrow> (q, p3, sent, []))
          else (case drive_read sn wr rd p2 of (q, p3, sent', got) \<Rightarrow> (q, p3, sent @ sent', got)))
      else drive_read sn wr rd p)"

section \<open>Calls of the host\<close>

record ('h, 't) noise_module =
  nm_instances :: "(u64, role_key) hashmap"
  nm_pending :: "(u64, 'h pending_handshake) hashmap"
  nm_wrapped :: "(u64, 't wrapped) hashmap"
  nm_instance_next :: u64
  nm_wrapped_next :: u64

definition noise_create ::
  "(str \<Rightarrow> noise_options option) \<Rightarrow> (str \<Rightarrow> bytes option) \<Rightarrow> status \<Rightarrow> (bytes \<times> bytes, status) result \<Rightarrow> bool \<Rightarrow>
     ('h, 't) noise_module \<Rightarrow> (status \<times> u64 option) \<times> ('h, 't) noise_module" where
  "noise_create toml files panicked input output_null m = (case input of
     Err e \<Rightarrow> ((e, None), m)
   | Ok (config, base) \<Rightarrow> (case load_options toml files config base of
       None \<Rightarrow> ((panicked, None), m)
     | Some (Err e) \<Rightarrow> ((STATUS_INVALID, None), m)
     | Some (Ok role) \<Rightarrow>
         if output_null then ((STATUS_INVALID, None), m)
         else let handle = nm_instance_next m; m1 = m\<lparr>nm_instance_next := handle + 1\<rparr> in
           if handle = 0 then ((STATUS_RESOURCE, None), m1)
           else ((STATUS_OK, Some handle), m1\<lparr>nm_instances := hm_insert handle role (nm_instances m1)\<rparr>)))"

definition noise_poll :: "u64 \<Rightarrow> ('h, 't) noise_module \<Rightarrow> status" where
  "noise_poll inst m = (if hm_contains (nm_instances m) inst then STATUS_PENDING else STATUS_INVALID)"

definition noise_control :: "u64 \<Rightarrow> bool \<Rightarrow> ('h, 't) noise_module \<Rightarrow> status" where
  "noise_control inst written_null m =
     (if written_null then STATUS_INVALID else if hm_contains (nm_instances m) inst then STATUS_UNSUPPORTED else STATUS_INVALID)"

definition noise_shutdown :: "u64 \<Rightarrow> ('h, 't) noise_module \<Rightarrow> status" where
  "noise_shutdown inst m = (if hm_contains (nm_instances m) inst then STATUS_OK else STATUS_INVALID)"

definition noise_destroy :: "u64 \<Rightarrow> ('h, 't) noise_module \<Rightarrow> ('h, 't) noise_module" where
  "noise_destroy inst m = m\<lparr>nm_pending := hm_retain (\<lambda>k p. pd_owner p \<noteq> inst) (nm_pending m),
     nm_wrapped := hm_retain (\<lambda>k w. wr_owner w \<noteq> inst) (nm_wrapped m), nm_instances := hm_remove inst (nm_instances m)\<rparr>"

text \<open>A new handshake of an instance.\<close>

definition start_handshake ::
  "('h, 't) snow \<Rightarrow> u64 \<Rightarrow> u64 \<Rightarrow> byte_io \<Rightarrow> ('h, 't) noise_module \<Rightarrow> ('h pending_handshake, status) result" where
  "start_handshake sn inst lower io m =
     try_bind (map_err (\<lambda>_. STATUS_INVALID) (try_bind (ok_or (hm_get (nm_instances m) inst) Noise_State) (\<lambda>role.
       case role of Key_Client key \<Rightarrow> handshake_client sn key | Key_Server key \<Rightarrow> handshake_server sn key))) (\<lambda>h.
     try_bind (if nh_responder h then Ok ([], True, h)
         else (case handshake_initial sn h of (Err e, h') \<Rightarrow> Err STATUS_INTERNAL | (Ok f, h') \<Rightarrow> Ok (f, False, h')))
       (\<lambda>(outbound, server_reply, h').
         Ok \<lparr>pd_owner = inst, pd_lower = lower, pd_io = io, pd_handshake = nh_state h', pd_outbound = outbound,
             pd_outbound_offset = 0, pd_inbound = reader_default, pd_server_reply = server_reply\<rparr>))"

text \<open>What the call has decided about the lower stream.\<close>

definition drive_pending ::
  "('h, 't) snow \<Rightarrow> (nat \<Rightarrow> bytes \<Rightarrow> io_write) \<Rightarrow> (nat \<Rightarrow> nat \<Rightarrow> foreign_read) \<Rightarrow> u64 \<Rightarrow> u64 \<Rightarrow> byte_io \<Rightarrow>
     'h pending_handshake \<Rightarrow> ('h, 't) noise_module \<Rightarrow> (status \<times> u64 option) \<times> ('h, 't) noise_module" where
  "drive_pending sn wr rd inst lower io p m = (case drive sn wr rd p of
     (Ok (Some t), p1, _, _) \<Rightarrow>
       (let handle = nm_wrapped_next m; m1 = m\<lparr>nm_wrapped_next := handle + 1\<rparr> in
        if handle = 0 then ((STATUS_RESOURCE, None), m1)
        else ((STATUS_OK, Some handle), m1\<lparr>nm_wrapped := hm_insert handle (wrapped_new inst lower io t) (nm_wrapped m1)\<rparr>))
   | (Ok None, p1, _, _) \<Rightarrow> ((STATUS_PENDING, None), m\<lparr>nm_pending := hm_insert lower p1 (nm_pending m)\<rparr>)
   | (Err e, p1, _, _) \<Rightarrow> ((STATUS_IO, None), m))"

definition wrap ::
  "u32 \<Rightarrow> ('h, 't) snow \<Rightarrow> (nat \<Rightarrow> bytes \<Rightarrow> io_write) \<Rightarrow> (nat \<Rightarrow> nat \<Rightarrow> foreign_read) \<Rightarrow> u64 \<Rightarrow> u64 \<Rightarrow> byte_io option \<Rightarrow> bool \<Rightarrow>
     ('h, 't) noise_module \<Rightarrow> (status \<times> u64 option) \<times> ('h, 't) noise_module" where
  "wrap table_size sn wr rd inst lower io output_null m =
     (if lower = 0 \<or> \<not> valid_io table_size io \<or> output_null then ((STATUS_INVALID, None), m)
      else let table = the io; m1 = m\<lparr>nm_pending := hm_remove lower (nm_pending m)\<rparr> in
        (case hm_get (nm_pending m) lower of
           Some p \<Rightarrow>
             if pd_owner p = inst \<and> bi_address (pd_io p) = bi_address table
             then drive_pending sn wr rd inst lower table p m1
             else ((STATUS_INVALID, None), m1)
         | None \<Rightarrow> (case start_handshake sn inst lower table m1 of
             Err e \<Rightarrow> ((e, None), m1)
           | Ok p \<Rightarrow> drive_pending sn wr rd inst lower table p m1)))"

definition noise_read ::
  "('h, 't) snow \<Rightarrow> (nat \<Rightarrow> nat \<Rightarrow> foreign_read) \<Rightarrow> u64 \<Rightarrow> bool \<Rightarrow> nat \<Rightarrow> ('h, 't) noise_module \<Rightarrow> io_result \<times> bytes \<times> ('h, 't) noise_module" where
  "noise_read sn rd handle output_null n m =
     (if output_null \<and> n \<noteq> 0 then (Io_Error STATUS_INVALID, [], m)
      else (case hm_get (nm_wrapped m) handle of
        None \<Rightarrow> (Io_Error STATUS_INVALID, [], m)
      | Some w \<Rightarrow> (case wrapped_read sn rd n w of
          (a, bs, w', got) \<Rightarrow> (a, bs, m\<lparr>nm_wrapped := hm_insert handle w' (nm_wrapped m)\<rparr>))))"

definition on_wrapped ::
  "u64 \<Rightarrow> ('t wrapped \<Rightarrow> io_result \<times> 't wrapped \<times> bytes) \<Rightarrow> ('h, 't) noise_module \<Rightarrow> io_result \<times> ('h, 't) noise_module" where
  "on_wrapped handle f m = (case hm_get (nm_wrapped m) handle of
     None \<Rightarrow> (Io_Error STATUS_INVALID, m)
   | Some w \<Rightarrow> (case f w of (a, w', sent) \<Rightarrow> (a, m\<lparr>nm_wrapped := hm_insert handle w' (nm_wrapped m)\<rparr>)))"

definition noise_write ::
  "('h, 't) snow \<Rightarrow> (nat \<Rightarrow> bytes \<Rightarrow> io_write) \<Rightarrow> u64 \<Rightarrow> (bytes, status) result \<Rightarrow> ('h, 't) noise_module \<Rightarrow> io_result \<times> ('h, 't) noise_module" where
  "noise_write sn wr handle input m = (case input of
     Err e \<Rightarrow> (Io_Error e, m) | Ok bs \<Rightarrow> on_wrapped handle (wrapped_write sn wr bs) m)"

definition noise_flush where
  "noise_flush wr lower handle = on_wrapped handle (wrapped_flush wr lower)"

definition noise_shutdown_write where
  "noise_shutdown_write wr lower handle = on_wrapped handle (wrapped_shutdown_write wr lower)"

definition close_lower :: "byte_io \<Rightarrow> status \<Rightarrow> status" where
  "close_lower io lower = (if \<not> bi_close io then STATUS_INVALID else lower)"

definition noise_close :: "status \<Rightarrow> u64 \<Rightarrow> ('h, 't) noise_module \<Rightarrow> status \<times> ('h, 't) noise_module" where
  "noise_close lower handle m = (case hm_get (nm_wrapped m) handle of
     None \<Rightarrow> (STATUS_INVALID, m)
   | Some w \<Rightarrow> (close_lower (wr_io w) lower, m\<lparr>nm_wrapped := hm_remove handle (nm_wrapped m)\<rparr>))"

end
