(* ===== verification/Noise_Handshake.thy ===== *)
theory Noise_Handshake
  imports Noise_Host
begin

text \<open>
  The two ends of a Noise handshake over a pair of pipes: they agree on the transport states, and no end
  fails unless its stream fails.
\<close>

section \<open>One frame in a pipe\<close>

lemma read_loop_errors:
  "read_loop rd limit k r = (Err e, r', got) \<Longrightarrow> e = Noise_Length \<or> e = Noise_Io \<or> e = Noise_Eof"
proof (induction rd limit k r arbitrary: r' got rule: read_loop.induct)
  case (1 rd limit k r)
  have push: "p = Ok () \<or> p = Err Noise_Length" if "reader_push r bs limit = (p, r1)" for p r1 bs
    using that by (auto simp: reader_push_def Let_def split: if_splits)
  show ?case
  proof (cases "\<exists>bs r1. remaining_capacity r limit \<noteq> 0 \<and> rd k (remaining_capacity r limit) = Foreign_Data bs \<and>
      length bs \<le> remaining_capacity r limit \<and> bs \<noteq> [] \<and> reader_push r bs limit = (Ok (), r1) \<and> reader_take r1 = (None, r1)")
    case True
    then obtain bs r1 where b: "remaining_capacity r limit \<noteq> 0" "rd k (remaining_capacity r limit) = Foreign_Data bs"
      "\<not> remaining_capacity r limit < length bs" "bs \<noteq> []" "reader_push r bs limit = (Ok (), r1)" "reader_take r1 = (None, r1)" by auto
    obtain q r2 got' where rest: "read_loop rd limit (Suc k) r1 = (q, r2, got')" by (metis prod_cases3)
    with 1(2) b have "q = Err e" by (simp add: read_loop.simps [of rd limit k r])
    from 1(1) [OF refl b(1-4) b(5) [symmetric] refl b(6) [symmetric] refl rest [unfolded this]] show ?thesis .
  next
    case False
    have "reader_take r1 = (None, r2) \<Longrightarrow> r2 = r1" for r1 r2 by (rule reader_take_None)
    with 1(2) False push show ?thesis
      by (fastforce simp: read_loop.simps [of rd limit k r] Let_def not_less split: foreign_read.splits if_splits prod.splits result.splits option.splits)
  qed
qed

lemma read_single:
  assumes "reader_wf limit r" "limit + 2 \<le> usize_max" "limit \<le> 65535" "m \<noteq> []" "length m \<le> limit"
    "read_frame rd limit r = (q, r', got)" "fr_data r @ got @ rest = take k (noise_record m)"
  shows "q = Ok (Some m) \<and> rest = [] \<and> r' = reader_default \<and> length (noise_record m) \<le> k \<or>
    (q = Ok None \<or> q = Err Noise_Io \<or> q = Err Noise_Eof) \<and> fr_data r' @ rest = take k (noise_record m) \<and> reader_wf limit r'"
proof -
  have l: "read_loop rd limit 0 r = (q, r', got)" using assms(6) reader_take_wf [OF assms(1)] by (simp add: read_frame_def)
  note col = read_loop_collects [OF assms(1,2) l]
  have len: "length m < 65536" using assms(3,5) by simp
  have X: "(fr_data r @ got) @ rest = take k (noise_record m)" using assms(7) by simp
  have head: "take 2 (fr_data r @ got) = be_bytes16 (length m)" if two: "2 \<le> length (fr_data r @ got)"
  proof -
    have "take 2 ((fr_data r @ got) @ rest) = take 2 (fr_data r @ got)" using two by simp
    then have eq: "take 2 (fr_data r @ got) = take 2 (take k (noise_record m))" unfolding X by simp
    have "length ((fr_data r @ got) @ rest) \<le> k" unfolding X by simp
    with two have "2 \<le> k" by simp
    with eq show ?thesis by (simp add: noise_record_def min_def)
  qed
  consider (frame) f where "q = Ok (Some f)" | (illegal) "q = Err Noise_Length" | (waits) "\<nexists>f. q = Ok (Some f)" "q \<noteq> Err Noise_Length" by blast
  then show ?thesis
  proof cases
    case frame
    with col have f: "fr_data r @ got = be_bytes16 (length f) @ f" "length f \<le> limit" "r' = reader_default" by auto
    then have "be_bytes16 (length f) = be_bytes16 (length m)" using head by simp
    moreover have "length f < 65536" using f(2) assms(3) by simp
    ultimately have lf: "length f = length m" using len by (metis be_value_bytes16)
    have eq: "be_bytes16 (length m) @ f @ rest = take k (noise_record m)" using X f(1) lf by simp
    have "length (be_bytes16 (length m) @ f @ rest) = min (length (noise_record m)) k" unfolding eq by simp
    then have "length m + length rest + 2 = min (length m + 2) k" using lf by (simp add: noise_record_def)
    then have "length m + 2 \<le> k" "length rest = 0" by linarith+
    then have k: "length (noise_record m) \<le> k" "rest = []" by (simp_all add: noise_record_def)
    with eq have "f = m" by (simp add: noise_record_def)
    with lf frame f(3) k show ?thesis by simp
  next
    case illegal
    with col have h: "length (fr_data r @ got) = 2" "be_value (fr_data r @ got) = 0 \<or> limit < be_value (fr_data r @ got)" by auto
    with head have "be_value (fr_data r @ got) = length m" using len by simp
    with h(2) assms(4,5) show ?thesis by simp
  next
    case waits
    have q: "q = Ok None \<or> q = Err Noise_Io \<or> q = Err Noise_Eof"
    proof (cases q)
      case (Ok x)
      with waits(1) show ?thesis by (cases x) auto
    next
      case (Err e)
      with read_loop_errors [OF l [unfolded Err]] waits(2) show ?thesis by auto
    qed
    with col have "fr_data r' = fr_data r @ got" "reader_wf limit r'" by auto
    with assms(7) q show ?thesis by simp
  qed
qed

section \<open>Runs\<close>

text \<open>
  What the module relies on of a Noise NK handshake between a client that knows the public key and the
  server with the private key: one empty message in each direction completes it, and the transport states
  are linked in both directions.
\<close>

definition nk_messages ::
  "('h, 't) snow \<Rightarrow> 'h \<Rightarrow> 'h \<Rightarrow> bytes \<Rightarrow> 'h \<Rightarrow> bytes \<Rightarrow> 'h \<Rightarrow> 't \<Rightarrow> 't \<Rightarrow> bool" where
  "nk_messages sn i r m1 i1 m2 r2 tc ts \<longleftrightarrow>
     sy_hs_write sn i [] MAX_HANDSHAKE = (Some m1, i1) \<and> m1 \<noteq> [] \<and> length m1 \<le> MAX_HANDSHAKE \<and>
     (\<exists>r1. sy_hs_read sn r m1 MAX_HANDSHAKE = (Some [], r1) \<and> sy_hs_write sn r1 [] MAX_HANDSHAKE = (Some m2, r2)) \<and>
     m2 \<noteq> [] \<and> length m2 \<le> MAX_HANDSHAKE \<and> sy_finished sn r2 \<and> sy_transport sn r2 = Some ts \<and>
     (\<exists>i2. sy_hs_read sn i1 m2 MAX_HANDSHAKE = (Some [], i2) \<and> sy_finished sn i2 \<and> sy_transport sn i2 = Some tc)"

definition nk_ok ::
  "('h, 't) snow \<Rightarrow> bytes \<Rightarrow> bytes \<Rightarrow> (nat \<Rightarrow> 't \<Rightarrow> 't \<Rightarrow> bool) \<Rightarrow> (nat \<Rightarrow> 't \<Rightarrow> 't \<Rightarrow> bool) \<Rightarrow> bool" where
  "nk_ok sn public private up down \<longleftrightarrow> (\<forall>i r. sy_initiator sn PATTERN PROLOGUE public = Some i \<and> sy_responder sn PATTERN PROLOGUE private = Some r \<longrightarrow>
     (\<exists>m1 i1 m2 r2 tc ts. nk_messages sn i r m1 i1 m2 r2 tc ts \<and> up 0 tc ts \<and> down 0 ts tc))"

text \<open>An end is under way or has its transport state. The pipes carry what an end has sent and the other
  has not yet received.\<close>

type_synonym ('h, 't) noise_end = "'h pending_handshake + 't"

definition end_after :: "'t option \<Rightarrow> 'h pending_handshake \<Rightarrow> ('h, 't) noise_end" where
  "end_after q p = (case q of None \<Rightarrow> Inl p | Some t \<Rightarrow> Inr t)"

inductive handshake_run ::
  "('h, 't) snow \<Rightarrow> 'h pending_handshake \<Rightarrow> 'h pending_handshake \<Rightarrow> ('h, 't) noise_end \<Rightarrow> bytes \<Rightarrow> bytes \<Rightarrow> ('h, 't) noise_end \<Rightarrow> bool"
  for sn :: "('h, 't) snow" and c :: "'h pending_handshake" and s :: "'h pending_handshake" where
  start: "handshake_run sn c s (Inl c) [] [] (Inl s)"
| client: "handshake_run sn c s (Inl p) up (got @ down) e \<Longrightarrow> drive sn wr rd p = (Ok q, p', sent, got) \<Longrightarrow>
    handshake_run sn c s (end_after q p') (up @ sent) down e"
| server: "handshake_run sn c s e (got @ up) down (Inl p) \<Longrightarrow> drive sn wr rd p = (Ok q, p', sent, got) \<Longrightarrow>
    handshake_run sn c s e up (down @ sent) (end_after q p')"

text \<open>The client sends \<open>m1\<close> and waits for \<open>m2\<close>; \<open>k\<close> counts the bytes of its frame that it has sent.\<close>

definition client_at :: "'h \<Rightarrow> bytes \<Rightarrow> nat \<Rightarrow> 'h pending_handshake \<Rightarrow> bool" where
  "client_at i1 m1 k p \<longleftrightarrow> pd_handshake p = Some i1 \<and> \<not> pd_server_reply p \<and> reader_wf MAX_HANDSHAKE (pd_inbound p) \<and>
     (pd_outbound p = noise_record m1 \<and> pd_outbound_offset p = k \<and> k \<le> length (noise_record m1) \<or>
      pd_outbound p = [] \<and> k = length (noise_record m1))"

definition server_waits :: "'h \<Rightarrow> 'h pending_handshake \<Rightarrow> bool" where
  "server_waits r p \<longleftrightarrow> pd_handshake p = Some r \<and> pd_server_reply p \<and> reader_wf MAX_HANDSHAKE (pd_inbound p) \<and>
     pd_outbound p = [] \<and> pd_outbound_offset p = 0"

definition server_replies :: "'h \<Rightarrow> bytes \<Rightarrow> nat \<Rightarrow> 'h pending_handshake \<Rightarrow> bool" where
  "server_replies r2 m2 k p \<longleftrightarrow> pd_handshake p = Some r2 \<and> pd_server_reply p \<and>
     pd_outbound p = noise_record m2 \<and> pd_outbound_offset p = k \<and> k < length (noise_record m2)"

lemma noise_record_nonempty: "noise_record m \<noteq> []"
  by (simp add: noise_record_def be_bytes16_def)

lemma handshake_limits: "MAX_HANDSHAKE + 2 \<le> usize_max" "MAX_HANDSHAKE \<le> 65535"
  by (simp_all add: MAX_HANDSHAKE_def usize_max_def)

lemma pd_flush_record:
  assumes "pd_flush wr p = (q, p1, sent)" "pd_outbound p = F" "pd_outbound_offset p \<le> length F"
  shows "\<exists>k. p1 = p\<lparr>pd_outbound_offset := k\<rparr> \<and> k \<le> length F \<and> take (pd_outbound_offset p) F @ sent = take k F \<and> (q = Ok True \<longleftrightarrow> k = length F) \<and>
    (q = Ok True \<or> q = Ok False \<or> q = Err Noise_Io)"
proof -
  obtain k where f: "flush_bytes wr F (pd_outbound_offset p) = (q, k, sent)" and p1: "p1 = p\<lparr>pd_outbound_offset := k\<rparr>"
    using assms(1,2) by (auto simp: pd_flush_def split: prod.splits)
  from flush_bytes_sent [OF f assms(3)] have s: "pd_outbound_offset p \<le> k" "k \<le> length F" "sent @ drop k F = drop (pd_outbound_offset p) F"
    "q = Ok True \<longleftrightarrow> k = length F" by auto
  have "take (pd_outbound_offset p) F @ sent @ drop k F = take k F @ drop k F" using s(3) by simp
  then have "take (pd_outbound_offset p) F @ sent = take k F" by (simp only: append_assoc [symmetric] append_same_eq)
  moreover have "q = Ok True \<or> q = Ok False \<or> q = Err Noise_Io" using f by (auto simp: flush_bytes_def split: prod.splits write_end.splits)
  ultimately show ?thesis using p1 s(2,4) by blast
qed

text \<open>The stream of an end has failed.\<close>

definition stream_failed :: "('a, noise_error) result \<Rightarrow> bool" where
  "stream_failed q \<longleftrightarrow> q = Err Noise_Io \<or> q = Err Noise_Eof"

lemma client_reads:
  assumes nk: "nk_messages sn i r m1 i1 m2 r2 tc ts" and at: "client_at i1 m1 k p" and out: "pd_outbound p = []"
    and pipe: "fr_data (pd_inbound p) @ got @ rest = take j (noise_record m2)" and step: "drive_read sn wr rd p = (q, p', sent, got)"
  shows "sent = [] \<and> (stream_failed q \<or>
    q = Ok None \<and> client_at i1 m1 k p' \<and> pd_outbound p' = [] \<and> fr_data (pd_inbound p') @ rest = take j (noise_record m2) \<or>
    q = Ok (Some tc) \<and> rest = [] \<and> length (noise_record m2) \<le> j)"
proof -
  obtain x fr got' where x: "read_frame rd MAX_HANDSHAKE (pd_inbound p) = (x, fr, got')" by (metis prod_cases3)
  have got: "got' = got" using step x by (auto simp: drive_read_def split: result.splits option.splits prod.splits)
  have wf: "reader_wf MAX_HANDSHAKE (pd_inbound p)" using at by (simp add: client_at_def)
  have m2: "m2 \<noteq> []" "length m2 \<le> MAX_HANDSHAKE" using nk by (simp_all add: nk_messages_def)
  from read_single [OF wf handshake_limits m2 x [unfolded got] pipe] consider
    (message) "x = Ok (Some m2)" "rest = []" "length (noise_record m2) \<le> j"
    | (waits) "x = Ok None" "fr_data fr @ rest = take j (noise_record m2)" "reader_wf MAX_HANDSHAKE fr"
    | (failed) "x = Err Noise_Io \<or> x = Err Noise_Eof" by blast
  then show ?thesis
  proof cases
    case message
    with step x at nk show ?thesis
      by (auto simp: drive_read_def drive_message_def client_at_def hs_accept_def nk_messages_def pd_finish_def hs_finish_def)
  next
    case waits
    with step x at out show ?thesis by (auto simp: drive_read_def client_at_def)
  next
    case failed
    with step x show ?thesis by (auto simp: drive_read_def stream_failed_def)
  qed
qed

lemma client_drives:
  assumes nk: "nk_messages sn i r m1 i1 m2 r2 tc ts" and at: "client_at i1 m1 k p"
    and pipe: "fr_data (pd_inbound p) @ got @ rest = take j (noise_record m2)" and step: "drive sn wr rd p = (q, p', sent, got)"
  shows "\<exists>k'. take k (noise_record m1) @ sent = take k' (noise_record m1) \<and> k' \<le> length (noise_record m1) \<and> (stream_failed q \<or>
    q = Ok None \<and> client_at i1 m1 k' p' \<and> fr_data (pd_inbound p') @ rest = take j (noise_record m2) \<or>
    q = Ok (Some tc) \<and> rest = [] \<and> length (noise_record m2) \<le> j \<and> k' = length (noise_record m1))"
proof (cases "pd_outbound p = []")
  case True
  then have "k = length (noise_record m1)" using at by (auto simp: client_at_def noise_record_nonempty)
  moreover have "drive_read sn wr rd p = (q, p', sent, got)" using step True by (simp add: drive_def)
  from client_reads [OF nk at True pipe this] show ?thesis using calculation by (intro exI [of _ k]) auto
next
  case False
  with at have out: "pd_outbound p = noise_record m1" "pd_outbound_offset p = k" "k \<le> length (noise_record m1)" by (auto simp: client_at_def)
  obtain x p1 sent1 where f: "pd_flush wr p = (x, p1, sent1)" by (metis prod_cases3)
  from pd_flush_record [OF f out(1)] out obtain k' where p1: "p1 = p\<lparr>pd_outbound_offset := k'\<rparr>" and k': "k' \<le> length (noise_record m1)"
    and sent1: "take k (noise_record m1) @ sent1 = take k' (noise_record m1)" and x: "x = Ok True \<longleftrightarrow> k' = length (noise_record m1)"
    and xs: "x = Ok True \<or> x = Ok False \<or> x = Err Noise_Io" by auto
  from xs consider "x = Ok True" | "x = Ok False" | "x = Err Noise_Io" by blast
  then show ?thesis
  proof cases
    case 1
    let ?p = "p1\<lparr>pd_outbound := [], pd_outbound_offset := 0\<rparr>"
    have at': "client_at i1 m1 k' ?p" using at p1 x 1 by (simp add: client_at_def)
    obtain sent2 where d: "drive_read sn wr rd ?p = (q, p', sent2, got)" and s: "sent = sent1 @ sent2"
      using step False f 1 at p1 by (auto simp: drive_def client_at_def split: prod.splits)
    have pipe': "fr_data (pd_inbound ?p) @ got @ rest = take j (noise_record m2)" using pipe p1 by simp
    from client_reads [OF nk at' _ pipe' d] show ?thesis using sent1 s k' x 1 by (intro exI [of _ k']) auto
  next
    case 2
    with step False f have "q = Ok None" "p' = p1" "sent = sent1" "got = []" by (simp_all add: drive_def)
    with at p1 k' sent1 pipe out show ?thesis by (intro exI [of _ k']) (auto simp: client_at_def)
  next
    case 3
    with step False f have "q = Err Noise_Io" "sent = sent1" by (simp_all add: drive_def)
    with sent1 k' show ?thesis by (intro exI [of _ k']) (auto simp: stream_failed_def)
  qed
qed

lemma server_receives:
  assumes nk: "nk_messages sn i r m1 i1 m2 r2 tc ts" and at: "server_waits r p"
    and pipe: "fr_data (pd_inbound p) @ got @ rest = take k (noise_record m1)" and step: "drive sn wr rd p = (q, p', sent, got)"
  shows "stream_failed q \<or>
    q = Ok None \<and> sent = [] \<and> server_waits r p' \<and> fr_data (pd_inbound p') @ rest = take k (noise_record m1) \<or>
    rest = [] \<and> length (noise_record m1) \<le> k \<and>
      (q = Ok None \<and> (\<exists>j. server_replies r2 m2 j p' \<and> sent = take j (noise_record m2)) \<or> q = Ok (Some ts) \<and> sent = noise_record m2)"
proof -
  have step': "drive_read sn wr rd p = (q, p', sent, got)" using step at by (simp add: drive_def server_waits_def)
  obtain x fr got' where x: "read_frame rd MAX_HANDSHAKE (pd_inbound p) = (x, fr, got')" by (metis prod_cases3)
  have got: "got' = got" using step' x by (auto simp: drive_read_def split: result.splits option.splits prod.splits)
  have wf: "reader_wf MAX_HANDSHAKE (pd_inbound p)" using at by (simp add: server_waits_def)
  have m1: "m1 \<noteq> []" "length m1 \<le> MAX_HANDSHAKE" using nk by (simp_all add: nk_messages_def)
  from read_single [OF wf handshake_limits m1 x [unfolded got] pipe] consider
    (message) "x = Ok (Some m1)" "rest = []" "length (noise_record m1) \<le> k"
    | (waits) "x = Ok None" "fr_data fr @ rest = take k (noise_record m1)" "reader_wf MAX_HANDSHAKE fr"
    | (failed) "x = Err Noise_Io \<or> x = Err Noise_Eof" by blast
  then show ?thesis
  proof cases
    case message
    from nk obtain r1 where r1: "sy_hs_read sn r m1 MAX_HANDSHAKE = (Some [], r1)" "sy_hs_write sn r1 [] MAX_HANDSHAKE = (Some m2, r2)"
      and fin: "sy_finished sn r2" "sy_transport sn r2 = Some ts" and m2: "m2 \<noteq> []" "length m2 \<le> MAX_HANDSHAKE" by (auto simp: nk_messages_def)
    have nf: "noise_frame m2 MAX_HANDSHAKE = Ok (noise_record m2)" using m2 by (simp add: noise_frame_def noise_record_def MAX_HANDSHAKE_def)
    let ?p = "p\<lparr>pd_inbound := fr, pd_handshake := Some r2, pd_outbound := noise_record m2\<rparr>"
    obtain y p1 sent1 where f: "pd_flush wr ?p = (y, p1, sent1)" by (metis prod_cases3)
    have d: "drive_message sn wr m1 (p\<lparr>pd_inbound := fr\<rparr>) = (case (y, p1, sent1) of
        (Err e, p1, sent) \<Rightarrow> (Err e, p1, sent) | (Ok False, p1, sent) \<Rightarrow> (Ok None, p1, sent)
      | (Ok True, p1, sent) \<Rightarrow> (case pd_finish sn p1 of (q, p2) \<Rightarrow> (q, p2, sent)))"
      using at r1 nf f by (simp add: drive_message_def server_waits_def hs_accept_def hs_message_def)
    from pd_flush_record [OF f, of "noise_record m2"] at obtain j where p1: "p1 = ?p\<lparr>pd_outbound_offset := j\<rparr>"
      and j: "j \<le> length (noise_record m2)" "sent1 = take j (noise_record m2)" "y = Ok True \<longleftrightarrow> j = length (noise_record m2)"
      and ys: "y = Ok True \<or> y = Ok False \<or> y = Err Noise_Io" by (auto simp: server_waits_def)
    from ys consider "y = Ok True" | "y = Ok False" | "y = Err Noise_Io" by blast
    then show ?thesis
    proof cases
      case 1
      with d p1 fin have "drive_message sn wr m1 (p\<lparr>pd_inbound := fr\<rparr>) = (Ok (Some ts), p1\<lparr>pd_handshake := None\<rparr>, sent1)"
        by (simp add: pd_finish_def hs_finish_def)
      with step' x message 1 j show ?thesis by (simp add: drive_read_def)
    next
      case 2
      with d have "drive_message sn wr m1 (p\<lparr>pd_inbound := fr\<rparr>) = (Ok None, p1, sent1)" by simp
      with step' x message have e: "q = Ok None" "p' = p1" "sent = sent1" by (simp_all add: drive_read_def)
      have "server_replies r2 m2 j p1" using at p1 j 2 by (auto simp: server_replies_def server_waits_def)
      with e j(2) message show ?thesis by auto
    next
      case 3
      with d have "drive_message sn wr m1 (p\<lparr>pd_inbound := fr\<rparr>) = (Err Noise_Io, p1, sent1)" by simp
      with step' x message show ?thesis by (simp add: drive_read_def stream_failed_def)
    qed
  next
    case waits
    with step' x at show ?thesis by (auto simp: drive_read_def server_waits_def)
  next
    case failed
    with step' x show ?thesis by (auto simp: drive_read_def stream_failed_def)
  qed
qed

lemma server_sends:
  assumes nk: "nk_messages sn i r m1 i1 m2 r2 tc ts" and at: "server_replies r2 m2 j p" and step: "drive sn wr rd p = (q, p', sent, got)"
  shows "got = [] \<and> (stream_failed q \<or>
    q = Ok None \<and> (\<exists>j'. server_replies r2 m2 j' p' \<and> take j (noise_record m2) @ sent = take j' (noise_record m2)) \<or>
    q = Ok (Some ts) \<and> take j (noise_record m2) @ sent = noise_record m2)"
proof -
  obtain x p1 sent1 where f: "pd_flush wr p = (x, p1, sent1)" by (metis prod_cases3)
  from pd_flush_record [OF f, of "noise_record m2"] at obtain j' where p1: "p1 = p\<lparr>pd_outbound_offset := j'\<rparr>" and j': "j' \<le> length (noise_record m2)"
    and sent1: "take j (noise_record m2) @ sent1 = take j' (noise_record m2)" and x: "x = Ok True \<longleftrightarrow> j' = length (noise_record m2)"
    and xs: "x = Ok True \<or> x = Ok False \<or> x = Err Noise_Io" by (auto simp: server_replies_def)
  have out: "pd_outbound p \<noteq> []" using at by (simp add: server_replies_def noise_record_nonempty)
  from xs consider "x = Ok True" | "x = Ok False" | "x = Err Noise_Io" by blast
  then show ?thesis
  proof cases
    case 1
    from nk have "sy_finished sn r2" "sy_transport sn r2 = Some ts" by (auto simp: nk_messages_def)
    with step out f 1 at p1 have "q = Ok (Some ts)" "sent = sent1" "got = []"
      by (auto simp: drive_def server_replies_def pd_finish_def hs_finish_def)
    with sent1 x 1 show ?thesis by simp
  next
    case 2
    with step out f have e: "q = Ok None" "p' = p1" "sent = sent1" "got = []" by (simp_all add: drive_def)
    have "server_replies r2 m2 j' p1" using at p1 j' x 2 by (auto simp: server_replies_def)
    with e sent1 show ?thesis by auto
  next
    case 3
    with step out f show ?thesis by (simp add: drive_def stream_failed_def)
  qed
qed

section \<open>Agreement\<close>

text \<open>The phases of a run: the first message is on its way, the reply is on its way, the server is done,
  both are done.\<close>

inductive handshake_phase ::
  "'h \<Rightarrow> bytes \<Rightarrow> 'h \<Rightarrow> bytes \<Rightarrow> 'h \<Rightarrow> 't \<Rightarrow> 't \<Rightarrow> ('h, 't) noise_end \<Rightarrow> bytes \<Rightarrow> bytes \<Rightarrow> ('h, 't) noise_end \<Rightarrow> bool"
  for r :: 'h and m1 :: bytes and i1 :: 'h and m2 :: bytes and r2 :: 'h and tc :: 't and ts :: 't where
  asking: "client_at i1 m1 k p \<Longrightarrow> server_waits r q \<Longrightarrow> fr_data (pd_inbound q) @ up = take k (noise_record m1) \<Longrightarrow>
    fr_data (pd_inbound p) @ down = [] \<Longrightarrow> handshake_phase r m1 i1 m2 r2 tc ts (Inl p) up down (Inl q)"
| replying: "client_at i1 m1 (length (noise_record m1)) p \<Longrightarrow> server_replies r2 m2 j q \<Longrightarrow>
    fr_data (pd_inbound p) @ down = take j (noise_record m2) \<Longrightarrow> handshake_phase r m1 i1 m2 r2 tc ts (Inl p) [] down (Inl q)"
| replied: "client_at i1 m1 (length (noise_record m1)) p \<Longrightarrow> fr_data (pd_inbound p) @ down = noise_record m2 \<Longrightarrow>
    handshake_phase r m1 i1 m2 r2 tc ts (Inl p) [] down (Inr ts)"
| agreed: "handshake_phase r m1 i1 m2 r2 tc ts (Inr tc) [] [] (Inr ts)"

lemma client_phase:
  assumes nk: "nk_messages sn i r m1 i1 m2 r2 tc ts" and ph: "handshake_phase r m1 i1 m2 r2 tc ts (Inl p) up (got @ down) se"
    and step: "drive sn wr rd p = (x, p', sent, got)"
  shows "stream_failed x \<or> (\<exists>q. x = Ok q \<and> handshake_phase r m1 i1 m2 r2 tc ts (end_after q p') (up @ sent) down se)"
  using ph
proof cases
  case (asking k q)
  have pipe: "fr_data (pd_inbound p) @ got @ down = take 0 (noise_record m2)" using asking by simp
  from client_drives [OF nk asking(2) pipe step] obtain k' where k': "take k (noise_record m1) @ sent = take k' (noise_record m1)"
    and alt: "stream_failed x \<or> x = Ok None \<and> client_at i1 m1 k' p' \<and> fr_data (pd_inbound p') @ down = take 0 (noise_record m2)"
    by (auto simp: noise_record_nonempty)
  have "fr_data (pd_inbound q) @ up @ sent = take k' (noise_record m1)" using asking(4) k' by (metis append.assoc)
  with alt asking show ?thesis by (auto simp: end_after_def intro: handshake_phase.asking)
next
  case (replying j q)
  from client_drives [OF nk replying(3) replying(5) step] obtain k' where
    k': "noise_record m1 @ sent = take k' (noise_record m1)" "k' \<le> length (noise_record m1)"
    and alt: "stream_failed x \<or> x = Ok None \<and> client_at i1 m1 k' p' \<and> fr_data (pd_inbound p') @ down = take j (noise_record m2) \<or>
      length (noise_record m2) \<le> j" by auto
  from k' have "length (noise_record m1) + length sent = k'" by (metis length_append length_take min.absorb2)
  with k' have s: "sent = []" "k' = length (noise_record m1)" by auto
  have "\<not> length (noise_record m2) \<le> j" using replying(4) by (simp add: server_replies_def)
  with alt replying s show ?thesis by (auto simp: end_after_def intro: handshake_phase.replying)
next
  case replied
  have pipe: "fr_data (pd_inbound p) @ got @ down = take (length (noise_record m2)) (noise_record m2)" using replied by simp
  from client_drives [OF nk replied(3) pipe step] obtain k' where
    k': "noise_record m1 @ sent = take k' (noise_record m1)" "k' \<le> length (noise_record m1)"
    and alt: "stream_failed x \<or> x = Ok None \<and> client_at i1 m1 k' p' \<and> fr_data (pd_inbound p') @ down = noise_record m2 \<or>
      x = Ok (Some tc) \<and> down = []" by auto
  from k' have "length (noise_record m1) + length sent = k'" by (metis length_append length_take min.absorb2)
  with k' have s: "sent = []" "k' = length (noise_record m1)" by auto
  with alt replied show ?thesis by (auto simp: end_after_def intro: handshake_phase.replied handshake_phase.agreed)
qed

lemma server_phase:
  assumes nk: "nk_messages sn i r m1 i1 m2 r2 tc ts" and ph: "handshake_phase r m1 i1 m2 r2 tc ts ce (got @ up) down (Inl p)"
    and step: "drive sn wr rd p = (x, p', sent, got)"
  shows "stream_failed x \<or> (\<exists>q. x = Ok q \<and> handshake_phase r m1 i1 m2 r2 tc ts ce up (down @ sent) (end_after q p'))"
  using ph
proof cases
  case (asking k c)
  from server_receives [OF nk asking(3,4) step] show ?thesis
  proof (elim disjE conjE exE)
    assume "x = Ok None" "sent = []" "server_waits r p'" "fr_data (pd_inbound p') @ up = take k (noise_record m1)"
    with asking show ?thesis by (auto simp: end_after_def intro: handshake_phase.asking)
  next
    fix j
    assume a: "up = []" "length (noise_record m1) \<le> k" "x = Ok None" "server_replies r2 m2 j p'" "sent = take j (noise_record m2)"
    then have "client_at i1 m1 (length (noise_record m1)) c" using asking(2) by (auto simp: client_at_def)
    with a asking show ?thesis by (auto simp: end_after_def intro: handshake_phase.replying)
  next
    assume a: "up = []" "length (noise_record m1) \<le> k" "x = Ok (Some ts)" "sent = noise_record m2"
    then have "client_at i1 m1 (length (noise_record m1)) c" using asking(2) by (auto simp: client_at_def)
    with a asking show ?thesis by (auto simp: end_after_def intro: handshake_phase.replied)
  qed simp
next
  case (replying c j)
  from server_sends [OF nk replying(4) step] show ?thesis
  proof (elim disjE conjE exE)
    fix j'
    assume a: "x = Ok None" "server_replies r2 m2 j' p'" "take j (noise_record m2) @ sent = take j' (noise_record m2)"
    then have "fr_data (pd_inbound c) @ down @ sent = take j' (noise_record m2)" using replying(5) by (metis append.assoc)
    with a replying show ?thesis by (auto simp: end_after_def intro: handshake_phase.replying)
  next
    assume a: "x = Ok (Some ts)" "take j (noise_record m2) @ sent = noise_record m2"
    then have "fr_data (pd_inbound c) @ down @ sent = noise_record m2" using replying(5) by (metis append.assoc)
    with a replying show ?thesis by (auto simp: end_after_def intro: handshake_phase.replied)
  qed simp
qed

lemma handshake_run_phase:
  assumes nk: "nk_messages sn i r m1 i1 m2 r2 tc ts" and c: "client_at i1 m1 0 c" "fr_data (pd_inbound c) = []"
    and s: "server_waits r s" "fr_data (pd_inbound s) = []"
  shows "handshake_run sn c s ce up down se \<Longrightarrow> handshake_phase r m1 i1 m2 r2 tc ts ce up down se"
proof (induction rule: handshake_run.induct)
  case start
  show ?case by (rule handshake_phase.asking [OF c(1) s(1)]) (simp_all add: c s)
next
  case (client p up got down e wr rd q p' sent)
  from client_phase [OF nk client.IH client.hyps(2)] show ?case by (auto simp: stream_failed_def)
next
  case (server e got up down p wr rd q p' sent)
  from server_phase [OF nk server.IH server.hyps(2)] show ?case by (auto simp: stream_failed_def)
qed

lemma start_client:
  assumes "start_handshake sn inst lower io m = Ok c" "hm_get (nm_instances m) inst = Some (Key_Client public)"
  obtains i where "sy_initiator sn PATTERN PROLOGUE public = Some i"
    "\<And>m1 i1. sy_hs_write sn i [] MAX_HANDSHAKE = (Some m1, i1) \<Longrightarrow> m1 \<noteq> [] \<Longrightarrow> length m1 \<le> MAX_HANDSHAKE \<Longrightarrow>
       client_at i1 m1 0 c \<and> fr_data (pd_inbound c) = []"
proof -
  from assms obtain i where i: "sy_initiator sn PATTERN PROLOGUE public = Some i"
    by (auto simp: start_handshake_def try_bind_Ok_iff handshake_client_def)
  have "client_at i1 m1 0 c \<and> fr_data (pd_inbound c) = []"
    if "sy_hs_write sn i [] MAX_HANDSHAKE = (Some m1, i1)" "m1 \<noteq> []" "length m1 \<le> MAX_HANDSHAKE" for m1 i1
  proof -
    have "noise_frame m1 MAX_HANDSHAKE = Ok (noise_record m1)" using that by (simp add: noise_frame_def noise_record_def MAX_HANDSHAKE_def)
    then have "c = \<lparr>pd_owner = inst, pd_lower = lower, pd_io = io, pd_handshake = Some i1, pd_outbound = noise_record m1,
        pd_outbound_offset = 0, pd_inbound = reader_default, pd_server_reply = False\<rparr>"
      using assms i that(1) by (simp add: start_handshake_def handshake_client_def handshake_initial_def write_handshake_def hs_message_def)
    then show ?thesis by (simp add: client_at_def reader_default_wf)
  qed
  with i that show ?thesis by blast
qed

lemma start_server:
  assumes "start_handshake sn inst lower io m = Ok s" "hm_get (nm_instances m) inst = Some (Key_Server private)"
  obtains r where "sy_responder sn PATTERN PROLOGUE private = Some r" "server_waits r s" "fr_data (pd_inbound s) = []"
proof -
  from assms obtain r where r: "sy_responder sn PATTERN PROLOGUE private = Some r"
    by (auto simp: start_handshake_def try_bind_Ok_iff handshake_server_def)
  then have "s = \<lparr>pd_owner = inst, pd_lower = lower, pd_io = io, pd_handshake = Some r, pd_outbound = [],
        pd_outbound_offset = 0, pd_inbound = reader_default, pd_server_reply = True\<rparr>"
    using assms by (simp add: start_handshake_def handshake_server_def)
  with r that show ?thesis by (simp add: server_waits_def reader_default_wf)
qed

text \<open>C4. The Noise handshake agrees. A client with the public key and a server with the private key,
  polled in any order over pipes that segment and block in any way: an end fails only when its stream
  fails, the client completes only after the server, and then the transport states are linked in both
  directions, as the encrypted streams need them.\<close>

theorem noise_handshake_agrees:
  assumes "nk_ok sn public private linked_up linked_down"
    and "start_handshake sn inst lower io mc = Ok c" and "hm_get (nm_instances mc) inst = Some (Key_Client public)"
    and "start_handshake sn inst' lower' io' ms = Ok s" and "hm_get (nm_instances ms) inst' = Some (Key_Server private)"
    and "handshake_run sn c s ce up down se"
  shows "(\<forall>tc. ce = Inr tc \<longrightarrow> (\<exists>ts. se = Inr ts \<and> linked_up 0 tc ts \<and> linked_down 0 ts tc)) \<and>
    (\<forall>p wr rd x p' sent got rest. ce = Inl p \<and> down = got @ rest \<and> drive sn wr rd p = (x, p', sent, got) \<longrightarrow> is_ok x \<or> stream_failed x) \<and>
    (\<forall>p wr rd x p' sent got rest. se = Inl p \<and> up = got @ rest \<and> drive sn wr rd p = (x, p', sent, got) \<longrightarrow> is_ok x \<or> stream_failed x)"
proof -
  obtain i where i: "sy_initiator sn PATTERN PROLOGUE public = Some i"
    "\<And>m1 i1. sy_hs_write sn i [] MAX_HANDSHAKE = (Some m1, i1) \<Longrightarrow> m1 \<noteq> [] \<Longrightarrow> length m1 \<le> MAX_HANDSHAKE \<Longrightarrow>
       client_at i1 m1 0 c \<and> fr_data (pd_inbound c) = []"
    using start_client [OF assms(2,3)] by blast
  obtain r where r: "sy_responder sn PATTERN PROLOGUE private = Some r" "server_waits r s" "fr_data (pd_inbound s) = []"
    by (rule start_server [OF assms(4,5)])
  from assms(1) i(1) r(1) obtain m1 i1 m2 r2 tc ts where nk: "nk_messages sn i r m1 i1 m2 r2 tc ts" and l: "linked_up 0 tc ts" "linked_down 0 ts tc"
    unfolding nk_ok_def by blast
  have c: "client_at i1 m1 0 c" "fr_data (pd_inbound c) = []" using i(2) nk by (auto simp: nk_messages_def)
  from handshake_run_phase [OF nk c r(2,3) assms(6)] have ph: "handshake_phase r m1 i1 m2 r2 tc ts ce up down se" .
  have "\<exists>ts. se = Inr ts \<and> linked_up 0 tc' ts \<and> linked_down 0 ts tc'" if "ce = Inr tc'" for tc'
    using ph that l by (auto elim: handshake_phase.cases)
  moreover have "is_ok x \<or> stream_failed x" if "ce = Inl p" "down = got @ rest" "drive sn wr rd p = (x, p', sent, got)" for p wr rd x p' sent got rest
    using client_phase [OF nk ph [unfolded that(1,2)] that(3)] by auto
  moreover have "is_ok x \<or> stream_failed x" if "se = Inl p" "up = got @ rest" "drive sn wr rd p = (x, p', sent, got)" for p wr rd x p' sent got rest
    using server_phase [OF nk ph [unfolded that(1,2)] that(3)] by auto
  ultimately show ?thesis by blast
qed

lemma example_nk_ok: "nk_ok example_snow [] [] (\<lambda>n s r. s = n \<and> r = n) (\<lambda>n s r. s = n \<and> r = n)"
  by (auto simp: nk_ok_def nk_messages_def example_snow_def MAX_HANDSHAKE_def)

definition example_module :: "role_key \<Rightarrow> (nat, nat) noise_module" where
  "example_module role = \<lparr>nm_instances = [(1, role)], nm_pending = [], nm_wrapped = [], nm_instance_next = 2, nm_wrapped_next = 1\<rparr>"

definition example_client_end :: "nat pending_handshake" where
  "example_client_end = \<lparr>pd_owner = 1, pd_lower = 7, pd_io = example_byte_io, pd_handshake = Some 1, pd_outbound = [0, 1, 1],
     pd_outbound_offset = 0, pd_inbound = reader_default, pd_server_reply = False\<rparr>"

definition example_server_end :: "nat pending_handshake" where
  "example_server_end = \<lparr>pd_owner = 1, pd_lower = 7, pd_io = example_byte_io, pd_handshake = Some 0, pd_outbound = [],
     pd_outbound_offset = 0, pd_inbound = reader_default, pd_server_reply = True\<rparr>"

lemma example_starts:
  "start_handshake example_snow 1 7 example_byte_io (example_module (Key_Client [])) = Ok example_client_end"
  "start_handshake example_snow 1 7 example_byte_io (example_module (Key_Server [])) = Ok example_server_end"
  by (simp_all add: start_handshake_def example_module_def handshake_client_def handshake_server_def handshake_initial_def
      write_handshake_def hs_message_def example_snow_def noise_frame_def MAX_HANDSHAKE_def be_bytes16_def hm_get_def
      example_client_end_def example_server_end_def)

definition example_chunks :: "nat \<Rightarrow> nat \<Rightarrow> foreign_read" where
  "example_chunks k n = (if k = 0 then Foreign_Data [0] else if k = 1 then Foreign_Data [1] else Foreign_Data [1])"

lemma example_frame: "read_frame example_chunks MAX_HANDSHAKE reader_default = (Ok (Some [1]), reader_default, [0, 1, 1])"
proof -
  have "read_loop example_chunks MAX_HANDSHAKE 2 \<lparr>fr_data = [0, 1], fr_expected = Some 3\<rparr> = (Ok (Some [1]), reader_default, [1])"
    by (simp add: read_loop.simps remaining_capacity_def reader_push_def reader_take_def usize_saturating_add_def usize_max_def
        MAX_HANDSHAKE_def reader_default_def example_chunks_def)
  moreover have "reader_push \<lparr>fr_data = [0], fr_expected = None\<rparr> [1] MAX_HANDSHAKE = (Ok (), \<lparr>fr_data = [0, 1], fr_expected = Some 3\<rparr>)"
    by (simp add: reader_push_def usize_saturating_add_def usize_max_def MAX_HANDSHAKE_def be_value_def)
  ultimately have "read_loop example_chunks MAX_HANDSHAKE 1 \<lparr>fr_data = [0], fr_expected = None\<rparr> = (Ok (Some [1]), reader_default, [1, 1])"
    by (simp add: read_loop.simps [of _ _ "Suc 0"] remaining_capacity_def reader_take_def MAX_HANDSHAKE_def example_chunks_def numeral_2_eq_2)
  then show ?thesis
    by (simp add: read_frame_def reader_default_def reader_take_def read_loop.simps [of _ _ 0] remaining_capacity_def MAX_HANDSHAKE_def
        example_chunks_def reader_push_def usize_saturating_add_def usize_max_def)
qed

lemma example_drives:
  "\<exists>p. drive example_snow (\<lambda>_ bs. Write_Count (length bs)) (\<lambda>_ _. Foreign_Pending) example_client_end = (Ok None, p, [0, 1, 1], []) \<and>
     (\<exists>p'. drive example_snow (\<lambda>_ bs. Write_Count (length bs)) example_chunks p = (Ok (Some 0), p', [], [0, 1, 1]))"
  "\<exists>p'. drive example_snow (\<lambda>_ bs. Write_Count (length bs)) example_chunks example_server_end = (Ok (Some 0), p', [0, 1, 1], [0, 1, 1])"
proof -
  have pend: "read_frame (\<lambda>_ _. Foreign_Pending) MAX_HANDSHAKE reader_default = (Ok None, reader_default, [])"
    by (simp add: read_frame_def reader_default_def reader_take_def read_loop.simps remaining_capacity_def MAX_HANDSHAKE_def)
  show "\<exists>p. drive example_snow (\<lambda>_ bs. Write_Count (length bs)) (\<lambda>_ _. Foreign_Pending) example_client_end = (Ok None, p, [0, 1, 1], []) \<and>
     (\<exists>p'. drive example_snow (\<lambda>_ bs. Write_Count (length bs)) example_chunks p = (Ok (Some 0), p', [], [0, 1, 1]))"
    by (simp add: drive_def example_client_end_def pd_flush_def flush_bytes_def write_loop.simps checked_write_def drive_read_def pend
        example_frame drive_message_def hs_accept_def example_snow_def pd_finish_def hs_finish_def)
  show "\<exists>p'. drive example_snow (\<lambda>_ bs. Write_Count (length bs)) example_chunks example_server_end = (Ok (Some 0), p', [0, 1, 1], [0, 1, 1])"
    by (simp add: drive_def example_server_end_def pd_flush_def flush_bytes_def write_loop.simps checked_write_def drive_read_def
        example_frame [unfolded MAX_HANDSHAKE_def] drive_message_def hs_accept_def hs_message_def noise_frame_def MAX_HANDSHAKE_def be_bytes16_def
        example_snow_def pd_finish_def hs_finish_def)
qed

theorem noise_handshake_agrees_witness:
  "\<exists>ts. handshake_run example_snow example_client_end example_server_end (Inr 0) [] [] (Inr ts) \<and> ts = 0"
proof -
  let ?run = "handshake_run example_snow example_client_end example_server_end"
  from example_drives(1) obtain p p' where
    d1: "drive example_snow (\<lambda>_ bs. Write_Count (length bs)) (\<lambda>_ _. Foreign_Pending) example_client_end = (Ok None, p, [0, 1, 1], [])"
    and d3: "drive example_snow (\<lambda>_ bs. Write_Count (length bs)) example_chunks p = (Ok (Some 0), p', [], [0, 1, 1])" by blast
  from example_drives(2) obtain q where
    d2: "drive example_snow (\<lambda>_ bs. Write_Count (length bs)) example_chunks example_server_end = (Ok (Some 0), q, [0, 1, 1], [0, 1, 1])" by blast
  have "?run (Inl example_client_end) [] ([] @ []) (Inl example_server_end)" using handshake_run.start by simp
  from handshake_run.client [OF this d1] have "?run (Inl p) ([0, 1, 1] @ []) [] (Inl example_server_end)" by (simp add: end_after_def)
  from handshake_run.server [OF this d2] have "?run (Inl p) [] ([0, 1, 1] @ []) (Inr 0)" by (simp add: end_after_def)
  from handshake_run.client [OF this d3] have run: "?run (Inr 0) [] [] (Inr 0)" by (simp add: end_after_def)
  from noise_handshake_agrees [OF example_nk_ok example_starts(1) _ example_starts(2) _ run] run show ?thesis
    by (auto simp: example_module_def hm_get_def)
qed

end
