(* ===== verification/Wake_Slot.thy ===== *)
theory Wake_Slot
  imports Foreign_Io
begin

text \<open>
  Slots for the wake handles of the host (\<^verbatim>\<open>carrier-tcp/src/lib.rs\<close>, \<open>WakeSlot\<close>). A handle carries the
  context and optional functions. Every operation returns the slot and the calls it made on the host, in
  order; whether the host grants a retain is an argument.
\<close>

record wake_handle =
  wk_context :: u64
  wk_retain :: bool
  wk_wake :: bool
  wk_release :: bool

type_synonym wake_slot = "wake_handle option"

datatype wake_call = Retained u64 | Woken u64 | Released u64

definition slot_clear :: "wake_slot \<Rightarrow> wake_slot \<times> wake_call list" where
  "slot_clear s = (case s of
     None \<Rightarrow> (None, []) | Some w \<Rightarrow> (None, if wk_release w then [Released (wk_context w)] else []))"

definition slot_replace :: "bool \<Rightarrow> wake_handle \<Rightarrow> wake_slot \<Rightarrow> wake_slot \<times> wake_call list" where
  "slot_replace granted w s = (case slot_clear s of
     (s1, calls) \<Rightarrow> if wk_retain w \<and> granted then (Some w, calls @ [Retained (wk_context w)]) else (s1, calls))"

definition slot_wake :: "wake_slot \<Rightarrow> wake_slot \<times> wake_call list" where
  "slot_wake s = (case s of
     None \<Rightarrow> (None, [])
   | Some w \<Rightarrow> (None, (if wk_wake w then [Woken (wk_context w)] else []) @ (if wk_release w then [Released (wk_context w)] else [])))"

text \<open>References to a context that the host still counts: retained and not yet released.\<close>

definition held :: "u64 \<Rightarrow> wake_slot \<Rightarrow> nat" where
  "held c s = (case s of Some w \<Rightarrow> if wk_context w = c then 1 else 0 | None \<Rightarrow> 0)"

definition retains :: "u64 \<Rightarrow> wake_call list \<Rightarrow> nat" where
  "retains c calls = count_list calls (Retained c)"

definition releases :: "u64 \<Rightarrow> wake_call list \<Rightarrow> nat" where
  "releases c calls = count_list calls (Released c)"

lemma calls_append [simp]:
  "retains c (xs @ ys) = retains c xs + retains c ys" "releases c (xs @ ys) = releases c xs + releases c ys"
  "retains c [] = 0" "releases c [] = 0"
  by (simp_all add: retains_def releases_def)

text \<open>A handle that can be released, as every handle that can be retained must be.\<close>

definition slot_ok :: "wake_slot \<Rightarrow> bool" where
  "slot_ok s \<longleftrightarrow> (case s of Some w \<Rightarrow> wk_release w | None \<Rightarrow> True)"

definition handle_ok :: "wake_handle \<Rightarrow> bool" where
  "handle_ok w \<longleftrightarrow> (wk_retain w \<longrightarrow> wk_release w)"

text \<open>What an operation on slots must do: the references of the host change as the slots do.\<close>

definition balanced :: "(u64 \<Rightarrow> nat) \<Rightarrow> wake_call list \<Rightarrow> (u64 \<Rightarrow> nat) \<Rightarrow> bool" where
  "balanced before calls after \<longleftrightarrow> (\<forall>c. before c + retains c calls = after c + releases c calls)"

lemma balanced_append: "balanced a xs b \<Longrightarrow> balanced b ys c \<Longrightarrow> balanced a (xs @ ys) c"
  unfolding balanced_def calls_append by (metis add.assoc add.commute)

lemma balanced_Nil [simp]: "balanced a [] a"
  by (simp add: balanced_def)

lemma balanced_add: "balanced a xs b \<Longrightarrow> balanced (\<lambda>c. a c + n c) xs (\<lambda>c. b c + n c)"
  by (simp add: balanced_def)

lemma slot_clear_balanced: "slot_ok s \<Longrightarrow> slot_clear s = (s', calls) \<Longrightarrow> s' = None \<and> balanced (\<lambda>c. held c s) calls (\<lambda>c. 0)"
  by (auto simp: slot_clear_def slot_ok_def balanced_def held_def retains_def releases_def split: option.splits)

lemma slot_wake_balanced: "slot_ok s \<Longrightarrow> slot_wake s = (s', calls) \<Longrightarrow> s' = None \<and> balanced (\<lambda>c. held c s) calls (\<lambda>c. 0)"
  by (auto simp: slot_wake_def slot_ok_def balanced_def held_def retains_def releases_def split: option.splits)

lemma slot_replace_balanced:
  assumes "slot_ok s" "handle_ok w" "slot_replace granted w s = (s', calls)"
  shows "slot_ok s' \<and> balanced (\<lambda>c. held c s) calls (\<lambda>c. held c s')"
proof -
  obtain s1 calls1 where c: "slot_clear s = (s1, calls1)" by force
  from slot_clear_balanced [OF assms(1) c] have s1: "s1 = None" and b: "balanced (\<lambda>c. held c s) calls1 (\<lambda>c. 0)" by auto
  show ?thesis
  proof (cases "wk_retain w \<and> granted")
    case True
    with assms(3) c have e: "s' = Some w" "calls = calls1 @ [Retained (wk_context w)]" by (simp_all add: slot_replace_def)
    have "balanced (\<lambda>c. 0) [Retained (wk_context w)] (\<lambda>c. held c (Some w))"
      by (simp add: balanced_def held_def retains_def releases_def)
    with b e True assms(2) show ?thesis by (auto intro: balanced_append simp: slot_ok_def handle_ok_def)
  next
    case False
    with assms(3) c s1 b show ?thesis by (auto simp: slot_replace_def slot_ok_def held_def)
  qed
qed

end
