(* ===== verification/Carrier_Tcp.thy ===== *)
theory Carrier_Tcp
  imports Wake_Slot Socket_Addr Hash_Map
begin

text \<open>
  The TCP carrier (\<^verbatim>\<open>carrier-tcp/src/lib.rs\<close>): connecting instances and listening instances, the streams
  they own, and the host calls. What the operating system answers during one call is the record
  \<open>tcp_net\<close>; a socket is a value of type \<open>'s\<close>, a listening socket one of type \<open>'l\<close>. Every call returns the
  calls it made on wake handles. Errors of the operating system carry no value, since the carrier
  answers \<open>STATUS_IO\<close> to all of them.
\<close>

section \<open>Options\<close>

datatype tcp_options =
    Tcp_Connect (to_endpoint: socket_addr) (to_max_connections: nat) (to_nodelay: bool)
  | Tcp_Listen (to_endpoint: socket_addr) (to_max_connections: nat) (to_nodelay: bool)

fun sock_port :: "socket_addr \<Rightarrow> u16" where
  "sock_port (Sock_V4 a p) = p"
| "sock_port (Sock_V6 a p flowinfo scope) = p"

definition tcp_validate :: "tcp_options \<Rightarrow> (unit, str) result" where
  "tcp_validate opts = (if sock_port (to_endpoint opts) = 0 \<or> to_max_connections opts = 0
     then Err (str_lit ''TCP carrier options are inconsistent'') else Ok ())"

definition tcp_parse_options :: "(str \<Rightarrow> (tcp_options, str) result) \<Rightarrow> bytes \<Rightarrow> (tcp_options, str) result" where
  "tcp_parse_options toml config =
     (if \<not> utf8_valid config then Err (str_lit ''config is not UTF-8'')
      else try_bind (toml config) (\<lambda>opts. try_bind (tcp_validate opts) (\<lambda>_. Ok opts)))"

section \<open>The operating system\<close>

text \<open>Addresses as the socket calls take them: the bytes of \<open>sin_port\<close>, \<open>sin_addr\<close> and \<open>sin6_addr\<close> in memory.\<close>

datatype sockaddr =
    Sockaddr_In (sin_port: bytes) (sin_addr: bytes)
  | Sockaddr_In6 (sin6_port: bytes) (sin6_flowinfo: u32) (sin6_addr: bytes) (sin6_scope_id: u32)

fun sockaddr_of :: "socket_addr \<Rightarrow> sockaddr" where
  "sockaddr_of (Sock_V4 a p) = Sockaddr_In (octets p) (octets a)"
| "sockaddr_of (Sock_V6 a p flowinfo scope) = Sockaddr_In6 (octets p) flowinfo (octets a) scope"

datatype connect_answer = Connect_Done | Connect_In_Progress | Connect_Refused
datatype 's accept_answer = Accepted 's | Accept_Would_Block | Accept_Failed
datatype listen_call = Set_Reuse_Address | Set_Reuse_Port | Bind_To socket_addr | Listen_Backlog nat | Set_Nonblocking

record ('s, 'l) tcp_net =
  tn_socket :: "bool \<Rightarrow> 's option"
  tn_protect :: "'s \<Rightarrow> bool"
  tn_connect :: "'s \<Rightarrow> sockaddr \<Rightarrow> connect_answer"
  tn_async :: "'s \<Rightarrow> bool"
  tn_writable :: "'s \<Rightarrow> (unit, unit) poll"
  tn_take_error :: "'s \<Rightarrow> (bool, unit) result"
  tn_library_connect :: "socket_addr \<Rightarrow> ('s, unit) poll"
  tn_set_nodelay :: "'s \<Rightarrow> bool \<Rightarrow> bool"
  tn_listener :: "bool \<Rightarrow> 'l option"
  tn_listen_call :: "'l \<Rightarrow> listen_call \<Rightarrow> bool"
  tn_try_clone :: "'l \<Rightarrow> 'l option"
  tn_async_listener :: "'l \<Rightarrow> bool"
  tn_accept :: "'l \<Rightarrow> 's accept_answer"
  tn_registry_poisoned :: bool

fun is_ipv4 :: "socket_addr \<Rightarrow> bool" where
  "is_ipv4 (Sock_V4 a p) = True"
| "is_ipv4 (Sock_V6 a p flowinfo scope) = False"

section \<open>Outgoing connections\<close>

text \<open>The future of \<open>protected_connect\<close>: not polled yet, or waiting until the socket is writable.\<close>

datatype 's connect_future = Connect_Start socket_addr | Connect_Wait 's

datatype 's connect_poll = Connect_Ready "('s, unit) result" | Connect_Pending "'s connect_future"

datatype 's socket_call = Made_Socket 's | Protected 's bool | Connected 's sockaddr

definition connect_wait :: "('s, 'l) tcp_net \<Rightarrow> 's \<Rightarrow> 's connect_poll" where
  "connect_wait net s = (case tn_writable net s of
     Pending \<Rightarrow> Connect_Pending (Connect_Wait s)
   | Ready (Err e) \<Rightarrow> Connect_Ready (Err e)
   | Ready (Ok _) \<Rightarrow> Connect_Ready (case tn_take_error net s of
       Err e \<Rightarrow> Err e | Ok True \<Rightarrow> Err () | Ok False \<Rightarrow> Ok s))"

text \<open>Android and Linux: the socket is made, protected and connected by hand.\<close>

definition connect_start :: "('s, 'l) tcp_net \<Rightarrow> socket_addr \<Rightarrow> 's connect_poll \<times> 's socket_call list" where
  "connect_start net endpoint = (case tn_socket net (is_ipv4 endpoint) of
     None \<Rightarrow> (Connect_Ready (Err ()), [])
   | Some s \<Rightarrow>
       if \<not> tn_protect net s then (Connect_Ready (Err ()), [Made_Socket s, Protected s False])
       else
         (let calls = [Made_Socket s, Protected s True, Connected s (sockaddr_of endpoint)] in
          if tn_connect net s (sockaddr_of endpoint) = Connect_Refused then (Connect_Ready (Err ()), calls)
          else if \<not> tn_async net s then (Connect_Ready (Err ()), calls)
          else (connect_wait net s, calls)))"

fun protected_connect :: "('s, 'l) tcp_net \<Rightarrow> 's connect_future \<Rightarrow> 's connect_poll \<times> 's socket_call list" where
  "protected_connect net (Connect_Start endpoint) = connect_start net endpoint"
| "protected_connect net (Connect_Wait s) = (connect_wait net s, [])"

text \<open>Other systems: the library connects, and the connected socket is protected.\<close>

definition protected_connect_other :: "('s, 'l) tcp_net \<Rightarrow> socket_addr \<Rightarrow> 's connect_poll \<times> 's socket_call list" where
  "protected_connect_other net endpoint = (case tn_library_connect net endpoint of
     Pending \<Rightarrow> (Connect_Pending (Connect_Start endpoint), [])
   | Ready (Err e) \<Rightarrow> (Connect_Ready (Err e), [])
   | Ready (Ok s) \<Rightarrow>
       (Connect_Ready (if tn_protect net s then Ok s else Err ()),
        [Made_Socket s, Connected s (sockaddr_of endpoint), Protected s (tn_protect net s)]))"

text \<open>On Android and Linux every socket is protected before it connects, and a socket that could not be protected
  never connects.\<close>

lemma connected_after_protected:
  assumes "protected_connect net f = (r, calls)" "Connected s a \<in> set calls"
  shows "\<exists>xs ys. calls = xs @ Connected s a # ys \<and> Protected s True \<in> set xs \<and> tn_protect net s"
proof (cases f)
  case (Connect_Start endpoint)
  with assms have "calls = [Made_Socket s, Protected s True] @ Connected s a # []" "tn_protect net s"
    by (auto simp: connect_start_def Let_def split: option.splits if_splits)
  then show ?thesis by (intro exI conjI) (assumption, simp_all)
qed (use assms in simp)

section \<open>State\<close>

datatype 'l tcp_mode = Mode_Connect socket_addr | Mode_Listen 'l

record ('s, 'l) tcp_instance =
  ti_mode :: "'l tcp_mode"
  ti_max_connections :: nat
  ti_active_connections :: nat
  ti_nodelay :: bool
  ti_pending_connect :: "'s connect_future option"
  ti_connect_result :: "('s, unit) result option"
  ti_connect_wake :: wake_slot
  ti_accept_wake :: wake_slot

record 's tcp_stream =
  tst_owner :: u64
  tst_io :: 's
  tst_read_wake :: wake_slot
  tst_write_wake :: wake_slot

record ('s, 'l) tcp_module =
  tm_instances :: "(u64, ('s, 'l) tcp_instance) hashmap"
  tm_streams :: "(u64, 's tcp_stream) hashmap"
  tm_instance_next :: u64
  tm_stream_next :: u64
  tm_listeners :: "(socket_addr, 'l) hashmap"

definition tcp_initial :: "('s, 'l) tcp_module" where
  "tcp_initial = \<lparr>tm_instances = [], tm_streams = [], tm_instance_next = 1, tm_stream_next = 1, tm_listeners = []\<rparr>"

text \<open>Dropping an instance or a stream drops its wake slots.\<close>

definition drop_instance :: "('s, 'l) tcp_instance \<Rightarrow> wake_call list" where
  "drop_instance st = snd (slot_clear (ti_connect_wake st)) @ snd (slot_clear (ti_accept_wake st))"

definition drop_stream :: "'s tcp_stream \<Rightarrow> wake_call list" where
  "drop_stream s = snd (slot_clear (tst_read_wake s)) @ snd (slot_clear (tst_write_wake s))"

text \<open>The value that an insertion replaces is dropped.\<close>

definition dropped :: "('v \<Rightarrow> wake_call list) \<Rightarrow> 'v option \<Rightarrow> wake_call list" where
  "dropped f v = (case v of None \<Rightarrow> [] | Some x \<Rightarrow> f x)"

section \<open>Listening sockets\<close>

fun listen_calls :: "('l \<Rightarrow> listen_call \<Rightarrow> bool) \<Rightarrow> 'l \<Rightarrow> listen_call list \<Rightarrow> bool" where
  "listen_calls f l [] = True"
| "listen_calls f l (c # cs) = (if f l c then listen_calls f l cs else False)"

definition reusable_listener :: "('s, 'l) tcp_net \<Rightarrow> socket_addr \<Rightarrow> 'l option" where
  "reusable_listener net address = Option.bind (tn_listener net (is_ipv4 address)) (\<lambda>l.
     if listen_calls (tn_listen_call net) l
          [Set_Reuse_Address, Set_Reuse_Port, Bind_To address, Listen_Backlog 1024, Set_Nonblocking]
     then Some l else None)"

definition shared_listener ::
  "('s, 'l) tcp_net \<Rightarrow> socket_addr \<Rightarrow> (socket_addr, 'l) hashmap \<Rightarrow> 'l option \<times> (socket_addr, 'l) hashmap" where
  "shared_listener net address listeners =
     (if tn_registry_poisoned net then (None, listeners)
      else (case hm_get listeners address of
        Some l \<Rightarrow> (tn_try_clone net l, listeners)
      | None \<Rightarrow> (case reusable_listener net address of
          None \<Rightarrow> (None, listeners)
        | Some l \<Rightarrow> (case tn_try_clone net l of
            None \<Rightarrow> (None, listeners)
          | Some l' \<Rightarrow> (Some l, hm_insert address l' listeners)))))"

section \<open>Host calls on instances\<close>

definition tcp_mode_of ::
  "('s, 'l) tcp_net \<Rightarrow> tcp_options \<Rightarrow> ('s, 'l) tcp_module \<Rightarrow> 'l tcp_mode option \<times> ('s, 'l) tcp_module" where
  "tcp_mode_of net opts m = (case opts of
     Tcp_Connect endpoint _ _ \<Rightarrow> (Some (Mode_Connect endpoint), m)
   | Tcp_Listen endpoint _ _ \<Rightarrow> (case shared_listener net endpoint (tm_listeners m) of
       (l, ls) \<Rightarrow> (Option.bind l (\<lambda>x. if tn_async_listener net x then Some (Mode_Listen x) else None), m\<lparr>tm_listeners := ls\<rparr>)))"

text \<open>\<open>config\<close> is what the module kit makes of the bytes given, \<open>host\<close> what it makes of the table of the host.\<close>

definition tcp_create ::
  "(str \<Rightarrow> (tcp_options, str) result) \<Rightarrow> ('s, 'l) tcp_net \<Rightarrow> (bytes, status) result \<Rightarrow> (unit, status) result \<Rightarrow> bool \<Rightarrow>
     ('s, 'l) tcp_module \<Rightarrow> (status \<times> u64 option) \<times> ('s, 'l) tcp_module \<times> wake_call list" where
  "tcp_create toml net config host output_null m = (case config of
     Err e \<Rightarrow> ((e, None), m, [])
   | Ok bs \<Rightarrow> (case tcp_parse_options toml bs of
       Err _ \<Rightarrow> ((STATUS_INVALID, None), m, [])
     | Ok opts \<Rightarrow>
         if output_null then ((STATUS_INVALID, None), m, [])
         else (case host of
           Err e \<Rightarrow> ((e, None), m, [])
         | Ok _ \<Rightarrow> (case tcp_mode_of net opts m of
             (None, m1) \<Rightarrow> ((STATUS_IO, None), m1, [])
           | (Some mode, m1) \<Rightarrow>
               let handle = tm_instance_next m1; m2 = m1\<lparr>tm_instance_next := handle + 1\<rparr> in
               if handle = 0 then ((STATUS_RESOURCE, None), m2, [])
               else ((STATUS_OK, Some handle),
                 m2\<lparr>tm_instances := hm_insert handle
                   \<lparr>ti_mode = mode, ti_max_connections = to_max_connections opts, ti_active_connections = 0,
                    ti_nodelay = to_nodelay opts, ti_pending_connect = None, ti_connect_result = None,
                    ti_connect_wake = None, ti_accept_wake = None\<rparr> (tm_instances m2)\<rparr>,
                 dropped drop_instance (hm_get (tm_instances m2) handle))))))"

definition poll_connect ::
  "('s, 'l) tcp_net \<Rightarrow> ('s, 'l) tcp_instance \<Rightarrow> ('s, 'l) tcp_instance \<times> wake_call list \<times> 's socket_call list" where
  "poll_connect net st = (case ti_pending_connect st of
     None \<Rightarrow> (st, [], [])
   | Some f \<Rightarrow> (case protected_connect net f of
       (Connect_Pending f', sockets) \<Rightarrow> (st\<lparr>ti_pending_connect := Some f'\<rparr>, [], sockets)
     | (Connect_Ready r, sockets) \<Rightarrow> (case slot_wake (ti_connect_wake st) of
         (slot, calls) \<Rightarrow> (st\<lparr>ti_pending_connect := None, ti_connect_result := Some r, ti_connect_wake := slot\<rparr>, calls, sockets))))"

definition wake_stream :: "u64 \<Rightarrow> 's tcp_stream \<Rightarrow> 's tcp_stream \<times> wake_call list" where
  "wake_stream inst s = (if tst_owner s = inst then
       (case slot_wake (tst_read_wake s) of (r, calls1) \<Rightarrow> case slot_wake (tst_write_wake s) of
          (w, calls2) \<Rightarrow> (s\<lparr>tst_read_wake := r, tst_write_wake := w\<rparr>, calls1 @ calls2))
     else (s, []))"

fun wake_streams :: "u64 \<Rightarrow> (u64, 's tcp_stream) hashmap \<Rightarrow> (u64, 's tcp_stream) hashmap \<times> wake_call list" where
  "wake_streams inst [] = ([], [])"
| "wake_streams inst ((h, s) # rest) = (case wake_stream inst s of (s', calls1) \<Rightarrow> case wake_streams inst rest of
     (rest', calls2) \<Rightarrow> ((h, s') # rest', calls1 @ calls2))"

definition tcp_poll ::
  "('s, 'l) tcp_net \<Rightarrow> u64 \<Rightarrow> ('s, 'l) tcp_module \<Rightarrow> status \<times> ('s, 'l) tcp_module \<times> wake_call list \<times> 's socket_call list" where
  "tcp_poll net inst m = (case hm_get (tm_instances m) inst of
     None \<Rightarrow> (STATUS_INVALID, m, [], [])
   | Some st \<Rightarrow> (case poll_connect net st of
       (st1, calls1, sockets) \<Rightarrow> case slot_wake (ti_accept_wake st1) of
       (slot, calls2) \<Rightarrow> case wake_streams inst (tm_streams m) of
       (streams, calls3) \<Rightarrow>
         (STATUS_PENDING,
          m\<lparr>tm_instances := hm_insert inst (st1\<lparr>ti_accept_wake := slot\<rparr>) (tm_instances m), tm_streams := streams\<rparr>,
          calls1 @ calls2 @ calls3, sockets)))"

definition tcp_control :: "u64 \<Rightarrow> bool \<Rightarrow> ('s, 'l) tcp_module \<Rightarrow> status \<times> nat option" where
  "tcp_control inst written_null m =
     (if written_null then (STATUS_INVALID, None)
      else if hm_contains (tm_instances m) inst then (STATUS_UNSUPPORTED, Some 0) else (STATUS_INVALID, Some 0))"

definition tcp_shutdown :: "u64 \<Rightarrow> ('s, 'l) tcp_module \<Rightarrow> status" where
  "tcp_shutdown inst m = (if hm_contains (tm_instances m) inst then STATUS_OK else STATUS_INVALID)"

definition tcp_destroy :: "u64 \<Rightarrow> ('s, 'l) tcp_module \<Rightarrow> ('s, 'l) tcp_module \<times> wake_call list" where
  "tcp_destroy inst m =
     (m\<lparr>tm_streams := hm_retain (\<lambda>_ s. tst_owner s \<noteq> inst) (tm_streams m), tm_instances := hm_remove inst (tm_instances m)\<rparr>,
      concat (map (\<lambda>(h, s). drop_stream s) (hm_retain (\<lambda>_ s. \<not> tst_owner s \<noteq> inst) (tm_streams m))) @
      dropped drop_instance (hm_get (tm_instances m) inst))"

section \<open>Connecting and accepting\<close>

text \<open>The caller puts the instance back into the table. A socket that is not kept is closed.\<close>

definition finish_stream ::
  "('s, 'l) tcp_net \<Rightarrow> u64 \<Rightarrow> 's \<Rightarrow> ('s, 'l) tcp_instance \<Rightarrow> bool \<Rightarrow> ('s, 'l) tcp_module \<Rightarrow>
     (status \<times> u64 option) \<times> ('s, 'l) tcp_instance \<times> ('s, 'l) tcp_module \<times> wake_call list" where
  "finish_stream net owner s st output_null m =
     (if output_null then ((STATUS_INVALID, None), st, m, [])
      else if \<not> tn_set_nodelay net s (ti_nodelay st) then ((STATUS_IO, None), st, m, [])
      else let handle = tm_stream_next m; m1 = m\<lparr>tm_stream_next := handle + 1\<rparr> in
        if handle = 0 then ((STATUS_RESOURCE, None), st, m1, [])
        else ((STATUS_OK, Some handle), st\<lparr>ti_active_connections := ti_active_connections st + 1\<rparr>,
          m1\<lparr>tm_streams := hm_insert handle
            \<lparr>tst_owner = owner, tst_io = s, tst_read_wake = None, tst_write_wake = None\<rparr> (tm_streams m1)\<rparr>,
          dropped drop_stream (hm_get (tm_streams m1) handle)))"

definition put_instance :: "u64 \<Rightarrow> ('s, 'l) tcp_instance \<Rightarrow> ('s, 'l) tcp_module \<Rightarrow> ('s, 'l) tcp_module" where
  "put_instance inst st m = m\<lparr>tm_instances := hm_insert inst st (tm_instances m)\<rparr>"

definition finish_into ::
  "('s, 'l) tcp_net \<Rightarrow> u64 \<Rightarrow> 's \<Rightarrow> ('s, 'l) tcp_instance \<Rightarrow> bool \<Rightarrow> ('s, 'l) tcp_module \<Rightarrow>
     (status \<times> u64 option) \<times> ('s, 'l) tcp_module \<times> wake_call list" where
  "finish_into net inst s st output_null m = (case finish_stream net inst s st output_null m of
     (answer, st1, m1, calls) \<Rightarrow> (answer, put_instance inst st1 m1, calls))"

text \<open>\<open>None\<close> asks for the configured endpoint.\<close>

definition requested_endpoint :: "(bytes, status) result \<Rightarrow> (socket_addr option, status) result" where
  "requested_endpoint endpoint = try_bind endpoint (\<lambda>bs.
     if bs = [] then Ok None
     else if \<not> utf8_valid bs then Err STATUS_INVALID
     else (case parse_sock bs of None \<Rightarrow> Err STATUS_INVALID | Some a \<Rightarrow> Ok (Some a)))"

definition connect_instance ::
  "('s, 'l) tcp_net \<Rightarrow> u64 \<Rightarrow> socket_addr option \<Rightarrow> bool \<Rightarrow> wake_handle \<Rightarrow> bool \<Rightarrow> ('s, 'l) tcp_instance \<Rightarrow> ('s, 'l) tcp_module \<Rightarrow>
     (status \<times> u64 option) \<times> ('s, 'l) tcp_module \<times> wake_call list" where
  "connect_instance net inst requested granted wake output_null st m =
     (if ti_max_connections st \<le> ti_active_connections st then ((STATUS_RESOURCE, None), m, [])
      else (case ti_mode st of
        Mode_Listen _ \<Rightarrow> ((STATUS_UNSUPPORTED, None), m, [])
      | Mode_Connect configured \<Rightarrow>
          let endpoint = (case requested of Some a \<Rightarrow> a | None \<Rightarrow> configured) in
          (case ti_connect_result st of
             Some (Ok s) \<Rightarrow> finish_into net inst s (st\<lparr>ti_connect_result := None\<rparr>) output_null m
           | Some (Err _) \<Rightarrow> ((STATUS_IO, None), put_instance inst (st\<lparr>ti_connect_result := None\<rparr>) m, [])
           | None \<Rightarrow>
               let st1 = (case ti_pending_connect st of
                            None \<Rightarrow> st\<lparr>ti_pending_connect := Some (Connect_Start endpoint)\<rparr> | Some _ \<Rightarrow> st) in
               (case slot_replace granted wake (ti_connect_wake st1) of
                  (slot, calls) \<Rightarrow> ((STATUS_PENDING, None), put_instance inst (st1\<lparr>ti_connect_wake := slot\<rparr>) m, calls)))))"

definition tcp_connect ::
  "('s, 'l) tcp_net \<Rightarrow> u64 \<Rightarrow> (bytes, status) result \<Rightarrow> bool \<Rightarrow> wake_handle \<Rightarrow> bool \<Rightarrow> ('s, 'l) tcp_module \<Rightarrow>
     (status \<times> u64 option) \<times> ('s, 'l) tcp_module \<times> wake_call list" where
  "tcp_connect net inst endpoint granted wake output_null m = (case requested_endpoint endpoint of
     Err e \<Rightarrow> ((e, None), m, [])
   | Ok requested \<Rightarrow> (case hm_get (tm_instances m) inst of
       None \<Rightarrow> ((STATUS_INVALID, None), m, [])
     | Some st \<Rightarrow> connect_instance net inst requested granted wake output_null st m))"

definition accept_instance ::
  "('s, 'l) tcp_net \<Rightarrow> u64 \<Rightarrow> bool \<Rightarrow> wake_handle \<Rightarrow> bool \<Rightarrow> ('s, 'l) tcp_instance \<Rightarrow> ('s, 'l) tcp_module \<Rightarrow>
     (status \<times> u64 option) \<times> ('s, 'l) tcp_module \<times> wake_call list" where
  "accept_instance net inst granted wake output_null st m =
     (if ti_max_connections st \<le> ti_active_connections st then ((STATUS_RESOURCE, None), m, [])
      else (case ti_mode st of
        Mode_Connect _ \<Rightarrow> ((STATUS_UNSUPPORTED, None), m, [])
      | Mode_Listen l \<Rightarrow> (case tn_accept net l of
          Accepted s \<Rightarrow>
            if tn_async net s then finish_into net inst s st output_null m else ((STATUS_IO, None), m, [])
        | Accept_Would_Block \<Rightarrow> (case slot_replace granted wake (ti_accept_wake st) of
            (slot, calls) \<Rightarrow> ((STATUS_PENDING, None), put_instance inst (st\<lparr>ti_accept_wake := slot\<rparr>) m, calls))
        | Accept_Failed \<Rightarrow> ((STATUS_IO, None), m, []))))"

definition tcp_accept ::
  "('s, 'l) tcp_net \<Rightarrow> u64 \<Rightarrow> bool \<Rightarrow> wake_handle \<Rightarrow> bool \<Rightarrow> ('s, 'l) tcp_module \<Rightarrow>
     (status \<times> u64 option) \<times> ('s, 'l) tcp_module \<times> wake_call list" where
  "tcp_accept net inst granted wake output_null m = (case hm_get (tm_instances m) inst of
     None \<Rightarrow> ((STATUS_INVALID, None), m, [])
   | Some st \<Rightarrow> accept_instance net inst granted wake output_null st m)"

section \<open>Host calls on streams\<close>

definition put_stream :: "u64 \<Rightarrow> 's tcp_stream \<Rightarrow> ('s, 'l) tcp_module \<Rightarrow> ('s, 'l) tcp_module" where
  "put_stream h s m = m\<lparr>tm_streams := hm_insert h s (tm_streams m)\<rparr>"

text \<open>The second component is what a read puts into the buffer.\<close>

definition tcp_read ::
  "io_read \<Rightarrow> u64 \<Rightarrow> bool \<Rightarrow> nat \<Rightarrow> bool \<Rightarrow> wake_handle \<Rightarrow> ('s, 'l) tcp_module \<Rightarrow> (io_result \<times> bytes) \<times> ('s, 'l) tcp_module \<times> wake_call list" where
  "tcp_read answer h output_null n granted wake m =
     (if output_null \<and> n \<noteq> 0 then ((Io_Error STATUS_INVALID, []), m, [])
      else (case hm_get (tm_streams m) h of
        None \<Rightarrow> ((Io_Error STATUS_INVALID, []), m, [])
      | Some s \<Rightarrow> (case answer of
          Read_Data bs \<Rightarrow> ((if bs = [] then Io_Eof else Io_Progress (length bs), bs), m, [])
        | Read_Error \<Rightarrow> ((Io_Error STATUS_IO, []), m, [])
        | Read_Pending \<Rightarrow> (case slot_replace granted wake (tst_read_wake s) of
            (slot, calls) \<Rightarrow> ((Io_Pending, []), put_stream h (s\<lparr>tst_read_wake := slot\<rparr>) m, calls)))))"

definition wait_write ::
  "u64 \<Rightarrow> 's tcp_stream \<Rightarrow> bool \<Rightarrow> wake_handle \<Rightarrow> ('s, 'l) tcp_module \<Rightarrow> io_result \<times> ('s, 'l) tcp_module \<times> wake_call list" where
  "wait_write h s granted wake m = (case slot_replace granted wake (tst_write_wake s) of
     (slot, calls) \<Rightarrow> (Io_Pending, put_stream h (s\<lparr>tst_write_wake := slot\<rparr>) m, calls))"

definition tcp_write ::
  "(bytes \<Rightarrow> io_write) \<Rightarrow> u64 \<Rightarrow> (bytes, status) result \<Rightarrow> bool \<Rightarrow> wake_handle \<Rightarrow> ('s, 'l) tcp_module \<Rightarrow>
     io_result \<times> ('s, 'l) tcp_module \<times> wake_call list" where
  "tcp_write answer h input granted wake m = (case input of
     Err e \<Rightarrow> (Io_Error e, m, [])
   | Ok bs \<Rightarrow>
       if bs = [] then (Io_Progress 0, m, [])
       else (case hm_get (tm_streams m) h of
         None \<Rightarrow> (Io_Error STATUS_INVALID, m, [])
       | Some s \<Rightarrow> (case answer bs of
           Write_Count n \<Rightarrow> (if n = 0 then Io_Error STATUS_IO else Io_Progress n, m, [])
         | Write_Error \<Rightarrow> (Io_Error STATUS_IO, m, [])
         | Write_Pending \<Rightarrow> wait_write h s granted wake m)))"

definition tcp_io_action ::
  "(unit, unit) poll \<Rightarrow> u64 \<Rightarrow> bool \<Rightarrow> wake_handle \<Rightarrow> ('s, 'l) tcp_module \<Rightarrow> io_result \<times> ('s, 'l) tcp_module \<times> wake_call list" where
  "tcp_io_action answer h granted wake m = (case hm_get (tm_streams m) h of
     None \<Rightarrow> (Io_Error STATUS_INVALID, m, [])
   | Some s \<Rightarrow> (case answer of
       Ready (Ok _) \<Rightarrow> (Io_Progress 0, m, [])
     | Ready (Err _) \<Rightarrow> (Io_Error STATUS_IO, m, [])
     | Pending \<Rightarrow> wait_write h s granted wake m))"

definition tcp_flush where "tcp_flush = tcp_io_action"

definition tcp_shutdown_write where "tcp_shutdown_write = tcp_io_action"

definition tcp_close :: "u64 \<Rightarrow> ('s, 'l) tcp_module \<Rightarrow> status \<times> ('s, 'l) tcp_module \<times> wake_call list" where
  "tcp_close h m = (case hm_get (tm_streams m) h of
     None \<Rightarrow> (STATUS_INVALID, m, [])
   | Some s \<Rightarrow>
       let m1 = m\<lparr>tm_streams := hm_remove h (tm_streams m)\<rparr> in
       (STATUS_OK,
        (case hm_get (tm_instances m1) (tst_owner s) of
           None \<Rightarrow> m1
         | Some st \<Rightarrow> put_instance (tst_owner s) (st\<lparr>ti_active_connections := ti_active_connections st - 1\<rparr>) m1),
        drop_stream s))"

text \<open>A request for an endpoint while another connection is under way: the endpoint is not used, and the connection
  that the next call hands over is the one under way.\<close>

lemma pending_connection_decides_endpoint:
  assumes "ti_active_connections st < ti_max_connections st" "ti_mode st = Mode_Connect configured"
    "ti_connect_result st = None" "ti_pending_connect st = Some f"
    "connect_instance net inst (Some other) granted wake output_null st m = (answer, m', calls)"
  shows "fst answer = STATUS_PENDING \<and> map_option ti_pending_connect (hm_get (tm_instances m') inst) = Some (Some f)"
  using assms by (auto simp: connect_instance_def put_instance_def split: prod.splits)

end
