(* ===== verification/Carrier_Run.thy ===== *)
theory Carrier_Run
  imports Carrier_Tcp
begin

text \<open>
  Sequences of host calls on the TCP carrier: the tables stay well formed and within the configured
  number of connections, and every reference to a wake handle that was retained is either still in a
  slot or was released.
\<close>

datatype ('s, 'l) tcp_op =
    Tcp_Create "str \<Rightarrow> (tcp_options, str) result" "('s, 'l) tcp_net" "(bytes, status) result" "(unit, status) result" bool
  | Tcp_Poll "('s, 'l) tcp_net" u64
  | Tcp_Destroy u64
  | Tcp_Connect_To "('s, 'l) tcp_net" u64 "(bytes, status) result" bool wake_handle bool
  | Tcp_Accept "('s, 'l) tcp_net" u64 bool wake_handle bool
  | Tcp_Read io_read u64 bool nat bool wake_handle
  | Tcp_Write "bytes \<Rightarrow> io_write" u64 "(bytes, status) result" bool wake_handle
  | Tcp_Flush "(unit, unit) poll" u64 bool wake_handle
  | Tcp_Shutdown_Write "(unit, unit) poll" u64 bool wake_handle
  | Tcp_Close u64

fun tcp_step :: "('s, 'l) tcp_op \<Rightarrow> ('s, 'l) tcp_module \<Rightarrow> ('s, 'l) tcp_module \<times> wake_call list" where
  "tcp_step (Tcp_Create toml net config host output_null) m = snd (tcp_create toml net config host output_null m)"
| "tcp_step (Tcp_Poll net inst) m = (case tcp_poll net inst m of (_, m', calls, _) \<Rightarrow> (m', calls))"
| "tcp_step (Tcp_Destroy inst) m = tcp_destroy inst m"
| "tcp_step (Tcp_Connect_To net inst endpoint granted wake output_null) m = snd (tcp_connect net inst endpoint granted wake output_null m)"
| "tcp_step (Tcp_Accept net inst granted wake output_null) m = snd (tcp_accept net inst granted wake output_null m)"
| "tcp_step (Tcp_Read answer h output_null n granted wake) m = snd (tcp_read answer h output_null n granted wake m)"
| "tcp_step (Tcp_Write answer h input granted wake) m = snd (tcp_write answer h input granted wake m)"
| "tcp_step (Tcp_Flush answer h granted wake) m = snd (tcp_flush answer h granted wake m)"
| "tcp_step (Tcp_Shutdown_Write answer h granted wake) m = snd (tcp_shutdown_write answer h granted wake m)"
| "tcp_step (Tcp_Close h) m = snd (tcp_close h m)"

fun tcp_run :: "('s, 'l) tcp_op list \<Rightarrow> ('s, 'l) tcp_module \<Rightarrow> ('s, 'l) tcp_module \<times> wake_call list" where
  "tcp_run [] m = (m, [])"
| "tcp_run (op # ops) m = (case tcp_step op m of (m1, calls1) \<Rightarrow> case tcp_run ops m1 of (m2, calls2) \<Rightarrow> (m2, calls1 @ calls2))"

text \<open>The handle that a call brings.\<close>

fun op_handle :: "('s, 'l) tcp_op \<Rightarrow> wake_handle option" where
  "op_handle (Tcp_Connect_To net inst endpoint granted wake output_null) = Some wake"
| "op_handle (Tcp_Accept net inst granted wake output_null) = Some wake"
| "op_handle (Tcp_Read answer h output_null n granted wake) = Some wake"
| "op_handle (Tcp_Write answer h input granted wake) = Some wake"
| "op_handle (Tcp_Flush answer h granted wake) = Some wake"
| "op_handle (Tcp_Shutdown_Write answer h granted wake) = Some wake"
| "op_handle _ = None"

definition handles_ok :: "('s, 'l) tcp_op list \<Rightarrow> bool" where
  "handles_ok ops \<longleftrightarrow> list_all (\<lambda>op. case op_handle op of None \<Rightarrow> True | Some w \<Rightarrow> handle_ok w) ops"

section \<open>Well-formed tables\<close>

definition owned :: "u64 \<Rightarrow> (u64, 's tcp_stream) hashmap \<Rightarrow> nat" where
  "owned inst = hm_sum (\<lambda>s. if tst_owner s = inst then 1 else 0)"

definition streams_wf :: "('s, 'l) tcp_module \<Rightarrow> bool" where
  "streams_wf m \<longleftrightarrow> hm_wf (tm_streams m) \<and>
     (\<forall>h s. hm_get (tm_streams m) h = Some s \<longrightarrow> h < tm_stream_next m \<and> hm_get (tm_instances m) (tst_owner s) \<noteq> None)"

definition instances_wf :: "('s, 'l) tcp_module \<Rightarrow> bool" where
  "instances_wf m \<longleftrightarrow> hm_wf (tm_instances m) \<and>
     (\<forall>i st. hm_get (tm_instances m) i = Some st \<longrightarrow> i < tm_instance_next m \<and>
        ti_active_connections st = owned i (tm_streams m) \<and> owned i (tm_streams m) \<le> ti_max_connections st)"

definition tcp_wf :: "('s, 'l) tcp_module \<Rightarrow> bool" where
  "tcp_wf m \<longleftrightarrow> streams_wf m \<and> instances_wf m"

text \<open>The counters after \<open>n\<close> calls.\<close>

definition counters_at :: "nat \<Rightarrow> ('s, 'l) tcp_module \<Rightarrow> bool" where
  "counters_at n m \<longleftrightarrow> unat (tm_instance_next m) \<le> Suc n \<and> unat (tm_stream_next m) \<le> Suc n"

lemma tcp_wfD:
  assumes "tcp_wf m"
  shows "hm_wf (tm_streams m)" "hm_wf (tm_instances m)"
    "hm_get (tm_streams m) h = Some s \<Longrightarrow> h < tm_stream_next m \<and> hm_get (tm_instances m) (tst_owner s) \<noteq> None"
    "hm_get (tm_instances m) i = Some st \<Longrightarrow> i < tm_instance_next m \<and>
       ti_active_connections st = owned i (tm_streams m) \<and> owned i (tm_streams m) \<le> ti_max_connections st"
  using assms by (auto simp: tcp_wf_def streams_wf_def instances_wf_def)

lemma tcp_wfI:
  assumes "hm_wf (tm_streams m)" "hm_wf (tm_instances m)"
    "\<And>h s. hm_get (tm_streams m) h = Some s \<Longrightarrow> h < tm_stream_next m \<and> hm_get (tm_instances m) (tst_owner s) \<noteq> None"
    "\<And>i st. hm_get (tm_instances m) i = Some st \<Longrightarrow> i < tm_instance_next m \<and>
       ti_active_connections st = owned i (tm_streams m) \<and> owned i (tm_streams m) \<le> ti_max_connections st"
  shows "tcp_wf m"
  using assms by (auto simp: tcp_wf_def streams_wf_def instances_wf_def)

lemma put_instance_wf:
  assumes "tcp_wf m" "hm_get (tm_instances m) i = Some st"
    "ti_active_connections st' = ti_active_connections st" "ti_max_connections st' = ti_max_connections st"
  shows "tcp_wf (put_instance i st' m)"
  using tcp_wfD [OF assms(1)] assms(2-) by (intro tcp_wfI) (auto simp: put_instance_def split: if_splits)

lemma owned_put: "hm_get m h = Some s \<Longrightarrow> tst_owner s' = tst_owner s \<Longrightarrow> owned i (hm_insert h s' m) = owned i m"
  using hm_sum_insert_old [of m h s "\<lambda>s. if tst_owner s = i then 1 else 0" s'] by (auto simp: owned_def split: if_splits)

lemma put_stream_wf:
  assumes "tcp_wf m" "hm_get (tm_streams m) h = Some s" "tst_owner s' = tst_owner s"
  shows "tcp_wf (put_stream h s' m)"
  using tcp_wfD [OF assms(1)] assms(2-)
  by (intro tcp_wfI) (auto simp: put_stream_def owned_put split: if_splits)

lemma owned_none: "(\<And>h s. hm_get m h = Some s \<Longrightarrow> tst_owner s \<noteq> i) \<Longrightarrow> hm_wf m \<Longrightarrow> owned i m = 0"
  by (force simp: owned_def hm_sum_def hm_get_Some)

lemma wake_streams_owners:
  "wake_streams i m = (m', calls) \<Longrightarrow> map (\<lambda>(h, s). (h, tst_owner s)) m' = map (\<lambda>(h, s). (h, tst_owner s)) m"
  by (induction m arbitrary: m' calls)
    (auto simp: wake_stream_def split: prod.splits if_splits)

lemma owned_owners: "owned i m = sum_list (map (\<lambda>(h, w). if w = i then 1 else 0) (map (\<lambda>(h, s). (h, tst_owner s)) m))"
  by (simp add: owned_def hm_sum_def split_def comp_def)

lemma get_owners: "map_option tst_owner (hm_get m h) = map_of (map (\<lambda>(h, s). (h, tst_owner s)) m) h"
  by (induction m) (auto simp: hm_get_def)

lemma wf_owners: "hm_wf m \<longleftrightarrow> distinct (map fst (map (\<lambda>(h, s). (h, tst_owner s)) m))"
  by (simp add: hm_wf_def case_prod_beta comp_def)

lemma same_owners_wf:
  assumes "tcp_wf m" "map (\<lambda>(h, s). (h, tst_owner s)) streams = map (\<lambda>(h, s). (h, tst_owner s)) (tm_streams m)"
  shows "tcp_wf (m\<lparr>tm_streams := streams\<rparr>)"
proof (rule tcp_wfI)
  fix h s assume "hm_get (tm_streams (m\<lparr>tm_streams := streams\<rparr>)) h = Some s"
  then have "map_option tst_owner (hm_get (tm_streams m) h) = Some (tst_owner s)"
    using get_owners [of streams h] get_owners [of "tm_streams m" h] assms(2) by simp
  then obtain s0 where "hm_get (tm_streams m) h = Some s0" "tst_owner s0 = tst_owner s" by auto
  with tcp_wfD(3) [OF assms(1), of h s0]
  show "h < tm_stream_next (m\<lparr>tm_streams := streams\<rparr>) \<and> hm_get (tm_instances (m\<lparr>tm_streams := streams\<rparr>)) (tst_owner s) \<noteq> None"
    by simp
qed (use tcp_wfD [OF assms(1)] wf_owners [of streams] wf_owners [of "tm_streams m"] owned_owners [of _ streams]
      owned_owners [of _ "tm_streams m"] assms(2) in auto)

lemma poll_connect_keeps:
  "poll_connect net st = (st', calls, sockets) \<Longrightarrow>
     ti_active_connections st' = ti_active_connections st \<and> ti_max_connections st' = ti_max_connections st"
  by (auto simp: poll_connect_def split: option.splits prod.splits connect_poll.splits)

lemma tcp_poll_wf:
  assumes "tcp_wf m" "tcp_poll net i m = (a, m', calls, sockets)"
  shows "tcp_wf m' \<and> tm_instance_next m' = tm_instance_next m \<and> tm_stream_next m' = tm_stream_next m"
proof (cases "hm_get (tm_instances m) i")
  case None
  with assms show ?thesis by (simp add: tcp_poll_def)
next
  case (Some st)
  obtain st1 c1 so where p: "poll_connect net st = (st1, c1, so)" by (metis prod_cases3)
  obtain slot c2 where w: "slot_wake (ti_accept_wake st1) = (slot, c2)" by force
  obtain streams c3 where s: "wake_streams i (tm_streams m) = (streams, c3)" by force
  let ?m1 = "put_instance i (st1\<lparr>ti_accept_wake := slot\<rparr>) m"
  from assms(2) Some p w s have m': "m' = ?m1\<lparr>tm_streams := streams\<rparr>" by (simp add: tcp_poll_def put_instance_def)
  have "tcp_wf ?m1" by (rule put_instance_wf [OF assms(1) Some]) (use poll_connect_keeps [OF p] in simp_all)
  then have "tcp_wf (?m1\<lparr>tm_streams := streams\<rparr>)"
    by (rule same_owners_wf) (use wake_streams_owners [OF s] in \<open>simp add: put_instance_def\<close>)
  then show ?thesis by (simp add: m' put_instance_def)
qed

text \<open>A call that changes only wake slots keeps the tables well formed.\<close>

definition tcp_ok :: "nat \<Rightarrow> ('s, 'l) tcp_module \<Rightarrow> bool" where
  "tcp_ok n m \<longleftrightarrow> tcp_wf m \<and> counters_at n m"

lemma tcp_ok_same:
  "tcp_ok n m \<Longrightarrow> tcp_wf m' \<Longrightarrow> tm_instance_next m' = tm_instance_next m \<Longrightarrow> tm_stream_next m' = tm_stream_next m \<Longrightarrow> tcp_ok (Suc n) m'"
  by (simp add: tcp_ok_def counters_at_def)

lemma tcp_ok_Suc: "tcp_ok n m \<Longrightarrow> tcp_ok (Suc n) m"
  by (simp add: tcp_ok_def counters_at_def)

lemma tcp_ok_put_instance:
  "tcp_ok n m \<Longrightarrow> hm_get (tm_instances m) i = Some st \<Longrightarrow> ti_active_connections st' = ti_active_connections st \<Longrightarrow>
     ti_max_connections st' = ti_max_connections st \<Longrightarrow> tcp_ok (Suc n) (put_instance i st' m)"
  by (rule tcp_ok_same [of n m]) (auto simp: tcp_ok_def put_instance_wf, simp_all add: put_instance_def)

lemma tcp_ok_put_stream:
  "tcp_ok n m \<Longrightarrow> hm_get (tm_streams m) h = Some s \<Longrightarrow> tst_owner s' = tst_owner s \<Longrightarrow> tcp_ok (Suc n) (put_stream h s' m)"
  by (rule tcp_ok_same [of n m]) (auto simp: tcp_ok_def put_stream_wf, simp_all add: put_stream_def)

lemma next_handle:
  assumes "unat (x :: u64) \<le> Suc n" "Suc (Suc n) < 2 ^ 64"
  shows "unat (x + 1) = Suc (unat x)" "h < x \<Longrightarrow> h < x + 1" "x < x + 1"
proof -
  show e: "unat (x + 1) = Suc (unat x)" using assms by (simp add: unat_word_ariths)
  show "h < x \<Longrightarrow> h < x + 1" "x < x + 1" by (simp_all add: word_less_nat_alt e)
qed

lemma owned_fresh: "tcp_wf m \<Longrightarrow> hm_get (tm_instances m) i = None \<Longrightarrow> owned i (tm_streams m) = 0"
  using tcp_wfD(1,3) [of m] by (intro owned_none) (metis, blast)

lemma next_instance_new: "tcp_wf m \<Longrightarrow> hm_get (tm_instances m) (tm_instance_next m) = None"
  using tcp_wfD(4) [of m "tm_instance_next m"] by (cases "hm_get (tm_instances m) (tm_instance_next m)") auto

lemma next_stream_new: "tcp_wf m \<Longrightarrow> hm_get (tm_streams m) (tm_stream_next m) = None"
  using tcp_wfD(3) [of m "tm_stream_next m"] by (cases "hm_get (tm_streams m) (tm_stream_next m)") auto

lemma tcp_okD: "tcp_ok n m \<Longrightarrow> tcp_wf m" "tcp_ok n m \<Longrightarrow> unat (tm_instance_next m) \<le> Suc n" "tcp_ok n m \<Longrightarrow> unat (tm_stream_next m) \<le> Suc n"
  by (simp_all add: tcp_ok_def counters_at_def)

lemma new_instance_ok:
  assumes "tcp_ok n m" "Suc (Suc n) < 2 ^ 64" "ti_active_connections st = 0"
  shows "tcp_ok (Suc n) (m\<lparr>tm_instance_next := tm_instance_next m + 1, tm_instances := hm_insert (tm_instance_next m) st (tm_instances m)\<rparr>)"
proof -
  note wf = tcp_okD(1) [OF assms(1)] and nx = next_handle [OF tcp_okD(2) [OF assms(1)] assms(2)]
  have "tcp_wf (m\<lparr>tm_instance_next := tm_instance_next m + 1, tm_instances := hm_insert (tm_instance_next m) st (tm_instances m)\<rparr>)"
    using tcp_wfD [OF wf] nx assms(3) owned_fresh [OF wf next_instance_new [OF wf]] by (intro tcp_wfI) (auto split: if_splits)
  then show ?thesis using tcp_okD [OF assms(1)] nx(1) by (simp add: tcp_ok_def counters_at_def)
qed

lemma skip_instance_ok:
  assumes "tcp_ok n m" "Suc (Suc n) < 2 ^ 64"
  shows "tcp_ok (Suc n) (m\<lparr>tm_instance_next := tm_instance_next m + 1\<rparr>)"
proof -
  note wf = tcp_okD(1) [OF assms(1)] and nx = next_handle [OF tcp_okD(2) [OF assms(1)] assms(2)]
  have "tcp_wf (m\<lparr>tm_instance_next := tm_instance_next m + 1\<rparr>)" using tcp_wfD [OF wf] nx by (intro tcp_wfI) auto
  then show ?thesis using tcp_okD [OF assms(1)] nx(1) by (simp add: tcp_ok_def counters_at_def)
qed

lemma tcp_mode_of_keeps: "tcp_mode_of net opts m = (r, m1) \<Longrightarrow> \<exists>ls. m1 = m\<lparr>tm_listeners := ls\<rparr>"
  by (cases opts) (auto simp: tcp_mode_of_def split: prod.splits intro: exI [of _ "tm_listeners m"])

lemma tcp_mode_of_ok: "tcp_ok n m \<Longrightarrow> tcp_mode_of net opts m = (r, m1) \<Longrightarrow> tcp_ok n m1"
  by (drule tcp_mode_of_keeps) (auto simp: tcp_ok_def counters_at_def tcp_wf_def streams_wf_def instances_wf_def)

lemma tcp_create_ok:
  assumes "tcp_ok n m" "Suc (Suc n) < 2 ^ 64"
  shows "tcp_ok (Suc n) (fst (snd (tcp_create toml net config host output_null m)))"
proof (cases "\<exists>bs opts mode m1. config = Ok bs \<and> tcp_parse_options toml bs = Ok opts \<and> \<not> output_null \<and> host = Ok () \<and> tcp_mode_of net opts m = (Some mode, m1)")
  case True
  then obtain bs opts mode m1 where c: "config = Ok bs" "tcp_parse_options toml bs = Ok opts" "\<not> output_null" "host = Ok ()"
    and mode: "tcp_mode_of net opts m = (Some mode, m1)" by blast
  note m1 = tcp_mode_of_ok [OF assms(1) mode]
  show ?thesis
    using new_instance_ok [OF m1 assms(2)] skip_instance_ok [OF m1 assms(2)]
    by (cases "tm_instance_next m1 = 0") (simp_all add: tcp_create_def c mode Let_def)
next
  case False
  then show ?thesis
    using tcp_ok_Suc [OF assms(1)] tcp_ok_Suc [OF tcp_mode_of_ok [OF assms(1)]]
    by (auto simp: tcp_create_def split: result.splits prod.splits option.splits)
qed

text \<open>A new stream: its owner has one connection more.\<close>

lemma owned_new:
  "hm_get m h = None \<Longrightarrow> owned i (hm_insert h s m) = owned i m + (if tst_owner s = i then 1 else 0)"
  by (simp add: owned_def hm_sum_insert_new)

lemma finish_into_ok:
  assumes ok: "tcp_ok n m" and bound: "Suc (Suc n) < 2 ^ 64" and get: "hm_get (tm_instances m) i = Some st0"
    and same: "ti_active_connections st = ti_active_connections st0" "ti_max_connections st = ti_max_connections st0"
    and room: "ti_active_connections st < ti_max_connections st"
  shows "tcp_ok (Suc n) (fst (snd (finish_into net i s st output_null m)))"
proof -
  note wf = tcp_okD(1) [OF ok] and nx = next_handle [OF tcp_okD(3) [OF ok] bound]
  let ?skip = "put_instance i st (m\<lparr>tm_stream_next := tm_stream_next m + 1\<rparr>)"
  let ?s = "\<lparr>tst_owner = i, tst_io = s, tst_read_wake = None, tst_write_wake = None\<rparr>"
  let ?new = "put_instance i (st\<lparr>ti_active_connections := ti_active_connections st + 1\<rparr>)
    (m\<lparr>tm_stream_next := tm_stream_next m + 1, tm_streams := hm_insert (tm_stream_next m) ?s (tm_streams m)\<rparr>)"
  have same_ok: "tcp_ok (Suc n) (put_instance i st m)" by (rule tcp_ok_put_instance [OF ok get same])
  have "tcp_wf ?skip"
    using tcp_wfD [OF wf] nx get same by (intro tcp_wfI) (auto simp: put_instance_def split: if_splits)
  then have skip_ok: "tcp_ok (Suc n) ?skip"
    using tcp_okD [OF ok] nx(1) by (simp add: tcp_ok_def counters_at_def put_instance_def)
  have "tcp_wf ?new"
    using tcp_wfD [OF wf] nx get same room owned_new [OF next_stream_new [OF wf], of _ ?s]
    by (intro tcp_wfI) (auto simp: put_instance_def split: if_splits)
  then have new_ok: "tcp_ok (Suc n) ?new"
    using tcp_okD [OF ok] nx(1) by (simp add: tcp_ok_def counters_at_def put_instance_def)
  from same_ok skip_ok new_ok show ?thesis
    by (cases "tm_stream_next m = 0") (simp_all add: finish_into_def finish_stream_def Let_def)
qed

lemma connect_instance_ok:
  assumes ok: "tcp_ok n m" and bound: "Suc (Suc n) < 2 ^ 64" and get: "hm_get (tm_instances m) i = Some st"
  shows "tcp_ok (Suc n) (fst (snd (connect_instance net i requested granted wake output_null st m)))"
  using finish_into_ok [OF ok bound get] tcp_ok_put_instance [OF ok get] tcp_ok_Suc [OF ok]
  by (auto simp: connect_instance_def Let_def split: tcp_mode.splits option.splits result.splits prod.splits)

lemma accept_instance_ok:
  assumes ok: "tcp_ok n m" and bound: "Suc (Suc n) < 2 ^ 64" and get: "hm_get (tm_instances m) i = Some st"
  shows "tcp_ok (Suc n) (fst (snd (accept_instance net i granted wake output_null st m)))"
  using finish_into_ok [OF ok bound get] tcp_ok_put_instance [OF ok get] tcp_ok_Suc [OF ok]
  by (auto simp: accept_instance_def Let_def split: tcp_mode.splits accept_answer.splits prod.splits)

lemma owned_remove: "hm_wf m \<Longrightarrow> hm_get m h = Some s \<Longrightarrow> owned i (hm_remove h m) + (if tst_owner s = i then 1 else 0) = owned i m"
  unfolding owned_def by (rule hm_sum_remove)

lemma tcp_close_ok:
  assumes "tcp_ok n m"
  shows "tcp_ok (Suc n) (fst (snd (tcp_close h m)))"
proof (cases "hm_get (tm_streams m) h")
  case None
  with tcp_ok_Suc [OF assms] show ?thesis by (simp add: tcp_close_def)
next
  case (Some s)
  note wf = tcp_okD(1) [OF assms]
  from tcp_wfD(3) [OF wf Some] obtain st where st: "hm_get (tm_instances m) (tst_owner s) = Some st" by auto
  let ?m = "put_instance (tst_owner s) (st\<lparr>ti_active_connections := ti_active_connections st - 1\<rparr>) (m\<lparr>tm_streams := hm_remove h (tm_streams m)\<rparr>)"
  have o: "owned i (tm_streams m) = owned i (hm_remove h (tm_streams m)) + (if tst_owner s = i then 1 else 0)" for i
    using owned_remove [OF tcp_wfD(1) [OF wf] Some, of i] by simp
  have act: "ti_active_connections st = owned (tst_owner s) (hm_remove h (tm_streams m)) + 1"
    "owned (tst_owner s) (hm_remove h (tm_streams m)) < ti_max_connections st" "tst_owner s < tm_instance_next m"
    using tcp_wfD(4) [OF wf st] by (simp_all add: o)
  have other: "i < tm_instance_next m \<and> ti_active_connections sti = owned i (hm_remove h (tm_streams m)) \<and>
      owned i (hm_remove h (tm_streams m)) \<le> ti_max_connections sti"
    if "hm_get (tm_instances m) i = Some sti" "i \<noteq> tst_owner s" for i sti
    using tcp_wfD(4) [OF wf that(1)] that(2) by (simp add: o)
  have "tcp_wf ?m"
    using tcp_wfD(1-3) [OF wf] st act other by (intro tcp_wfI) (auto simp: put_instance_def split: if_splits)
  with tcp_ok_same [OF assms, of ?m] Some st show ?thesis by (simp add: tcp_close_def Let_def put_instance_def)
qed

lemma owned_retain: "i \<noteq> j \<Longrightarrow> owned i (hm_retain (\<lambda>_ s. tst_owner s \<noteq> j) m) = owned i m"
  by (induction m) (auto simp: owned_def hm_sum_def hm_retain_def)

lemma tcp_destroy_ok:
  assumes "tcp_ok n m"
  shows "tcp_ok (Suc n) (fst (tcp_destroy i m))"
proof -
  note wf = tcp_okD(1) [OF assms]
  have "tcp_wf (fst (tcp_destroy i m))"
    using tcp_wfD [OF wf] tcp_wfD(1) [OF wf]
    by (intro tcp_wfI) (auto simp: tcp_destroy_def hm_get_retain owned_retain split: if_splits option.splits)
  then show ?thesis by (rule tcp_ok_same [OF assms]) (simp_all add: tcp_destroy_def)
qed

lemma stream_calls_ok:
  assumes "tcp_ok n m"
  shows "tcp_ok (Suc n) (fst (snd (tcp_read answer h output_null len granted wake m)))"
    "tcp_ok (Suc n) (fst (snd (tcp_write wanswer h input granted wake m)))"
    "tcp_ok (Suc n) (fst (snd (tcp_io_action panswer h granted wake m)))"
  using tcp_ok_Suc [OF assms] tcp_ok_put_stream [OF assms]
  by (auto simp: tcp_read_def tcp_write_def tcp_io_action_def wait_write_def
      split: option.splits io_read.splits io_write.splits poll.splits result.splits prod.splits)

lemma tcp_poll_ok: "tcp_ok n m \<Longrightarrow> tcp_poll net i m = (a, m', calls, sockets) \<Longrightarrow> tcp_ok (Suc n) m'"
  using tcp_poll_wf [OF tcp_okD(1), of n m net i a m' calls sockets] tcp_ok_same [of n m m'] by blast

lemma tcp_step_ok:
  assumes ok: "tcp_ok n m" and bound: "Suc (Suc n) < 2 ^ 64"
  shows "tcp_ok (Suc n) (fst (tcp_step op m))"
proof (cases op)
  case (Tcp_Poll net i)
  then show ?thesis using tcp_poll_ok [OF ok, of net i] by (auto split: prod.splits)
next
  case (Tcp_Connect_To net inst endpoint granted wake output_null)
  then show ?thesis using connect_instance_ok [OF ok bound] tcp_ok_Suc [OF ok]
    by (auto simp: tcp_connect_def split: result.splits option.splits)
next
  case (Tcp_Accept net inst granted wake output_null)
  then show ?thesis using accept_instance_ok [OF ok bound] tcp_ok_Suc [OF ok] by (auto simp: tcp_accept_def split: option.splits)
qed (use ok bound in \<open>simp_all add: tcp_create_ok tcp_destroy_ok tcp_close_ok stream_calls_ok tcp_flush_def tcp_shutdown_write_def\<close>)

lemma tcp_run_ok:
  "tcp_ok n m \<Longrightarrow> n + length ops < 2 ^ 64 - 1 \<Longrightarrow> tcp_ok (n + length ops) (fst (tcp_run ops m))"
proof (induction ops arbitrary: n m)
  case (Cons op ops)
  obtain m1 c where s: "tcp_step op m = (m1, c)" by force
  from tcp_step_ok [OF Cons.prems(1), of op] Cons.prems(2) s have "tcp_ok (Suc n) m1" by simp
  from Cons.IH [OF this] Cons.prems(2) s show ?case by (auto split: prod.splits)
qed simp

section \<open>References to wake handles\<close>

definition instance_held :: "u64 \<Rightarrow> ('s, 'l) tcp_instance \<Rightarrow> nat" where
  "instance_held c st = held c (ti_connect_wake st) + held c (ti_accept_wake st)"

definition stream_held :: "u64 \<Rightarrow> 's tcp_stream \<Rightarrow> nat" where
  "stream_held c s = held c (tst_read_wake s) + held c (tst_write_wake s)"

definition tcp_held :: "('s, 'l) tcp_module \<Rightarrow> u64 \<Rightarrow> nat" where
  "tcp_held m c = hm_sum (instance_held c) (tm_instances m) + hm_sum (stream_held c) (tm_streams m)"

definition instance_slots :: "('s, 'l) tcp_instance \<Rightarrow> bool" where
  "instance_slots st \<longleftrightarrow> slot_ok (ti_connect_wake st) \<and> slot_ok (ti_accept_wake st)"

definition stream_slots :: "'s tcp_stream \<Rightarrow> bool" where
  "stream_slots s \<longleftrightarrow> slot_ok (tst_read_wake s) \<and> slot_ok (tst_write_wake s)"

text \<open>All slots of the tables can be released.\<close>

definition tcp_slots :: "('s, 'l) tcp_module \<Rightarrow> bool" where
  "tcp_slots m \<longleftrightarrow> hm_wf (tm_instances m) \<and> hm_wf (tm_streams m) \<and>
     (\<forall>i st. hm_get (tm_instances m) i = Some st \<longrightarrow> instance_slots st) \<and>
     (\<forall>h s. hm_get (tm_streams m) h = Some s \<longrightarrow> stream_slots s)"

definition tcp_balanced :: "('s, 'l) tcp_module \<Rightarrow> ('s, 'l) tcp_module \<times> wake_call list \<Rightarrow> bool" where
  "tcp_balanced m r \<longleftrightarrow> tcp_slots (fst r) \<and> balanced (tcp_held m) (snd r) (tcp_held (fst r))"

lemma tcp_slotsD:
  assumes "tcp_slots m"
  shows "hm_wf (tm_instances m)" "hm_wf (tm_streams m)" "hm_get (tm_instances m) i = Some st \<Longrightarrow> instance_slots st"
    "hm_get (tm_streams m) h = Some s \<Longrightarrow> stream_slots s"
  using assms by (auto simp: tcp_slots_def)

lemma tcp_balanced_refl: "tcp_slots m \<Longrightarrow> tcp_balanced m (m, [])"
  by (simp add: tcp_balanced_def)

lemma tcp_balanced_trans: "tcp_balanced m (m1, xs) \<Longrightarrow> tcp_balanced m1 (m2, ys) \<Longrightarrow> tcp_balanced m (m2, xs @ ys)"
  by (auto simp: tcp_balanced_def intro: balanced_append)

lemma no_slots [simp]: "slot_ok None" "held c None = 0"
  by (simp_all add: slot_ok_def held_def)

lemma two_balanced:
  "balanced (held' a) xs (held' a') \<Longrightarrow> balanced (held' b) ys (held' b') \<Longrightarrow>
     balanced (\<lambda>c. held' a c + held' b c) (xs @ ys) (\<lambda>c. held' a' c + held' b' c)"
  unfolding balanced_def by (auto simp: algebra_simps)

lemma put_instance_balanced:
  assumes "tcp_slots m" "hm_get (tm_instances m) i = Some st" "instance_slots st'"
    "balanced (\<lambda>c. instance_held c st) calls (\<lambda>c. instance_held c st')"
  shows "tcp_balanced m (put_instance i st' m, calls)"
proof -
  have "tcp_held m c + retains c calls = tcp_held (put_instance i st' m) c + releases c calls" for c
    using hm_sum_insert_old [OF assms(2), of "instance_held c" st'] assms(4)
    unfolding balanced_def tcp_held_def put_instance_def by (auto dest: spec [of _ c])
  moreover have "tcp_slots (put_instance i st' m)"
    using assms(1,3) by (auto simp: tcp_slots_def put_instance_def split: if_splits)
  ultimately show ?thesis by (simp add: tcp_balanced_def balanced_def)
qed

lemma put_stream_balanced:
  assumes "tcp_slots m" "hm_get (tm_streams m) h = Some s" "stream_slots s'"
    "balanced (\<lambda>c. stream_held c s) calls (\<lambda>c. stream_held c s')"
  shows "tcp_balanced m (put_stream h s' m, calls)"
proof -
  have "tcp_held m c + retains c calls = tcp_held (put_stream h s' m) c + releases c calls" for c
    using hm_sum_insert_old [OF assms(2), of "stream_held c" s'] assms(4)
    unfolding balanced_def tcp_held_def put_stream_def by (auto dest: spec [of _ c])
  moreover have "tcp_slots (put_stream h s' m)"
    using assms(1,3) by (auto simp: tcp_slots_def put_stream_def split: if_splits)
  ultimately show ?thesis by (simp add: tcp_balanced_def balanced_def)
qed

lemmas two_slots = two_balanced [of "\<lambda>s c. held c s"]

lemma cleared: "slot_ok s \<Longrightarrow> balanced (\<lambda>c. held c s) (snd (slot_clear s)) (\<lambda>c. 0)"
  using slot_clear_balanced [of s] by (cases "slot_clear s") auto

lemma drop_balanced:
  "instance_slots st \<Longrightarrow> balanced (\<lambda>c. instance_held c st) (drop_instance st) (\<lambda>c. 0)"
  "stream_slots s \<Longrightarrow> balanced (\<lambda>c. stream_held c s) (drop_stream s) (\<lambda>c. 0)"
  using two_slots [of _ _ None _ _ None] cleared
  by (simp_all add: instance_slots_def stream_slots_def instance_held_def stream_held_def drop_instance_def drop_stream_def)

lemma insert_balanced:
  assumes "hm_wf t" "\<And>v. hm_get t k = Some v \<Longrightarrow> balanced (\<lambda>c. f c v) (out v) (\<lambda>c. 0)" "\<And>c. f c v' = 0"
  shows "balanced (\<lambda>c. hm_sum (f c) t) (dropped out (hm_get t k)) (\<lambda>c. hm_sum (f c) (hm_insert k v' t))"
proof (cases "hm_get t k")
  case None
  with assms(3) show ?thesis by (simp add: dropped_def hm_sum_insert_new)
next
  case (Some v)
  from hm_sum_insert_old [OF Some, of "f c" v' for c] assms(2) [OF Some] assms(3) Some
  show ?thesis by (simp add: dropped_def balanced_def) (metis add.assoc add.commute)
qed

lemma remove_balanced:
  assumes "hm_wf t" "\<And>v. hm_get t k = Some v \<Longrightarrow> balanced (\<lambda>c. f c v) (out v) (\<lambda>c. 0)"
  shows "balanced (\<lambda>c. hm_sum (f c) t) (dropped out (hm_get t k)) (\<lambda>c. hm_sum (f c) (hm_remove k t))"
proof (cases "hm_get t k")
  case None
  then show ?thesis by (simp add: dropped_def hm_remove_None)
next
  case (Some v)
  from hm_sum_remove [OF assms(1) Some, of "f c" for c] assms(2) [OF Some] Some
  show ?thesis by (simp add: dropped_def balanced_def) (metis add.assoc add.commute)
qed

lemma drop_all_balanced:
  "(\<And>v. v \<in> snd ` set t \<Longrightarrow> balanced (\<lambda>c. f c v) (out v) (\<lambda>c. 0)) \<Longrightarrow>
     balanced (\<lambda>c. hm_sum (f c) t) (concat (map (\<lambda>(k, v). out v) t)) (\<lambda>c. 0)"
proof (induction t)
  case (Cons p t)
  obtain k v where p: "p = (k, v)" by force
  from Cons p have "balanced (\<lambda>c. f c v) (out v) (\<lambda>c. 0)" "balanced (\<lambda>c. hm_sum (f c) t) (concat (map (\<lambda>(k, v). out v) t)) (\<lambda>c. 0)"
    by simp_all
  then have "f c v + retains c (out v) = releases c (out v)"
    "hm_sum (f c) t + retains c (concat (map (\<lambda>(k, v). out v) t)) = releases c (concat (map (\<lambda>(k, v). out v) t))" for c
    by (simp_all add: balanced_def)
  then show ?case unfolding p balanced_def by (auto simp: hm_sum_def) (metis add.assoc add.left_commute)
qed simp

lemma tcp_create_balanced:
  assumes "tcp_slots m"
  shows "tcp_balanced m (snd (tcp_create toml net config host output_null m))"
proof -
  have mode: "\<exists>ls. m1 = m\<lparr>tm_listeners := ls\<rparr>" if "tcp_mode_of net opts m = (r, m1)" for opts r m1
    using tcp_mode_of_keeps [OF that] .
  have new: "tcp_balanced m (m\<lparr>tm_listeners := ls, tm_instance_next := x, tm_instances := hm_insert k st (tm_instances m)\<rparr>,
      dropped drop_instance (hm_get (tm_instances m) k))"
    if "ti_connect_wake st = None" "ti_accept_wake st = None" for ls x k st
  proof -
    have "balanced (\<lambda>c. hm_sum (instance_held c) (tm_instances m)) (dropped drop_instance (hm_get (tm_instances m) k))
        (\<lambda>c. hm_sum (instance_held c) (hm_insert k st (tm_instances m)))"
      by (rule insert_balanced [OF tcp_slotsD(1) [OF assms]])
        (blast intro: drop_balanced(1) tcp_slotsD(3) [OF assms], simp add: instance_held_def that)
    from balanced_add [OF this, of "\<lambda>c. hm_sum (stream_held c) (tm_streams m)"] assms that
    show ?thesis by (auto simp: tcp_balanced_def tcp_held_def tcp_slots_def instance_slots_def balanced_def)
  qed
  have keep: "tcp_balanced m (m\<lparr>tm_listeners := ls\<rparr>, [])" "tcp_balanced m (m\<lparr>tm_listeners := ls, tm_instance_next := x\<rparr>, [])" for ls x
    using assms by (simp_all add: tcp_balanced_def tcp_slots_def balanced_def tcp_held_def)
  show ?thesis
    using new keep tcp_balanced_refl [OF assms]
    by (auto simp: tcp_create_def Let_def dest!: mode split: result.splits prod.splits option.splits)
qed

lemma finish_into_balanced:
  assumes "tcp_slots m" "hm_get (tm_instances m) i = Some st0"
    "ti_connect_wake st = ti_connect_wake st0" "ti_accept_wake st = ti_accept_wake st0"
  shows "tcp_balanced m (snd (finish_into net i s st output_null m))"
proof -
  have same: "tcp_balanced m (put_instance i st' m, [])"
    if "ti_connect_wake st' = ti_connect_wake st0" "ti_accept_wake st' = ti_accept_wake st0" for st'
    by (rule put_instance_balanced [OF assms(1,2)])
      (use tcp_slotsD(3) [OF assms(1,2)] that in \<open>simp_all add: instance_slots_def instance_held_def\<close>)
  let ?s = "\<lparr>tst_owner = i, tst_io = s, tst_read_wake = None, tst_write_wake = None\<rparr>"
  have new: "tcp_balanced m (put_instance i st' (m\<lparr>tm_stream_next := x, tm_streams := hm_insert k ?s (tm_streams m)\<rparr>),
      dropped drop_stream (hm_get (tm_streams m) k))"
    if "ti_connect_wake st' = ti_connect_wake st0" "ti_accept_wake st' = ti_accept_wake st0" for st' x k
  proof -
    have "balanced (\<lambda>c. hm_sum (stream_held c) (tm_streams m)) (dropped drop_stream (hm_get (tm_streams m) k))
        (\<lambda>c. hm_sum (stream_held c) (hm_insert k ?s (tm_streams m)))"
      by (rule insert_balanced [OF tcp_slotsD(2) [OF assms(1)]])
        (blast intro: drop_balanced(2) tcp_slotsD(4) [OF assms(1)], simp add: stream_held_def)
    from balanced_add [OF this, of "\<lambda>c. hm_sum (instance_held c) (hm_insert i st' (tm_instances m))"] same [OF that] assms(1) that
    show ?thesis
      by (auto simp: tcp_balanced_def tcp_held_def tcp_slots_def stream_slots_def balanced_def put_instance_def split: if_splits)
  qed
  have skip: "tcp_balanced m (put_instance i st (m\<lparr>tm_stream_next := x\<rparr>), [])" for x
    using same [OF assms(3,4)] by (simp add: tcp_balanced_def balanced_def put_instance_def tcp_held_def tcp_slots_def)
  show ?thesis using same [OF assms(3,4)] skip new assms(3,4) by (auto simp: finish_into_def finish_stream_def Let_def)
qed

lemma replaced:
  assumes "slot_ok s" "handle_ok w" "slot_replace granted w s = (s', calls)"
  shows "slot_ok s'" "balanced (\<lambda>c. held c s + n c) calls (\<lambda>c. held c s' + n c)" "balanced (\<lambda>c. n c + held c s) calls (\<lambda>c. n c + held c s')"
  using slot_replace_balanced [OF assms] by (auto simp: balanced_def)

lemma connect_instance_balanced:
  assumes "tcp_slots m" "hm_get (tm_instances m) i = Some st" "handle_ok wake"
  shows "tcp_balanced m (snd (connect_instance net i requested granted wake output_null st m))"
proof -
  have wait: "tcp_balanced m (put_instance i (st1\<lparr>ti_connect_wake := slot\<rparr>) m, calls)"
    if "ti_connect_wake st1 = ti_connect_wake st" "ti_accept_wake st1 = ti_accept_wake st"
      "slot_replace granted wake (ti_connect_wake st) = (slot, calls)" for st1 slot calls
    by (rule put_instance_balanced [OF assms(1,2)])
      (use tcp_slotsD(3) [OF assms(1,2)] that(1,2) replaced [OF _ assms(3) that(3)] in \<open>auto simp: instance_slots_def instance_held_def\<close>)
  have lost: "tcp_balanced m (put_instance i (st\<lparr>ti_connect_result := None\<rparr>) m, [])"
    by (rule put_instance_balanced [OF assms(1,2)])
      (use tcp_slotsD(3) [OF assms(1,2)] in \<open>simp_all add: instance_slots_def instance_held_def\<close>)
  show ?thesis
    using wait [of st] wait [of "st\<lparr>ti_pending_connect := f\<rparr>" for f] lost tcp_balanced_refl [OF assms(1)]
      finish_into_balanced [OF assms(1,2), of "st\<lparr>ti_connect_result := None\<rparr>"]
    by (auto simp: connect_instance_def Let_def split: tcp_mode.splits option.splits result.splits prod.splits)
qed

lemma accept_instance_balanced:
  assumes "tcp_slots m" "hm_get (tm_instances m) i = Some st" "handle_ok wake"
  shows "tcp_balanced m (snd (accept_instance net i granted wake output_null st m))"
proof -
  have wait: "tcp_balanced m (put_instance i (st\<lparr>ti_accept_wake := slot\<rparr>) m, calls)"
    if "slot_replace granted wake (ti_accept_wake st) = (slot, calls)" for slot calls
    by (rule put_instance_balanced [OF assms(1,2)])
      (use tcp_slotsD(3) [OF assms(1,2)] replaced [OF _ assms(3) that] in \<open>auto simp: instance_slots_def instance_held_def\<close>)
  show ?thesis
    using wait tcp_balanced_refl [OF assms(1)] finish_into_balanced [OF assms(1,2), of st]
    by (auto simp: accept_instance_def split: tcp_mode.splits accept_answer.splits prod.splits)
qed

lemma stream_calls_balanced:
  assumes "tcp_slots m" "handle_ok wake"
  shows "tcp_balanced m (snd (tcp_read answer h output_null len granted wake m))"
    "tcp_balanced m (snd (tcp_write wanswer h input granted wake m))"
    "tcp_balanced m (snd (tcp_io_action panswer h granted wake m))"
proof -
  have r: "tcp_balanced m (put_stream h (s\<lparr>tst_read_wake := slot\<rparr>) m, calls)"
    if "hm_get (tm_streams m) h = Some s" "slot_replace granted wake (tst_read_wake s) = (slot, calls)" for s slot calls
    by (rule put_stream_balanced [OF assms(1) that(1)])
      (use tcp_slotsD(4) [OF assms(1) that(1)] replaced [OF _ assms(2) that(2)] in \<open>auto simp: stream_slots_def stream_held_def\<close>)
  have w: "tcp_balanced m (snd (wait_write h s granted wake m))" if "hm_get (tm_streams m) h = Some s" for s
  proof -
    obtain slot calls where sr: "slot_replace granted wake (tst_write_wake s) = (slot, calls)" by force
    have "tcp_balanced m (put_stream h (s\<lparr>tst_write_wake := slot\<rparr>) m, calls)"
      by (rule put_stream_balanced [OF assms(1) that])
        (use tcp_slotsD(4) [OF assms(1) that] replaced [OF _ assms(2) sr] in \<open>auto simp: stream_slots_def stream_held_def\<close>)
    then show ?thesis by (simp add: wait_write_def sr)
  qed
  note keep = tcp_balanced_refl [OF assms(1)]
  show "tcp_balanced m (snd (tcp_read answer h output_null len granted wake m))"
    using r keep by (auto simp: tcp_read_def split: option.splits io_read.splits prod.splits)
  show "tcp_balanced m (snd (tcp_write wanswer h input granted wake m))"
    using w keep by (auto simp: tcp_write_def split: option.splits io_write.splits result.splits)
  show "tcp_balanced m (snd (tcp_io_action panswer h granted wake m))"
    using w keep by (auto simp: tcp_io_action_def split: option.splits poll.splits result.splits)
qed

lemma woken: "slot_ok s \<Longrightarrow> balanced (\<lambda>c. held c s) (snd (slot_wake s)) (\<lambda>c. 0)" "fst (slot_wake s) = None"
  using slot_wake_balanced [of s] by (cases "slot_wake s"; auto) (simp add: slot_wake_def split: option.splits)

lemma wake_stream_balanced:
  "stream_slots s \<Longrightarrow> wake_stream i s = (s', calls) \<Longrightarrow> stream_slots s' \<and> balanced (\<lambda>c. stream_held c s) calls (\<lambda>c. stream_held c s')"
  using two_slots [of "tst_read_wake s" "snd (slot_wake (tst_read_wake s))" None "tst_write_wake s" "snd (slot_wake (tst_write_wake s))" None]
    woken [of "tst_read_wake s"] woken [of "tst_write_wake s"]
  by (auto simp: wake_stream_def stream_slots_def stream_held_def split: if_splits prod.splits)

lemma wake_streams_balanced:
  "(\<And>h s. (h, s) \<in> set t \<Longrightarrow> stream_slots s) \<Longrightarrow> wake_streams i t = (t', calls) \<Longrightarrow>
     (\<forall>(h, s)\<in>set t'. stream_slots s) \<and> map fst t' = map fst t \<and>
     balanced (\<lambda>c. hm_sum (stream_held c) t) calls (\<lambda>c. hm_sum (stream_held c) t')"
proof (induction t arbitrary: t' calls)
  case (Cons p t)
  obtain h s where p: "p = (h, s)" by force
  obtain s' c1 where s: "wake_stream i s = (s', c1)" by force
  obtain t1 c2 where t: "wake_streams i t = (t1, c2)" by force
  from Cons.prems(2) p s t have r: "t' = (h, s') # t1" "calls = c1 @ c2" by auto
  from wake_stream_balanced [OF _ s] Cons.prems(1) p
  have a: "stream_slots s'" "stream_held c s + retains c c1 = stream_held c s' + releases c c1" for c
    by (auto simp: balanced_def)
  from Cons.IH [OF _ t] Cons.prems(1)
  have b: "\<forall>(h, s)\<in>set t1. stream_slots s" "map fst t1 = map fst t"
    "hm_sum (stream_held c) t + retains c c2 = hm_sum (stream_held c) t1 + releases c c2" for c
    by (auto simp: balanced_def)
  have "hm_sum (stream_held c) (p # t) + retains c calls = hm_sum (stream_held c) t' + releases c calls" for c
    using a(2) [of c] b(3) [of c] by (simp add: hm_sum_def p r)
  then show ?case using a(1) b(1,2) by (auto simp: balanced_def p r)
qed simp

lemma poll_connect_balanced:
  assumes "instance_slots st" "poll_connect net st = (st', calls, sockets)"
  shows "instance_slots st' \<and> balanced (\<lambda>c. instance_held c st) calls (\<lambda>c. instance_held c st')"
  using assms woken [of "ti_connect_wake st"] balanced_add [of "\<lambda>c. held c (ti_connect_wake st)" _ "\<lambda>c. 0" "\<lambda>c. held c (ti_accept_wake st)"]
  by (auto simp: poll_connect_def instance_slots_def instance_held_def split: option.splits prod.splits connect_poll.splits)

lemma tcp_poll_balanced:
  assumes "tcp_slots m" "tcp_poll net i m = (a, m', calls, sockets)"
  shows "tcp_balanced m (m', calls)"
proof (cases "hm_get (tm_instances m) i")
  case None
  with assms show ?thesis by (simp add: tcp_poll_def tcp_balanced_refl)
next
  case (Some st)
  obtain st1 c1 so where p: "poll_connect net st = (st1, c1, so)" by (metis prod_cases3)
  obtain slot c2 where w: "slot_wake (ti_accept_wake st1) = (slot, c2)" by force
  obtain streams c3 where s: "wake_streams i (tm_streams m) = (streams, c3)" by force
  let ?m1 = "put_instance i (st1\<lparr>ti_accept_wake := slot\<rparr>) m"
  from assms(2) Some p w s have m': "m' = ?m1\<lparr>tm_streams := streams\<rparr>" "calls = (c1 @ c2) @ c3"
    by (simp_all add: tcp_poll_def put_instance_def)
  note p' = poll_connect_balanced [OF tcp_slotsD(3) [OF assms(1) Some] p]
  have "slot = None" "balanced (\<lambda>c. held c (ti_accept_wake st1)) c2 (\<lambda>c. 0)"
    using woken [of "ti_accept_wake st1"] p' w by (auto simp: instance_slots_def)
  with p' have "balanced (\<lambda>c. instance_held c st) (c1 @ c2) (\<lambda>c. instance_held c (st1\<lparr>ti_accept_wake := slot\<rparr>))"
    by (intro balanced_append) (auto simp: instance_held_def balanced_def)
  then have one: "tcp_balanced m (?m1, c1 @ c2)"
    by (rule put_instance_balanced [OF assms(1) Some, rotated]) (use p' \<open>slot = None\<close> in \<open>simp add: instance_slots_def\<close>)
  have ws: "\<forall>(h, s)\<in>set streams. stream_slots s" "map fst streams = map fst (tm_streams m)"
    "balanced (\<lambda>c. hm_sum (stream_held c) (tm_streams m)) c3 (\<lambda>c. hm_sum (stream_held c) streams)"
    using wake_streams_balanced [OF _ s] tcp_slotsD(2,4) [OF assms(1)] hm_get_Some by metis+
  then have "hm_wf streams" "\<And>h v. hm_get streams h = Some v \<Longrightarrow> stream_slots v"
    using tcp_slotsD(2) [OF assms(1)] by (auto simp: hm_wf_def hm_get_def dest!: map_of_SomeD)
  with ws(3) one have "tcp_balanced ?m1 (m', c3)"
    by (auto simp: tcp_balanced_def tcp_slots_def m' put_instance_def tcp_held_def balanced_def)
  with one m'(2) show ?thesis using tcp_balanced_trans by blast
qed

lemma tcp_destroy_balanced:
  assumes "tcp_slots m"
  shows "tcp_balanced m (tcp_destroy i m)"
proof -
  let ?kept = "hm_retain (\<lambda>_ s. tst_owner s \<noteq> i) (tm_streams m)" and ?gone = "hm_retain (\<lambda>_ s. \<not> tst_owner s \<noteq> i) (tm_streams m)"
  let ?calls1 = "concat (map (\<lambda>(h, s). drop_stream s) ?gone)" and ?calls2 = "dropped drop_instance (hm_get (tm_instances m) i)"
  have "stream_slots s" if "(h, s) \<in> set (tm_streams m)" for h s
    using that tcp_slotsD(2,4) [OF assms] hm_get_Some by metis
  then have a: "balanced (\<lambda>c. hm_sum (stream_held c) ?gone) ?calls1 (\<lambda>c. 0)"
    by (intro drop_all_balanced) (auto simp: hm_retain_def intro: drop_balanced(2))
  have b: "balanced (\<lambda>c. hm_sum (instance_held c) (tm_instances m)) ?calls2 (\<lambda>c. hm_sum (instance_held c) (hm_remove i (tm_instances m)))"
    by (rule remove_balanced [OF tcp_slotsD(1) [OF assms]]) (blast intro: drop_balanced(1) tcp_slotsD(3) [OF assms])
  have d: "tcp_destroy i m = (m\<lparr>tm_streams := ?kept, tm_instances := hm_remove i (tm_instances m)\<rparr>, ?calls1 @ ?calls2)"
    by (simp only: tcp_destroy_def)
  have "tcp_held m c + retains c (?calls1 @ ?calls2) = tcp_held (fst (tcp_destroy i m)) c + releases c (?calls1 @ ?calls2)" for c
  proof -
    have "hm_sum (stream_held c) ?gone + retains c ?calls1 = releases c ?calls1" using a by (simp add: balanced_def)
    moreover have "hm_sum (instance_held c) (tm_instances m) + retains c ?calls2 =
        hm_sum (instance_held c) (hm_remove i (tm_instances m)) + releases c ?calls2" using b by (simp only: balanced_def)
    moreover have "hm_sum (stream_held c) (tm_streams m) = hm_sum (stream_held c) ?kept + hm_sum (stream_held c) ?gone"
      by (rule hm_sum_retain [symmetric])
    ultimately show ?thesis unfolding d calls_append by (simp only: tcp_held_def) simp
  qed
  moreover have "tcp_slots (fst (tcp_destroy i m))"
    using assms tcp_slotsD(2) [OF assms] unfolding d
    by (auto simp: tcp_slots_def hm_get_retain split: if_splits option.splits)
  ultimately show ?thesis unfolding tcp_balanced_def balanced_def by (simp add: d del: calls_append)
qed

lemma tcp_close_balanced:
  assumes "tcp_slots m"
  shows "tcp_balanced m (snd (tcp_close h m))"
proof (cases "hm_get (tm_streams m) h")
  case None
  with assms show ?thesis by (simp add: tcp_close_def tcp_balanced_refl)
next
  case (Some s)
  let ?m1 = "m\<lparr>tm_streams := hm_remove h (tm_streams m)\<rparr>"
  have "balanced (\<lambda>c. hm_sum (stream_held c) (tm_streams m)) (dropped drop_stream (hm_get (tm_streams m) h))
      (\<lambda>c. hm_sum (stream_held c) (hm_remove h (tm_streams m)))"
    by (rule remove_balanced [OF tcp_slotsD(2) [OF assms]]) (blast intro: drop_balanced(2) tcp_slotsD(4) [OF assms])
  with Some assms have one: "tcp_balanced m (?m1, drop_stream s)"
    by (auto simp: tcp_balanced_def dropped_def balanced_def tcp_held_def tcp_slots_def split: if_splits)
  have two: "tcp_balanced ?m1 (put_instance (tst_owner s) (st\<lparr>ti_active_connections := n\<rparr>) ?m1, [])"
    if "hm_get (tm_instances ?m1) (tst_owner s) = Some st" for st n
    by (rule put_instance_balanced [OF _ that])
      (use one tcp_slotsD(3) [OF assms, of "tst_owner s" st] that in \<open>simp_all add: tcp_balanced_def instance_slots_def instance_held_def\<close>)
  from one tcp_balanced_trans [OF one two] Some show ?thesis
    by (cases "hm_get (tm_instances ?m1) (tst_owner s)") (simp_all add: tcp_close_def Let_def)
qed

lemma tcp_step_balanced:
  assumes slots: "tcp_slots m" and h: "\<And>w. op_handle op = Some w \<Longrightarrow> handle_ok w"
  shows "tcp_balanced m (tcp_step op m)"
proof (cases op)
  case (Tcp_Poll net i)
  then show ?thesis using tcp_poll_balanced [OF slots, of net i] by (auto split: prod.splits)
next
  case (Tcp_Connect_To net inst endpoint granted wake output_null)
  then show ?thesis using connect_instance_balanced [OF slots] h tcp_balanced_refl [OF slots]
    by (auto simp: tcp_connect_def split: result.splits option.splits)
next
  case (Tcp_Accept net inst granted wake output_null)
  then show ?thesis using accept_instance_balanced [OF slots] h tcp_balanced_refl [OF slots]
    by (auto simp: tcp_accept_def split: option.splits)
qed (use slots h in \<open>simp_all add: tcp_create_balanced tcp_destroy_balanced tcp_close_balanced stream_calls_balanced tcp_flush_def tcp_shutdown_write_def\<close>)

lemma tcp_run_balanced:
  "tcp_slots m \<Longrightarrow> handles_ok ops \<Longrightarrow> tcp_balanced m (tcp_run ops m)"
proof (induction ops arbitrary: m)
  case Nil
  then show ?case by (simp add: tcp_balanced_refl)
next
  case (Cons op ops)
  obtain m1 c1 where s: "tcp_step op m = (m1, c1)" by force
  obtain m2 c2 where r: "tcp_run ops m1 = (m2, c2)" by force
  have one: "tcp_balanced m (m1, c1)" using tcp_step_balanced [OF Cons.prems(1), of op] Cons.prems(2) s
    by (auto simp: handles_ok_def split: option.splits)
  then have "tcp_slots m1" by (simp add: tcp_balanced_def)
  from Cons.IH [OF this] Cons.prems(2) r have "tcp_balanced m1 (m2, c2)" by (simp add: handles_ok_def)
  from tcp_balanced_trans [OF one this] s r show ?case by simp
qed

section \<open>Properties\<close>

text \<open>C19. After any sequence of fewer than 2^64 - 1 host calls the tables of the TCP carrier are well formed: handles are
  distinct and below the counters, every stream belongs to an existing instance, and the connection count of
  every instance is the number of streams it owns, which never exceeds its configured maximum.\<close>

theorem tcp_tables_well_formed:
  assumes "length ops < 2 ^ 64 - 1"
  shows "tcp_wf (fst (tcp_run ops tcp_initial))"
proof -
  have "tcp_ok 0 tcp_initial"
    by (simp add: tcp_ok_def tcp_wf_def streams_wf_def instances_wf_def counters_at_def tcp_initial_def)
  from tcp_run_ok [OF this, of ops] assms show ?thesis by (simp add: tcp_ok_def)
qed

text \<open>A carrier that connects to one endpoint, completes the connection at the first poll and then waits for data.\<close>

definition example_tcp_net :: "(nat, nat) tcp_net" where
  "example_tcp_net = \<lparr>tn_socket = \<lambda>_. Some 7, tn_protect = \<lambda>_. True, tn_connect = \<lambda>_ _. Connect_In_Progress, tn_async = \<lambda>_. True,
     tn_writable = \<lambda>_. Ready (Ok ()), tn_take_error = \<lambda>_. Ok False, tn_library_connect = \<lambda>_. Pending, tn_set_nodelay = \<lambda>_ _. True,
     tn_listener = \<lambda>_. None, tn_listen_call = \<lambda>_ _. True, tn_try_clone = \<lambda>_. None, tn_async_listener = \<lambda>_. True,
     tn_accept = \<lambda>_. Accept_Would_Block, tn_registry_poisoned = False\<rparr>"

definition example_tcp_wake :: wake_handle where
  "example_tcp_wake = \<lparr>wk_context = 5, wk_retain = True, wk_wake = True, wk_release = True\<rparr>"

definition example_tcp_ops :: "(nat, nat) tcp_op list" where
  "example_tcp_ops =
     [Tcp_Create (\<lambda>_. Ok (Tcp_Connect (Sock_V4 1 80) 2 True)) example_tcp_net (Ok []) (Ok ()) False,
      Tcp_Connect_To example_tcp_net 1 (Ok []) True example_tcp_wake False, Tcp_Poll example_tcp_net 1,
      Tcp_Connect_To example_tcp_net 1 (Ok []) True example_tcp_wake False, Tcp_Read Read_Pending 1 False 10 True example_tcp_wake]"

lemma example_tcp_run:
  "tcp_run example_tcp_ops tcp_initial =
     (\<lparr>tm_instances = [(1, \<lparr>ti_mode = Mode_Connect (Sock_V4 1 80), ti_max_connections = 2, ti_active_connections = 1, ti_nodelay = True,
         ti_pending_connect = None, ti_connect_result = None, ti_connect_wake = None, ti_accept_wake = None\<rparr>)],
       tm_streams = [(1, \<lparr>tst_owner = 1, tst_io = 7, tst_read_wake = Some example_tcp_wake, tst_write_wake = None\<rparr>)],
       tm_instance_next = 2, tm_stream_next = 2, tm_listeners = []\<rparr>,
      [Retained 5, Woken 5, Released 5, Retained 5])"
  by (simp add: example_tcp_ops_def tcp_initial_def tcp_create_def tcp_parse_options_def tcp_validate_def tcp_mode_of_def
      tcp_connect_def requested_endpoint_def connect_instance_def Let_def put_instance_def hm_get_def hm_insert_def slot_replace_def
      slot_clear_def slot_wake_def example_tcp_wake_def tcp_poll_def poll_connect_def connect_start_def connect_wait_def example_tcp_net_def
      finish_into_def finish_stream_def dropped_def tcp_read_def put_stream_def wake_stream_def)

theorem tcp_tables_well_formed_witness:
  "length example_tcp_ops < 2 ^ 64 - 1 \<and> tcp_wf (fst (tcp_run example_tcp_ops tcp_initial)) \<and> tm_streams (fst (tcp_run example_tcp_ops tcp_initial)) \<noteq> []"
  using tcp_tables_well_formed [of example_tcp_ops] by (simp add: example_tcp_run) (simp add: example_tcp_ops_def)

text \<open>C20. Wake handles that can be retained can be released. Then at every point of every sequence of host calls
  the host has been asked to retain each context exactly as often as it was released or is still held
  in a slot of the tables: no reference is lost and none is released twice.\<close>

theorem tcp_wake_references:
  assumes "handles_ok ops" "tcp_run ops tcp_initial = (m, calls)"
  shows "retains c calls = releases c calls + tcp_held m c"
proof -
  have "tcp_slots (tcp_initial :: ('a, 'b) tcp_module)" by (simp add: tcp_slots_def tcp_initial_def)
  from tcp_run_balanced [OF this assms(1)] assms(2) have "balanced (tcp_held (tcp_initial :: ('a, 'b) tcp_module)) calls (tcp_held m)"
    by (simp add: tcp_balanced_def)
  then show ?thesis by (simp add: balanced_def tcp_held_def tcp_initial_def)
qed

theorem tcp_wake_references_witness:
  "handles_ok example_tcp_ops \<and> retains 5 (snd (tcp_run example_tcp_ops tcp_initial)) = 2 \<and>
     retains 5 (snd (tcp_run example_tcp_ops tcp_initial)) =
       releases 5 (snd (tcp_run example_tcp_ops tcp_initial)) + tcp_held (fst (tcp_run example_tcp_ops tcp_initial)) 5"
proof -
  have ok: "handles_ok example_tcp_ops" by (simp add: handles_ok_def example_tcp_ops_def handle_ok_def example_tcp_wake_def)
  from tcp_wake_references [OF ok example_tcp_run, of 5] ok show ?thesis by (simp add: example_tcp_run) (simp add: retains_def)
qed

end
