(* ===== verification/Http_Connect.thy ===== *)
theory Http_Connect
  imports Socks5_State
begin

text \<open>
  The HTTP CONNECT adapter (\<^verbatim>\<open>adapter-http-connect/src/lib.rs\<close>): the request, clients that have not sent it
  yet, flows, and the calls of the host. A flow is the same as a TCP flow of the SOCKS5 adapter, so its
  state and its poll are taken from there; the environment is that of one call, \<open>socks_env\<close>.
\<close>

section \<open>Requests\<close>

record connect_request =
  cr_host :: address
  cr_port :: u16
  cr_trailing :: bytes

datatype http_error = Http_Incomplete | Http_HeaderTooLarge | Http_Method | Http_Authority | Http_Protocol

definition http_valid_domain :: "str \<Rightarrow> bool" where
  "http_valid_domain domain \<longleftrightarrow> domain \<noteq> [] \<and> length domain \<le> 253 \<and> is_ascii domain \<and> list_all socks_label (split_on 46 domain)"

text \<open>\<open>parse::<Ipv4Addr>()\<close> and \<open>parse::<Ipv6Addr>()\<close>.\<close>

definition parse_ipv4 :: "str \<Rightarrow> u32 option" where
  "parse_ipv4 s = (case read_ipv4 s of Some (a, []) \<Rightarrow> Some a | _ \<Rightarrow> None)"

definition parse_ipv6 :: "str \<Rightarrow> u128 option" where
  "parse_ipv6 s = (case read_ipv6 s of Some (a, []) \<Rightarrow> Some a | _ \<Rightarrow> None)"

definition authority_host :: "str \<Rightarrow> (address \<times> str, http_error) result" where
  "authority_host authority = (case strip_prefix [91] authority of
     Some rest \<Rightarrow>
       try_bind (ok_or (find_window [93] rest) Http_Authority) (\<lambda>close.
         if get_at (close + 1) rest \<noteq> Some 58 then Err Http_Authority
         else try_bind (ok_or (parse_ipv6 (take close rest)) Http_Authority) (\<lambda>a. Ok (Ipv6 a, drop (close + 2) rest)))
   | None \<Rightarrow>
       try_bind (ok_or (rsplit_once 58 authority) Http_Authority) (\<lambda>(name, port).
         case parse_ipv4 name of
           Some a \<Rightarrow> Ok (Ipv4 a, port)
         | None \<Rightarrow> if http_valid_domain name then Ok (Domain name, port) else Err Http_Authority))"

definition parse_authority :: "str \<Rightarrow> (address \<times> u16, http_error) result" where
  "parse_authority authority = try_bind (authority_host authority) (\<lambda>(host, port_text).
     try_bind (ok_or (parse_unsigned 65535 port_text) Http_Authority) (\<lambda>port.
       if port = 0 then Err Http_Authority else Ok (host, of_nat port)))"

definition parse_header :: "bytes \<Rightarrow> (address \<times> u16, http_error) result" where
  "parse_header bs = try_bind (ok_or (from_utf8 bs) Http_Protocol) (\<lambda>header.
     if find_window [13, 10, 32] header \<noteq> None \<or> find_window [13, 10, 9] header \<noteq> None then Err Http_Protocol
     else (case split_on 32 (hd (split_crlf header)) of
       [] \<Rightarrow> Err Http_Method
     | verb # parts \<Rightarrow>
         if verb \<noteq> str_lit ''CONNECT'' then Err Http_Method
         else (case parts of
           [] \<Rightarrow> Err Http_Authority
         | authority # parts' \<Rightarrow>
             if parts' \<noteq> [str_lit ''HTTP/1.1''] then Err Http_Protocol else parse_authority authority)))"

definition parse_connect :: "bytes \<Rightarrow> nat \<Rightarrow> (connect_request, http_error) result" where
  "parse_connect input max_header_bytes =
     try_bind (ok_or (map_option (\<lambda>offset. offset + 4) (find_window [13, 10, 13, 10] input))
         (if max_header_bytes \<le> length input then Http_HeaderTooLarge else Http_Incomplete)) (\<lambda>e.
       if max_header_bytes < e then Err Http_HeaderTooLarge
       else try_bind (parse_header (take e input)) (\<lambda>(host, port).
         Ok \<lparr>cr_host = host, cr_port = port, cr_trailing = drop e input\<rparr>))"

section \<open>Options\<close>

record http_options =
  ho_listen :: str
  ho_max_connections :: nat
  ho_max_header_bytes :: nat

definition parse_http_options :: "(str \<Rightarrow> (http_options, str) result) \<Rightarrow> bytes \<Rightarrow> (http_options, str) result" where
  "parse_http_options toml config =
     (case from_utf8 config of
        None \<Rightarrow> Err (str_lit ''config is not UTF-8'')
      | Some s \<Rightarrow> try_bind (toml s) (\<lambda>opts.
          if parse_sock (ho_listen opts) = None \<or> ho_max_connections opts = 0 \<or> ho_max_header_bytes opts < 64
          then Err (str_lit ''HTTP CONNECT options are inconsistent'') else Ok opts))"

section \<open>Clients\<close>

record 'c http_client =
  hc_stream :: 'c
  hc_input :: bytes

definition http_client_new :: "bool \<Rightarrow> 'c \<Rightarrow> 'c http_client option" where
  "http_client_new nonblocking stream = (if nonblocking then Some \<lparr>hc_stream = stream, hc_input = []\<rparr> else None)"

text \<open>The reading loop: every round that continues adds bytes below the limit.\<close>

function http_read :: "(nat \<Rightarrow> io_read) \<Rightarrow> nat \<Rightarrow> nat \<Rightarrow> bytes \<Rightarrow> (bytes, http_error) result" where
  "http_read reads k limit input = (case reads k of
     Read_Data bs \<Rightarrow>
       if bs = [] then Err Http_Protocol
       else if limit < length input + length bs then Err Http_HeaderTooLarge
       else http_read reads (Suc k) limit (input @ bs)
   | Read_Pending \<Rightarrow> Ok input
   | Read_Error \<Rightarrow> Err Http_Protocol)"
  by pat_completeness auto
termination
proof (relation "measure (\<lambda>(reads, k, limit, input). limit - length input)", goal_cases)
  case (2 reads k limit input bs)
  then obtain n where "length bs = Suc n" "length input + length bs \<le> limit" by (cases bs) auto
  then show ?case by simp
qed simp

declare http_read.simps [simp del]

definition http_client_poll ::
  "(nat \<Rightarrow> io_read) \<Rightarrow> nat \<Rightarrow> 'c http_client \<Rightarrow> (connect_request option, http_error) result \<times> 'c http_client" where
  "http_client_poll reads limit c = (case http_read reads 0 limit (hc_input c) of
     Err e \<Rightarrow> (Err e, c)
   | Ok input \<Rightarrow>
       ((case parse_connect input limit of
           Ok r \<Rightarrow> Ok (Some r) | Err e \<Rightarrow> if e = Http_Incomplete then Ok None else Err e),
        c\<lparr>hc_input := input\<rparr>))"

section \<open>Flows\<close>

definition http_flow_new ::
  "(nat \<Rightarrow> 'p option) \<Rightarrow> 'c http_client \<Rightarrow> connect_request \<Rightarrow> (('c, 'p, 's) client_flow, status) result" where
  "http_flow_new pump_new c r =
     (let (address_type, address) = address_parts (cr_host r) in
      try_bind (ok_or (pump_new STREAM_BUFFER_BYTES) STATUS_RESOURCE) (\<lambda>up.
      try_bind (ok_or (pump_new STREAM_BUFFER_BYTES) STATUS_RESOURCE) (\<lambda>down.
        Ok \<lparr>cf_stream = hc_stream c, cf_prefix = cr_trailing r, cf_address_type = address_type,
            cf_address = address, cf_port = cr_port r, cf_announced = False, cf_stack = None,
            cf_upload = up, cf_download = down, cf_response = [], cf_response_offset = 0, cf_accepted = None\<rparr>)))"

definition http_flow_poll ::
  "('c, 'u, 'p, 's) socks_env \<Rightarrow> ('c, 'p, 's) client_flow \<Rightarrow> (bool, unit) poll \<times> ('c, 'p, 's) client_flow \<times> bytes" where
  "http_flow_poll env f = client_flow_poll env f"

section \<open>Polling an instance\<close>

record ('c, 'p, 's) http_state =
  hs_options :: http_options
  hs_pending :: "'c http_client list"
  hs_flows :: "(u64, ('c, 'p, 's) client_flow) hashmap"
  hs_next_flow :: u64

text \<open>The listener gives these connections, then an error or \<open>WouldBlock\<close>.\<close>

fun http_take :: "('c \<Rightarrow> bool) \<Rightarrow> 'c list \<Rightarrow> ('c, 'p, 's) http_state \<Rightarrow> ('c, 'p, 's) http_state" where
  "http_take nonblocking [] st = st"
| "http_take nonblocking (stream # rest) st =
     (if length (hs_pending st) + hm_len (hs_flows st) < ho_max_connections (hs_options st)
      then http_take nonblocking rest (case http_client_new (nonblocking stream) stream of
             Some c \<Rightarrow> st\<lparr>hs_pending := hs_pending st @ [c]\<rparr> | None \<Rightarrow> st)
      else st)"

definition http_start_flow ::
  "('c, 'u, 'p, 's) socks_env \<Rightarrow> 'c http_client \<Rightarrow> connect_request \<Rightarrow> ('c, 'p, 's) http_state \<Rightarrow> ('c, 'p, 's) http_state" where
  "http_start_flow env c r st = (case checked_add (hs_next_flow st) 1 of
     None \<Rightarrow> st
   | Some next_flow \<Rightarrow> (case http_flow_new (en_pump_new env) c r of
       Ok f \<Rightarrow> st\<lparr>hs_next_flow := next_flow, hs_flows := hm_insert (hs_next_flow st) f (hs_flows st)\<rparr>
     | Err _ \<Rightarrow> st\<lparr>hs_next_flow := next_flow\<rparr>))"

definition BAD_REQUEST :: bytes where
  "BAD_REQUEST = str_lit ''HTTP/1.1 400 Bad Request'' @ [13, 10] @ str_lit ''Connection: close'' @ [13, 10, 13, 10]"

text \<open>The clients in order: those that still wait become the new list; the last component is what is written to
  refused clients.\<close>

fun http_poll_clients ::
  "('c, 'u, 'p, 's) socks_env \<Rightarrow> 'c http_client list \<Rightarrow> 'c http_client list \<Rightarrow> ('c, 'p, 's) http_state \<Rightarrow>
     ('c, 'p, 's) http_state \<times> ('c \<times> bytes) list" where
  "http_poll_clients env [] waiting st = (st\<lparr>hs_pending := waiting\<rparr>, [])"
| "http_poll_clients env (c # cs) waiting st =
     (case http_client_poll (en_reads env (hc_stream c)) (ho_max_header_bytes (hs_options st)) c of
        (Ok (Some r), c') \<Rightarrow> http_poll_clients env cs waiting (http_start_flow env c' r st)
      | (Ok None, c') \<Rightarrow> http_poll_clients env cs (waiting @ [c']) st
      | (Err e, c') \<Rightarrow> (case http_poll_clients env cs waiting st of
          (st', refused) \<Rightarrow> (st', (hc_stream c, BAD_REQUEST) # refused)))"

definition http_poll_state :: "('c, 'u, 'p, 's) socks_env \<Rightarrow> ('c, 'p, 's) http_state \<Rightarrow> ('c, 'p, 's) http_state \<times> ('c \<times> bytes) list" where
  "http_poll_state env st =
     (let st1 = http_take (en_configured env) (en_accepted env) st;
          (st2, refused) = http_poll_clients env (hs_pending st1) [] (st1\<lparr>hs_pending := []\<rparr>)
      in (st2\<lparr>hs_flows := poll_table (http_flow_poll env) (hs_flows st2)\<rparr>, refused))"

section \<open>Calls of the host\<close>

type_synonym ('c, 'p, 's) http_states = "(u64, ('c, 'p, 's) http_state) hashmap"

text \<open>\<open>bound\<close> and \<open>nonblocking\<close> tell whether the listener could be made.\<close>

definition http_initialize ::
  "(str \<Rightarrow> (http_options, str) result) \<Rightarrow> bool \<Rightarrow> bool \<Rightarrow> u64 \<Rightarrow> bytes \<Rightarrow> ('c, 'p, 's) http_states \<Rightarrow> (unit, status) result \<times> ('c, 'p, 's) http_states" where
  "http_initialize toml bound nonblocking inst config states = (case parse_http_options toml config of
     Err _ \<Rightarrow> (Err STATUS_INVALID, states)
   | Ok opts \<Rightarrow>
       if \<not> bound \<or> \<not> nonblocking then (Err STATUS_IO, states)
       else (Ok (), hm_insert inst \<lparr>hs_options = opts, hs_pending = [], hs_flows = [], hs_next_flow = 1\<rparr> states))"

definition http_open :: "bool \<Rightarrow> status" where
  "http_open known = (if \<not> known then STATUS_INVALID else STATUS_UNSUPPORTED)"

definition http_announce :: "('c, 'p, 's) http_state \<Rightarrow> (status \<times> (flow_metadata \<times> u64) option) \<times> ('c, 'p, 's) http_state" where
  "http_announce st = (case find_unannounced cf_announced (hs_flows st) of
     None \<Rightarrow> ((STATUS_PENDING, None), st)
   | Some (h, f) \<Rightarrow>
       ((STATUS_OK, Some (\<lparr>fm_kind = FLOW_TCP, fm_address_type = cf_address_type f, fm_address = cf_address f, fm_port = cf_port f\<rparr>, h)),
        st\<lparr>hs_flows := hm_insert h (f\<lparr>cf_announced := True\<rparr>) (hs_flows st)\<rparr>))"

definition http_accept ::
  "('c, 'u, 'p, 's) socks_env \<Rightarrow> bool \<Rightarrow> u64 \<Rightarrow> ('c, 'p, 's) http_states \<Rightarrow> (status \<times> (flow_metadata \<times> u64) option) \<times> ('c, 'p, 's) http_states" where
  "http_accept env output_null inst states =
     (if output_null then ((STATUS_INVALID, None), states)
      else (case hm_get states inst of
        None \<Rightarrow> ((STATUS_INVALID, None), states)
      | Some st \<Rightarrow> (case http_poll_state env st of (st1, _) \<Rightarrow> case http_announce st1 of
          (answer, st2) \<Rightarrow> (answer, hm_insert inst st2 states))))"

text \<open>A call on one flow of an instance; \<open>None\<close> refuses it.\<close>

definition with_http_flow ::
  "u64 \<Rightarrow> u64 \<Rightarrow> (('c, 'p, 's) client_flow \<Rightarrow> ('c, 'p, 's) client_flow option) \<Rightarrow> ('c, 'p, 's) http_states \<Rightarrow> status \<times> ('c, 'p, 's) http_states" where
  "with_http_flow inst flow change states = (case hm_get states inst of
     None \<Rightarrow> (STATUS_INVALID, states)
   | Some st \<Rightarrow> (case hm_get (hs_flows st) flow of
       None \<Rightarrow> (STATUS_INVALID, states)
     | Some f \<Rightarrow> (case change f of
         None \<Rightarrow> (STATUS_INVALID, states)
       | Some f' \<Rightarrow> (STATUS_OK, hm_insert inst (st\<lparr>hs_flows := hm_insert flow f' (hs_flows st)\<rparr>) states))))"

definition http_attach :: "u64 \<Rightarrow> u64 \<Rightarrow> 's option \<Rightarrow> ('c, 'p, 's) http_states \<Rightarrow> status \<times> ('c, 'p, 's) http_states" where
  "http_attach inst flow stack states = (case stack of
     None \<Rightarrow> (STATUS_INVALID, states)
   | Some s \<Rightarrow> with_http_flow inst flow (\<lambda>f. if cf_stack f \<noteq> None then None else Some (f\<lparr>cf_stack := Some s\<rparr>)) states)"

definition status_line :: "status \<Rightarrow> string" where
  "status_line s = (case s of
     STATUS_DENIED \<Rightarrow> ''403 Forbidden'' | STATUS_UNSUPPORTED \<Rightarrow> ''501 Not Implemented'' | STATUS_IO \<Rightarrow> ''502 Bad Gateway''
   | STATUS_RESOURCE \<Rightarrow> ''503 Service Unavailable'' | _ \<Rightarrow> ''500 Internal Server Error'')"

definition http_response :: "status \<Rightarrow> bytes" where
  "http_response s =
     (if s = STATUS_OK then str_lit ''HTTP/1.1 200 Connection Established'' @ [13, 10, 13, 10]
      else str_lit ''HTTP/1.1 '' @ str_lit (status_line s) @ [13, 10] @ str_lit ''Connection: close'' @ [13, 10, 13, 10])"

definition http_complete :: "u64 \<Rightarrow> u64 \<Rightarrow> status \<Rightarrow> nat \<Rightarrow> ('c, 'p, 's) http_states \<Rightarrow> status \<times> ('c, 'p, 's) http_states" where
  "http_complete inst flow s reason_length states =
     (if 256 < reason_length then (STATUS_INVALID, states)
      else with_http_flow inst flow
        (\<lambda>f. Some (f\<lparr>cf_response := http_response s, cf_response_offset := 0, cf_accepted := Some (s = STATUS_OK)\<rparr>)) states)"

definition http_close_flow :: "u64 \<Rightarrow> u64 \<Rightarrow> ('c, 'p, 's) http_states \<Rightarrow> status \<times> ('c, 'p, 's) http_states" where
  "http_close_flow inst flow states = (case hm_get states inst of
     None \<Rightarrow> (STATUS_INVALID, states)
   | Some st \<Rightarrow>
       (if hm_contains (hs_flows st) flow then STATUS_OK else STATUS_INVALID,
        hm_insert inst (st\<lparr>hs_flows := hm_remove flow (hs_flows st)\<rparr>) states))"

definition http_poll_instance ::
  "('c, 'u, 'p, 's) socks_env \<Rightarrow> u64 \<Rightarrow> ('c, 'p, 's) http_states \<Rightarrow> status \<times> ('c, 'p, 's) http_states" where
  "http_poll_instance env inst states = (case hm_get states inst of
     None \<Rightarrow> (STATUS_INVALID, states)
   | Some st \<Rightarrow> (STATUS_PENDING, hm_insert inst (fst (http_poll_state env st)) states))"

definition http_control :: "(bytes, status) result" where
  "http_control = Err STATUS_UNSUPPORTED"

definition http_shutdown :: "u64 \<Rightarrow> ('c, 'p, 's) http_states \<Rightarrow> status \<times> ('c, 'p, 's) http_states" where
  "http_shutdown inst states =
     (if hm_contains states inst then STATUS_OK else STATUS_INVALID, hm_remove inst states)"

definition http_destroy :: "u64 \<Rightarrow> ('c, 'p, 's) http_states \<Rightarrow> ('c, 'p, 's) http_states" where
  "http_destroy inst states = hm_remove inst states"

section \<open>Requests in pieces\<close>

lemma parse_connect_found:
  assumes "find_window [13, 10, 13, 10] p = Some n"
  shows "parse_connect (p @ q) limit = try_bind (parse_connect p limit) (\<lambda>r. Ok (r\<lparr>cr_trailing := cr_trailing r @ q\<rparr>))"
proof -
  have "n + 4 \<le> length p" using find_window_Some [OF assms] by simp
  then show ?thesis
    using find_window_append [OF assms, of q] assms
    by (auto simp: parse_connect_def split: result.splits prod.splits)
      (cases "parse_header (take (n + 4) p)"; simp split: prod.splits)
qed

lemma parse_connect_Ok: "parse_connect p limit = Ok r \<Longrightarrow> \<exists>n. find_window [13, 10, 13, 10] p = Some n"
  by (cases "find_window [13, 10, 13, 10] p") (simp_all add: parse_connect_def)

text \<open>A prefix of an acceptable request is incomplete or already gives the request.\<close>

lemma parse_connect_prefix:
  assumes "parse_connect (p @ q) limit = Ok r" "q \<noteq> []" "length (p @ q) \<le> limit"
  shows "parse_connect p limit = Err Http_Incomplete \<or>
    (\<exists>t. parse_connect p limit = Ok (r\<lparr>cr_trailing := t\<rparr>) \<and> t @ q = cr_trailing r)"
proof (cases "find_window [13, 10, 13, 10] p")
  case None
  from assms(2,3) have "length p < limit" by (cases q) auto
  with None show ?thesis by (simp add: parse_connect_def)
next
  case (Some n)
  from parse_connect_found [OF Some, of q limit] assms(1)
  obtain r' where r': "parse_connect p limit = Ok r'" "r = r'\<lparr>cr_trailing := cr_trailing r' @ q\<rparr>"
    by (cases "parse_connect p limit") auto
  then have "parse_connect p limit = Ok (r\<lparr>cr_trailing := cr_trailing r'\<rparr>)" "cr_trailing r' @ q = cr_trailing r"
    by (cases r', simp)+
  then show ?thesis by blast
qed

lemma http_read_chunks:
  "[] \<notin> set (drop k chunks) \<Longrightarrow> length (input @ concat (drop k chunks)) \<le> limit \<Longrightarrow>
     http_read (chunk_reads chunks) k limit input = Ok (input @ concat (drop k chunks))"
proof (induction "length chunks - k" arbitrary: k input)
  case 0
  then show ?case by (subst http_read.simps) (simp add: chunk_reads_def)
next
  case (Suc n)
  then have k: "k < length chunks" and d: "drop k chunks = chunks ! k # drop (Suc k) chunks"
    by (simp_all add: Cons_nth_drop_Suc)
  from Suc.prems d have "chunks ! k \<noteq> []" "length input + length (chunks ! k) \<le> limit" by auto
  moreover have "chunk_reads chunks k = Read_Data (chunks ! k)" using k by (simp add: chunk_reads_def)
  moreover have "http_read (chunk_reads chunks) (Suc k) limit (input @ chunks ! k) = Ok ((input @ chunks ! k) @ concat (drop (Suc k) chunks))"
    using Suc(2) Suc.prems d by (intro Suc(1)) simp_all
  ultimately show ?case by (subst http_read.simps) (simp add: d)
qed

text \<open>Polls until a request or an error appears: the answer and the polls that were left.\<close>

fun http_polls :: "bytes list list \<Rightarrow> nat \<Rightarrow> 'c http_client \<Rightarrow> (connect_request option, http_error) result \<times> bytes list list" where
  "http_polls [] limit c = (Ok None, [])"
| "http_polls (chunks # polls) limit c = (case http_client_poll (chunk_reads chunks) limit c of
     (Ok None, c') \<Rightarrow> http_polls polls limit c' | (answer, c') \<Rightarrow> (answer, polls))"

lemma http_polls_request:
  assumes "parse_connect (hc_input c @ concat (concat polls)) limit = Ok r" "length (hc_input c @ concat (concat polls)) \<le> limit"
    "[] \<notin> set (concat polls)" "polls \<noteq> []" "parse_connect (hc_input c) limit = Err Http_Incomplete"
  shows "\<exists>t rest. http_polls polls limit c = (Ok (Some (r\<lparr>cr_trailing := t\<rparr>)), rest) \<and> t @ concat (concat rest) = cr_trailing r"
  using assms
proof (induction polls arbitrary: c)
  case (Cons chunks polls)
  let ?input = "hc_input c @ concat chunks" and ?q = "concat (concat polls)"
  have read: "http_read (chunk_reads chunks) 0 limit (hc_input c) = Ok ?input"
    using http_read_chunks [of 0 chunks "hc_input c" limit] Cons.prems(2,3) by simp
  have whole: "parse_connect (?input @ ?q) limit = Ok r" "length (?input @ ?q) \<le> limit" using Cons.prems(1,2) by simp_all
  have finish: ?case if "parse_connect ?input limit = Ok (r\<lparr>cr_trailing := t\<rparr>)" "t @ ?q = cr_trailing r" for t
    using that read by (auto simp: http_client_poll_def)
  consider (last) "?q = []" | (more) "parse_connect ?input limit = Err Http_Incomplete" "?q \<noteq> []"
    | (found) t where "parse_connect ?input limit = Ok (r\<lparr>cr_trailing := t\<rparr>)" "t @ ?q = cr_trailing r"
    using parse_connect_prefix [OF whole(1) _ whole(2)] by blast
  then show ?case
  proof cases
    case last
    with whole(1) finish [of "cr_trailing r"] show ?thesis by simp
  next
    case more
    then have "polls \<noteq> []" by auto
    with Cons.IH [of "c\<lparr>hc_input := ?input\<rparr>"] whole more(1) Cons.prems(3) read show ?thesis
      by (simp add: http_client_poll_def)
  next
    case found
    with finish show ?thesis by blast
  qed
qed simp

section \<open>Bounded resources\<close>

definition http_inv :: "('c, 'p, 's) http_state \<Rightarrow> bool" where
  "http_inv st \<longleftrightarrow> hm_wf (hs_flows st) \<and> (\<forall>h. hs_next_flow st \<le> h \<longrightarrow> hm_get (hs_flows st) h = None) \<and>
     length (hs_pending st) + hm_len (hs_flows st) \<le> ho_max_connections (hs_options st)"

lemma http_take_inv: "http_inv st \<Longrightarrow> http_inv (http_take nonblocking streams st)"
  by (induction nonblocking streams st rule: http_take.induct)
    (auto simp: http_inv_def http_client_new_def split: option.splits)

lemma http_start_flow_inv:
  assumes "http_inv (st\<lparr>hs_pending := p # ps\<rparr>)"
  shows "http_inv ((http_start_flow env c r st)\<lparr>hs_pending := ps\<rparr>) \<and> hs_options (http_start_flow env c r st) = hs_options st"
proof (cases "checked_add (hs_next_flow st) 1")
  case None
  with assms show ?thesis by (simp add: http_start_flow_def http_inv_def)
next
  case (Some n)
  from next_handle_less [OF Some] have less: "hs_next_flow st < n" .
  have new: "hm_get (hs_flows st) (hs_next_flow st) = None" and wf: "hm_wf (hs_flows st)" using assms by (simp_all add: http_inv_def)
  have "hm_len (hm_insert (hs_next_flow st) f (hs_flows st)) = Suc (hm_len (hs_flows st))" for f
    using new wf by (simp add: hm.len_insert)
  with Some assms less show ?thesis
    by (auto simp: http_start_flow_def http_inv_def split: result.splits)
qed

lemma http_poll_clients_inv:
  "http_inv (st\<lparr>hs_pending := waiting @ cs\<rparr>) \<Longrightarrow> http_inv (fst (http_poll_clients env cs waiting st))"
proof (induction cs arbitrary: waiting st)
  case (Cons c cs)
  obtain answer c' where p: "http_client_poll (en_reads env (hc_stream c)) (ho_max_header_bytes (hs_options st)) c = (answer, c')"
    by force
  consider (start) r where "answer = Ok (Some r)" | (wait) "answer = Ok None" | (fail) e where "answer = Err e"
    by (metis option.exhaust result.exhaust)
  then show ?case
  proof cases
    case start
    have "http_inv (st\<lparr>hs_pending := c # (waiting @ cs)\<rparr>)" using Cons.prems by (simp add: http_inv_def)
    with http_start_flow_inv [of c "waiting @ cs" st env c' r] Cons.IH [where waiting = waiting and st = "http_start_flow env c' r st"] p start
    show ?thesis by simp
  next
    case wait
    have "http_inv (st\<lparr>hs_pending := (waiting @ [c']) @ cs\<rparr>)" using Cons.prems by (simp add: http_inv_def)
    with Cons.IH [where waiting = "waiting @ [c']" and st = st] p wait show ?thesis by simp
  next
    case fail
    have "http_inv (st\<lparr>hs_pending := waiting @ cs\<rparr>)" using Cons.prems by (simp add: http_inv_def)
    with Cons.IH [where waiting = waiting and st = st] p fail show ?thesis by (simp add: split_beta)
  qed
qed simp

lemma http_poll_state_inv: "http_inv st \<Longrightarrow> http_inv (fst (http_poll_state env st))"
proof -
  assume "http_inv st"
  let ?st1 = "http_take (en_configured env) (en_accepted env) st"
  have "http_inv ?st1" by (rule http_take_inv) fact
  then have "http_inv (fst (http_poll_clients env (hs_pending ?st1) [] (?st1\<lparr>hs_pending := []\<rparr>)))"
    by (intro http_poll_clients_inv) simp
  then show ?thesis
    using poll_table_shrinks [where m = "hs_flows (fst (http_poll_clients env (hs_pending ?st1) [] (?st1\<lparr>hs_pending := []\<rparr>)))" and poll = "http_flow_poll env"]
    by (simp add: http_poll_state_def Let_def split_beta http_inv_def)
qed

datatype ('c, 'u, 'p, 's) http_call =
    Http_Initialize "str \<Rightarrow> (http_options, str) result" bool bool u64 bytes
  | Http_Accept "('c, 'u, 'p, 's) socks_env" bool u64
  | Http_Attach u64 u64 "'s option"
  | Http_Complete u64 u64 status nat
  | Http_Close_Flow u64 u64
  | Http_Poll "('c, 'u, 'p, 's) socks_env" u64
  | Http_Shutdown u64
  | Http_Destroy u64

fun http_step :: "('c, 'u, 'p, 's) http_call \<Rightarrow> ('c, 'p, 's) http_states \<Rightarrow> ('c, 'p, 's) http_states" where
  "http_step (Http_Initialize toml bound nonblocking i config) states = snd (http_initialize toml bound nonblocking i config states)"
| "http_step (Http_Accept env output_null i) states = snd (http_accept env output_null i states)"
| "http_step (Http_Attach i flow stack) states = snd (http_attach i flow stack states)"
| "http_step (Http_Complete i flow s n) states = snd (http_complete i flow s n states)"
| "http_step (Http_Close_Flow i flow) states = snd (http_close_flow i flow states)"
| "http_step (Http_Poll env i) states = snd (http_poll_instance env i states)"
| "http_step (Http_Shutdown i) states = snd (http_shutdown i states)"
| "http_step (Http_Destroy i) states = http_destroy i states"

definition http_states_inv :: "('c, 'p, 's) http_states \<Rightarrow> bool" where
  "http_states_inv states \<longleftrightarrow> (\<forall>i st. hm_get states i = Some st \<longrightarrow> http_inv st)"

lemma http_inv_put:
  "http_inv st \<Longrightarrow> hm_get (hs_flows st) h = Some f \<Longrightarrow> http_inv (st\<lparr>hs_flows := hm_insert h f' (hs_flows st)\<rparr>)"
  by (auto simp: http_inv_def hm.len_insert)

lemma http_inv_remove: "http_inv st \<Longrightarrow> http_inv (st\<lparr>hs_flows := hm_remove h (hs_flows st)\<rparr>)"
  using hm.len_remove_le [of "hs_flows st" h] by (auto simp: http_inv_def)

lemma http_announce_inv: "http_inv st \<Longrightarrow> http_inv (snd (http_announce st))"
proof (cases "find_unannounced cf_announced (hs_flows st)")
  case (Some hf)
  assume inv: "http_inv st"
  obtain h f where hf: "hf = (h, f)" by force
  with Some inv have "hm_get (hs_flows st) h = Some f" by (intro find_unannounced_get) (simp_all add: http_inv_def)
  from http_inv_put [OF inv this] Some hf show ?thesis by (simp add: http_announce_def)
qed (simp add: http_announce_def)

lemma with_http_flow_inv: "http_states_inv states \<Longrightarrow> http_states_inv (snd (with_http_flow i flow change states))"
  by (auto simp: with_http_flow_def http_states_inv_def intro: http_inv_put split: option.splits if_splits)

lemma http_states_inv_insert: "http_states_inv states \<Longrightarrow> http_inv st \<Longrightarrow> http_states_inv (hm_insert i st states)"
  by (simp add: http_states_inv_def)

lemma http_states_inv_remove: "http_states_inv states \<Longrightarrow> http_states_inv (hm_remove i states)"
  by (simp add: http_states_inv_def)

lemma http_states_inv_get: "http_states_inv states \<Longrightarrow> hm_get states i = Some st \<Longrightarrow> http_inv st"
  by (simp add: http_states_inv_def)

lemmas http_call_invs = http_states_inv_insert http_states_inv_remove http_announce_inv http_poll_state_inv http_inv_remove with_http_flow_inv

lemma http_step_inv: "http_states_inv states \<Longrightarrow> http_states_inv (http_step call states)"
proof (cases call)
  case (Http_Initialize toml bound nonblocking i config)
  assume "http_states_inv states"
  moreover have "http_inv \<lparr>hs_options = opts, hs_pending = [], hs_flows = [], hs_next_flow = 1\<rparr>" for opts
    by (simp add: http_inv_def)
  ultimately show ?thesis using Http_Initialize
    by (auto simp: http_initialize_def intro: http_states_inv_insert split: result.splits)
next
  case (Http_Accept env output_null i)
  assume inv: "http_states_inv states"
  show ?thesis
  proof (cases "hm_get states i")
    case (Some st)
    from http_announce_inv [OF http_poll_state_inv [OF http_states_inv_get [OF inv Some]], of env] inv Some Http_Accept
    show ?thesis by (simp add: http_accept_def split_beta http_states_inv_insert)
  qed (use inv Http_Accept in \<open>simp add: http_accept_def\<close>)
qed (auto simp: http_attach_def http_complete_def http_close_flow_def http_poll_instance_def http_shutdown_def http_destroy_def
    intro: http_call_invs dest: http_states_inv_get split: option.splits)

section \<open>Properties\<close>


definition example_http_request :: bytes where
  "example_http_request = str_lit ''CONNECT a.b:443 HTTP/1.1'' @ [13, 10, 13, 10, 7, 8, 9]"

definition example_pieces :: "bytes list list" where
  "example_pieces = [[take 3 example_http_request], [take 10 (drop 3 example_http_request), take 15 (drop 13 example_http_request)], [drop 28 example_http_request]]"

lemma example_pieces_whole: "concat (concat example_pieces) = example_http_request"
  by code_simp

lemma example_authority: "parse_authority (str_lit ''a.b:443'') = Ok (Domain (str_lit ''a.b''), 443)"
proof -
  have "authority_host (str_lit ''a.b:443'') = Ok (Domain (str_lit ''a.b''), str_lit ''443'')" by code_simp
  moreover have "parse_unsigned 65535 (str_lit ''443'') = Some 443"
    by (simp add: parse_unsigned_def str_lit_def is_ascii_digit_def of_char_def)
  ultimately show ?thesis by (simp add: parse_authority_def)
qed

lemma example_http_request_parsed:
  "parse_connect example_http_request 64 = Ok \<lparr>cr_host = Domain (str_lit ''a.b''), cr_port = 443, cr_trailing = [7, 8, 9]\<rparr>"
proof -
  have "from_utf8 (take 28 example_http_request) = Some (take 28 example_http_request)" "find_window [13, 10, 32] (take 28 example_http_request) = None"
    "find_window [13, 10, 9] (take 28 example_http_request) = None"
    "split_on 32 (hd (split_crlf (take 28 example_http_request))) = [str_lit ''CONNECT'', str_lit ''a.b:443'', str_lit ''HTTP/1.1'']"
    by code_simp+
  then have h: "parse_header (take 28 example_http_request) = Ok (Domain (str_lit ''a.b''), 443)"
    by (simp add: parse_header_def example_authority)
  have "find_window [13, 10, 13, 10] example_http_request = Some 24" "drop 28 example_http_request = [7, 8, 9]" by code_simp+
  with h show ?thesis by (simp add: parse_connect_def)
qed


text \<open>C32. After any sequence of host calls, with any behaviour of the sockets, the stack and the pumps, an
  instance of the HTTP CONNECT adapter holds at most \<open>max_connections\<close> connections (clients and flows
  together), and every flow handle is below the next handle to be given out.\<close>

theorem http_resources_bounded:
  assumes "hm_get (fold http_step calls []) i = Some st"
  shows "length (hs_pending st) + hm_len (hs_flows st) \<le> ho_max_connections (hs_options st) \<and> hm_wf (hs_flows st) \<and>
    (\<forall>h. hm_contains (hs_flows st) h \<longrightarrow> h < hs_next_flow st)"
proof -
  have "http_states_inv states \<Longrightarrow> http_states_inv (fold http_step calls states)" for states
    by (induction calls arbitrary: states) (simp_all add: http_step_inv)
  moreover have "http_states_inv []" by (simp add: http_states_inv_def)
  ultimately have "http_states_inv (fold http_step calls [])" by blast
  with assms have "http_inv st" by (rule http_states_inv_get [rotated])
  then show ?thesis by (auto simp: http_inv_def hm_contains_def not_le [symmetric])
qed

definition example_http_calls :: "(nat, nat, nat, nat) http_call list" where
  "example_http_calls =
     [Http_Initialize (\<lambda>_. Ok \<lparr>ho_listen = str_lit ''1.2.3.4:5'', ho_max_connections = 2, ho_max_header_bytes = 64\<rparr>) True True 1 [],
      Http_Poll example_env 1]"

lemma example_http_options:
  "parse_http_options (\<lambda>_. Ok \<lparr>ho_listen = str_lit ''1.2.3.4:5'', ho_max_connections = 2, ho_max_header_bytes = 64\<rparr>) [] =
     Ok \<lparr>ho_listen = str_lit ''1.2.3.4:5'', ho_max_connections = 2, ho_max_header_bytes = 64\<rparr>"
proof -
  have "parse_sock (str_lit ''1.2.3.4:5'') \<noteq> None" by code_simp
  then show ?thesis by (simp add: parse_http_options_def from_utf8_def)
qed

lemma example_http_poll:
  "http_client_poll (chunk_reads [[5, 1, 0]]) 64 \<lparr>hc_stream = s, hc_input = []\<rparr> = (Ok None, \<lparr>hc_stream = s, hc_input = [5, 1, 0]\<rparr>)"
  using http_read_chunks [of 0 "[[5, 1, 0]]" "[]" 64] by (simp add: http_client_poll_def parse_connect_def starts_with_iff)

theorem http_resources_bounded_witness:
  "\<exists>st. hm_get (fold http_step example_http_calls []) 1 = Some st \<and> length (hs_pending st) = 2 \<and>
     length (hs_pending st) + hm_len (hs_flows st) \<le> ho_max_connections (hs_options st)"
proof -
  let ?opts = "\<lparr>ho_listen = str_lit ''1.2.3.4:5'', ho_max_connections = 2, ho_max_header_bytes = 64\<rparr>"
  let ?st = "\<lparr>hs_options = ?opts, hs_pending = [\<lparr>hc_stream = 7, hc_input = [5, 1, 0]\<rparr>, \<lparr>hc_stream = 8, hc_input = [5, 1, 0]\<rparr>],
    hs_flows = [], hs_next_flow = 1\<rparr>"
  have "hm_get (fold http_step example_http_calls []) 1 = Some ?st"
    by (simp add: example_http_calls_def http_initialize_def example_http_options http_poll_instance_def hm_get_def hm_insert_def
        http_poll_state_def example_env_def http_client_new_def hm_len_def example_http_poll poll_table_def)
  from http_resources_bounded [OF this] this show ?thesis by (intro exI [of _ ?st]) simp
qed

end
