(* ===== verification/Dummies.thy ===== *)
theory Dummies
  imports Foreign_Io Socks5_Flow
begin

text \<open>
  The two modules that change nothing: the protection module that hands every call to the lower stream
  (\<^verbatim>\<open>protection-dummy/src/lib.rs\<close>) and the policy module that admits every flow and pumps it without a limit
  (\<^verbatim>\<open>policy-dummy/src/lib.rs\<close>). The table of instances that the module kit keeps is the argument \<open>known\<close>.
\<close>

section \<open>protection-dummy\<close>

record plain_wrapped =
  pw_lower :: u64
  pw_io :: byte_io

record plain_module =
  pm_wrapped :: "(u64, plain_wrapped) hashmap"
  pm_next :: u64

definition plain_validate :: "(str \<Rightarrow> (unit, str) result) \<Rightarrow> bytes \<Rightarrow> (unit, str) result" where
  "plain_validate toml config = (case from_utf8 config of
     None \<Rightarrow> Err (str_lit ''config is not UTF-8'') | Some s \<Rightarrow> toml s)"

definition plain_wrap ::
  "u32 \<Rightarrow> bool \<Rightarrow> u64 \<Rightarrow> byte_io option \<Rightarrow> bool \<Rightarrow> plain_module \<Rightarrow> (status \<times> u64 option) \<times> plain_module" where
  "plain_wrap table_size known lower io output_null m =
     (if \<not> known \<or> lower = 0 \<or> io = None then ((STATUS_INVALID, None), m)
      else if \<not> valid_io table_size io then ((STATUS_INVALID, None), m)
      else if output_null then ((STATUS_INVALID, None), m)
      else let handle = pm_next m; m1 = m\<lparr>pm_next := handle + 1\<rparr> in
        if handle = 0 then ((STATUS_RESOURCE, None), m1)
        else ((STATUS_OK, Some handle), m1\<lparr>pm_wrapped := hm_insert handle \<lparr>pw_lower = lower, pw_io = the io\<rparr> (pm_wrapped m1)\<rparr>))"

text \<open>A call that is handed on: \<open>present\<close> tells whether the table of the lower stream has the function, \<open>call\<close> is
  that function.\<close>

definition plain_call :: "(byte_io \<Rightarrow> bool) \<Rightarrow> (u64 \<Rightarrow> 'a) \<Rightarrow> 'a \<Rightarrow> u64 \<Rightarrow> plain_module \<Rightarrow> 'a" where
  "plain_call present call refused handle m = (case hm_get (pm_wrapped m) handle of
     None \<Rightarrow> refused
   | Some w \<Rightarrow> if \<not> present (pw_io w) then refused else call (pw_lower w))"

definition plain_read :: "(u64 \<Rightarrow> io_result \<times> bytes) \<Rightarrow> u64 \<Rightarrow> plain_module \<Rightarrow> io_result \<times> bytes" where
  "plain_read lower = plain_call bi_read lower (Io_Error STATUS_INVALID, [])"

definition plain_write :: "(u64 \<Rightarrow> bytes \<Rightarrow> io_result) \<Rightarrow> bytes \<Rightarrow> u64 \<Rightarrow> plain_module \<Rightarrow> io_result" where
  "plain_write lower input = plain_call bi_write (\<lambda>h. lower h input) (Io_Error STATUS_INVALID)"

definition plain_flush :: "(u64 \<Rightarrow> io_result) \<Rightarrow> u64 \<Rightarrow> plain_module \<Rightarrow> io_result" where
  "plain_flush lower = plain_call bi_flush lower (Io_Error STATUS_INVALID)"

definition plain_shutdown_write :: "(u64 \<Rightarrow> io_result) \<Rightarrow> u64 \<Rightarrow> plain_module \<Rightarrow> io_result" where
  "plain_shutdown_write lower = plain_call bi_shutdown_write lower (Io_Error STATUS_INVALID)"

definition plain_close :: "(u64 \<Rightarrow> status) \<Rightarrow> u64 \<Rightarrow> plain_module \<Rightarrow> status \<times> plain_module" where
  "plain_close lower handle m =
     (plain_call bi_close lower STATUS_INVALID handle m, m\<lparr>pm_wrapped := hm_remove handle (pm_wrapped m)\<rparr>)"

text \<open>A stream that was wrapped answers what the lower stream answers, whatever else is wrapped or closed.\<close>

lemma wrapped_is_transparent:
  assumes "plain_wrap table_size known lower io output_null m = ((STATUS_OK, Some h), m1)"
    "hm_get (pm_wrapped m2) h = hm_get (pm_wrapped m1) h"
  shows "plain_read rd h m2 = rd lower" "plain_write wr bs h m2 = wr lower bs" "plain_flush fl h m2 = fl lower"
    "plain_shutdown_write sw h m2 = sw lower" "fst (plain_close cl h m2) = cl lower"
  using assms
  by (auto simp: plain_wrap_def Let_def plain_read_def plain_write_def plain_flush_def plain_shutdown_write_def plain_close_def
      plain_call_def valid_io_def split: if_splits option.splits)

section \<open>policy-dummy\<close>

definition MAX_UDP_PAYLOAD :: nat where
  "MAX_UDP_PAYLOAD = 65507"

text \<open>What the pumps of the module kit answer during one call: streams are of type \<open>'b\<close>, datagram ports of type \<open>'g\<close>.\<close>

record ('b, 'g, 'p, 'q) pump_env =
  pe_new :: "nat \<Rightarrow> 'p option"
  pe_poll :: "'p \<Rightarrow> 'b \<Rightarrow> 'b \<Rightarrow> nat \<Rightarrow> pump_result \<times> 'p"
  pe_datagram_new :: "nat \<Rightarrow> 'q option"
  pe_datagram_poll :: "'q \<Rightarrow> 'g \<Rightarrow> 'g \<Rightarrow> nat \<Rightarrow> pump_result \<times> 'q"

text \<open>A flow in both directions, for streams and for datagrams.\<close>

record ('b, 'p) dummy_flow =
  df_stack :: 'b
  df_mux :: 'b
  df_upload :: 'p
  df_download :: 'p

definition dummy_flow_new :: "(nat \<Rightarrow> 'p option) \<Rightarrow> 'b \<Rightarrow> 'b \<Rightarrow> nat \<Rightarrow> ('b, 'p) dummy_flow option" where
  "dummy_flow_new pump_new stack mux buffer_bytes = Option.bind (pump_new buffer_bytes) (\<lambda>up.
     Option.bind (pump_new buffer_bytes) (\<lambda>down.
       Some \<lparr>df_stack = stack, df_mux = mux, df_upload = up, df_download = down\<rparr>))"

definition dummy_flow_poll ::
  "('p \<Rightarrow> 'b \<Rightarrow> 'b \<Rightarrow> nat \<Rightarrow> pump_result \<times> 'p) \<Rightarrow> nat \<Rightarrow> ('b, 'p) dummy_flow \<Rightarrow> (bool, unit) poll \<times> ('b, 'p) dummy_flow" where
  "dummy_flow_poll pump max_work f = (case pump (df_upload f) (df_stack f) (df_mux f) max_work of
     (up, u) \<Rightarrow> case pump (df_download f) (df_mux f) (df_stack f) max_work of
     (down, d) \<Rightarrow> (pumps_result up down, f\<lparr>df_upload := u, df_download := d\<rparr>))"

definition dummy_datagram_new :: "(nat \<Rightarrow> 'q option) \<Rightarrow> 'g \<Rightarrow> 'g \<Rightarrow> ('g, 'q) dummy_flow option" where
  "dummy_datagram_new pump_new stack mux = dummy_flow_new pump_new stack mux MAX_UDP_PAYLOAD"

definition dummy_datagram_poll ::
  "('q \<Rightarrow> 'g \<Rightarrow> 'g \<Rightarrow> nat \<Rightarrow> pump_result \<times> 'q) \<Rightarrow> ('g, 'q) dummy_flow \<Rightarrow> (bool, unit) poll \<times> ('g, 'q) dummy_flow" where
  "dummy_datagram_poll pump f = dummy_flow_poll pump MAX_UDP_PAYLOAD f"

definition dummy_parse_options :: "(str \<Rightarrow> (nat, str) result) \<Rightarrow> bytes \<Rightarrow> (nat, str) result" where
  "dummy_parse_options toml config = (case from_utf8 config of
     None \<Rightarrow> Err (str_lit ''config is not UTF-8'')
   | Some s \<Rightarrow> try_bind (toml s) (\<lambda>n. if n = 0 then Err (str_lit ''pump buffer must be nonzero'') else Ok n))"

record ('b, 'g, 'p, 'q) dummy_state =
  ds_pump_buffer_bytes :: nat
  ds_sessions :: "(u64, 'b) hashmap"
  ds_flows :: "(u64, ('b, 'p) dummy_flow) hashmap"
  ds_datagram_flows :: "(u64, ('g, 'q) dummy_flow) hashmap"

record ('b, 'g, 'p, 'q) dummy_policy =
  dp_states :: "(u64, ('b, 'g, 'p, 'q) dummy_state) hashmap"
  dp_session_next :: u64
  dp_flow_next :: u64

definition dummy_initialize ::
  "(str \<Rightarrow> (nat, str) result) \<Rightarrow> u64 \<Rightarrow> bytes \<Rightarrow> ('b, 'g, 'p, 'q) dummy_policy \<Rightarrow> (unit, status) result \<times> ('b, 'g, 'p, 'q) dummy_policy" where
  "dummy_initialize toml inst config dp = (case dummy_parse_options toml config of
     Err _ \<Rightarrow> (Err STATUS_INVALID, dp)
   | Ok n \<Rightarrow> (Ok (), dp\<lparr>dp_states := hm_insert inst
       \<lparr>ds_pump_buffer_bytes = n, ds_sessions = [], ds_flows = [], ds_datagram_flows = []\<rparr> (dp_states dp)\<rparr>))"

text \<open>\<open>stream\<close> is the stream made from the raw handle, \<open>None\<close> when that fails.\<close>

definition dummy_attach_session ::
  "bool \<Rightarrow> u64 \<Rightarrow> u64 \<Rightarrow> bool \<Rightarrow> 'b option \<Rightarrow> bool \<Rightarrow> ('b, 'g, 'p, 'q) dummy_policy \<Rightarrow> (status \<times> u64 option) \<times> ('b, 'g, 'p, 'q) dummy_policy" where
  "dummy_attach_session known inst policy_stream io_null stream output_null dp =
     (if \<not> known \<or> policy_stream = 0 \<or> io_null then ((STATUS_INVALID, None), dp)
      else if output_null then ((STATUS_INVALID, None), dp)
      else (case stream of
        None \<Rightarrow> ((STATUS_INVALID, None), dp)
      | Some s \<Rightarrow>
          let handle = dp_session_next dp; dp1 = dp\<lparr>dp_session_next := handle + 1\<rparr> in
          if handle = 0 then ((STATUS_RESOURCE, None), dp1)
          else (case hm_get (dp_states dp1) inst of
            None \<Rightarrow> ((STATUS_INVALID, None), dp1)
          | Some st \<Rightarrow> ((STATUS_OK, Some handle),
              dp1\<lparr>dp_states := hm_insert inst (st\<lparr>ds_sessions := hm_insert handle s (ds_sessions st)\<rparr>) (dp_states dp1)\<rparr>))))"

definition dummy_admit_flow :: "bool \<Rightarrow> u64 \<Rightarrow> (flow_metadata, status) result \<Rightarrow> status" where
  "dummy_admit_flow known session metadata =
     (if \<not> known \<or> session = 0 then STATUS_INVALID else (case metadata of Ok _ \<Rightarrow> STATUS_OK | Err s \<Rightarrow> s))"

text \<open>The common part of attaching a flow: the checks, then the flow made from the two streams, which \<open>put\<close> adds to
  a table under the next handle.\<close>

definition dummy_attach ::
  "bool \<Rightarrow> u64 \<Rightarrow> u64 \<Rightarrow> u64 \<times> bool \<Rightarrow> u64 \<times> bool \<Rightarrow> 'x option \<Rightarrow> 'x option \<Rightarrow>
     (('b, 'g, 'p, 'q) dummy_state \<Rightarrow> 'x \<Rightarrow> 'x \<Rightarrow> 'f option) \<Rightarrow>
     (u64 \<Rightarrow> 'f \<Rightarrow> ('b, 'g, 'p, 'q) dummy_state \<Rightarrow> ('b, 'g, 'p, 'q) dummy_state) \<Rightarrow>
     ('b, 'g, 'p, 'q) dummy_policy \<Rightarrow> status \<times> ('b, 'g, 'p, 'q) dummy_policy" where
  "dummy_attach known inst session stack_ref mux_ref stack mux build put dp =
     (if \<not> known \<or> session = 0 \<or> fst stack_ref = 0 \<or> snd stack_ref \<or> fst mux_ref = 0 \<or> snd mux_ref then (STATUS_INVALID, dp)
      else (case hm_get (dp_states dp) inst of
        None \<Rightarrow> (STATUS_INVALID, dp)
      | Some st \<Rightarrow>
          if \<not> hm_contains (ds_sessions st) session then (STATUS_INVALID, dp)
          else (case (stack, mux) of
            (Some s, Some m) \<Rightarrow> (case build st s m of
              None \<Rightarrow> (STATUS_RESOURCE, dp)
            | Some f \<Rightarrow>
                let handle = dp_flow_next dp; dp1 = dp\<lparr>dp_flow_next := handle + 1\<rparr> in
                if handle = 0 then (STATUS_RESOURCE, dp1)
                else (STATUS_OK, dp1\<lparr>dp_states := hm_insert inst (put handle f st) (dp_states dp1)\<rparr>))
          | _ \<Rightarrow> (STATUS_INVALID, dp))))"

definition dummy_attach_flow where
  "dummy_attach_flow env known inst session stack_ref mux_ref stack mux =
     dummy_attach known inst session stack_ref mux_ref stack mux
       (\<lambda>st s m. dummy_flow_new (pe_new env) s m (ds_pump_buffer_bytes st))
       (\<lambda>h f st. st\<lparr>ds_flows := hm_insert h f (ds_flows st)\<rparr>)"

definition dummy_attach_datagram_flow where
  "dummy_attach_datagram_flow env known inst session stack_ref mux_ref stack mux =
     dummy_attach known inst session stack_ref mux_ref stack mux
       (\<lambda>st s m. dummy_datagram_new (pe_datagram_new env) s m)
       (\<lambda>h f st. st\<lparr>ds_datagram_flows := hm_insert h f (ds_datagram_flows st)\<rparr>)"

text \<open>Polling a table of flows stops at the first error: whether there was one, the table, and the finished handles
  so far.\<close>

fun dummy_poll_flows :: "('f \<Rightarrow> (bool, unit) poll \<times> 'f) \<Rightarrow> (u64, 'f) hashmap \<Rightarrow> bool \<times> (u64, 'f) hashmap \<times> u64 list" where
  "dummy_poll_flows poll [] = (False, [], [])"
| "dummy_poll_flows poll ((h, f) # m) = (case poll f of
     (Ready (Err _), f') \<Rightarrow> (True, (h, f') # m, [])
   | (r, f') \<Rightarrow> (case dummy_poll_flows poll m of
       (failed, m', finished) \<Rightarrow> (failed, (h, f') # m', (if r = Ready (Ok True) then h # finished else finished))))"

definition dummy_poll_state ::
  "('b, 'g, 'p, 'q) pump_env \<Rightarrow> ('b, 'g, 'p, 'q) dummy_state \<Rightarrow> status \<times> ('b, 'g, 'p, 'q) dummy_state" where
  "dummy_poll_state env st = (case dummy_poll_flows (dummy_flow_poll (pe_poll env) (ds_pump_buffer_bytes st)) (ds_flows st) of
     (True, flows, _) \<Rightarrow> (STATUS_IO, st\<lparr>ds_flows := flows\<rparr>)
   | (False, flows, finished) \<Rightarrow>
       let st1 = st\<lparr>ds_flows := fold hm_remove finished flows\<rparr> in
       (case dummy_poll_flows (dummy_datagram_poll (pe_datagram_poll env)) (ds_datagram_flows st1) of
          (True, flows', _) \<Rightarrow> (STATUS_IO, st1\<lparr>ds_datagram_flows := flows'\<rparr>)
        | (False, flows', finished') \<Rightarrow> (STATUS_PENDING, st1\<lparr>ds_datagram_flows := fold hm_remove finished' flows'\<rparr>)))"

definition dummy_poll_instance ::
  "('b, 'g, 'p, 'q) pump_env \<Rightarrow> u64 \<Rightarrow> ('b, 'g, 'p, 'q) dummy_policy \<Rightarrow> status \<times> ('b, 'g, 'p, 'q) dummy_policy" where
  "dummy_poll_instance env inst dp = (case hm_get (dp_states dp) inst of
     None \<Rightarrow> (STATUS_INVALID, dp)
   | Some st \<Rightarrow> (case dummy_poll_state env st of (s, st') \<Rightarrow> (s, dp\<lparr>dp_states := hm_insert inst st' (dp_states dp)\<rparr>)))"

definition dummy_control :: "(bytes, status) result" where
  "dummy_control = Err STATUS_UNSUPPORTED"

definition dummy_shutdown :: "u64 \<Rightarrow> ('b, 'g, 'p, 'q) dummy_policy \<Rightarrow> status \<times> ('b, 'g, 'p, 'q) dummy_policy" where
  "dummy_shutdown inst dp = (if hm_contains (dp_states dp) inst then STATUS_OK else STATUS_INVALID,
     dp\<lparr>dp_states := hm_remove inst (dp_states dp)\<rparr>)"

definition dummy_destroy :: "u64 \<Rightarrow> ('b, 'g, 'p, 'q) dummy_policy \<Rightarrow> ('b, 'g, 'p, 'q) dummy_policy" where
  "dummy_destroy inst dp = dp\<lparr>dp_states := hm_remove inst (dp_states dp)\<rparr>"

section \<open>A flow that fails\<close>

text \<open>Flows between two streams stay flows between them.\<close>

definition flow_ends :: "('b, 'p) dummy_flow \<Rightarrow> 'b \<times> 'b" where
  "flow_ends f = (df_stack f, df_mux f)"

lemma dummy_flow_poll_ends: "dummy_flow_poll pump n f = (r, f') \<Longrightarrow> flow_ends f' = flow_ends f"
  by (auto simp: dummy_flow_poll_def flow_ends_def split: prod.splits)

text \<open>The pumps fail between these two streams.\<close>

definition broken :: "('b, 'g, 'p, 'q) pump_env \<Rightarrow> 'b \<times> 'b \<Rightarrow> bool" where
  "broken env ends \<longleftrightarrow> (\<forall>p n. fst (pe_poll env p (fst ends) (snd ends) n) = Pump_Failed)"

lemma broken_poll:
  "broken env (flow_ends f) \<Longrightarrow> fst (dummy_flow_poll (pe_poll env) n f) = Ready (Err ())"
proof -
  assume "broken env (flow_ends f)"
  then obtain p where "pe_poll env (df_upload f) (df_stack f) (df_mux f) n = (Pump_Failed, p)"
    by (metis broken_def flow_ends_def fst_conv snd_conv prod.collapse)
  then show ?thesis by (simp add: dummy_flow_poll_def pumps_result_def split: prod.splits pump_result.splits)
qed

lemma dummy_poll_flows_failed:
  assumes "(h, f) \<in> set m" "fst (poll f) = Ready (Err ())" "dummy_poll_flows poll m = (failed, m', finished)"
    "\<And>f r f'. poll f = (r, f') \<Longrightarrow> flow_ends f' = flow_ends f"
  shows "failed \<and> map (\<lambda>(h, f). (h, flow_ends f)) m' = map (\<lambda>(h, f). (h, flow_ends f)) m"
  using assms(1,3)
proof (induction m arbitrary: m' finished)
  case (Cons hf m)
  obtain h0 f0 where hf: "hf = (h0, f0)" by force
  obtain r f1 where p: "poll f0 = (r, f1)" by force
  note ends = assms(4) [OF p]
  show ?case
  proof (cases "r = Ready (Err ())")
    case True
    with Cons.prems(2) hf p ends show ?thesis by auto
  next
    case False
    with p assms(2) Cons.prems(1) hf have mem: "(h, f) \<in> set m" by auto
    obtain fl m1 fin where rec: "dummy_poll_flows poll m = (fl, m1, fin)" by (metis prod_cases3)
    have "failed = fl \<and> m' = (h0, f1) # m1"
      using Cons.prems(2) hf p rec False by (cases r; simp split: result.splits; (metis unit_eq)?)
    with Cons.IH [OF mem] rec hf ends show ?thesis by auto
  qed
qed simp

lemma dummy_poll_state_failed:
  assumes "(h, f) \<in> set (ds_flows st)" "broken env (flow_ends f)"
  shows "\<exists>flows. dummy_poll_state env st = (STATUS_IO, st\<lparr>ds_flows := flows\<rparr>) \<and>
    map (\<lambda>(h, f). (h, flow_ends f)) flows = map (\<lambda>(h, f). (h, flow_ends f)) (ds_flows st)"
proof -
  let ?poll = "dummy_flow_poll (pe_poll env) (ds_pump_buffer_bytes st)"
  obtain failed flows finished where p: "dummy_poll_flows ?poll (ds_flows st) = (failed, flows, finished)" by (metis prod_cases3)
  from dummy_poll_flows_failed [OF assms(1) broken_poll [OF assms(2)] p dummy_flow_poll_ends] p show ?thesis
    by (auto simp: dummy_poll_state_def)
qed

fun dummy_polls ::
  "('b, 'g, 'p, 'q) pump_env list \<Rightarrow> u64 \<Rightarrow> ('b, 'g, 'p, 'q) dummy_policy \<Rightarrow> status list \<times> ('b, 'g, 'p, 'q) dummy_policy" where
  "dummy_polls [] inst dp = ([], dp)"
| "dummy_polls (env # envs) inst dp = (case dummy_poll_instance env inst dp of (s, dp1) \<Rightarrow> case dummy_polls envs inst dp1 of
     (ss, dp2) \<Rightarrow> (s # ss, dp2))"

lemma dummy_polls_failed:
  assumes "hm_get (dp_states dp) inst = Some st" "(h, f) \<in> set (ds_flows st)" "\<And>env. env \<in> set envs \<Longrightarrow> broken env (flow_ends f)"
  shows "\<exists>dp' flows. dummy_polls envs inst dp = (replicate (length envs) STATUS_IO, dp') \<and>
    hm_get (dp_states dp') inst = Some (st\<lparr>ds_flows := flows\<rparr>) \<and>
    map (\<lambda>(h, f). (h, flow_ends f)) flows = map (\<lambda>(h, f). (h, flow_ends f)) (ds_flows st)"
  using assms
proof (induction envs arbitrary: dp st f)
  case Nil
  then show ?case by (intro exI [of _ dp] exI [of _ "ds_flows st"]) simp
next
  case (Cons env envs)
  from dummy_poll_state_failed [OF Cons.prems(2), of env] Cons.prems(3) obtain flows where
    p: "dummy_poll_state env st = (STATUS_IO, st\<lparr>ds_flows := flows\<rparr>)"
    and e: "map (\<lambda>(h, f). (h, flow_ends f)) flows = map (\<lambda>(h, f). (h, flow_ends f)) (ds_flows st)" by auto
  let ?dp = "dp\<lparr>dp_states := hm_insert inst (st\<lparr>ds_flows := flows\<rparr>) (dp_states dp)\<rparr>"
  have "(h, flow_ends f) \<in> set (map (\<lambda>(h, f). (h, flow_ends f)) (ds_flows st))" using Cons.prems(2) by force
  then have "(h, flow_ends f) \<in> set (map (\<lambda>(h, f). (h, flow_ends f)) flows)" by (simp only: e)
  then obtain f1 where "(h, f1) \<in> set flows" "flow_ends f1 = flow_ends f" by auto
  with Cons.IH [of ?dp "st\<lparr>ds_flows := flows\<rparr>" f1] Cons.prems(3) obtain dp' flows' where
    "dummy_polls envs inst ?dp = (replicate (length envs) STATUS_IO, dp')"
    "hm_get (dp_states dp') inst = Some (st\<lparr>ds_flows := flows'\<rparr>)"
    "map (\<lambda>(h, f). (h, flow_ends f)) flows' = map (\<lambda>(h, f). (h, flow_ends f)) flows" by auto
  with p e Cons.prems(1) show ?case by (auto simp: dummy_poll_instance_def)
qed

text \<open>C38. One failing flow stops the dummy policy. When the pumps between the ends of a flow keep failing, every
  poll of the instance answers \<open>STATUS_IO\<close>, no flow is ever removed from the table of flows, finished or
  failed, and no datagram flow is polled.\<close>

theorem failed_flow_blocks_policy:
  assumes "hm_get (dp_states dp) inst = Some st" "hm_get (ds_flows st) h = Some f" "list_all (\<lambda>env. broken env (flow_ends f)) envs"
  shows "\<exists>dp' flows. dummy_polls envs inst dp = (replicate (length envs) STATUS_IO, dp') \<and>
    hm_get (dp_states dp') inst = Some (st\<lparr>ds_flows := flows\<rparr>) \<and>
    map (\<lambda>(h, f). (h, flow_ends f)) flows = map (\<lambda>(h, f). (h, flow_ends f)) (ds_flows st)"
proof -
  from assms(2) have "(h, f) \<in> set (ds_flows st)" by (simp add: hm_get_def map_of_SomeD)
  with dummy_polls_failed [OF assms(1)] assms(3) show ?thesis by (simp add: list_all_iff)
qed

definition example_pumps :: "(nat, nat, nat, nat) pump_env" where
  "example_pumps = \<lparr>pe_new = Some, pe_poll = \<lambda>p from to n. (if from = 1 then Pump_Failed else Pump_Progress True, p),
     pe_datagram_new = Some, pe_datagram_poll = \<lambda>p from to n. (Pump_Progress True, p)\<rparr>"

definition example_dummy :: "(nat, nat, nat, nat) dummy_policy" where
  "example_dummy = \<lparr>dp_states = [(1, \<lparr>ds_pump_buffer_bytes = 16, ds_sessions = [],
       ds_flows = [(5, \<lparr>df_stack = 1, df_mux = 2, df_upload = 0, df_download = 0\<rparr>), (6, \<lparr>df_stack = 3, df_mux = 4, df_upload = 0, df_download = 0\<rparr>)],
       ds_datagram_flows = []\<rparr>)], dp_session_next = 1, dp_flow_next = 7\<rparr>"

theorem failed_flow_blocks_policy_witness:
  "\<exists>dp' st'. dummy_polls [example_pumps, example_pumps] 1 example_dummy = ([STATUS_IO, STATUS_IO], dp') \<and>
     hm_get (dp_states dp') 1 = Some st' \<and> map fst (ds_flows st') = [5, 6]"
proof -
  let ?st = "snd (hd (dp_states example_dummy))" and ?f = "\<lparr>df_stack = 1, df_mux = 2, df_upload = 0, df_download = 0\<rparr> :: (nat, nat) dummy_flow"
  have "hm_get (dp_states example_dummy) 1 = Some ?st" "hm_get (ds_flows ?st) 5 = Some ?f"
    "list_all (\<lambda>env. broken env (flow_ends ?f)) [example_pumps, example_pumps]"
    by (simp_all add: example_dummy_def hm_get_def broken_def flow_ends_def example_pumps_def)
  from failed_flow_blocks_policy [OF this] obtain dp' flows where
    r: "dummy_polls [example_pumps, example_pumps] 1 example_dummy = ([STATUS_IO, STATUS_IO], dp')"
      "hm_get (dp_states dp') 1 = Some (?st\<lparr>ds_flows := flows\<rparr>)"
    and m: "map (\<lambda>(h, f). (h, flow_ends f)) flows = map (\<lambda>(h, f). (h, flow_ends f)) (ds_flows ?st)" by auto
  from m have "map fst (map (\<lambda>(h, f). (h, flow_ends f)) flows) = [5, 6]" by (simp add: example_dummy_def)
  then have "map fst flows = [5, 6]" by (simp add: comp_def split_def)
  with r show ?thesis by auto
qed

end
