(* ===== verification/Tun_Adapter.thy ===== *)
theory Tun_Adapter
  imports Socks5_Flow
begin

text \<open>
  The TUN adapter (\<^verbatim>\<open>adapter-tun/src/lib.rs\<close>): it moves packets between a TUN device and the packet port of the
  stack, with one buffer in each direction. The device is a value of type \<open>'d\<close>, the port one of type \<open>'g\<close>;
  their answers are arguments.
\<close>

section \<open>The device\<close>

definition IFNAMSIZ :: nat where
  "IFNAMSIZ = 16"

text \<open>\<open>IFF_TUN | IFF_NO_PI\<close>.\<close>

definition TUN_FLAGS :: u16 where
  "TUN_FLAGS = 0x1001"

record if_req =
  ir_name :: bytes
  ir_flags :: u16
  ir_padding :: bytes

definition if_req_for :: "str \<Rightarrow> if_req" where
  "if_req_for name = \<lparr>ir_name = take IFNAMSIZ name @ replicate (IFNAMSIZ - length name) 0, ir_flags = TUN_FLAGS,
     ir_padding = replicate 24 0\<rparr>"

text \<open>The answers of the operating system: opening the device file, \<open>TUNSETIFF\<close>, the two \<open>fcntl\<close> calls that make a
  descriptor non-blocking, and duplicating a descriptor.\<close>

record 'd tun_os =
  to_open :: "'d option"
  to_set_iff :: "'d \<Rightarrow> if_req \<Rightarrow> bool"
  to_get_flags :: "'d \<Rightarrow> u32 option"
  to_set_flags :: "'d \<Rightarrow> u32 \<Rightarrow> bool"
  to_duplicate :: "int \<Rightarrow> int option"
  to_file :: "int \<Rightarrow> 'd"

definition O_NONBLOCK :: u32 where
  "O_NONBLOCK = 0x800"

definition set_nonblocking :: "'d tun_os \<Rightarrow> 'd \<Rightarrow> bool" where
  "set_nonblocking os file = (case to_get_flags os file of
     None \<Rightarrow> False | Some flags \<Rightarrow> to_set_flags os file (flags OR O_NONBLOCK))"

definition tun_open :: "'d tun_os \<Rightarrow> str \<Rightarrow> 'd option" where
  "tun_open os name =
     (if name = [] \<or> IFNAMSIZ \<le> length name then None
      else Option.bind (to_open os) (\<lambda>file.
        if \<not> to_set_iff os file (if_req_for name) then None
        else if \<not> set_nonblocking os file then None else Some file))"

definition from_owned_fd :: "'d tun_os \<Rightarrow> int \<Rightarrow> 'd option" where
  "from_owned_fd os fd = (if fd < 0 then None
     else let file = to_file os fd in if set_nonblocking os file then Some file else None)"

definition duplicate_fd :: "'d tun_os \<Rightarrow> int \<Rightarrow> 'd option" where
  "duplicate_fd os fd = (if fd < 0 then None else Option.bind (to_duplicate os fd) (from_owned_fd os))"

section \<open>Options\<close>

datatype tun_options =
    Tun_Linux str (tn_mtu: nat) (tn_packet_queue_bytes: nat)
  | Tun_Android_Fd int (tn_mtu: nat) (tn_packet_queue_bytes: nat)

definition tun_limits :: "tun_options \<Rightarrow> nat \<times> nat" where
  "tun_limits opts = (tn_mtu opts, tn_packet_queue_bytes opts)"

definition tun_mode_ok :: "tun_options \<Rightarrow> bool" where
  "tun_mode_ok opts = (case opts of Tun_Linux interface _ _ \<Rightarrow> interface \<noteq> [] | Tun_Android_Fd fd _ _ \<Rightarrow> 0 \<le> fd)"

definition tun_parse_options :: "(str \<Rightarrow> (tun_options, str) result) \<Rightarrow> bytes \<Rightarrow> (tun_options, str) result" where
  "tun_parse_options toml config = (case from_utf8 config of
     None \<Rightarrow> Err (str_lit ''config is not UTF-8'')
   | Some s \<Rightarrow> try_bind (toml s) (\<lambda>opts.
       let (mtu, packet_queue_bytes) = tun_limits opts in
       if mtu < 1280 \<or> 65535 < mtu \<or> packet_queue_bytes < mtu then Err (str_lit ''TUN limits are inconsistent'')
       else if tun_mode_ok opts then Ok opts else Err (str_lit ''TUN mode fields are inconsistent'')))"

section \<open>Instances\<close>

record ('d, 'g) tun_state =
  tu_tun :: 'd
  tu_packet_port :: "'g option"
  tu_ingress :: bytes
  tu_ingress_len :: "nat option"
  tu_egress :: bytes
  tu_egress_len :: "nat option"

type_synonym ('d, 'g) tun_states = "(u64, ('d, 'g) tun_state) hashmap"

text \<open>\<open>linux\<close> tells whether the module is built for Linux.\<close>

definition tun_initialize ::
  "bool \<Rightarrow> (str \<Rightarrow> (tun_options, str) result) \<Rightarrow> 'd tun_os \<Rightarrow> u64 \<Rightarrow> bytes \<Rightarrow> ('d, 'g) tun_states \<Rightarrow> (unit, status) result \<times> ('d, 'g) tun_states" where
  "tun_initialize linux toml os inst config states = (case tun_parse_options toml config of
     Err _ \<Rightarrow> (Err STATUS_INVALID, states)
   | Ok opts \<Rightarrow>
       let mtu = fst (tun_limits opts) in
       (case (case opts of
           Tun_Linux interface _ _ \<Rightarrow> if linux then ok_or (tun_open os interface) STATUS_IO else Err STATUS_UNSUPPORTED
         | Tun_Android_Fd fd _ _ \<Rightarrow> ok_or (duplicate_fd os fd) STATUS_IO) of
          Err s \<Rightarrow> (Err s, states)
        | Ok tun \<Rightarrow> (Ok (), hm_insert inst
            \<lparr>tu_tun = tun, tu_packet_port = None, tu_ingress = replicate mtu 0, tu_ingress_len = None,
             tu_egress = replicate mtu 0, tu_egress_len = None\<rparr> states)))"

text \<open>The answers of the device and of the packet port during one poll: the \<open>k\<close>-th send, the read into a buffer of
  some length, the reception, and the write.\<close>

record tun_io =
  ti_send :: "nat \<Rightarrow> bytes \<Rightarrow> datagram_send"
  ti_read :: "nat \<Rightarrow> io_read"
  ti_recv :: "nat \<Rightarrow> datagram_recv"
  ti_write :: "bytes \<Rightarrow> io_write"

datatype packet_event = From_Tun bytes | To_Port bytes | From_Port bytes | To_Tun bytes

text \<open>What a read leaves in a buffer; an answer is never longer than the buffer it was offered.\<close>

definition fill :: "bytes \<Rightarrow> bytes \<Rightarrow> bytes" where
  "fill bs buffer = bs @ drop (length bs) buffer"

text \<open>Sending the packet in the ingress buffer; the first component tells whether that failed.\<close>

definition send_ingress :: "tun_io \<Rightarrow> nat \<Rightarrow> ('d, 'g) tun_state \<Rightarrow> bool \<times> ('d, 'g) tun_state \<times> packet_event list" where
  "send_ingress io k st = (case tu_ingress_len st of
     None \<Rightarrow> (False, st, [])
   | Some n \<Rightarrow>
       let packet = take n (tu_ingress st) in
       (case ti_send io k packet of
          Datagram_Sent \<Rightarrow> (False, st\<lparr>tu_ingress_len := None\<rparr>, [To_Port packet])
        | Send_Failed \<Rightarrow> (True, st, [])
        | Send_Pending \<Rightarrow> (False, st, [])))"

definition read_ingress :: "tun_io \<Rightarrow> ('d, 'g) tun_state \<Rightarrow> bool \<times> ('d, 'g) tun_state \<times> packet_event list" where
  "read_ingress io st =
     (if tu_ingress_len st \<noteq> None then (False, st, [])
      else (case ti_read io (length (tu_ingress st)) of
        Read_Data bs \<Rightarrow>
          if bs = [] then (True, st, [])
          else (case send_ingress io 1 (st\<lparr>tu_ingress := fill bs (tu_ingress st), tu_ingress_len := Some (length bs)\<rparr>) of
            (failed, st1, events) \<Rightarrow> (failed, st1, From_Tun bs # events))
      | Read_Pending \<Rightarrow> (False, st, [])
      | Read_Error \<Rightarrow> (True, st, [])))"

definition recv_egress :: "tun_io \<Rightarrow> ('d, 'g) tun_state \<Rightarrow> bool \<times> ('d, 'g) tun_state \<times> packet_event list" where
  "recv_egress io st =
     (if tu_egress_len st \<noteq> None then (False, st, [])
      else (case ti_recv io (length (tu_egress st)) of
        Datagram bs \<Rightarrow> (False, st\<lparr>tu_egress := fill bs (tu_egress st), tu_egress_len := Some (length bs)\<rparr>, [From_Port bs])
      | Buffer_Too_Small \<Rightarrow> (True, st, [])
      | Recv_Failed \<Rightarrow> (True, st, [])
      | Datagram_Closed \<Rightarrow> (True, st, [])
      | Recv_Pending \<Rightarrow> (False, st, [])))"

definition write_egress :: "tun_io \<Rightarrow> ('d, 'g) tun_state \<Rightarrow> bool \<times> ('d, 'g) tun_state \<times> packet_event list" where
  "write_egress io st = (case tu_egress_len st of
     None \<Rightarrow> (False, st, [])
   | Some n \<Rightarrow>
       let packet = take n (tu_egress st) in
       (case ti_write io packet of
          Write_Count written \<Rightarrow>
            if written = n then (False, st\<lparr>tu_egress_len := None\<rparr>, [To_Tun packet]) else (True, st, [])
        | Write_Pending \<Rightarrow> (False, st, [])
        | Write_Error \<Rightarrow> (True, st, [])))"

text \<open>The steps one after the other; an error ends the poll.\<close>

fun tun_steps :: "(('d, 'g) tun_state \<Rightarrow> bool \<times> ('d, 'g) tun_state \<times> packet_event list) list \<Rightarrow> ('d, 'g) tun_state \<Rightarrow>
    status \<times> ('d, 'g) tun_state \<times> packet_event list" where
  "tun_steps [] st = (STATUS_PENDING, st, [])"
| "tun_steps (f # fs) st = (case f st of
     (True, st1, events) \<Rightarrow> (STATUS_IO, st1, events)
   | (False, st1, events) \<Rightarrow> (case tun_steps fs st1 of (s, st2, events') \<Rightarrow> (s, st2, events @ events')))"

definition tun_poll_state :: "tun_io \<Rightarrow> ('d, 'g) tun_state \<Rightarrow> status \<times> ('d, 'g) tun_state \<times> packet_event list" where
  "tun_poll_state io st =
     (if tu_packet_port st = None then (STATUS_PENDING, st, [])
      else tun_steps [send_ingress io 0, read_ingress io, recv_egress io, write_egress io] st)"

definition tun_poll_instance :: "tun_io \<Rightarrow> u64 \<Rightarrow> ('d, 'g) tun_states \<Rightarrow> status \<times> ('d, 'g) tun_states \<times> packet_event list" where
  "tun_poll_instance io inst states = (case hm_get states inst of
     None \<Rightarrow> (STATUS_INVALID, states, [])
   | Some st \<Rightarrow> (case tun_poll_state io st of (s, st', events) \<Rightarrow> (s, hm_insert inst st' states, events)))"

definition tun_control :: "(bytes, status) result" where
  "tun_control = Err STATUS_UNSUPPORTED"

definition tun_shutdown :: "u64 \<Rightarrow> ('d, 'g) tun_states \<Rightarrow> status" where
  "tun_shutdown inst states = (if hm_contains states inst then STATUS_OK else STATUS_INVALID)"

definition tun_destroy :: "u64 \<Rightarrow> ('d, 'g) tun_states \<Rightarrow> ('d, 'g) tun_states" where
  "tun_destroy inst states = hm_remove inst states"

definition tun_adapter_open :: "bool \<Rightarrow> status" where
  "tun_adapter_open known = (if \<not> known then STATUS_INVALID else STATUS_UNSUPPORTED)"

definition tun_attach_packet_port :: "u64 \<Rightarrow> 'g option \<Rightarrow> ('d, 'g) tun_states \<Rightarrow> status \<times> ('d, 'g) tun_states" where
  "tun_attach_packet_port inst port states = (case port of
     None \<Rightarrow> (STATUS_INVALID, states)
   | Some p \<Rightarrow> (case hm_get states inst of
       None \<Rightarrow> (STATUS_INVALID, states)
     | Some st \<Rightarrow> if tu_packet_port st \<noteq> None then (STATUS_INVALID, states)
                 else (STATUS_OK, hm_insert inst (st\<lparr>tu_packet_port := Some p\<rparr>) states)))"

section \<open>Packets\<close>

text \<open>The packets read, handed to the port, received from it and written to the device, in order.\<close>

fun from_tun :: "packet_event list \<Rightarrow> bytes list" where
  "from_tun [] = []"
| "from_tun (e # es) = (case e of From_Tun p \<Rightarrow> p # from_tun es | _ \<Rightarrow> from_tun es)"

fun to_port :: "packet_event list \<Rightarrow> bytes list" where
  "to_port [] = []"
| "to_port (e # es) = (case e of To_Port p \<Rightarrow> p # to_port es | _ \<Rightarrow> to_port es)"

fun from_port :: "packet_event list \<Rightarrow> bytes list" where
  "from_port [] = []"
| "from_port (e # es) = (case e of From_Port p \<Rightarrow> p # from_port es | _ \<Rightarrow> from_port es)"

fun to_tun :: "packet_event list \<Rightarrow> bytes list" where
  "to_tun [] = []"
| "to_tun (e # es) = (case e of To_Tun p \<Rightarrow> p # to_tun es | _ \<Rightarrow> to_tun es)"

lemma events_append [simp]:
  "from_tun (xs @ ys) = from_tun xs @ from_tun ys" "to_port (xs @ ys) = to_port xs @ to_port ys"
  "from_port (xs @ ys) = from_port xs @ from_port ys" "to_tun (xs @ ys) = to_tun xs @ to_tun ys"
  by (induction xs) (auto split: packet_event.splits)

text \<open>The packet that waits in a buffer.\<close>

definition waiting_packet :: "bytes \<Rightarrow> nat option \<Rightarrow> bytes list" where
  "waiting_packet buffer len = (case len of None \<Rightarrow> [] | Some n \<Rightarrow> [take n buffer])"

lemma waiting_simps [simp]:
  "waiting_packet buffer None = []" "waiting_packet (fill bs buffer) (Some (length bs)) = [bs]"
  by (simp_all add: waiting_packet_def fill_def)

definition accounts :: "('d, 'g) tun_state \<Rightarrow> packet_event list \<Rightarrow> ('d, 'g) tun_state \<Rightarrow> bool" where
  "accounts st events st' \<longleftrightarrow>
     waiting_packet (tu_ingress st) (tu_ingress_len st) @ from_tun events = to_port events @ waiting_packet (tu_ingress st') (tu_ingress_len st') \<and>
     waiting_packet (tu_egress st) (tu_egress_len st) @ from_port events = to_tun events @ waiting_packet (tu_egress st') (tu_egress_len st')"

lemma accounts_refl [simp]: "accounts st [] st"
  by (simp add: accounts_def)

lemma accounts_trans: "accounts a xs b \<Longrightarrow> accounts b ys c \<Longrightarrow> accounts a (xs @ ys) c"
  by (auto simp: accounts_def) (metis append.assoc)+

lemma send_ingress_accounts: "send_ingress io k st = (failed, st', events) \<Longrightarrow> accounts st events st'"
  by (auto simp: send_ingress_def accounts_def waiting_packet_def Let_def split: option.splits datagram_send.splits)

lemma read_ingress_accounts:
  assumes "read_ingress io st = (failed, st', events)"
  shows "accounts st events st'"
proof (cases "\<exists>bs. tu_ingress_len st = None \<and> ti_read io (length (tu_ingress st)) = Read_Data bs \<and> bs \<noteq> []")
  case True
  then obtain bs where bs: "tu_ingress_len st = None" "ti_read io (length (tu_ingress st)) = Read_Data bs" "bs \<noteq> []" by blast
  let ?st = "st\<lparr>tu_ingress := fill bs (tu_ingress st), tu_ingress_len := Some (length bs)\<rparr>"
  obtain f st1 ev where s: "send_ingress io 1 ?st = (f, st1, ev)" by (metis prod_cases3)
  have "accounts st [From_Tun bs] ?st" using bs(1) by (simp add: accounts_def)
  from accounts_trans [OF this send_ingress_accounts [OF s]] assms bs s show ?thesis by (simp add: read_ingress_def)
next
  case False
  with assms have "st' = st \<and> events = []" by (auto simp: read_ingress_def split: if_splits io_read.splits)
  then show ?thesis by simp
qed

lemma recv_egress_accounts: "recv_egress io st = (failed, st', events) \<Longrightarrow> accounts st events st'"
  by (auto simp: recv_egress_def accounts_def split: if_splits datagram_recv.splits)

lemma write_egress_accounts: "write_egress io st = (failed, st', events) \<Longrightarrow> accounts st events st'"
  by (auto simp: write_egress_def accounts_def waiting_packet_def Let_def split: option.splits io_write.splits if_splits)

lemma tun_steps_accounts:
  "(\<And>f failed st st' events. f \<in> set fs \<Longrightarrow> f st = (failed, st', events) \<Longrightarrow> accounts st events st') \<Longrightarrow>
     tun_steps fs st = (s, st', events) \<Longrightarrow> accounts st events st'"
proof (induction fs arbitrary: st s st' events)
  case (Cons f fs)
  obtain failed st1 ev where f: "f st = (failed, st1, ev)" by (metis prod_cases3)
  have one: "accounts st ev st1" using Cons.prems(1) [of f] f by simp
  show ?case
  proof (cases failed)
    case True
    with Cons.prems(2) f one show ?thesis by simp
  next
    case False
    obtain s2 st2 ev2 where r: "tun_steps fs st1 = (s2, st2, ev2)" by (metis prod_cases3)
    from Cons.IH [OF _ r] Cons.prems(1) have "accounts st1 ev2 st2" by (meson list.set_intros(2))
    from accounts_trans [OF one this] Cons.prems(2) f r False show ?thesis by simp
  qed
qed simp

lemma tun_poll_accounts:
  assumes "tun_poll_state io st = (s, st', events)"
  shows "accounts st events st'"
proof (cases "tu_packet_port st = None")
  case False
  with assms have "tun_steps [send_ingress io 0, read_ingress io, recv_egress io, write_egress io] st = (s, st', events)"
    by (simp add: tun_poll_state_def)
  then show ?thesis
    by (rule tun_steps_accounts [rotated])
      (auto dest: send_ingress_accounts read_ingress_accounts recv_egress_accounts write_egress_accounts)
qed (use assms in \<open>simp add: tun_poll_state_def\<close>)

fun tun_polls :: "tun_io list \<Rightarrow> ('d, 'g) tun_state \<Rightarrow> ('d, 'g) tun_state \<times> packet_event list" where
  "tun_polls [] st = (st, [])"
| "tun_polls (io # ios) st = (case tun_poll_state io st of (_, st1, events) \<Rightarrow> case tun_polls ios st1 of
     (st2, events') \<Rightarrow> (st2, events @ events'))"

lemma tun_polls_accounts: "tun_polls ios st = (st', events) \<Longrightarrow> accounts st events st'"
proof (induction ios arbitrary: st st' events)
  case (Cons io ios)
  obtain s st1 ev where p: "tun_poll_state io st = (s, st1, ev)" by (metis prod_cases3)
  obtain st2 ev2 where r: "tun_polls ios st1 = (st2, ev2)" by force
  from Cons.prems p r have "st' = st2" "events = ev @ ev2" by auto
  with accounts_trans [OF tun_poll_accounts [OF p] Cons.IH [OF r]] show ?case by simp
qed simp

text \<open>C25. The TUN adapter neither loses, duplicates nor reorders packets. From a fresh instance, after any number of
  polls with any answers of the device and of the packet port, errors included, the packets read from the
  device are those handed to the port followed by at most one that waits in the buffer, and the packets
  received from the port are those written to the device followed by at most one that waits.\<close>

theorem tun_packets_in_order:
  assumes "tu_ingress_len st = None" "tu_egress_len st = None" "tun_polls ios st = (st', events)"
  shows "from_tun events = to_port events @ waiting_packet (tu_ingress st') (tu_ingress_len st') \<and>
    from_port events = to_tun events @ waiting_packet (tu_egress st') (tu_egress_len st')"
  using tun_polls_accounts [OF assms(3)] assms(1,2) by (simp add: accounts_def)

definition example_tun_io :: "datagram_send \<Rightarrow> io_write \<Rightarrow> tun_io" where
  "example_tun_io sent written = \<lparr>ti_send = \<lambda>_ _. sent, ti_read = \<lambda>_. Read_Data [1, 2], ti_recv = \<lambda>_. Datagram [3], ti_write = \<lambda>_. written\<rparr>"

definition example_tun :: "(nat, nat) tun_state" where
  "example_tun = \<lparr>tu_tun = 0, tu_packet_port = Some 0, tu_ingress = [0, 0, 0], tu_ingress_len = None, tu_egress = [0, 0, 0], tu_egress_len = None\<rparr>"

theorem tun_packets_in_order_witness:
  "\<exists>st events. tun_polls [example_tun_io Send_Pending Write_Error, example_tun_io Datagram_Sent (Write_Count 1)] example_tun = (st, events) \<and>
     from_tun events = [[1, 2], [1, 2]] \<and> from_tun events = to_port events @ waiting_packet (tu_ingress st) (tu_ingress_len st) \<and>
     from_port events = to_tun events @ waiting_packet (tu_egress st) (tu_egress_len st)"
proof -
  obtain st events where r: "tun_polls [example_tun_io Send_Pending Write_Error, example_tun_io Datagram_Sent (Write_Count 1)] example_tun = (st, events)"
    by force
  moreover have "from_tun events = [[1, 2], [1, 2]]"
    using r by (auto simp: example_tun_io_def example_tun_def tun_poll_state_def send_ingress_def read_ingress_def recv_egress_def
        write_egress_def fill_def Let_def)
  ultimately show ?thesis using tun_packets_in_order [OF _ _ r] by (simp add: example_tun_def)
qed

end
