(* ===== verification/Direct_Connect.thy ===== *)
theory Direct_Connect
  imports Carrier_Tcp Socks5_Flow
begin

text \<open>
  The direct adapter (\<^verbatim>\<open>adapter-direct/src/lib.rs\<close>), first part: resolving names, connecting sockets and the worker
  thread that does both. TCP sockets are values of type \<open>'s\<close>, UDP sockets of type \<open>'u\<close>. What the operating
  system answers while the worker handles one request is the record \<open>direct_net\<close>. Instants are nanoseconds.
  A call that waits for a socket may wait forever; its value is then \<open>None\<close>.
\<close>

datatype direct_error =
    De_InvalidConfig | De_InvalidDestination | De_Resource | De_Timeout | De_Stale | De_Stopped | De_NoAddress | De_Denied | De_Io

definition error_status :: "direct_error \<Rightarrow> status" where
  "error_status e = (case e of
     De_Denied \<Rightarrow> STATUS_DENIED
   | De_InvalidConfig \<Rightarrow> STATUS_INVALID | De_InvalidDestination \<Rightarrow> STATUS_INVALID | De_Stale \<Rightarrow> STATUS_INVALID
   | De_Resource \<Rightarrow> STATUS_RESOURCE
   | De_Timeout \<Rightarrow> STATUS_IO | De_Stopped \<Rightarrow> STATUS_IO | De_NoAddress \<Rightarrow> STATUS_IO | De_Io \<Rightarrow> STATUS_IO)"

section \<open>The order of socket addresses\<close>

text \<open>\<open>SocketAddr\<close> is ordered by family, address, port, flow information and scope.\<close>

fun sock_rank :: "socket_addr \<Rightarrow> nat" where
  "sock_rank (Sock_V4 a p) = unat a * 2 ^ 16 + unat p"
| "sock_rank (Sock_V6 a p flowinfo scope) = 2 ^ 48 + ((unat a * 2 ^ 16 + unat p) * 2 ^ 32 + unat flowinfo) * 2 ^ 32 + unat scope"

lemma digits_eq: "x * b + r = y * b + s \<Longrightarrow> r < b \<Longrightarrow> s < b \<Longrightarrow> x = y \<and> r = s" for x y r s b :: nat
  by (metis add.commute div_mult_self3 div_less add_0_left mod_less mod_mult_self3 not_less_zero)

lemma unat_less16: "unat x < 65536" for x :: u16
  using unsigned_less [of x] by simp

lemma unat_less32: "unat x < 4294967296" for x :: u32
  using unsigned_less [of x] by simp

lemma sock_rank_V4: "sock_rank (Sock_V4 a p) < 2 ^ 48"
proof -
  have "unat a * 65536 + unat p < (unat a + 1) * 65536" using unat_less16 [of p] by simp
  also have "\<dots> \<le> 4294967296 * 65536" using unat_less32 [of a] by (intro mult_right_mono) simp_all
  finally show ?thesis by simp
qed

lemma sock_rank_inject: "sock_rank x = sock_rank y \<Longrightarrow> x = y"
proof (cases x; cases y)
  fix a p b q assume xy: "x = Sock_V4 a p" "y = Sock_V4 b q" "sock_rank x = sock_rank y"
  with digits_eq [of "unat a" 65536 "unat p" "unat b" "unat q"] show "x = y"
    by (simp add: unat_less16 word_unat_eq_iff)
next
  fix a p f s b q g t assume xy: "x = Sock_V6 a p f s" "y = Sock_V6 b q g t" "sock_rank x = sock_rank y"
  then have "((unat a * 65536 + unat p) * 4294967296 + unat f) * 4294967296 + unat s =
      ((unat b * 65536 + unat q) * 4294967296 + unat g) * 4294967296 + unat t" by simp
  from digits_eq [OF this unat_less32 unat_less32] have s: "unat s = unat t"
    and r1: "(unat a * 65536 + unat p) * 4294967296 + unat f = (unat b * 65536 + unat q) * 4294967296 + unat g" by simp_all
  from digits_eq [OF r1 unat_less32 unat_less32] have f: "unat f = unat g"
    and r2: "unat a * 65536 + unat p = unat b * 65536 + unat q" by simp_all
  from digits_eq [OF r2 unat_less16 unat_less16] s f show "x = y" by (simp add: xy(1,2) word_unat_eq_iff)
next
  fix a p b q f s assume xy: "x = Sock_V4 a p" "y = Sock_V6 b q f s" "sock_rank x = sock_rank y"
  with sock_rank_V4 [of a p] show "x = y" by simp
next
  fix a p f s b q assume xy: "x = Sock_V6 a p f s" "y = Sock_V4 b q" "sock_rank x = sock_rank y"
  with sock_rank_V4 [of b q] show "x = y" by simp
qed

instantiation socket_addr :: linorder
begin

definition less_eq_socket_addr :: "socket_addr \<Rightarrow> socket_addr \<Rightarrow> bool" where
  "less_eq_socket_addr x y \<longleftrightarrow> sock_rank x \<le> sock_rank y"

definition less_socket_addr :: "socket_addr \<Rightarrow> socket_addr \<Rightarrow> bool" where
  "less_socket_addr x y \<longleftrightarrow> sock_rank x < sock_rank y"

instance
  by standard (auto simp: less_eq_socket_addr_def less_socket_addr_def intro: sock_rank_inject)

end

text \<open>\<open>sort_unstable\<close> and \<open>dedup\<close>.\<close>

definition sort_dedup :: "socket_addr list \<Rightarrow> socket_addr list" where
  "sort_dedup addresses = remdups_adj (sort addresses)"

lemma set_sort_dedup [simp]: "set (sort_dedup addresses) = set addresses"
  by (simp add: sort_dedup_def)

lemma sorted_remdups_adj_strict: "sorted xs \<Longrightarrow> sorted_wrt (<) (remdups_adj xs)" for xs :: "'a::linorder list"
  by (induction xs rule: remdups_adj.induct) (auto simp: less_le)

lemma sort_dedup_strict: "sorted_wrt (<) (sort_dedup addresses)"
  by (simp add: sort_dedup_def sorted_remdups_adj_strict)

section \<open>Connecting\<close>

datatype poll_answer = Poll_Ready | Poll_Timeout | Poll_Interrupted | Poll_Failed

record ('s, 'u) direct_net =
  dn_lookup :: "str \<Rightarrow> u16 \<Rightarrow> socket_addr list option"
  dn_now :: "nat \<Rightarrow> nat"
  dn_instant_max :: nat
  dn_socket :: "bool \<Rightarrow> 's option"
  dn_protect :: "'s \<Rightarrow> bool"
  dn_connect :: "'s \<Rightarrow> sockaddr \<Rightarrow> connect_answer"
  dn_poll :: "'s \<Rightarrow> nat \<Rightarrow> nat \<Rightarrow> poll_answer"
  dn_take_error :: "'s \<Rightarrow> (bool, unit) result"
  dn_udp_bind :: "bool \<Rightarrow> 'u option"
  dn_udp_protect :: "'u \<Rightarrow> bool"
  dn_udp_connect :: "'u \<Rightarrow> socket_addr \<Rightarrow> bool"

text \<open>\<open>Answered\<close> is an answer of \<open>resolve\<close> for an operation, \<open>Opened\<close> a connection request of \<open>open\<close>, \<open>Dialed\<close> an attempt
  to connect a socket, TCP or UDP.\<close>

datatype direct_event = Answered u64 "socket_addr list" status | Opened u64 "socket_addr list" | Dialed socket_addr

definition poll_timeout_ms :: "nat \<Rightarrow> nat" where
  "poll_timeout_ms remaining = (let ms = max (remaining div 1000000) 1 in if ms \<le> 2147483647 then ms else 2147483647)"

partial_function (option) wait_loop :: "('s, 'u) direct_net \<Rightarrow> 's \<Rightarrow> nat \<Rightarrow> nat \<Rightarrow> (unit, unit) result option" where
  "wait_loop net s deadline k =
     (if deadline - dn_now net k = 0 then Some (Err ())
      else if dn_poll net s k (poll_timeout_ms (deadline - dn_now net k)) = Poll_Interrupted then wait_loop net s deadline (Suc k)
      else Some (if dn_poll net s k (poll_timeout_ms (deadline - dn_now net k)) = Poll_Ready then Ok () else Err ()))"

declare wait_loop.simps [code]

definition wait_connected :: "('s, 'u) direct_net \<Rightarrow> 's \<Rightarrow> nat \<Rightarrow> (unit, unit) result option" where
  "wait_connected net s timeout =
     (let deadline = dn_now net 0 + timeout in
      if dn_instant_max net < deadline then Some (Err ()) else wait_loop net s deadline 1)"

text \<open>The loop ends once the clock has reached the deadline, and earlier when the system call is not interrupted.\<close>

lemma wait_loop_ends:
  assumes "deadline \<le> dn_now net (k + n) \<or> dn_poll net s (k + n) (poll_timeout_ms (deadline - dn_now net (k + n))) \<noteq> Poll_Interrupted"
  shows "\<exists>r. wait_loop net s deadline k = Some r"
  using assms
proof (induction n arbitrary: k)
  case 0
  then show ?case by (subst wait_loop.simps) auto
next
  case (Suc n)
  from Suc.IH [of "Suc k"] Suc.prems show ?case by (subst wait_loop.simps) auto
qed

definition direct_connected :: "('s, 'u) direct_net \<Rightarrow> 's \<Rightarrow> ('s, unit) result" where
  "direct_connected net s = (case dn_take_error net s of Err e \<Rightarrow> Err e | Ok True \<Rightarrow> Err () | Ok False \<Rightarrow> Ok s)"

text \<open>Android and Linux.\<close>

definition connect_tcp :: "('s, 'u) direct_net \<Rightarrow> socket_addr \<Rightarrow> nat \<Rightarrow> (('s, unit) result \<times> direct_event list) option" where
  "connect_tcp net address timeout = (case dn_socket net (is_ipv4 address) of
     None \<Rightarrow> Some (Err (), [])
   | Some s \<Rightarrow>
       if \<not> dn_protect net s then Some (Err (), [])
       else (case dn_connect net s (sockaddr_of address) of
         Connect_Refused \<Rightarrow> Some (Err (), [Dialed address])
       | Connect_In_Progress \<Rightarrow> (case wait_connected net s timeout of
           None \<Rightarrow> None
         | Some (Err e) \<Rightarrow> Some (Err e, [Dialed address])
         | Some (Ok _) \<Rightarrow> Some (direct_connected net s, [Dialed address]))
       | Connect_Done \<Rightarrow> Some (direct_connected net s, [Dialed address])))"

definition connect_udp :: "('s, 'u) direct_net \<Rightarrow> socket_addr \<Rightarrow> ('u, unit) result \<times> direct_event list" where
  "connect_udp net address = (case dn_udp_bind net (is_ipv4 address) of
     None \<Rightarrow> (Err (), [])
   | Some u \<Rightarrow>
       if \<not> dn_udp_protect net u then (Err (), [])
       else (if dn_udp_connect net u address then Ok u else Err (), [Dialed address]))"

datatype ('s, 'u) direct_endpoint = Tcp_Endpoint 's | Udp_Endpoint 'u

definition connect_address ::
  "('s, 'u) direct_net \<Rightarrow> flow_kind \<Rightarrow> socket_addr \<Rightarrow> nat \<Rightarrow> ((('s, 'u) direct_endpoint, unit) result \<times> direct_event list) option" where
  "connect_address net kind address timeout = (case kind of
     FLOW_TCP \<Rightarrow> (case connect_tcp net address timeout of
       None \<Rightarrow> None | Some (Ok s, ev) \<Rightarrow> Some (Ok (Tcp_Endpoint s), ev) | Some (Err e, ev) \<Rightarrow> Some (Err e, ev))
   | _ \<Rightarrow> (case connect_udp net address of (Ok u, ev) \<Rightarrow> Some (Ok (Udp_Endpoint u), ev) | (Err e, ev) \<Rightarrow> Some (Err e, ev)))"

text \<open>The addresses in order until one connects.\<close>

fun connect_each ::
  "('s, 'u) direct_net \<Rightarrow> flow_kind \<Rightarrow> nat \<Rightarrow> direct_error \<Rightarrow> socket_addr list \<Rightarrow>
     ((('s, 'u) direct_endpoint, direct_error) result \<times> direct_event list) option" where
  "connect_each net kind timeout last_error [] = Some (Err last_error, [])"
| "connect_each net kind timeout last_error (address # addresses) =
     (if kind \<noteq> FLOW_TCP \<and> kind \<noteq> FLOW_UDP then Some (Err De_InvalidDestination, [])
      else (case connect_address net kind address timeout of
        None \<Rightarrow> None
      | Some (Ok e, ev) \<Rightarrow> Some (Ok e, ev)
      | Some (Err _, ev) \<Rightarrow> map_option (\<lambda>(r, ev'). (r, ev @ ev')) (connect_each net kind timeout De_Io addresses)))"

definition connect_addresses ::
  "('s, 'u) direct_net \<Rightarrow> flow_kind \<Rightarrow> socket_addr list \<Rightarrow> nat \<Rightarrow>
     ((('s, 'u) direct_endpoint, direct_error) result \<times> direct_event list) option" where
  "connect_addresses net kind addresses timeout =
     (if addresses = [] then Some (Err De_NoAddress, []) else connect_each net kind timeout De_NoAddress addresses)"

text \<open>Only the addresses given are dialed.\<close>

lemma connect_address_dials: "connect_address net kind a timeout = Some (r, ev) \<Longrightarrow> set ev \<subseteq> {Dialed a}"
  by (auto simp: connect_address_def connect_tcp_def connect_udp_def
      split: flow_kind.splits option.splits result.splits connect_answer.splits if_splits prod.splits)

lemma connect_each_dials: "connect_each net kind timeout e addresses = Some (r, ev) \<Longrightarrow> set ev \<subseteq> Dialed ` set addresses"
proof (induction addresses arbitrary: e r ev)
  case (Cons a addresses)
  show ?case
  proof (cases "kind \<noteq> FLOW_TCP \<and> kind \<noteq> FLOW_UDP")
    case False
    with Cons.prems obtain q ev1 where c: "connect_address net kind a timeout = Some (q, ev1)"
      by (auto split: option.splits)
    note d = connect_address_dials [OF c]
    show ?thesis
    proof (cases q)
      case (Err x)
      with Cons.prems False c obtain ev2 where e: "connect_each net kind timeout De_Io addresses = Some (r, ev2)" "ev = ev1 @ ev2"
        by auto
      from Cons.IH [OF e(1)] d e(2) show ?thesis by auto
    qed (use Cons.prems False c d in auto)
  qed (use Cons.prems in simp)
qed simp

lemma connect_addresses_dials: "connect_addresses net kind addresses timeout = Some (r, ev) \<Longrightarrow> set ev \<subseteq> Dialed ` set addresses"
  by (auto simp: connect_addresses_def split: if_splits dest: connect_each_dials)

section \<open>Resolving\<close>

definition resolve_destination :: "('s, 'u) direct_net \<Rightarrow> str \<Rightarrow> u16 \<Rightarrow> nat \<Rightarrow> (socket_addr list, direct_error) result" where
  "resolve_destination net domain port max_addresses = (case dn_lookup net domain port of
     None \<Rightarrow> Err De_Io
   | Some found \<Rightarrow>
       let addresses = sort_dedup (take (max_addresses + 1) found) in
       if addresses = [] then Err De_NoAddress
       else if max_addresses < length addresses then Err De_Resource else Ok addresses)"

lemma resolve_destination_Ok:
  assumes "resolve_destination net domain port n = Ok addresses"
  shows "addresses \<noteq> [] \<and> length addresses \<le> n \<and> sorted_wrt (<) addresses \<and> (\<exists>found. dn_lookup net domain port = Some found \<and> set addresses \<subseteq> set found)"
  using assms sort_dedup_strict [of "take (n + 1) _"]
  by (auto simp: resolve_destination_def Let_def split: option.splits if_splits dest: in_set_takeD)

section \<open>The blocking resolver\<close>

text \<open>The worker of \<open>SystemResolver\<close> answers a request with the generation of the request and the result of the lookup;
  \<open>received\<close> is what arrives within the timeout.\<close>

record resolver_response =
  rr_generation :: u64
  rr_result :: "(socket_addr list, unit) result"

definition resolver_worker :: "(str \<Rightarrow> u16 \<Rightarrow> socket_addr list option) \<Rightarrow> u64 \<Rightarrow> str \<Rightarrow> u16 \<Rightarrow> resolver_response" where
  "resolver_worker lookup generation domain port = \<lparr>rr_generation = generation, rr_result = ok_or (lookup domain port) ()\<rparr>"

record system_resolver =
  sr_sender :: bool
  sr_generation :: u64

definition resolver_new :: "bool \<Rightarrow> nat \<Rightarrow> (system_resolver, direct_error) result" where
  "resolver_new spawned queue_capacity =
     (if queue_capacity = 0 then Err De_InvalidConfig
      else if \<not> spawned then Err De_Io else Ok \<lparr>sr_sender = True, sr_generation = 1\<rparr>)"

definition resolver_resolve ::
  "bool \<Rightarrow> (u64 \<Rightarrow> resolver_response option) \<Rightarrow> str \<Rightarrow> u16 \<Rightarrow> nat \<Rightarrow> system_resolver \<Rightarrow> (socket_addr list, direct_error) result \<times> system_resolver" where
  "resolver_resolve accepted received domain port timeout r =
     (if domain = [] \<or> port = 0 \<or> timeout = 0 then (Err De_InvalidDestination, r)
      else let generation = sr_generation r; r1 = r\<lparr>sr_generation := generation + 1\<rparr> in
        (if generation = 0 then Err De_Resource
         else if \<not> sr_sender r then Err De_Stopped
         else if \<not> accepted then Err De_Resource
         else (case received generation of
           None \<Rightarrow> Err De_Timeout
         | Some response \<Rightarrow>
             if rr_generation response \<noteq> generation then Err De_Stale
             else (case rr_result response of
               Err _ \<Rightarrow> Err De_Io
             | Ok found \<Rightarrow> let addresses = sort_dedup found in if addresses = [] then Err De_NoAddress else Ok addresses)), r1))"

definition connect_domain ::
  "('s, 'u) direct_net \<Rightarrow> bool \<Rightarrow> (u64 \<Rightarrow> resolver_response option) \<Rightarrow> str \<Rightarrow> u16 \<Rightarrow> nat \<Rightarrow> (ip_addr \<Rightarrow> bool) \<Rightarrow> system_resolver \<Rightarrow>
     ((('s, 'u) direct_endpoint, direct_error) result \<times> direct_event list) option" where
  "connect_domain net accepted received domain port timeout allowed r = (case fst (resolver_resolve accepted received domain port timeout r) of
     Err e \<Rightarrow> Some (Err e, [])
   | Ok addresses \<Rightarrow>
       if \<not> list_all (\<lambda>a. allowed (sock_ip a)) addresses then Some (Err De_Denied, [])
       else connect_each net FLOW_TCP timeout De_NoAddress addresses)"

text \<open>No address is dialed unless all addresses of the name are allowed.\<close>

lemma connect_domain_allowed:
  assumes "connect_domain net accepted received domain port timeout allowed r = Some (q, ev)" "Dialed a \<in> set ev"
  shows "allowed (sock_ip a)"
  using assms connect_each_dials [of net FLOW_TCP timeout De_NoAddress]
  by (fastforce simp: connect_domain_def list_all_iff split: result.splits if_splits)

section \<open>The worker thread\<close>

datatype direct_request =
    Rq_Resolve str u16 nat
  | Rq_Connect flow_kind "socket_addr list" nat

text \<open>A request in the channel has a number, under which its response channel is known, and the wake handle of its
  sender.\<close>

type_synonym worker_job = "nat \<times> direct_request \<times> wake_slot"

record ('s, 'u) direct_worker =
  dw_alive :: bool
  dw_capacity :: nat
  dw_queue :: "worker_job list"
  dw_running :: "worker_job option"
  dw_next :: nat
  dw_resolutions :: "(nat, (socket_addr list, direct_error) result) hashmap"
  dw_endpoints :: "(nat, (('s, 'u) direct_endpoint, direct_error) result) hashmap"

definition direct_worker_new :: "nat \<Rightarrow> ('s, 'u) direct_worker" where
  "direct_worker_new capacity = \<lparr>dw_alive = True, dw_capacity = capacity, dw_queue = [], dw_running = None, dw_next = 0,
     dw_resolutions = [], dw_endpoints = []\<rparr>"

datatype 'a channel_answer = Got 'a | Chan_Empty | Chan_Disconnected

definition chan_recv :: "bool \<Rightarrow> (nat, 'a) hashmap \<Rightarrow> nat \<Rightarrow> 'a channel_answer" where
  "chan_recv alive replies token = (case hm_get replies token of
     Some a \<Rightarrow> Got a | None \<Rightarrow> if alive then Chan_Empty else Chan_Disconnected)"

datatype send_answer = Sent nat | Send_Full | Send_Disconnected

definition chan_send :: "direct_request \<Rightarrow> wake_slot \<Rightarrow> ('s, 'u) direct_worker \<Rightarrow> send_answer \<times> ('s, 'u) direct_worker" where
  "chan_send request wake w =
     (if \<not> dw_alive w then (Send_Disconnected, w)
      else if dw_capacity w \<le> length (dw_queue w) then (Send_Full, w)
      else (Sent (dw_next w), w\<lparr>dw_queue := dw_queue w @ [(dw_next w, request, wake)], dw_next := Suc (dw_next w)\<rparr>))"

text \<open>The wake handle of a request is retained when the request is made, woken when it is answered, and released when it
  is dropped.\<close>

definition retain_wake :: "bool \<Rightarrow> wake_handle \<Rightarrow> (wake_slot, status) result \<times> wake_call list" where
  "retain_wake granted w =
     (if wk_retain w \<and> wk_release w then (if granted then (Ok (Some w), [Retained (wk_context w)]) else (Err STATUS_INTERNAL, []))
      else if \<not> wk_retain w \<and> \<not> wk_release w then (Ok None, []) else (Err STATUS_INVALID, []))"

definition release_wake :: "wake_slot \<Rightarrow> wake_call list" where
  "release_wake s = (case s of Some w \<Rightarrow> if wk_release w then [Released (wk_context w)] else [] | None \<Rightarrow> [])"

definition worker_wake :: "wake_slot \<Rightarrow> wake_call list" where
  "worker_wake s = (case s of Some w \<Rightarrow> if wk_wake w then [Woken (wk_context w)] else [] | None \<Rightarrow> [])"

definition worker_take :: "('s, 'u) direct_worker \<Rightarrow> ('s, 'u) direct_worker" where
  "worker_take w = (case (dw_alive w, dw_running w, dw_queue w) of
     (True, None, job # jobs) \<Rightarrow> w\<lparr>dw_running := Some job, dw_queue := jobs\<rparr> | _ \<Rightarrow> w)"

text \<open>The worker answers the request it has taken; \<open>None\<close> when it waits forever.\<close>

definition worker_finish ::
  "('s, 'u) direct_net \<Rightarrow> ('s, 'u) direct_worker \<Rightarrow> (('s, 'u) direct_worker \<times> wake_call list \<times> direct_event list) option" where
  "worker_finish net w = (case dw_running w of
     None \<Rightarrow> Some (w, [], [])
   | Some (token, Rq_Resolve domain port n, wake) \<Rightarrow>
       Some (w\<lparr>dw_running := None, dw_resolutions := hm_insert token (resolve_destination net domain port n) (dw_resolutions w)\<rparr>,
         worker_wake wake @ release_wake wake, [])
   | Some (token, Rq_Connect kind addresses timeout, wake) \<Rightarrow>
       map_option (\<lambda>(r, ev). (w\<lparr>dw_running := None, dw_endpoints := hm_insert token r (dw_endpoints w)\<rparr>,
         worker_wake wake @ release_wake wake, ev)) (connect_addresses net kind addresses timeout))"

definition worker_jobs :: "('s, 'u) direct_worker \<Rightarrow> worker_job list" where
  "worker_jobs w = (case dw_running w of None \<Rightarrow> [] | Some job \<Rightarrow> [job]) @ dw_queue w"

text \<open>A worker that panics drops its requests.\<close>

definition worker_panic :: "('s, 'u) direct_worker \<Rightarrow> ('s, 'u) direct_worker \<times> wake_call list" where
  "worker_panic w = (w\<lparr>dw_alive := False, dw_running := None, dw_queue := []\<rparr>, concat (map (\<lambda>(_, _, wake). release_wake wake) (worker_jobs w)))"

end
