(* ===== verification/Direct_Adapter.thy ===== *)
theory Direct_Adapter
  imports Direct_Connect Socks5_State
begin

text \<open>
  The direct adapter (\<^verbatim>\<open>adapter-direct/src/lib.rs\<close>), second part: options, flows, the state of an instance and the
  calls of the host. The worker thread of an instance is part of its state. Every call returns the calls on
  wake handles and the events it caused. Stack streams are values of type \<open>'b\<close>, stack datagram ports of type
  \<open>'g\<close>, and the pumps of the module kit of types \<open>'p\<close> and \<open>'q\<close>.
\<close>

section \<open>Options\<close>

datatype dns_mode = Dns_System | Dns_Reject_Domains

record direct_options =
  do_dns_mode :: dns_mode
  do_max_pending_opens :: nat
  do_max_resolved_addresses :: nat
  do_resolve_timeout_ms :: u64
  do_connect_timeout_ms :: u64

text \<open>\<open>address_limit\<close> is the constant \<open>MAX_RESOLVED_ADDRESSES\<close> of the module kit.\<close>

definition direct_parse_options :: "nat \<Rightarrow> (str \<Rightarrow> (direct_options, str) result) \<Rightarrow> bytes \<Rightarrow> (direct_options, str) result" where
  "direct_parse_options address_limit toml config = (case from_utf8 config of
     None \<Rightarrow> Err (str_lit ''config is not UTF-8'')
   | Some s \<Rightarrow> try_bind (toml s) (\<lambda>opts.
       if do_max_pending_opens opts = 0 \<or> do_max_resolved_addresses opts = 0 \<or> address_limit < do_max_resolved_addresses opts \<or>
          do_resolve_timeout_ms opts = 0 \<or> do_connect_timeout_ms opts = 0
       then Err (str_lit ''direct adapter options are inconsistent'') else Ok opts))"

definition from_millis :: "u64 \<Rightarrow> nat" where
  "from_millis ms = unat ms * 1000000"

section \<open>Destinations\<close>

datatype direct_destination = Dest_Ip socket_addr | Dest_Domain str u16

definition owned_destination :: "flow_metadata \<Rightarrow> (direct_destination, status) result" where
  "owned_destination md = (case fm_address_type md of
     ADDRESS_IPV4 \<Rightarrow> if length (fm_address md) = 4 then Ok (Dest_Ip (sock_new (V4 (word_of_octets (fm_address md))) (fm_port md))) else Err STATUS_INVALID
   | ADDRESS_IPV6 \<Rightarrow> if length (fm_address md) = 16 then Ok (Dest_Ip (sock_new (V6 (word_of_octets (fm_address md))) (fm_port md))) else Err STATUS_INVALID
   | ADDRESS_DOMAIN \<Rightarrow> (case from_utf8 (fm_address md) of None \<Rightarrow> Err STATUS_INVALID | Some domain \<Rightarrow> Ok (Dest_Domain domain (fm_port md)))
   | ADDRESS_OTHER _ \<Rightarrow> Err STATUS_INVALID)"

text \<open>The encoding of the module kit and the output buffer of the host.\<close>

record resolved_output =
  ro_size :: "ip_addr list \<Rightarrow> nat option"
  ro_encode :: "ip_addr list \<Rightarrow> nat \<Rightarrow> bytes option"
  ro_write :: "bytes \<Rightarrow> status"

definition write_resolved_addresses :: "resolved_output \<Rightarrow> socket_addr list \<Rightarrow> status" where
  "write_resolved_addresses out addresses =
     (let ips = map sock_ip addresses in
      case ro_size out ips of
        None \<Rightarrow> STATUS_INTERNAL
      | Some n \<Rightarrow> (case ro_encode out ips n of None \<Rightarrow> STATUS_INTERNAL | Some encoded \<Rightarrow> ro_write out encoded))"

section \<open>Datagram sockets\<close>

text \<open>A datagram stays in the buffer until the caller's buffer is large enough. The first argument of the operations is the
  answer of the socket, which cuts a datagram that is longer than the buffer.\<close>

record 'u udp_io =
  ud_socket :: 'u
  ud_buffer :: bytes
  ud_pending :: "nat option"

datatype udp_recv_answer = Recv_Datagram bytes | Recv_Too_Small nat | Recv_Error_Answer | Recv_Wait

definition udp_take :: "nat \<Rightarrow> nat \<Rightarrow> 'u udp_io \<Rightarrow> udp_recv_answer \<times> 'u udp_io" where
  "udp_take n len b =
     (if n < len then (Recv_Too_Small len, b) else (Recv_Datagram (take len (ud_buffer b)), b\<lparr>ud_pending := None\<rparr>))"

definition udp_poll_recv :: "io_read \<Rightarrow> nat \<Rightarrow> 'u udp_io \<Rightarrow> udp_recv_answer \<times> 'u udp_io" where
  "udp_poll_recv received n b = (case ud_pending b of
     Some len \<Rightarrow> udp_take n len b
   | None \<Rightarrow> (case received of
       Read_Data datagram \<Rightarrow>
         let bs = take (length (ud_buffer b)) datagram in
         udp_take n (length bs) (b\<lparr>ud_buffer := bs @ drop (length bs) (ud_buffer b), ud_pending := Some (length bs)\<rparr>)
     | Read_Pending \<Rightarrow> (Recv_Wait, b)
     | Read_Error \<Rightarrow> (Recv_Error_Answer, b)))"

definition udp_poll_send :: "io_write \<Rightarrow> bytes \<Rightarrow> datagram_send" where
  "udp_poll_send answer datagram = (case answer of
     Write_Count n \<Rightarrow> if n = length datagram then Datagram_Sent else Send_Failed
   | Write_Pending \<Rightarrow> Send_Pending
   | Write_Error \<Rightarrow> Send_Failed)"

text \<open>A datagram that did not fit is delivered by a later call with enough room, whatever the socket holds by then.\<close>

lemma too_small_keeps_datagram:
  assumes "udp_poll_recv (Read_Data datagram) n b = (Recv_Too_Small len, b')" "ud_pending b = None"
    "length datagram \<le> length (ud_buffer b)" "len \<le> n'"
  shows "fst (udp_poll_recv received n' b') = Recv_Datagram datagram"
  using assms by (auto simp: udp_poll_recv_def udp_take_def Let_def split: if_splits)

section \<open>Flows\<close>

record ('b, 's, 'p) direct_flow =
  dfl_stack :: 'b
  dfl_endpoint :: 's
  dfl_upload :: 'p
  dfl_download :: 'p

record ('b, 'g, 's, 'u, 'p, 'q) direct_io =
  di_set_nodelay :: "'s \<Rightarrow> bool"
  di_set_nonblocking :: "'s \<Rightarrow> bool"
  di_udp_nonblocking :: "'u \<Rightarrow> bool"
  di_pump_new :: "nat \<Rightarrow> 'p option"
  di_upload :: "'p \<Rightarrow> 'b \<Rightarrow> 's \<Rightarrow> nat \<Rightarrow> pump_result \<times> 'p"
  di_download :: "'p \<Rightarrow> 's \<Rightarrow> 'b \<Rightarrow> nat \<Rightarrow> pump_result \<times> 'p"
  di_datagram_new :: "nat \<Rightarrow> 'q option"
  di_datagram_upload :: "'q \<Rightarrow> 'g \<Rightarrow> 'u udp_io \<Rightarrow> nat \<Rightarrow> pump_result \<times> 'q \<times> 'u udp_io"
  di_datagram_download :: "'q \<Rightarrow> 'u udp_io \<Rightarrow> 'g \<Rightarrow> nat \<Rightarrow> pump_result \<times> 'q \<times> 'u udp_io"

definition DIRECT_UDP_PAYLOAD :: nat where
  "DIRECT_UDP_PAYLOAD = 65507"

definition STREAM_WORK_BYTES :: nat where
  "STREAM_WORK_BYTES = STREAM_BUFFER_BYTES * 4"

definition direct_flow_new :: "('b, 'g, 's, 'u, 'p, 'q) direct_io \<Rightarrow> 'b \<Rightarrow> 's \<Rightarrow> (('b, 's, 'p) direct_flow, direct_error) result" where
  "direct_flow_new io stack endpoint =
     (if \<not> di_set_nodelay io endpoint then Err De_Io
      else if \<not> di_set_nonblocking io endpoint then Err De_Io
      else try_bind (ok_or (di_pump_new io STREAM_BUFFER_BYTES) De_Resource) (\<lambda>up.
        try_bind (ok_or (di_pump_new io STREAM_BUFFER_BYTES) De_Resource) (\<lambda>down.
          Ok \<lparr>dfl_stack = stack, dfl_endpoint = endpoint, dfl_upload = up, dfl_download = down\<rparr>)))"

definition direct_flow_poll ::
  "('b, 'g, 's, 'u, 'p, 'q) direct_io \<Rightarrow> ('b, 's, 'p) direct_flow \<Rightarrow> (bool, unit) poll \<times> ('b, 's, 'p) direct_flow \<times> unit" where
  "direct_flow_poll io f = (case di_upload io (dfl_upload f) (dfl_stack f) (dfl_endpoint f) STREAM_WORK_BYTES of
     (up, u) \<Rightarrow> case di_download io (dfl_download f) (dfl_endpoint f) (dfl_stack f) STREAM_WORK_BYTES of
     (down, d) \<Rightarrow> (pumps_result up down, f\<lparr>dfl_upload := u, dfl_download := d\<rparr>, ()))"

definition direct_datagram_new :: "('b, 'g, 's, 'u, 'p, 'q) direct_io \<Rightarrow> 'g \<Rightarrow> 'u \<Rightarrow> (('g, 'u udp_io, 'q) direct_flow, direct_error) result" where
  "direct_datagram_new io stack socket =
     (if \<not> di_udp_nonblocking io socket then Err De_Io
      else try_bind (ok_or (di_datagram_new io DIRECT_UDP_PAYLOAD) De_Resource) (\<lambda>up.
        try_bind (ok_or (di_datagram_new io DIRECT_UDP_PAYLOAD) De_Resource) (\<lambda>down.
          Ok \<lparr>dfl_stack = stack, dfl_endpoint = \<lparr>ud_socket = socket, ud_buffer = replicate DIRECT_UDP_PAYLOAD 0, ud_pending = None\<rparr>, dfl_upload = up, dfl_download = down\<rparr>)))"

definition direct_datagram_poll ::
  "('b, 'g, 's, 'u, 'p, 'q) direct_io \<Rightarrow> ('g, 'u udp_io, 'q) direct_flow \<Rightarrow> (bool, unit) poll \<times> ('g, 'u udp_io, 'q) direct_flow \<times> unit" where
  "direct_datagram_poll io f = (case di_datagram_upload io (dfl_upload f) (dfl_stack f) (dfl_endpoint f) DIRECT_UDP_PAYLOAD of
     (up, u, e1) \<Rightarrow> case di_datagram_download io (dfl_download f) e1 (dfl_stack f) DIRECT_UDP_PAYLOAD of
     (down, d, e2) \<Rightarrow> (pumps_result up down, f\<lparr>dfl_upload := u, dfl_download := d, dfl_endpoint := e2\<rparr>, ()))"

section \<open>Instances\<close>

text \<open>The sender of an instance is present until the instance is dropped; the join handle is the worker itself. Requests
  are identified in the channel by number, as the response channels of the pending tables.\<close>

record ('b, 'g, 's, 'u, 'p, 'q) direct_state =
  dst_options :: direct_options
  dst_worker :: "('s, 'u) direct_worker"
  dst_pending_resolutions :: "(u64, nat \<times> nat) hashmap"
  dst_resolved :: "(u64, socket_addr list) hashmap"
  dst_pending :: "(u64, nat) hashmap"
  dst_ready :: "(u64, ('s, 'u) direct_endpoint) hashmap"
  dst_active :: "(u64, ('b, 's, 'p) direct_flow) hashmap"
  dst_active_datagrams :: "(u64, ('g, 'u udp_io, 'q) direct_flow) hashmap"

definition direct_fresh :: "direct_options \<Rightarrow> ('b, 'g, 's, 'u, 'p, 'q) direct_state" where
  "direct_fresh opts = \<lparr>dst_options = opts, dst_worker = direct_worker_new (do_max_pending_opens opts), dst_pending_resolutions = [],
     dst_resolved = [], dst_pending = [], dst_ready = [], dst_active = [], dst_active_datagrams = []\<rparr>"

definition pending_full :: "('b, 'g, 's, 'u, 'p, 'q) direct_state \<Rightarrow> bool" where
  "pending_full st \<longleftrightarrow> do_max_pending_opens (dst_options st) \<le> hm_len (dst_pending st) + hm_len (dst_pending_resolutions st)"

type_synonym ('b, 'g, 's, 'u, 'p, 'q) direct_turn =
  "status \<times> ('b, 'g, 's, 'u, 'p, 'q) direct_state \<times> wake_call list \<times> direct_event list"

text \<open>Storing the addresses of an operation and answering them.\<close>

definition answer_addresses ::
  "resolved_output \<Rightarrow> u64 \<Rightarrow> socket_addr list \<Rightarrow> ('b, 'g, 's, 'u, 'p, 'q) direct_state \<Rightarrow> ('b, 'g, 's, 'u, 'p, 'q) direct_turn" where
  "answer_addresses out op addresses st =
     (let s = write_resolved_addresses out addresses in
      (s, st\<lparr>dst_resolved := hm_insert op addresses (dst_resolved st)\<rparr>, [], [Answered op addresses s]))"

definition resume_resolution ::
  "resolved_output \<Rightarrow> nat \<Rightarrow> u64 \<Rightarrow> nat \<times> nat \<Rightarrow> ('b, 'g, 's, 'u, 'p, 'q) direct_state \<Rightarrow> ('b, 'g, 's, 'u, 'p, 'q) direct_turn" where
  "resume_resolution out now op pending st0 =
     (let st = st0\<lparr>dst_pending_resolutions := hm_remove op (dst_pending_resolutions st0)\<rparr> in
      case chan_recv (dw_alive (dst_worker st)) (dw_resolutions (dst_worker st)) (fst pending) of
        Got (Ok addresses) \<Rightarrow> answer_addresses out op addresses st
      | Got (Err e) \<Rightarrow> (error_status e, st, [], [])
      | Chan_Empty \<Rightarrow>
          if snd pending \<le> now then (STATUS_IO, st, [], [])
          else (STATUS_PENDING, st\<lparr>dst_pending_resolutions := hm_insert op pending (dst_pending_resolutions st)\<rparr>, [], [])
      | Chan_Disconnected \<Rightarrow> (STATUS_IO, st, [], []))"

definition start_resolution ::
  "nat \<Rightarrow> nat \<Rightarrow> u64 \<Rightarrow> str \<Rightarrow> u16 \<Rightarrow> bool \<Rightarrow> wake_handle \<Rightarrow> ('b, 'g, 's, 'u, 'p, 'q) direct_state \<Rightarrow> ('b, 'g, 's, 'u, 'p, 'q) direct_turn" where
  "start_resolution instant_max now op domain port granted wake st = (case retain_wake granted wake of
     (Err s, calls) \<Rightarrow> (s, st, calls, [])
   | (Ok slot, calls) \<Rightarrow>
       let deadline = now + from_millis (do_resolve_timeout_ms (dst_options st)) in
       if instant_max < deadline then (STATUS_INVALID, st, calls @ release_wake slot, [])
       else (case chan_send (Rq_Resolve domain port (do_max_resolved_addresses (dst_options st))) slot (dst_worker st) of
         (Sent token, w) \<Rightarrow>
           (STATUS_PENDING, st\<lparr>dst_worker := w, dst_pending_resolutions := hm_insert op (token, deadline) (dst_pending_resolutions st)\<rparr>, calls, [])
       | (Send_Full, w) \<Rightarrow> (STATUS_RESOURCE, st, calls @ release_wake slot, [])
       | (Send_Disconnected, w) \<Rightarrow> (STATUS_IO, st, calls @ release_wake slot, [])))"

definition new_resolution ::
  "resolved_output \<Rightarrow> nat \<Rightarrow> nat \<Rightarrow> u64 \<Rightarrow> flow_metadata \<Rightarrow> bool \<Rightarrow> wake_handle \<Rightarrow> ('b, 'g, 's, 'u, 'p, 'q) direct_state \<Rightarrow> ('b, 'g, 's, 'u, 'p, 'q) direct_turn" where
  "new_resolution out instant_max now op md granted wake st =
     (if pending_full st then (STATUS_RESOURCE, st, [], [])
      else (case owned_destination md of
        Err s \<Rightarrow> (s, st, [], [])
      | Ok (Dest_Ip address) \<Rightarrow> answer_addresses out op [address] st
      | Ok (Dest_Domain domain port) \<Rightarrow>
          if do_dns_mode (dst_options st) = Dns_Reject_Domains then (STATUS_DENIED, st, [], [])
          else start_resolution instant_max now op domain port granted wake st))"

definition resolve_state ::
  "resolved_output \<Rightarrow> nat \<Rightarrow> nat \<Rightarrow> u64 \<Rightarrow> flow_metadata \<Rightarrow> bool \<Rightarrow> wake_handle \<Rightarrow> ('b, 'g, 's, 'u, 'p, 'q) direct_state \<Rightarrow> ('b, 'g, 's, 'u, 'p, 'q) direct_turn" where
  "resolve_state out instant_max now op md granted wake st = (case hm_get (dst_resolved st) op of
     Some addresses \<Rightarrow> let s = write_resolved_addresses out addresses in (s, st, [], [Answered op addresses s])
   | None \<Rightarrow> (case hm_get (dst_pending_resolutions st) op of
       Some pending \<Rightarrow> resume_resolution out now op pending st
     | None \<Rightarrow> new_resolution out instant_max now op md granted wake st))"

definition resume_open :: "u64 \<Rightarrow> nat \<Rightarrow> ('b, 'g, 's, 'u, 'p, 'q) direct_state \<Rightarrow> ('b, 'g, 's, 'u, 'p, 'q) direct_turn" where
  "resume_open op token st0 =
     (let st = st0\<lparr>dst_pending := hm_remove op (dst_pending st0)\<rparr> in
      case chan_recv (dw_alive (dst_worker st)) (dw_endpoints (dst_worker st)) token of
        Got (Ok endpoint) \<Rightarrow> (STATUS_OK, st\<lparr>dst_ready := hm_insert op endpoint (dst_ready st)\<rparr>, [], [])
      | Got (Err e) \<Rightarrow> (error_status e, st, [], [])
      | Chan_Empty \<Rightarrow> (STATUS_PENDING, st\<lparr>dst_pending := hm_insert op token (dst_pending st)\<rparr>, [], [])
      | Chan_Disconnected \<Rightarrow> (STATUS_IO, st, [], []))"

definition new_open ::
  "u64 \<Rightarrow> flow_kind \<Rightarrow> bool \<Rightarrow> wake_handle \<Rightarrow> ('b, 'g, 's, 'u, 'p, 'q) direct_state \<Rightarrow> ('b, 'g, 's, 'u, 'p, 'q) direct_turn" where
  "new_open op kind granted wake st =
     (if pending_full st then (STATUS_RESOURCE, st, [], [])
      else (case hm_get (dst_resolved st) op of
        None \<Rightarrow> (STATUS_INVALID, st, [], [])
      | Some addresses \<Rightarrow> (case retain_wake granted wake of
          (Err s, calls) \<Rightarrow> (s, st, calls, [])
        | (Ok slot, calls) \<Rightarrow>
            (case chan_send (Rq_Connect kind addresses (from_millis (do_connect_timeout_ms (dst_options st)))) slot (dst_worker st) of
               (Sent token, w) \<Rightarrow>
                 (STATUS_PENDING, st\<lparr>dst_worker := w, dst_pending := hm_insert op token (dst_pending st)\<rparr>, calls, [Opened op addresses])
             | (Send_Full, w) \<Rightarrow> (STATUS_RESOURCE, st, calls @ release_wake slot, [])
             | (Send_Disconnected, w) \<Rightarrow> (STATUS_IO, st, calls @ release_wake slot, [])))))"

text \<open>On \<open>STATUS_OK\<close> the operation is the handle of the flow.\<close>

definition open_state ::
  "u64 \<Rightarrow> flow_kind \<Rightarrow> bool \<Rightarrow> wake_handle \<Rightarrow> ('b, 'g, 's, 'u, 'p, 'q) direct_state \<Rightarrow> ('b, 'g, 's, 'u, 'p, 'q) direct_turn" where
  "open_state op kind granted wake st =
     (if hm_contains (dst_ready st) op then (STATUS_OK, st, [], [])
      else if hm_contains (dst_active st) op then (STATUS_INVALID, st, [], [])
      else (case hm_get (dst_pending st) op of
        Some token \<Rightarrow> resume_open op token st
      | None \<Rightarrow> new_open op kind granted wake st))"

definition attach_state ::
  "('b, 'g, 's, 'u, 'p, 'q) direct_io \<Rightarrow> u64 \<Rightarrow> 'b option \<Rightarrow> ('b, 'g, 's, 'u, 'p, 'q) direct_state \<Rightarrow> status \<times> ('b, 'g, 's, 'u, 'p, 'q) direct_state" where
  "attach_state io flow stack st0 = (case hm_get (dst_ready st0) flow of
     None \<Rightarrow> (STATUS_INVALID, st0)
   | Some endpoint \<Rightarrow>
       let st = st0\<lparr>dst_ready := hm_remove flow (dst_ready st0), dst_resolved := hm_remove flow (dst_resolved st0)\<rparr> in
       (case endpoint of
          Udp_Endpoint u \<Rightarrow> (STATUS_INVALID, st\<lparr>dst_ready := hm_insert flow endpoint (dst_ready st)\<rparr>)
        | Tcp_Endpoint s \<Rightarrow> (case stack of
            None \<Rightarrow> (STATUS_INVALID, st)
          | Some b \<Rightarrow> (case direct_flow_new io b s of
              Err e \<Rightarrow> (error_status e, st)
            | Ok f \<Rightarrow> (STATUS_OK, st\<lparr>dst_active := hm_insert flow f (dst_active st)\<rparr>)))))"

definition port_attach_state ::
  "('b, 'g, 's, 'u, 'p, 'q) direct_io \<Rightarrow> u64 \<Rightarrow> 'g option \<Rightarrow> ('b, 'g, 's, 'u, 'p, 'q) direct_state \<Rightarrow> status \<times> ('b, 'g, 's, 'u, 'p, 'q) direct_state" where
  "port_attach_state io flow stack st0 = (case hm_get (dst_ready st0) flow of
     None \<Rightarrow> (STATUS_INVALID, st0)
   | Some endpoint \<Rightarrow>
       let st = st0\<lparr>dst_ready := hm_remove flow (dst_ready st0), dst_resolved := hm_remove flow (dst_resolved st0)\<rparr> in
       (case endpoint of
          Tcp_Endpoint s \<Rightarrow> (STATUS_INVALID, st\<lparr>dst_ready := hm_insert flow endpoint (dst_ready st)\<rparr>)
        | Udp_Endpoint u \<Rightarrow> (case stack of
            None \<Rightarrow> (STATUS_INVALID, st)
          | Some g \<Rightarrow> (case direct_datagram_new io g u of
              Err e \<Rightarrow> (error_status e, st)
            | Ok f \<Rightarrow> (STATUS_OK, st\<lparr>dst_active_datagrams := hm_insert flow f (dst_active_datagrams st)\<rparr>)))))"

definition close_flow_state :: "u64 \<Rightarrow> ('b, 'g, 's, 'u, 'p, 'q) direct_state \<Rightarrow> status \<times> ('b, 'g, 's, 'u, 'p, 'q) direct_state" where
  "close_flow_state flow st =
     (if hm_contains (dst_pending_resolutions st) flow \<or> hm_contains (dst_resolved st) flow \<or> hm_contains (dst_pending st) flow \<or>
         hm_contains (dst_ready st) flow \<or> hm_contains (dst_active st) flow \<or> hm_contains (dst_active_datagrams st) flow
      then STATUS_OK else STATUS_INVALID,
      st\<lparr>dst_pending_resolutions := hm_remove flow (dst_pending_resolutions st), dst_resolved := hm_remove flow (dst_resolved st),
         dst_pending := hm_remove flow (dst_pending st), dst_ready := hm_remove flow (dst_ready st),
         dst_active := hm_remove flow (dst_active st), dst_active_datagrams := hm_remove flow (dst_active_datagrams st)\<rparr>)"

definition poll_direct :: "('b, 'g, 's, 'u, 'p, 'q) direct_io \<Rightarrow> ('b, 'g, 's, 'u, 'p, 'q) direct_state \<Rightarrow> ('b, 'g, 's, 'u, 'p, 'q) direct_state" where
  "poll_direct io st = st\<lparr>dst_active := poll_table (direct_flow_poll io) (dst_active st),
     dst_active_datagrams := poll_table (direct_datagram_poll io) (dst_active_datagrams st)\<rparr>"

section \<open>Calls of the host\<close>

type_synonym ('b, 'g, 's, 'u, 'p, 'q) direct_states = "(u64, ('b, 'g, 's, 'u, 'p, 'q) direct_state) hashmap"

text \<open>Dropping an instance closes the channel and joins the worker, which first answers every request that is left;
  \<open>nets k\<close> is what the operating system answers for the \<open>k\<close>-th of them. \<open>None\<close> when the join waits forever.\<close>

fun worker_drain ::
  "(nat \<Rightarrow> ('s, 'u) direct_net) \<Rightarrow> nat \<Rightarrow> ('s, 'u) direct_worker \<Rightarrow> (('s, 'u) direct_worker \<times> wake_call list \<times> direct_event list) option" where
  "worker_drain nets 0 w = Some (w, [], [])"
| "worker_drain nets (Suc k) w = (case worker_finish (nets k) (worker_take w) of
     None \<Rightarrow> None
   | Some (w1, calls, ev) \<Rightarrow> map_option (\<lambda>(w2, calls', ev'). (w2, calls @ calls', ev @ ev')) (worker_drain nets k w1))"

definition drop_direct ::
  "(nat \<Rightarrow> ('s, 'u) direct_net) \<Rightarrow> ('b, 'g, 's, 'u, 'p, 'q) direct_state option \<Rightarrow> (wake_call list \<times> direct_event list) option" where
  "drop_direct nets st = (case st of
     None \<Rightarrow> Some ([], [])
   | Some x \<Rightarrow> map_option snd (worker_drain nets (length (worker_jobs (dst_worker x))) (dst_worker x)))"

definition direct_initialize ::
  "nat \<Rightarrow> (str \<Rightarrow> (direct_options, str) result) \<Rightarrow> (unit, status) result \<Rightarrow> bool \<Rightarrow> (nat \<Rightarrow> ('s, 'u) direct_net) \<Rightarrow> u64 \<Rightarrow> bytes \<Rightarrow>
     ('b, 'g, 's, 'u, 'p, 'q) direct_states \<Rightarrow>
     ((unit, status) result \<times> ('b, 'g, 's, 'u, 'p, 'q) direct_states \<times> wake_call list \<times> direct_event list) option" where
  "direct_initialize address_limit toml host spawned nets inst config states = (case direct_parse_options address_limit toml config of
     Err _ \<Rightarrow> Some (Err STATUS_INVALID, states, [], [])
   | Ok opts \<Rightarrow> (case host of
       Err s \<Rightarrow> Some (Err s, states, [], [])
     | Ok _ \<Rightarrow>
         if \<not> spawned then Some (Err STATUS_IO, states, [], [])
         else map_option (\<lambda>(calls, ev). (Ok (), hm_insert inst (direct_fresh opts) states, calls, ev)) (drop_direct nets (hm_get states inst))))"

definition flow_supported :: "flow_metadata \<Rightarrow> bool" where
  "flow_supported md \<longleftrightarrow> fm_kind md = FLOW_TCP \<or> fm_kind md = FLOW_UDP"

text \<open>A call on the state of an instance.\<close>

definition on_direct ::
  "u64 \<Rightarrow> (('b, 'g, 's, 'u, 'p, 'q) direct_state \<Rightarrow> ('b, 'g, 's, 'u, 'p, 'q) direct_turn) \<Rightarrow> ('b, 'g, 's, 'u, 'p, 'q) direct_states \<Rightarrow>
     status \<times> ('b, 'g, 's, 'u, 'p, 'q) direct_states \<times> wake_call list \<times> direct_event list" where
  "on_direct inst f states = (case hm_get states inst of
     None \<Rightarrow> (STATUS_INVALID, states, [], [])
   | Some st \<Rightarrow> (case f st of (s, st', calls, ev) \<Rightarrow> (s, hm_insert inst st' states, calls, ev)))"

definition direct_resolve where
  "direct_resolve out instant_max now known inst op metadata granted wake written_null states =
     (if \<not> known \<or> op = 0 then (STATUS_INVALID, states, [], [])
      else if written_null then (STATUS_INVALID, states, [], [])
      else (case metadata of
        Err s \<Rightarrow> (s, states, [], [])
      | Ok md \<Rightarrow>
          if \<not> flow_supported md then (STATUS_UNSUPPORTED, states, [], [])
          else on_direct inst (resolve_state out instant_max now op md granted wake) states))"

definition direct_open where
  "direct_open known inst op metadata granted wake output_null states =
     (if \<not> known \<or> op = 0 then (STATUS_INVALID, states, [], [])
      else (case metadata of
        Err s \<Rightarrow> (s, states, [], [])
      | Ok md \<Rightarrow>
          if \<not> flow_supported md then (STATUS_UNSUPPORTED, states, [], [])
          else if output_null then (STATUS_INVALID, states, [], [])
          else on_direct inst (open_state op (fm_kind md) granted wake) states))"

definition quietly where
  "quietly f st = (case f st of (s, st') \<Rightarrow> (s, st', [], []))"

definition direct_attach where
  "direct_attach io known inst flow stack_socket stack states =
     (if \<not> known \<or> flow = 0 \<or> stack_socket = 0 then (STATUS_INVALID, states, [], [])
      else on_direct inst (quietly (attach_state io flow stack)) states)"

definition direct_attach_datagram where
  "direct_attach_datagram io known inst flow stack_socket stack states =
     (if \<not> known \<or> flow = 0 \<or> stack_socket = 0 then (STATUS_INVALID, states, [], [])
      else on_direct inst (quietly (port_attach_state io flow stack)) states)"

definition direct_close_flow where
  "direct_close_flow known inst flow states =
     (if \<not> known \<or> flow = 0 then (STATUS_INVALID, states, [], [])
      else on_direct inst (quietly (close_flow_state flow)) states)"

definition direct_complete where
  "direct_complete known inst flow s reason_length states =
     (if \<not> known \<or> flow = 0 \<or> 256 < reason_length then (STATUS_INVALID, states, [], [])
      else if s = STATUS_OK then (STATUS_OK, states, [], []) else direct_close_flow known inst flow states)"

definition direct_poll where
  "direct_poll io inst states = on_direct inst (\<lambda>st. (STATUS_PENDING, poll_direct io st, [], [])) states"

definition direct_control :: "(bytes, status) result" where
  "direct_control = Err STATUS_UNSUPPORTED"

definition direct_shutdown ::
  "(nat \<Rightarrow> ('s, 'u) direct_net) \<Rightarrow> u64 \<Rightarrow> ('b, 'g, 's, 'u, 'p, 'q) direct_states \<Rightarrow>
     (status \<times> ('b, 'g, 's, 'u, 'p, 'q) direct_states \<times> wake_call list \<times> direct_event list) option" where
  "direct_shutdown nets inst states = map_option
     (\<lambda>(calls, ev). (if hm_contains states inst then STATUS_OK else STATUS_INVALID, hm_remove inst states, calls, ev))
     (drop_direct nets (hm_get states inst))"

definition direct_destroy where
  "direct_destroy nets inst states = map_option (\<lambda>(s, states', calls, ev). (states', calls, ev)) (direct_shutdown nets inst states)"

end
