(* ===== verification/Direct_Run.thy ===== *)
theory Direct_Run
  imports Direct_Adapter
begin

text \<open>
  The direct adapter (\<^verbatim>\<open>adapter-direct/src/lib.rs\<close>), third part: every interleaving of host calls with the steps of the
  worker threads, and what holds at every point of it. The locale \<open>sound_turn\<close> is the contract of a step on one
  instance; it is interpreted for every call and every worker step.
\<close>

section \<open>Steps\<close>

definition take_turn :: "('b, 'g, 's, 'u, 'p, 'q) direct_state \<Rightarrow> ('b, 'g, 's, 'u, 'p, 'q) direct_turn" where
  "take_turn st = (STATUS_OK, st\<lparr>dst_worker := worker_take (dst_worker st)\<rparr>, [], [])"

text \<open>A worker that waits forever stays where it is.\<close>

definition finish_turn :: "('s, 'u) direct_net \<Rightarrow> ('b, 'g, 's, 'u, 'p, 'q) direct_state \<Rightarrow> ('b, 'g, 's, 'u, 'p, 'q) direct_turn" where
  "finish_turn net st = (case worker_finish net (dst_worker st) of
     None \<Rightarrow> (STATUS_PENDING, st, [], []) | Some (w, calls, ev) \<Rightarrow> (STATUS_OK, st\<lparr>dst_worker := w\<rparr>, calls, ev))"

definition panic_turn :: "('b, 'g, 's, 'u, 'p, 'q) direct_state \<Rightarrow> ('b, 'g, 's, 'u, 'p, 'q) direct_turn" where
  "panic_turn st = (case worker_panic (dst_worker st) of (w, calls) \<Rightarrow> (STATUS_IO, st\<lparr>dst_worker := w\<rparr>, calls, []))"

definition poll_turn :: "('b, 'g, 's, 'u, 'p, 'q) direct_io \<Rightarrow> ('b, 'g, 's, 'u, 'p, 'q) direct_state \<Rightarrow> ('b, 'g, 's, 'u, 'p, 'q) direct_turn" where
  "poll_turn io st = (STATUS_PENDING, poll_direct io st, [], [])"

datatype ('b, 'g, 's, 'u, 'p, 'q) direct_op =
    Op_Initialize nat "str \<Rightarrow> (direct_options, str) result" "(unit, status) result" bool "nat \<Rightarrow> ('s, 'u) direct_net" u64 bytes
  | Op_Resolve resolved_output nat nat bool u64 u64 "(flow_metadata, status) result" bool wake_handle bool
  | Op_Open bool u64 u64 "(flow_metadata, status) result" bool wake_handle bool
  | Op_Attach "('b, 'g, 's, 'u, 'p, 'q) direct_io" bool u64 u64 u64 "'b option"
  | Op_Attach_Datagram "('b, 'g, 's, 'u, 'p, 'q) direct_io" bool u64 u64 u64 "'g option"
  | Op_Complete bool u64 u64 status nat
  | Op_Close_Flow bool u64 u64
  | Op_Poll "('b, 'g, 's, 'u, 'p, 'q) direct_io" u64
  | Op_Shutdown "nat \<Rightarrow> ('s, 'u) direct_net" u64
  | Op_Destroy "nat \<Rightarrow> ('s, 'u) direct_net" u64
  | Worker_Takes u64
  | Worker_Finishes "('s, 'u) direct_net" u64
  | Worker_Panics u64

text \<open>The world: the instances, every call on a wake handle so far, and the log of events by instance.\<close>

type_synonym direct_log = "(u64 \<times> direct_event) list"

record ('b, 'g, 's, 'u, 'p, 'q) direct_world =
  wd_states :: "('b, 'g, 's, 'u, 'p, 'q) direct_states"
  wd_calls :: "wake_call list"
  wd_log :: direct_log

definition wd_initial :: "('b, 'g, 's, 'u, 'p, 'q) direct_world" where
  "wd_initial = \<lparr>wd_states = [], wd_calls = [], wd_log = []\<rparr>"

definition wd_add where
  "wd_add inst states calls ev wd =
     \<lparr>wd_states = states, wd_calls = wd_calls wd @ calls, wd_log = wd_log wd @ map (Pair inst) ev\<rparr>"

definition wd_turn where
  "wd_turn inst turn wd = (case turn (wd_states wd) of (s :: status, states, calls, ev) \<Rightarrow> wd_add inst states calls ev wd)"

fun direct_step :: "('b, 'g, 's, 'u, 'p, 'q) direct_op \<Rightarrow> ('b, 'g, 's, 'u, 'p, 'q) direct_world \<Rightarrow> ('b, 'g, 's, 'u, 'p, 'q) direct_world option" where
  "direct_step (Op_Initialize limit toml host spawned nets inst config) wd =
     map_option (\<lambda>(r, states, calls, ev). wd_add inst states calls ev wd)
       (direct_initialize limit toml host spawned nets inst config (wd_states wd))"
| "direct_step (Op_Resolve out instant_max now known inst op md granted wake null) wd =
     Some (wd_turn inst (direct_resolve out instant_max now known inst op md granted wake null) wd)"
| "direct_step (Op_Open known inst op md granted wake null) wd = Some (wd_turn inst (direct_open known inst op md granted wake null) wd)"
| "direct_step (Op_Attach io known inst flow socket stack) wd = Some (wd_turn inst (direct_attach io known inst flow socket stack) wd)"
| "direct_step (Op_Attach_Datagram io known inst flow socket stack) wd =
     Some (wd_turn inst (direct_attach_datagram io known inst flow socket stack) wd)"
| "direct_step (Op_Complete known inst flow s n) wd = Some (wd_turn inst (direct_complete known inst flow s n) wd)"
| "direct_step (Op_Close_Flow known inst flow) wd = Some (wd_turn inst (direct_close_flow known inst flow) wd)"
| "direct_step (Op_Poll io inst) wd = Some (wd_turn inst (direct_poll io inst) wd)"
| "direct_step (Op_Shutdown nets inst) wd =
     map_option (\<lambda>(s, states, calls, ev). wd_add inst states calls ev wd) (direct_shutdown nets inst (wd_states wd))"
| "direct_step (Op_Destroy nets inst) wd =
     map_option (\<lambda>(states, calls, ev). wd_add inst states calls ev wd) (direct_destroy nets inst (wd_states wd))"
| "direct_step (Worker_Takes inst) wd = Some (wd_turn inst (on_direct inst take_turn) wd)"
| "direct_step (Worker_Finishes net inst) wd = Some (wd_turn inst (on_direct inst (finish_turn net)) wd)"
| "direct_step (Worker_Panics inst) wd = Some (wd_turn inst (on_direct inst panic_turn) wd)"

fun direct_run where
  "direct_run [] wd = Some wd"
| "direct_run (op # ops) wd = (case direct_step op wd of None \<Rightarrow> None | Some wd1 \<Rightarrow> direct_run ops wd1)"

section \<open>What the log must show\<close>

text \<open>The addresses of the last answer to an operation.\<close>

definition answered :: "direct_log \<Rightarrow> u64 \<Rightarrow> u64 \<Rightarrow> socket_addr list option" where
  "answered log inst op = fold (\<lambda>(i, e) acc. case e of
     Answered op' addresses s \<Rightarrow> if i = inst \<and> op' = op then Some addresses else acc | _ \<Rightarrow> acc) log None"

definition opened_with :: "direct_log \<Rightarrow> u64 \<Rightarrow> (socket_addr list \<Rightarrow> bool) \<Rightarrow> bool" where
  "opened_with log inst P \<longleftrightarrow> list_ex (\<lambda>(i, e). case e of Opened op addresses \<Rightarrow> i = inst \<and> P addresses | _ \<Rightarrow> False) log"

definition event_justified :: "direct_log \<Rightarrow> u64 \<times> direct_event \<Rightarrow> bool" where
  "event_justified log ie = (case ie of
     (inst, Opened op addresses) \<Rightarrow> answered log inst op = Some addresses
   | (inst, Dialed a) \<Rightarrow> opened_with log inst (\<lambda>addresses. a \<in> set addresses)
   | (inst, Answered op addresses s) \<Rightarrow> True)"

fun log_justified :: "direct_log \<Rightarrow> direct_log \<Rightarrow> bool" where
  "log_justified log [] \<longleftrightarrow> True"
| "log_justified log (ie # ies) \<longleftrightarrow> event_justified log ie \<and> log_justified (log @ [ie]) ies"

lemma justified_append: "log_justified log (xs @ ys) \<longleftrightarrow> log_justified log xs \<and> log_justified (log @ xs) ys"
  by (induction xs arbitrary: log) auto

lemma answered_append:
  "answered (log @ [(i, e)]) inst op = (case e of
     Answered op' addresses s \<Rightarrow> if i = inst \<and> op' = op then Some addresses else answered log inst op | _ \<Rightarrow> answered log inst op)"
  by (cases e) (simp_all add: answered_def)

lemma answered_other: "i \<noteq> inst \<Longrightarrow> answered (log @ map (Pair i) ev) inst op = answered log inst op"
proof (induction ev rule: rev_induct)
  case (snoc e ev)
  then show ?case using answered_append [of "log @ map (Pair i) ev" i e inst op] by (simp split: direct_event.splits)
qed simp

lemma opened_with_append [simp]: "opened_with (xs @ ys) inst P \<longleftrightarrow> opened_with xs inst P \<or> opened_with ys inst P" "\<not> opened_with [] inst P"
  by (simp_all add: opened_with_def)

lemma opened_with_mono: "opened_with log inst P \<Longrightarrow> (\<And>x. P x \<Longrightarrow> Q x) \<Longrightarrow> opened_with log inst Q"
  by (fastforce simp: opened_with_def list_ex_iff split: direct_event.splits)

definition dials_of :: "(socket_addr list \<Rightarrow> bool) \<Rightarrow> direct_event list \<Rightarrow> bool" where
  "dials_of P ev \<longleftrightarrow> (\<forall>e\<in>set ev. \<exists>a addresses. e = Dialed a \<and> a \<in> set addresses \<and> P addresses)"

lemma dials_of_append [simp]: "dials_of P (xs @ ys) \<longleftrightarrow> dials_of P xs \<and> dials_of P ys"
  by (auto simp: dials_of_def)

lemma dials_of_Nil [simp]: "dials_of P []"
  by (simp add: dials_of_def)

lemma dials_justified:
  assumes "dials_of (\<lambda>addresses. opened_with log inst ((=) addresses)) ev"
  shows "log_justified log (map (Pair inst) ev) \<and> (\<forall>i op. answered (log @ map (Pair inst) ev) i op = answered log i op)"
  using assms
proof (induction ev rule: rev_induct)
  case (snoc e ev)
  from snoc.prems obtain a addresses where e: "e = Dialed a" "a \<in> set addresses" "opened_with log inst ((=) addresses)"
    by (auto simp: dials_of_def)
  from e(3) have "opened_with log inst (\<lambda>addresses. a \<in> set addresses)"
    by (rule opened_with_mono) (use e(2) in simp)
  with snoc e(1) show ?case
    using answered_append [of "log @ map (Pair inst) ev" inst e] by (simp add: justified_append event_justified_def)
qed simp

section \<open>The worker\<close>

definition jobs_held :: "('s, 'u) direct_worker \<Rightarrow> u64 \<Rightarrow> nat" where
  "jobs_held w c = sum_list (map (\<lambda>(token, request, wake). held c wake) (worker_jobs w))"

definition job_ok :: "(socket_addr list \<Rightarrow> bool) \<Rightarrow> worker_job \<Rightarrow> bool" where
  "job_ok P job = (case job of (token, request, wake) \<Rightarrow>
     slot_ok wake \<and> (case request of Rq_Connect kind addresses timeout \<Rightarrow> P addresses | _ \<Rightarrow> True))"

definition worker_ok :: "(socket_addr list \<Rightarrow> bool) \<Rightarrow> ('s, 'u) direct_worker \<Rightarrow> bool" where
  "worker_ok P w \<longleftrightarrow> list_all (job_ok P) (worker_jobs w) \<and> (dw_alive w \<or> worker_jobs w = [])"

lemma worker_ok_mono: "worker_ok P w \<Longrightarrow> (\<And>x. P x \<Longrightarrow> Q x) \<Longrightarrow> worker_ok Q w"
  by (fastforce simp: worker_ok_def list_all_iff job_ok_def split: direct_request.splits)

lemma worker_new_ok [simp]: "worker_ok P (direct_worker_new n)" "jobs_held (direct_worker_new n) c = 0"
  by (simp_all add: worker_ok_def direct_worker_new_def worker_jobs_def jobs_held_def)

lemma worker_take_jobs [simp]: "worker_jobs (worker_take w) = worker_jobs w" "dw_alive (worker_take w) = dw_alive w"
  by (auto simp: worker_take_def worker_jobs_def split: option.splits list.splits bool.splits)

lemma worker_take_ok [simp]: "worker_ok P (worker_take w) = worker_ok P w" "jobs_held (worker_take w) = jobs_held w"
  by (simp_all add: worker_ok_def jobs_held_def fun_eq_iff)

lemma release_wake_balanced: "slot_ok wake \<Longrightarrow> balanced (\<lambda>c. held c wake) (release_wake wake) (\<lambda>c. 0)"
  by (auto simp: release_wake_def slot_ok_def balanced_def held_def retains_def releases_def split: option.splits)

lemma worker_wake_balanced: "balanced n (worker_wake wake) n"
  by (auto simp: worker_wake_def balanced_def retains_def releases_def split: option.splits)

lemma retain_wake_balanced:
  assumes "retain_wake granted wake = (r, calls)"
  shows "(\<forall>slot. r = Ok slot \<longrightarrow> slot_ok slot \<and> balanced (\<lambda>c. 0) calls (\<lambda>c. held c slot)) \<and> (\<forall>e. r = Err e \<longrightarrow> calls = [])"
  using assms by (auto simp: retain_wake_def slot_ok_def balanced_def held_def retains_def releases_def split: if_splits)

lemma worker_finish_job:
  assumes "worker_finish net w = Some (w', calls, ev)" "worker_ok P w"
  shows "worker_ok P w' \<and> balanced (jobs_held w) calls (jobs_held w') \<and> dials_of P ev"
proof (cases "dw_running w")
  case None
  with assms show ?thesis by (simp add: worker_finish_def)
next
  case (Some job)
  obtain token request wake where job: "job = (token, request, wake)" by (cases job) auto
  have jobs: "worker_jobs w = job # dw_queue w" using Some by (simp add: worker_jobs_def)
  with assms(2) job have ok: "slot_ok wake" "job_ok P job" "list_all (job_ok P) (dw_queue w)" and alive: "dw_alive w"
    by (auto simp: worker_ok_def job_ok_def)
  have w': "worker_jobs w' = dw_queue w" "dw_alive w' = dw_alive w" and calls: "calls = worker_wake wake @ release_wake wake"
    using assms(1) Some job by (auto simp: worker_finish_def worker_jobs_def split: direct_request.splits)
  have ev: "dials_of P ev"
  proof (cases request)
    case (Rq_Connect kind addresses timeout)
    with assms(1) Some job obtain r where "connect_addresses net kind addresses timeout = Some (r, ev)"
      by (auto simp: worker_finish_def)
    from connect_addresses_dials [OF this] ok(2) job Rq_Connect show ?thesis by (fastforce simp: dials_of_def job_ok_def)
  qed (use assms(1) Some job in \<open>simp add: worker_finish_def\<close>)
  have "balanced (\<lambda>c. held c wake) calls (\<lambda>c. 0)"
    unfolding calls by (rule balanced_append [OF worker_wake_balanced release_wake_balanced [OF ok(1)]])
  from balanced_add [OF this, of "jobs_held w'"] have "balanced (jobs_held w) calls (jobs_held w')"
    using jobs job w'(1) by (simp add: jobs_held_def [abs_def])
  with ok(3) alive w' ev show ?thesis by (simp add: worker_ok_def)
qed

lemma worker_finish_fewer:
  assumes "worker_finish net (worker_take w) = Some (w', calls, ev)" "dw_alive w" "worker_jobs w \<noteq> []"
  shows "Suc (length (worker_jobs w')) = length (worker_jobs w) \<and> dw_alive w'"
proof -
  from assms(2,3) obtain job where r: "dw_running (worker_take w) = Some job"
    by (cases "dw_running w"; cases "dw_queue w") (auto simp: worker_take_def worker_jobs_def)
  have "worker_jobs (worker_take w) = job # worker_jobs w' \<and> dw_alive w' = dw_alive (worker_take w)"
    using assms(1) r by (cases job) (auto simp: worker_finish_def worker_jobs_def split: direct_request.splits)
  with assms(2) show ?thesis by (metis length_Cons worker_take_jobs)
qed

text \<open>Joining the worker answers everything: every reference it holds is released.\<close>

lemma worker_drain_ok:
  assumes "worker_drain nets k w = Some (w', calls, ev)" "worker_ok P w" "k = length (worker_jobs w)"
  shows "worker_jobs w' = [] \<and> balanced (jobs_held w) calls (\<lambda>c. 0) \<and> dials_of P ev"
  using assms
proof (induction k arbitrary: w calls ev)
  case 0
  then show ?case by (simp add: jobs_held_def [abs_def])
next
  case (Suc k)
  from Suc.prems(1) obtain w1 calls1 ev1 calls2 ev2 where f: "worker_finish (nets k) (worker_take w) = Some (w1, calls1, ev1)"
    and d: "worker_drain nets k w1 = Some (w', calls2, ev2)" and e: "calls = calls1 @ calls2" "ev = ev1 @ ev2"
    by (auto split: option.splits)
  from Suc.prems(2,3) have "dw_alive w" "worker_jobs w \<noteq> []" by (auto simp: worker_ok_def)
  from worker_finish_fewer [OF f this] Suc.prems(3) have k: "k = length (worker_jobs w1)" by simp
  from worker_finish_job [OF f] Suc.prems(2)
  have ok: "worker_ok P w1" "balanced (jobs_held w) calls1 (jobs_held w1)" "dials_of P ev1" by simp_all
  from Suc.IH [OF d ok(1) k] ok(2,3) show ?case unfolding e by (auto intro: balanced_append)
qed

lemma worker_panic_ok:
  assumes "worker_panic w = (w', calls)" "worker_ok P w"
  shows "worker_ok P w' \<and> balanced (jobs_held w) calls (jobs_held w')"
proof -
  have "list_all (job_ok P) jobs \<Longrightarrow>
      balanced (\<lambda>c. \<Sum>(token, request, wake)\<leftarrow>jobs. held c wake) (concat (map (\<lambda>(token, request, wake). release_wake wake) jobs)) (\<lambda>c. 0)" for jobs
  proof (induction jobs)
    case (Cons job jobs)
    obtain token request wake where job: "job = (token, request, wake)" by (cases job) auto
    with Cons.prems have "slot_ok wake" by (simp add: job_ok_def)
    from balanced_add [OF release_wake_balanced [OF this]]
    have "balanced (\<lambda>c. held c wake + n c) (release_wake wake) n" for n by simp
    from balanced_append [OF this] Cons job show ?case by simp
  qed simp
  from this [of "worker_jobs w"] assms show ?thesis
    by (auto simp: worker_panic_def worker_ok_def jobs_held_def [abs_def] worker_jobs_def)
qed

lemma chan_send_ok:
  assumes "chan_send request wake w = (answer, w')" "worker_ok P w" "job_ok P (dw_next w, request, wake)"
  shows "worker_ok P w' \<and> (\<forall>c. jobs_held w' c = jobs_held w c + (if \<exists>token. answer = Sent token then held c wake else 0))"
  using assms by (auto simp: chan_send_def worker_ok_def jobs_held_def worker_jobs_def split: if_splits option.splits)

section \<open>Instances\<close>

text \<open>What holds of an instance: it remembers only what it has answered, its requests are for addresses that were opened,
  and its pending operations are within the limit.\<close>

definition requests_bounded :: "('b, 'g, 's, 'u, 'p, 'q) direct_state \<Rightarrow> bool" where
  "requests_bounded st \<longleftrightarrow> hm_wf (dst_pending st) \<and> hm_wf (dst_pending_resolutions st) \<and>
     hm_len (dst_pending st) + hm_len (dst_pending_resolutions st) \<le> do_max_pending_opens (dst_options st)"

definition direct_ok :: "direct_log \<Rightarrow> u64 \<Rightarrow> ('b, 'g, 's, 'u, 'p, 'q) direct_state \<Rightarrow> bool" where
  "direct_ok log inst st \<longleftrightarrow>
     (\<forall>op addresses. hm_get (dst_resolved st) op = Some addresses \<longrightarrow> answered log inst op = Some addresses) \<and>
     worker_ok (\<lambda>addresses. opened_with log inst ((=) addresses)) (dst_worker st) \<and> requests_bounded st"

lemma direct_okD:
  assumes "direct_ok log inst st"
  shows "hm_get (dst_resolved st) op = Some addresses \<Longrightarrow> answered log inst op = Some addresses"
    "worker_ok (\<lambda>addresses. opened_with log inst ((=) addresses)) (dst_worker st)" "requests_bounded st"
  using assms by (simp_all add: direct_ok_def)

lemma direct_fresh_ok [simp]: "direct_ok log inst (direct_fresh opts)"
  by (simp add: direct_ok_def direct_fresh_def requests_bounded_def)

text \<open>The effect of a sound step.\<close>

definition sound_step :: "direct_log \<Rightarrow> u64 \<Rightarrow> ('b, 'g, 's, 'u, 'p, 'q) direct_state \<Rightarrow> ('b, 'g, 's, 'u, 'p, 'q) direct_turn \<Rightarrow> bool" where
  "sound_step log inst st turn = (case turn of (s, st', calls, ev) \<Rightarrow>
     direct_ok (log @ map (Pair inst) ev) inst st' \<and> log_justified log (map (Pair inst) ev) \<and>
     balanced (jobs_held (dst_worker st)) calls (jobs_held (dst_worker st')))"

text \<open>A step that only forgets.\<close>

definition lighter :: "('b, 'g, 's, 'u, 'p, 'q) direct_state \<Rightarrow> ('b, 'g, 's, 'u, 'p, 'q) direct_state \<Rightarrow> bool" where
  "lighter st st' \<longleftrightarrow> dst_worker st' = dst_worker st \<and> requests_bounded st' \<and>
     (\<forall>op addresses. hm_get (dst_resolved st') op = Some addresses \<longrightarrow> hm_get (dst_resolved st) op = Some addresses)"

lemma lighter_sound: "direct_ok log inst st \<Longrightarrow> lighter st st' \<Longrightarrow> sound_step log inst st (s, st', [], [])"
  by (simp add: sound_step_def direct_ok_def lighter_def)

lemma same_sound: "direct_ok log inst st \<Longrightarrow> sound_step log inst st (s, st, [], [])"
  by (simp add: sound_step_def)

lemma forget_bounded:
  assumes "requests_bounded st"
  shows "requests_bounded (st\<lparr>dst_pending := hm_remove op (dst_pending st)\<rparr>)"
    "requests_bounded (st\<lparr>dst_pending_resolutions := hm_remove op (dst_pending_resolutions st)\<rparr>)"
  using assms hm.len_remove_le [of "dst_pending st" op] hm.len_remove_le [of "dst_pending_resolutions st" op]
  by (auto simp: requests_bounded_def)

lemma put_back_bounded:
  assumes "requests_bounded st"
  shows "hm_get (dst_pending st) op = Some x \<Longrightarrow> requests_bounded (st\<lparr>dst_pending := hm_insert op y (hm_remove op (dst_pending st))\<rparr>)"
    "hm_get (dst_pending_resolutions st) op = Some z \<Longrightarrow>
       requests_bounded (st\<lparr>dst_pending_resolutions := hm_insert op v (hm_remove op (dst_pending_resolutions st))\<rparr>)"
  using assms hm.len_remove_less [of "dst_pending st" op] hm.len_remove_less [of "dst_pending_resolutions st" op]
  by (auto simp: requests_bounded_def hm.len_insert)

lemma requests_bounded_update [simp]:
  "requests_bounded (st\<lparr>dst_worker := w\<rparr>) = requests_bounded st" "requests_bounded (st\<lparr>dst_resolved := r\<rparr>) = requests_bounded st"
  "requests_bounded (st\<lparr>dst_ready := e\<rparr>) = requests_bounded st" "requests_bounded (st\<lparr>dst_active := f\<rparr>) = requests_bounded st"
  "requests_bounded (st\<lparr>dst_active_datagrams := g\<rparr>) = requests_bounded st"
  by (simp_all add: requests_bounded_def)

lemma room_bounded:
  assumes "requests_bounded st" "\<not> pending_full st"
  shows "requests_bounded (st\<lparr>dst_pending := hm_insert op y (dst_pending st)\<rparr>)"
    "requests_bounded (st\<lparr>dst_pending_resolutions := hm_insert op v (dst_pending_resolutions st)\<rparr>)"
  using assms by (auto simp: requests_bounded_def pending_full_def hm.len_insert)

lemma answer_addresses_sound:
  assumes "direct_ok log inst st" "dst_worker st = dst_worker st0"
  shows "sound_step log inst st0 (answer_addresses out op addresses st)"
proof -
  let ?s = "write_resolved_addresses out addresses"
  have a: "answered (log @ [(inst, Answered op addresses ?s)]) inst q = (if q = op then Some addresses else answered log inst q)" for q
    by (simp add: answered_append)
  show ?thesis using direct_okD [OF assms(1)] assms(2)
    by (auto simp: sound_step_def answer_addresses_def Let_def direct_ok_def a event_justified_def elim: worker_ok_mono)
qed

lemma resume_resolution_sound:
  assumes ok: "direct_ok log inst st" and p: "hm_get (dst_pending_resolutions st) op = Some pending"
  shows "sound_step log inst st (resume_resolution out now op pending st)"
proof -
  let ?st = "st\<lparr>dst_pending_resolutions := hm_remove op (dst_pending_resolutions st)\<rparr>"
  note b = direct_okD(3) [OF ok]
  have l: "lighter st ?st" using forget_bounded(2) [OF b] by (simp add: lighter_def)
  have ok': "direct_ok log inst ?st" using ok forget_bounded(2) [OF b] by (simp add: direct_ok_def)
  have again: "lighter st (?st\<lparr>dst_pending_resolutions := hm_insert op pending (dst_pending_resolutions ?st)\<rparr>)"
    using put_back_bounded(2) [OF b p, of pending] by (simp add: lighter_def)
  show ?thesis
  proof (cases "chan_recv (dw_alive (dst_worker st)) (dw_resolutions (dst_worker st)) (fst pending)")
    case (Got r)
    then show ?thesis
      by (cases r) (simp_all add: resume_resolution_def answer_addresses_sound [OF ok'] lighter_sound [OF ok l])
  qed (use lighter_sound [OF ok l] lighter_sound [OF ok again] in \<open>simp_all add: resume_resolution_def Let_def\<close>)
qed

text \<open>Sending a request: its reference is held by the request, or released when it could not be sent.\<close>

lemma send_sound:
  assumes ok: "direct_ok log inst st" and wake: "retain_wake granted wake = (Ok slot, calls)"
    and ev: "log_justified log (map (Pair inst) ev)" "\<And>q. answered (log @ map (Pair inst) ev) inst q = answered log inst q"
    and rq: "\<And>kind addresses t. request = Rq_Connect kind addresses t \<Longrightarrow> opened_with (map (Pair inst) ev) inst ((=) addresses)"
    and send: "chan_send request slot (dst_worker st) = (Sent token, w)"
    and st': "dst_worker st' = w" "dst_resolved st' = dst_resolved st" "requests_bounded st'"
  shows "sound_step log inst st (s, st', calls, ev)"
proof -
  let ?P = "\<lambda>addresses. opened_with (log @ map (Pair inst) ev) inst ((=) addresses)"
  from retain_wake_balanced [OF wake] have slot: "slot_ok slot" and b: "balanced (\<lambda>c. 0) calls (\<lambda>c. held c slot)" by auto
  have w: "worker_ok ?P (dst_worker st)" using direct_okD(2) [OF ok] by (rule worker_ok_mono) simp
  have "job_ok ?P (dw_next (dst_worker st), request, slot)" using slot rq by (auto simp: job_ok_def split: direct_request.splits)
  from chan_send_ok [OF send w this] have "worker_ok ?P w" "\<And>c. jobs_held w c = held c slot + jobs_held (dst_worker st) c" by auto
  with balanced_add [OF b, of "jobs_held (dst_worker st)"] ev st' direct_okD(1) [OF ok] show ?thesis
    by (simp add: sound_step_def direct_ok_def balanced_def)
qed

lemma unsent_sound:
  assumes "direct_ok log inst st" "retain_wake granted wake = (Ok slot, calls)"
  shows "sound_step log inst st (s, st, calls @ release_wake slot, [])"
proof -
  from retain_wake_balanced [OF assms(2)] have slot: "slot_ok slot" and b: "balanced (\<lambda>c. 0) calls (\<lambda>c. held c slot)" by auto
  from balanced_add [OF balanced_append [OF b release_wake_balanced [OF slot]], of "jobs_held (dst_worker st)"] assms(1)
  show ?thesis by (simp add: sound_step_def)
qed

lemma refused_sound: "direct_ok log inst st \<Longrightarrow> retain_wake granted wake = (Err e, calls) \<Longrightarrow> sound_step log inst st (s, st, calls, [])"
  using retain_wake_balanced [of granted wake "Err e" calls] by (simp add: same_sound)

lemma start_resolution_sound:
  assumes ok: "direct_ok log inst st" and room: "\<not> pending_full st"
  shows "sound_step log inst st (start_resolution instant_max now op domain port granted wake st)"
proof -
  obtain r calls where wake: "retain_wake granted wake = (r, calls)" by force
  show ?thesis
  proof (cases r)
    case (Err e)
    with wake refused_sound [OF ok] show ?thesis by (simp add: start_resolution_def)
  next
    case (Ok slot)
    let ?rq = "Rq_Resolve domain port (do_max_resolved_addresses (dst_options st))"
    obtain answer w where send: "chan_send ?rq slot (dst_worker st) = (answer, w)" by force
    note wake' = wake [unfolded Ok]
    show ?thesis
    proof (cases answer)
      case (Sent token)
      have "sound_step log inst st (STATUS_PENDING, st\<lparr>dst_worker := w, dst_pending_resolutions := hm_insert op v (dst_pending_resolutions st)\<rparr>, calls, [])" for v
        by (rule send_sound [OF ok wake' _ _ _ send [unfolded Sent]])
          (use room_bounded(2) [OF direct_okD(3) [OF ok] room] in \<open>simp_all add: requests_bounded_def\<close>)
      with unsent_sound [OF ok wake'] wake' send Sent show ?thesis by (simp add: start_resolution_def Let_def)
    qed (use unsent_sound [OF ok wake'] wake' send in \<open>simp_all add: start_resolution_def Let_def\<close>)
  qed
qed

lemma resolve_state_sound:
  assumes ok: "direct_ok log inst st"
  shows "sound_step log inst st (resolve_state out instant_max now op md granted wake st)"
proof -
  have new: "sound_step log inst st (new_resolution out instant_max now op md granted wake st)"
    using same_sound [OF ok] start_resolution_sound [OF ok] answer_addresses_sound [OF ok refl]
    by (auto simp: new_resolution_def split: result.splits direct_destination.splits)
  have known: "sound_step log inst st (s, st, [], [Answered op addresses s])" if "hm_get (dst_resolved st) op = Some addresses" for s addresses
  proof -
    have "answered (log @ [(inst, Answered op addresses s)]) inst q = answered log inst q" for q
      using direct_okD(1) [OF ok that] by (auto simp: answered_append)
    with ok show ?thesis by (auto simp: sound_step_def direct_ok_def event_justified_def elim: worker_ok_mono)
  qed
  show ?thesis
    using new known resume_resolution_sound [OF ok] by (auto simp: resolve_state_def Let_def split: option.splits)
qed

lemma resume_open_sound:
  assumes ok: "direct_ok log inst st" and p: "hm_get (dst_pending st) op = Some token"
  shows "sound_step log inst st (resume_open op token st)"
proof -
  let ?st = "st\<lparr>dst_pending := hm_remove op (dst_pending st)\<rparr>"
  note b = direct_okD(3) [OF ok]
  have l: "lighter st ?st" "lighter st (?st\<lparr>dst_ready := e\<rparr>)" for e
    using forget_bounded(1) [OF b] by (simp_all add: lighter_def)
  have again: "lighter st (?st\<lparr>dst_pending := hm_insert op token (dst_pending ?st)\<rparr>)"
    using put_back_bounded(1) [OF b p, of token] by (simp add: lighter_def)
  show ?thesis
  proof (cases "chan_recv (dw_alive (dst_worker st)) (dw_endpoints (dst_worker st)) token")
    case (Got r)
    then show ?thesis by (cases r) (simp_all add: resume_open_def lighter_sound [OF ok l(1)] lighter_sound [OF ok l(2)])
  qed (use lighter_sound [OF ok l(1)] lighter_sound [OF ok again] in \<open>simp_all add: resume_open_def Let_def\<close>)
qed

lemma new_open_sound:
  assumes ok: "direct_ok log inst st"
  shows "sound_step log inst st (new_open op kind granted wake st)"
proof (cases "pending_full st \<or> hm_get (dst_resolved st) op = None")
  case True
  with same_sound [OF ok] show ?thesis by (auto simp: new_open_def)
next
  case False
  then obtain addresses where room: "\<not> pending_full st" and a: "hm_get (dst_resolved st) op = Some addresses" by auto
  let ?rq = "Rq_Connect kind addresses (from_millis (do_connect_timeout_ms (dst_options st)))"
  obtain r calls where wake: "retain_wake granted wake = (r, calls)" by force
  show ?thesis
  proof (cases r)
    case (Err e)
    with wake refused_sound [OF ok] room a show ?thesis by (simp add: new_open_def)
  next
    case (Ok slot)
    note wake' = wake [unfolded Ok]
    obtain answer w where send: "chan_send ?rq slot (dst_worker st) = (answer, w)" by force
    show ?thesis
    proof (cases answer)
      case (Sent token)
      have "sound_step log inst st (STATUS_PENDING, st\<lparr>dst_worker := w, dst_pending := hm_insert op token (dst_pending st)\<rparr>, calls, [Opened op addresses])"
        by (rule send_sound [OF ok wake' _ _ _ send [unfolded Sent]])
          (use room_bounded(1) [OF direct_okD(3) [OF ok] room] direct_okD(1) [OF ok a] in
            \<open>simp_all add: requests_bounded_def event_justified_def answered_append opened_with_def\<close>)
      with wake' send Sent room a show ?thesis by (simp add: new_open_def)
    qed (use unsent_sound [OF ok wake'] wake' send room a in \<open>simp_all add: new_open_def\<close>)
  qed
qed

lemma open_state_sound: "direct_ok log inst st \<Longrightarrow> sound_step log inst st (open_state op kind granted wake st)"
  by (auto simp: open_state_def same_sound resume_open_sound new_open_sound split: option.splits)

lemma forgetting_sound:
  assumes ok: "direct_ok log inst st"
    and t: "dst_worker st' = dst_worker st" "dst_pending st' = dst_pending st \<or> dst_pending st' = hm_remove op (dst_pending st)"
      "dst_pending_resolutions st' = dst_pending_resolutions st \<or> dst_pending_resolutions st' = hm_remove op (dst_pending_resolutions st)"
      "dst_resolved st' = dst_resolved st \<or> dst_resolved st' = hm_remove op (dst_resolved st)" "dst_options st' = dst_options st"
  shows "sound_step log inst st (s, st', [], [])"
proof (rule lighter_sound [OF ok])
  from direct_okD(3) [OF ok] t hm.len_remove_le [of "dst_pending st" op] hm.len_remove_le [of "dst_pending_resolutions st" op]
  have "requests_bounded st'" by (auto simp: requests_bounded_def)
  with t show "lighter st st'" by (auto simp: lighter_def split: if_splits)
qed

lemma attach_state_sound: "direct_ok log inst st \<Longrightarrow> sound_step log inst st (quietly (attach_state io flow stack) st)"
  by (auto simp: quietly_def attach_state_def Let_def same_sound intro!: forgetting_sound [where op = flow]
      split: option.splits direct_endpoint.splits result.splits)

lemma port_attach_state_sound: "direct_ok log inst st \<Longrightarrow> sound_step log inst st (quietly (port_attach_state io flow stack) st)"
  by (auto simp: quietly_def port_attach_state_def Let_def same_sound intro!: forgetting_sound [where op = flow]
      split: option.splits direct_endpoint.splits result.splits)

lemma close_flow_state_sound: "direct_ok log inst st \<Longrightarrow> sound_step log inst st (quietly (close_flow_state flow) st)"
  by (simp add: quietly_def close_flow_state_def forgetting_sound [where op = flow])

lemma poll_turn_sound: "direct_ok log inst st \<Longrightarrow> sound_step log inst st (poll_turn io st)"
  by (simp add: poll_turn_def poll_direct_def forgetting_sound [where op = 0])

lemma worker_step_sound:
  assumes ok: "direct_ok log inst st" and w: "worker_ok (\<lambda>addresses. opened_with log inst ((=) addresses)) w"
    and b: "balanced (jobs_held (dst_worker st)) calls (jobs_held w)" and ev: "dials_of (\<lambda>addresses. opened_with log inst ((=) addresses)) ev"
  shows "sound_step log inst st (s, st\<lparr>dst_worker := w\<rparr>, calls, ev)"
  using dials_justified [OF ev] direct_okD(1,3) [OF ok] b worker_ok_mono [OF w, of "\<lambda>addresses. opened_with (log @ map (Pair inst) ev) inst ((=) addresses)"]
  by (simp add: sound_step_def direct_ok_def)

lemma take_turn_sound: "direct_ok log inst st \<Longrightarrow> sound_step log inst st (take_turn st)"
  unfolding take_turn_def by (rule worker_step_sound) (simp_all add: direct_okD)

lemma finish_turn_sound:
  assumes ok: "direct_ok log inst st"
  shows "sound_step log inst st (finish_turn net st)"
proof (cases "worker_finish net (dst_worker st)")
  case None
  with same_sound [OF ok] show ?thesis by (simp add: finish_turn_def)
next
  case (Some r)
  obtain w calls ev where r: "r = (w, calls, ev)" by (cases r)
  from worker_finish_job [OF Some [unfolded r] direct_okD(2) [OF ok]] worker_step_sound [OF ok] Some r
  show ?thesis by (simp add: finish_turn_def)
qed

lemma panic_turn_sound:
  assumes ok: "direct_ok log inst st"
  shows "sound_step log inst st (panic_turn st)"
proof -
  obtain w calls where p: "worker_panic (dst_worker st) = (w, calls)" by force
  from worker_panic_ok [OF p direct_okD(2) [OF ok]] worker_step_sound [OF ok] p show ?thesis by (simp add: panic_turn_def)
qed

section \<open>The world\<close>

definition world_held :: "('b, 'g, 's, 'u, 'p, 'q) direct_world \<Rightarrow> u64 \<Rightarrow> nat" where
  "world_held wd c = hm_sum (\<lambda>st. jobs_held (dst_worker st) c) (wd_states wd)"

definition world_ok :: "('b, 'g, 's, 'u, 'p, 'q) direct_world \<Rightarrow> bool" where
  "world_ok wd \<longleftrightarrow> hm_wf (wd_states wd) \<and> log_justified [] (wd_log wd) \<and>
     (\<forall>inst st. hm_get (wd_states wd) inst = Some st \<longrightarrow> direct_ok (wd_log wd) inst st) \<and>
     balanced (\<lambda>c. 0) (wd_calls wd) (world_held wd)"

lemma direct_ok_other:
  assumes "direct_ok log inst st" "i \<noteq> inst"
  shows "direct_ok (log @ map (Pair i) ev) inst st"
  using assms by (auto simp: direct_ok_def answered_other elim: worker_ok_mono)

lemma world_add:
  assumes ok: "world_ok wd" and wf: "hm_wf states" and j: "log_justified (wd_log wd) (map (Pair inst) ev)"
    and other: "\<And>i. i \<noteq> inst \<Longrightarrow> hm_get states i = hm_get (wd_states wd) i"
    and here: "\<And>st. hm_get states inst = Some st \<Longrightarrow> direct_ok (wd_log wd @ map (Pair inst) ev) inst st"
    and b: "balanced (world_held wd) calls (\<lambda>c. hm_sum (\<lambda>st. jobs_held (dst_worker st) c) states)"
  shows "world_ok (wd_add inst states calls ev wd)"
proof -
  have "direct_ok (wd_log wd @ map (Pair inst) ev) i st" if "hm_get states i = Some st" for i st
    using that ok other [of i] here direct_ok_other [of "wd_log wd" i st inst ev]
    by (cases "i = inst") (auto simp: world_ok_def)
  with ok wf j balanced_append [OF _ b] show ?thesis
    by (simp add: world_ok_def wd_add_def justified_append world_held_def [abs_def])
qed

lemma world_idle: "world_ok wd \<Longrightarrow> world_ok (wd_add inst (wd_states wd) [] [] wd)"
  by (cases wd) (simp add: wd_add_def)

lemma sum_replaced:
  assumes get: "hm_get states inst = Some st" and b: "balanced (n st) calls (n st')"
  shows "balanced (\<lambda>c. hm_sum (\<lambda>x. n x c) states) calls (\<lambda>c. hm_sum (\<lambda>x. n x c) (hm_insert inst st' states))"
  unfolding balanced_def
proof
  fix c
  from b have "n st c + retains c calls = n st' c + releases c calls" by (simp add: balanced_def)
  with hm_sum_insert_old [OF get, of "\<lambda>x. n x c" st']
  show "hm_sum (\<lambda>x. n x c) states + retains c calls = hm_sum (\<lambda>x. n x c) (hm_insert inst st' states) + releases c calls" by linarith
qed

text \<open>The contract of a step on one instance, and what it gives for the world.\<close>

locale sound_turn =
  fixes inst :: u64 and turn :: "('b, 'g, 's, 'u, 'p, 'q) direct_state \<Rightarrow> ('b, 'g, 's, 'u, 'p, 'q) direct_turn"
  assumes sound: "direct_ok log inst st \<Longrightarrow> sound_step log inst st (turn st)"
begin

lemma world: "world_ok wd \<Longrightarrow> world_ok (wd_turn inst (on_direct inst turn) wd)"
proof (cases "hm_get (wd_states wd) inst")
  case None
  assume "world_ok wd"
  with None show ?thesis by (simp add: wd_turn_def on_direct_def world_idle)
next
  case (Some st)
  assume ok: "world_ok wd"
  obtain s st' calls ev where t: "turn st = (s, st', calls, ev)" by (cases "turn st")
  from ok Some have "direct_ok (wd_log wd) inst st" by (simp add: world_ok_def)
  from sound [OF this] t have st': "direct_ok (wd_log wd @ map (Pair inst) ev) inst st'" "log_justified (wd_log wd) (map (Pair inst) ev)"
    and b: "balanced (jobs_held (dst_worker st)) calls (jobs_held (dst_worker st'))" by (simp_all add: sound_step_def)
  have "world_ok (wd_add inst (hm_insert inst st' (wd_states wd)) calls ev wd)"
    by (rule world_add [OF ok _ st'(2)])
      (use ok st'(1) sum_replaced [OF Some b] in \<open>simp_all add: world_ok_def world_held_def [abs_def]\<close>)
  with Some t show ?thesis by (simp add: wd_turn_def on_direct_def)
qed

end

interpretation resolving: sound_turn inst "resolve_state out instant_max now op md granted wake" for inst out instant_max now op md granted wake
  by unfold_locales (rule resolve_state_sound)

interpretation dialing: sound_turn inst "open_state op kind granted wake" for inst op kind granted wake
  by unfold_locales (rule open_state_sound)

interpretation attaching: sound_turn inst "quietly (attach_state io flow stack)" for inst io flow stack
  by unfold_locales (rule attach_state_sound)

interpretation attaching_datagram: sound_turn inst "quietly (port_attach_state io flow stack)" for inst io flow stack
  by unfold_locales (rule port_attach_state_sound)

interpretation closing: sound_turn inst "quietly (close_flow_state flow)" for inst flow
  by unfold_locales (rule close_flow_state_sound)

interpretation polling: sound_turn inst "poll_turn io" for inst io
  by unfold_locales (rule poll_turn_sound)

interpretation taking: sound_turn inst take_turn for inst
  by unfold_locales (rule take_turn_sound)

interpretation finishing: sound_turn inst "finish_turn net" for inst net
  by unfold_locales (rule finish_turn_sound)

interpretation panicking: sound_turn inst panic_turn for inst
  by unfold_locales (rule panic_turn_sound)

lemma wd_turn_if:
  "wd_turn inst (\<lambda>states. if p then f states else g states) wd = (if p then wd_turn inst f wd else wd_turn inst g wd)"
  by simp

lemma wd_turn_idle: "world_ok wd \<Longrightarrow> world_ok (wd_turn inst (\<lambda>states. (s, states, [], [])) wd)"
  by (simp add: wd_turn_def world_idle)

text \<open>Dropping an instance.\<close>

lemma drop_direct_sound:
  assumes "drop_direct nets (hm_get (wd_states wd) inst) = Some (calls, ev)" "world_ok wd"
  shows "log_justified (wd_log wd) (map (Pair inst) ev) \<and>
    balanced (\<lambda>c. case hm_get (wd_states wd) inst of None \<Rightarrow> 0 | Some st \<Rightarrow> jobs_held (dst_worker st) c) calls (\<lambda>c. 0)"
proof (cases "hm_get (wd_states wd) inst")
  case None
  with assms show ?thesis by (simp add: drop_direct_def)
next
  case (Some st)
  with assms obtain w where d: "worker_drain nets (length (worker_jobs (dst_worker st))) (dst_worker st) = Some (w, calls, ev)"
    by (auto simp: drop_direct_def)
  from assms(2) Some have "direct_ok (wd_log wd) inst st" by (simp add: world_ok_def)
  from worker_drain_ok [OF d direct_okD(2) [OF this] refl] dials_justified Some show ?thesis by simp
qed

lemma sum_dropped:
  assumes wf: "hm_wf states"
    and b: "balanced (\<lambda>c. case hm_get states inst of None \<Rightarrow> 0 | Some st \<Rightarrow> n st c) calls (\<lambda>c. 0)"
  shows "balanced (\<lambda>c. hm_sum (\<lambda>x. n x c) states) calls (\<lambda>c. hm_sum (\<lambda>x. n x c) (hm_remove inst states))"
    "n new = (\<lambda>c. 0) \<Longrightarrow> balanced (\<lambda>c. hm_sum (\<lambda>x. n x c) states) calls (\<lambda>c. hm_sum (\<lambda>x. n x c) (hm_insert inst new states))"
proof -
  have eq: "(case hm_get states inst of None \<Rightarrow> 0 | Some st \<Rightarrow> n st c) + retains c calls = releases c calls" for c
    using b by (simp add: balanced_def)
  show "balanced (\<lambda>c. hm_sum (\<lambda>x. n x c) states) calls (\<lambda>c. hm_sum (\<lambda>x. n x c) (hm_remove inst states))"
    unfolding balanced_def
  proof
    fix c
    show "hm_sum (\<lambda>x. n x c) states + retains c calls = hm_sum (\<lambda>x. n x c) (hm_remove inst states) + releases c calls"
      using eq [of c] hm_sum_remove [OF wf, of inst _ "\<lambda>x. n x c"] hm_remove_None [of states inst]
      by (cases "hm_get states inst") fastforce+
  qed
  show "balanced (\<lambda>c. hm_sum (\<lambda>x. n x c) states) calls (\<lambda>c. hm_sum (\<lambda>x. n x c) (hm_insert inst new states))" if "n new = (\<lambda>c. 0)"
    unfolding balanced_def
  proof
    fix c
    show "hm_sum (\<lambda>x. n x c) states + retains c calls = hm_sum (\<lambda>x. n x c) (hm_insert inst new states) + releases c calls"
      using eq [of c] that hm_sum_insert_old [of states inst _ "\<lambda>x. n x c" new] hm_sum_insert_new [of states inst "\<lambda>x. n x c" new]
      by (cases "hm_get states inst") fastforce+
  qed
qed

lemma direct_shutdown_world:
  assumes ok: "world_ok wd" and s: "direct_shutdown nets inst (wd_states wd) = Some (s, states, calls, ev)"
  shows "world_ok (wd_add inst states calls ev wd)"
proof -
  from s have d: "drop_direct nets (hm_get (wd_states wd) inst) = Some (calls, ev)" and st: "states = hm_remove inst (wd_states wd)"
    by (auto simp: direct_shutdown_def)
  from ok have wf: "hm_wf (wd_states wd)" by (simp add: world_ok_def)
  from drop_direct_sound [OF d ok] sum_dropped(1) [OF wf, where inst = inst and calls = calls and n = "\<lambda>st. jobs_held (dst_worker st)"]
  show ?thesis unfolding st by (intro world_add [OF ok]) (simp_all add: wf world_held_def [abs_def])
qed

lemma direct_initialize_world:
  assumes ok: "world_ok wd" and s: "direct_initialize limit toml host spawned nets inst config (wd_states wd) = Some (r, states, calls, ev)"
  shows "world_ok (wd_add inst states calls ev wd)"
proof (cases "r = Ok ()")
  case True
  with s obtain opts where d: "drop_direct nets (hm_get (wd_states wd) inst) = Some (calls, ev)"
    and st: "states = hm_insert inst (direct_fresh opts) (wd_states wd)"
    by (auto simp: direct_initialize_def split: result.splits if_splits)
  from ok have wf: "hm_wf (wd_states wd)" by (simp add: world_ok_def)
  have fresh: "jobs_held (dst_worker (direct_fresh opts :: ('a, 'b, 'c, 'd, 'e, 'f) direct_state)) = (\<lambda>c. 0)"
    by (simp add: direct_fresh_def fun_eq_iff)
  from drop_direct_sound [OF d ok] sum_dropped(2) [OF wf, where inst = inst and calls = calls and n = "\<lambda>st. jobs_held (dst_worker st)", OF _ fresh]
  show ?thesis unfolding st by (intro world_add [OF ok]) (auto simp: wf world_held_def [abs_def])
next
  case False
  with s have "states = wd_states wd \<and> calls = [] \<and> ev = []"
    by (auto simp: direct_initialize_def split: result.splits if_splits)
  with world_idle [OF ok] show ?thesis by simp
qed

lemma close_flow_world: "world_ok wd \<Longrightarrow> world_ok (wd_turn inst (direct_close_flow known inst flow) wd)"
  by (simp add: direct_close_flow_def [abs_def] wd_turn_if wd_turn_idle closing.world)

lemma direct_step_world:
  assumes ok: "world_ok wd" and s: "direct_step op wd = Some wd'"
  shows "world_ok wd'"
proof (cases op)
  case (Op_Initialize limit toml host spawned nets inst config)
  with s direct_initialize_world [OF ok] show ?thesis by auto
next
  case (Op_Shutdown nets inst)
  with s direct_shutdown_world [OF ok] show ?thesis by auto
next
  case (Op_Destroy nets inst)
  with s direct_shutdown_world [OF ok] show ?thesis by (auto simp: direct_destroy_def)
next
  case (Op_Resolve out instant_max now known inst op md granted wake null)
  with s ok show ?thesis
    by (cases md) (auto simp: direct_resolve_def [abs_def] wd_turn_if wd_turn_idle resolving.world)
next
  case (Op_Open known inst op md granted wake null)
  with s ok show ?thesis by (cases md) (auto simp: direct_open_def [abs_def] wd_turn_if wd_turn_idle dialing.world)
next
  case (Op_Complete known inst flow s n)
  with assms close_flow_world [OF ok] show ?thesis by (auto simp: direct_complete_def [abs_def] wd_turn_if wd_turn_idle)
qed (use s ok in \<open>auto simp: direct_attach_def [abs_def] direct_attach_datagram_def [abs_def] direct_poll_def [abs_def]
    wd_turn_if wd_turn_idle close_flow_world attaching.world attaching_datagram.world polling.world [unfolded poll_turn_def [abs_def]] taking.world finishing.world panicking.world\<close>)

lemma direct_run_world: "direct_run ops wd = Some wd' \<Longrightarrow> world_ok wd \<Longrightarrow> world_ok wd'"
  by (induction ops arbitrary: wd) (auto split: option.splits dest: direct_step_world)

lemma world_initial: "world_ok wd_initial"
  by (simp add: world_ok_def wd_initial_def world_held_def [abs_def])

text \<open>Pending operations never exceed the configured number.\<close>

lemma direct_requests_bounded:
  assumes "direct_run ops wd_initial = Some wd" "hm_get (wd_states wd) inst = Some st"
  shows "hm_len (dst_pending st) + hm_len (dst_pending_resolutions st) \<le> do_max_pending_opens (dst_options st)"
  using direct_run_world [OF assms(1) world_initial] assms(2) by (auto simp: world_ok_def direct_ok_def requests_bounded_def)

lemma opened_withE:
  assumes "opened_with log inst P"
  obtains op addresses before after where "log = before @ (inst, Opened op addresses) # after" "P addresses"
  using assms by (auto simp: opened_with_def list_ex_iff split: direct_event.splits dest!: split_list)

section \<open>Properties\<close>

text \<open>C7. In every interleaving of host calls with the worker threads, whatever the operating system answers: an address is
  dialed only if the host opened an operation with a list of addresses that contains it, and that list is the
  one which \<open>resolve\<close> had last answered for the operation before it was opened. A name is not looked up a
  second time between the answer, which the host can check, and the connection.\<close>

theorem direct_dials_resolved:
  assumes "direct_run ops wd_initial = Some wd" "wd_log wd = before @ (inst, Dialed a) # after"
  shows "\<exists>op addresses early late. before = early @ (inst, Opened op addresses) # late \<and> a \<in> set addresses \<and>
    answered early inst op = Some addresses"
proof -
  from direct_run_world [OF assms(1) world_initial] have j: "log_justified [] (before @ (inst, Dialed a) # after)"
    by (simp add: world_ok_def assms(2))
  then have "opened_with before inst (\<lambda>addresses. a \<in> set addresses)" by (simp add: justified_append event_justified_def)
  then obtain op addresses early late where b: "before = early @ (inst, Opened op addresses) # late" "a \<in> set addresses"
    by (rule opened_withE)
  with j have "answered early inst op = Some addresses" by (simp add: justified_append event_justified_def)
  with b show ?thesis by blast
qed

text \<open>An instance that looks up a name, answers its two addresses in order, and connects to the first.\<close>

definition example_direct_options :: direct_options where
  "example_direct_options = \<lparr>do_dns_mode = Dns_System, do_max_pending_opens = 2, do_max_resolved_addresses = 4,
     do_resolve_timeout_ms = 5, do_connect_timeout_ms = 5\<rparr>"

definition example_direct_net :: "(nat, nat) direct_net" where
  "example_direct_net = \<lparr>dn_lookup = \<lambda>_ p. Some [Sock_V4 9 p, Sock_V4 8 p], dn_now = \<lambda>_. 0, dn_instant_max = 0, dn_socket = \<lambda>_. Some 3,
     dn_protect = \<lambda>_. True, dn_connect = \<lambda>_ _. Connect_Done,
     dn_poll = \<lambda>_ _ _. Poll_Ready, dn_take_error = \<lambda>_. Ok False, dn_udp_bind = \<lambda>_. None, dn_udp_protect = \<lambda>_. True, dn_udp_connect = \<lambda>_ _. True\<rparr>"

definition example_direct_output :: resolved_output where
  "example_direct_output = \<lparr>ro_size = \<lambda>_. Some 0, ro_encode = \<lambda>_ _. Some [], ro_write = \<lambda>_. STATUS_OK\<rparr>"

definition example_direct_wake :: wake_handle where
  "example_direct_wake = \<lparr>wk_context = 5, wk_retain = True, wk_wake = True, wk_release = True\<rparr>"

definition example_direct_metadata :: flow_metadata where
  "example_direct_metadata = \<lparr>fm_kind = FLOW_TCP, fm_address_type = ADDRESS_DOMAIN, fm_address = str_lit ''a.b'', fm_port = 80\<rparr>"

definition example_direct_ops :: "(nat, nat, nat, nat, nat, nat) direct_op list" where
  "example_direct_ops =
     [Op_Initialize 16 (\<lambda>_. Ok example_direct_options) (Ok ()) True (\<lambda>_. example_direct_net) 1 [],
      Op_Resolve example_direct_output 10000000 0 True 1 7 (Ok example_direct_metadata) True example_direct_wake False,
      Worker_Takes 1, Worker_Finishes example_direct_net 1,
      Op_Resolve example_direct_output 10000000 1 True 1 7 (Ok example_direct_metadata) True example_direct_wake False,
      Op_Open True 1 7 (Ok example_direct_metadata) True example_direct_wake False,
      Worker_Takes 1, Worker_Finishes example_direct_net 1,
      Op_Resolve example_direct_output 10000000 2 True 1 8 (Ok example_direct_metadata) True example_direct_wake False]"

definition example_direct_world :: "(nat, nat, nat, nat, nat, nat) direct_world" where
  "example_direct_world = \<lparr>wd_states = [(1, \<lparr>dst_options = example_direct_options,
       dst_worker = \<lparr>dw_alive = True, dw_capacity = 2, dw_queue = [(2, Rq_Resolve (str_lit ''a.b'') 80 4, Some example_direct_wake)],
         dw_running = None, dw_next = 3, dw_resolutions = [(0, Ok [Sock_V4 8 80, Sock_V4 9 80])], dw_endpoints = [(1, Ok (Tcp_Endpoint 3))]\<rparr>,
       dst_pending_resolutions = [(8, 2, 5000002)], dst_resolved = [(7, [Sock_V4 8 80, Sock_V4 9 80])], dst_pending = [(7, 1)], dst_ready = [],
       dst_active = [], dst_active_datagrams = []\<rparr>)],
     wd_calls = [Retained 5, Woken 5, Released 5, Retained 5, Woken 5, Released 5, Retained 5],
     wd_log = [(1, Answered 7 [Sock_V4 8 80, Sock_V4 9 80] STATUS_OK), (1, Opened 7 [Sock_V4 8 80, Sock_V4 9 80]), (1, Dialed (Sock_V4 8 80))]\<rparr>"

lemmas example_direct_defs = example_direct_options_def example_direct_net_def example_direct_output_def example_direct_wake_def
  example_direct_metadata_def

lemma example_from_utf8: "from_utf8 [] = Some []" "from_utf8 (str_lit ''a.b'') = Some (str_lit ''a.b'')"
  by code_simp+

lemma example_sorted: "sort_dedup [Sock_V4 9 80, Sock_V4 8 80] = [Sock_V4 8 80, Sock_V4 9 80]"
  by (simp add: sort_dedup_def less_eq_socket_addr_def)

lemma example_direct_run: "direct_run example_direct_ops wd_initial = Some example_direct_world"
  by (simp add: example_direct_ops_def example_direct_world_def example_direct_defs wd_initial_def wd_add_def wd_turn_def direct_initialize_def
      direct_parse_options_def example_from_utf8 drop_direct_def hm_get_def hm_insert_def hm_remove_def direct_fresh_def direct_worker_new_def
      direct_resolve_def flow_supported_def on_direct_def resolve_state_def new_resolution_def pending_full_def hm_len_def owned_destination_def
      start_resolution_def retain_wake_def chan_send_def from_millis_def take_turn_def worker_take_def finish_turn_def worker_finish_def
      resolve_destination_def example_sorted worker_wake_def release_wake_def resume_resolution_def chan_recv_def answer_addresses_def
      write_resolved_addresses_def direct_open_def open_state_def hm_contains_def new_open_def connect_addresses_def connect_address_def
      connect_tcp_def direct_connected_def Let_def)

theorem direct_dials_resolved_witness:
  "direct_run example_direct_ops wd_initial = Some example_direct_world \<and>
     (\<exists>before a after. wd_log example_direct_world = before @ (1, Dialed a) # after \<and>
       (\<exists>op addresses early late. before = early @ (1, Opened op addresses) # late \<and> a \<in> set addresses \<and> answered early 1 op = Some addresses))"
proof -
  let ?as = "[Sock_V4 8 80, Sock_V4 9 80]"
  have l: "wd_log example_direct_world = [(1, Answered 7 ?as STATUS_OK), (1, Opened 7 ?as)] @ (1, Dialed (Sock_V4 8 80)) # []"
    by (simp add: example_direct_world_def)
  from direct_dials_resolved [OF example_direct_run l] l example_direct_run show ?thesis by blast
qed

text \<open>C21. In every interleaving of host calls with the worker threads, the host has been asked to retain each wake context exactly as
  often as it was released or is held by a request that a worker has not answered yet. Refused requests,
  requests of closed flows, a worker that panics and the join at shutdown are included; no assumption on the
  handles is needed.\<close>

theorem direct_wake_references:
  assumes "direct_run ops wd_initial = Some wd"
  shows "retains c (wd_calls wd) = releases c (wd_calls wd) + world_held wd c"
  using direct_run_world [OF assms world_initial] by (simp add: world_ok_def balanced_def)

theorem direct_wake_references_witness:
  "direct_run example_direct_ops wd_initial = Some example_direct_world \<and> retains 5 (wd_calls example_direct_world) = 3 \<and>
     retains 5 (wd_calls example_direct_world) = releases 5 (wd_calls example_direct_world) + world_held example_direct_world 5"
  using direct_wake_references [OF example_direct_run, of 5] example_direct_run by (simp add: example_direct_world_def retains_def)

end
