(* ===== verification/Ssh_Carrier.thy ===== *)
theory Ssh_Carrier
  imports Carrier_Run Rust_Text
begin

text \<open>
  The SSH carrier (\<^verbatim>\<open>carrier-ssh/src/lib.rs\<close>): options, the decisions of the SSH client and server, instances, and the calls
  of the host. The SSH library and the file system are parameters. The streams that the worker hands to the
  host are values of type \<open>'e\<close>; their pipe is the subject of \<open>Ssh_Bridge\<close>. The table of streams is that of the
  TCP carrier.
\<close>

section \<open>Options\<close>

datatype ssh_client_auth = Client_Password str | Client_Ed25519 str
datatype ssh_server_auth = Server_Password str | Server_Ed25519 str

text \<open>\<open>sf_key\<close> is the path \<open>server_host_key\<close> of a client and \<open>host_key\<close> of a server.\<close>

record 'a ssh_fields =
  sf_endpoint :: socket_addr
  sf_username :: str
  sf_key :: str
  sf_max_connections :: nat
  sf_queue_chunks :: nat
  sf_chunk_bytes :: nat
  sf_timeout :: u64
  sf_auth :: 'a

datatype ssh_options = Ssh_Connect "ssh_client_auth ssh_fields" | Ssh_Listen "ssh_server_auth ssh_fields"

text \<open>Loading keys: the key and whether its algorithm is Ed25519.\<close>

record 'k ssh_keys =
  sk_public :: "str \<Rightarrow> ('k \<times> bool, str) result"
  sk_secret :: "str \<Rightarrow> ('k \<times> bool, str) result"

definition resolve_key_path :: "str \<Rightarrow> str \<Rightarrow> str" where
  "resolve_key_path path base = (if \<not> is_absolute path then path_join base path else path)"

definition ssh_resolve :: "str \<Rightarrow> ssh_options \<Rightarrow> ssh_options" where
  "ssh_resolve base opts = (case opts of
     Ssh_Connect f \<Rightarrow> Ssh_Connect (f\<lparr>sf_key := resolve_key_path (sf_key f) base,
       sf_auth := (case sf_auth f of Client_Ed25519 path \<Rightarrow> Client_Ed25519 (resolve_key_path path base) | a \<Rightarrow> a)\<rparr>)
   | Ssh_Listen f \<Rightarrow> Ssh_Listen (f\<lparr>sf_key := resolve_key_path (sf_key f) base,
       sf_auth := (case sf_auth f of Server_Ed25519 path \<Rightarrow> Server_Ed25519 (resolve_key_path path base) | a \<Rightarrow> a)\<rparr>))"

definition require_ed25519_public :: "'k ssh_keys \<Rightarrow> str \<Rightarrow> (unit, str) result" where
  "require_ed25519_public keys path = try_bind (sk_public keys path) (\<lambda>(key, ed25519).
     if ed25519 then Ok () else Err (str_lit ''SSH public key must be Ed25519''))"

definition require_ed25519_private :: "'k ssh_keys \<Rightarrow> str \<Rightarrow> (unit, str) result" where
  "require_ed25519_private keys path = try_bind (sk_secret keys path) (\<lambda>(key, ed25519).
     if ed25519 then Ok () else Err (str_lit ''SSH private key must be Ed25519''))"

definition ssh_fields_ok :: "'a ssh_fields \<Rightarrow> bool" where
  "ssh_fields_ok f \<longleftrightarrow> sock_port (sf_endpoint f) \<noteq> 0 \<and> sf_username f \<noteq> [] \<and> length (sf_username f) \<le> 64 \<and> sf_max_connections f \<noteq> 0 \<and>
     sf_queue_chunks f \<noteq> 0 \<and> sf_queue_chunks f \<le> 1024 \<and> sf_chunk_bytes f \<noteq> 0 \<and> sf_chunk_bytes f \<le> 65536 \<and> sf_timeout f \<noteq> 0"

definition ssh_validate :: "'k ssh_keys \<Rightarrow> ssh_options \<Rightarrow> (unit, str) result" where
  "ssh_validate keys opts =
     (if \<not> (case opts of Ssh_Connect f \<Rightarrow> ssh_fields_ok f | Ssh_Listen f \<Rightarrow> ssh_fields_ok f)
      then Err (str_lit ''SSH carrier options are inconsistent'')
      else (case opts of
        Ssh_Connect f \<Rightarrow> try_bind (require_ed25519_public keys (sf_key f)) (\<lambda>_. case sf_auth f of
          Client_Password password \<Rightarrow> if password \<noteq> [] then Ok () else Err (str_lit ''SSH client credential is invalid'')
        | Client_Ed25519 path \<Rightarrow> require_ed25519_private keys path)
      | Ssh_Listen f \<Rightarrow> try_bind (require_ed25519_private keys (sf_key f)) (\<lambda>_. case sf_auth f of
          Server_Password password \<Rightarrow> if password \<noteq> [] then Ok () else Err (str_lit ''SSH server credential is invalid'')
        | Server_Ed25519 path \<Rightarrow> require_ed25519_public keys path)))"

definition ssh_max_connections :: "ssh_options \<Rightarrow> nat" where
  "ssh_max_connections opts = (case opts of Ssh_Connect f \<Rightarrow> sf_max_connections f | Ssh_Listen f \<Rightarrow> sf_max_connections f)"

definition ssh_is_client :: "ssh_options \<Rightarrow> bool" where
  "ssh_is_client opts = (case opts of Ssh_Connect _ \<Rightarrow> True | Ssh_Listen _ \<Rightarrow> False)"

definition ssh_parse_options :: "'k ssh_keys \<Rightarrow> (str \<Rightarrow> (ssh_options, str) result) \<Rightarrow> bytes \<Rightarrow> bytes \<Rightarrow> (ssh_options, str) result" where
  "ssh_parse_options keys toml config base =
     try_bind (ok_or (from_utf8 config) (str_lit ''config is not UTF-8'')) (\<lambda>config.
     try_bind (ok_or (from_utf8 base) (str_lit ''base path is not UTF-8'')) (\<lambda>base.
     try_bind (toml config) (\<lambda>parsed.
       let opts = ssh_resolve base parsed in try_bind (ssh_validate keys opts) (\<lambda>_. Ok opts))))"

section \<open>The SSH client\<close>

text \<open>What the library, the host and the operating system answer to one session of a client.\<close>

datatype channel_msg = Msg_Success | Msg_Failure | Msg_Close | Msg_Other

record ('s, 'k) ssh_net =
  sn_socket :: "bool \<Rightarrow> 's option"
  sn_protect :: "'s \<Rightarrow> bool"
  sn_connect :: "'s \<Rightarrow> socket_addr \<Rightarrow> bool"
  sn_nodelay :: "'s \<Rightarrow> bool"
  sn_server_key :: "'s \<Rightarrow> 'k option"
  sn_auth_password :: "str \<Rightarrow> str \<Rightarrow> bool option"
  sn_auth_key :: "str \<Rightarrow> 'k \<Rightarrow> bool option"
  sn_open_channel :: bool
  sn_request_subsystem :: "str \<Rightarrow> bool"
  sn_messages :: "channel_msg option list"

datatype 's client_call = Ssh_Protected 's | Ssh_Connected 's socket_addr | Ssh_Authenticated str

definition ssh_protected_socket :: "('s, 'k) ssh_net \<Rightarrow> socket_addr \<Rightarrow> ('s, unit) result \<times> 's client_call list" where
  "ssh_protected_socket net endpoint = (case sn_socket net (is_ipv4 endpoint) of
     None \<Rightarrow> (Err (), [])
   | Some s \<Rightarrow>
       if \<not> sn_protect net s then (Err (), [])
       else (if sn_connect net s endpoint \<and> sn_nodelay net s then Ok s else Err (), [Ssh_Protected s, Ssh_Connected s endpoint]))"

definition check_server_key :: "'k \<Rightarrow> 'k \<Rightarrow> bool" where
  "check_server_key trusted key \<longleftrightarrow> key = trusted"

text \<open>Messages until the server has answered; \<open>None\<close> when no further message comes.\<close>

fun wait_subsystem :: "channel_msg option list \<Rightarrow> (unit, unit) result option" where
  "wait_subsystem [] = None"
| "wait_subsystem (Some Msg_Success # msgs) = Some (Ok ())"
| "wait_subsystem (Some Msg_Other # msgs) = wait_subsystem msgs"
| "wait_subsystem (m # msgs) = Some (Err ())"

definition client_authenticate :: "'k ssh_keys \<Rightarrow> ('s, 'k) ssh_net \<Rightarrow> str \<Rightarrow> ssh_client_auth \<Rightarrow> (unit, unit) result \<times> 's client_call list" where
  "client_authenticate keys net username auth = (case auth of
     Client_Password password \<Rightarrow> (if sn_auth_password net username password = Some True then Ok () else Err (), [Ssh_Authenticated username])
   | Client_Ed25519 path \<Rightarrow> (case sk_secret keys path of
       Err _ \<Rightarrow> (Err (), [])
     | Ok (key, _) \<Rightarrow> (if sn_auth_key net username key = Some True then Ok () else Err (), [Ssh_Authenticated username])))"

text \<open>Up to the point where the stream is handed to the host. The library refuses a server whose key the handler rejects.\<close>

definition run_client_session :: "'k ssh_keys \<Rightarrow> ('s, 'k) ssh_net \<Rightarrow> ssh_client_auth ssh_fields \<Rightarrow> (unit, unit) result option \<times> 's client_call list" where
  "run_client_session keys net f = (case sk_public keys (sf_key f) of
     Err _ \<Rightarrow> (Some (Err ()), [])
   | Ok (trusted, _) \<Rightarrow> (case ssh_protected_socket net (sf_endpoint f) of
       (Err _, calls) \<Rightarrow> (Some (Err ()), calls)
     | (Ok s, calls) \<Rightarrow> (case sn_server_key net s of
         None \<Rightarrow> (Some (Err ()), calls)
       | Some key \<Rightarrow>
           if \<not> check_server_key trusted key then (Some (Err ()), calls)
           else (case client_authenticate keys net (sf_username f) (sf_auth f) of
             (Err _, calls1) \<Rightarrow> (Some (Err ()), calls @ calls1)
           | (Ok _, calls1) \<Rightarrow>
               (if \<not> sn_open_channel net \<or> \<not> sn_request_subsystem net (str_lit ''snolc'') then Some (Err ())
                else wait_subsystem (sn_messages net), calls @ calls1)))))"

text \<open>Credentials are presented only to the server whose key is configured, over a protected socket to the configured endpoint.\<close>

lemma credentials_only_to_trusted:
  assumes "run_client_session keys net f = (r, calls)" "Ssh_Authenticated user \<in> set calls"
  shows "\<exists>s key ed25519. sk_public keys (sf_key f) = Ok (key, ed25519) \<and> sn_server_key net s = Some key \<and>
    calls = [Ssh_Protected s, Ssh_Connected s (sf_endpoint f), Ssh_Authenticated user] \<and> sn_protect net s"
  using assms
  by (auto simp: run_client_session_def ssh_protected_socket_def check_server_key_def client_authenticate_def
      split: result.splits option.splits if_splits ssh_client_auth.splits prod.splits)

section \<open>The SSH server\<close>

datatype 'k ssh_credential = Credential_Password str | Credential_Ed25519 'k

definition load_server_credential :: "'k ssh_keys \<Rightarrow> ssh_server_auth \<Rightarrow> ('k ssh_credential, unit) result" where
  "load_server_credential keys auth = (case auth of
     Server_Password password \<Rightarrow> Ok (Credential_Password password)
   | Server_Ed25519 path \<Rightarrow> (case sk_public keys path of Ok (key, _) \<Rightarrow> Ok (Credential_Ed25519 key) | Err _ \<Rightarrow> Err ()))"

text \<open>The handler of a session. A channel is its identifier.\<close>

record 'k ssh_handler =
  sh_username :: str
  sh_credential :: "'k ssh_credential"
  sh_channels :: "u32 list"

definition auth_password :: "'k ssh_handler \<Rightarrow> str \<Rightarrow> str \<Rightarrow> bool" where
  "auth_password h user password = (case sh_credential h of
     Credential_Password expected \<Rightarrow> user = sh_username h \<and> password = expected | _ \<Rightarrow> False)"

definition auth_publickey :: "'k ssh_handler \<Rightarrow> str \<Rightarrow> 'k \<Rightarrow> bool" where
  "auth_publickey h user key = (case sh_credential h of
     Credential_Ed25519 expected \<Rightarrow> user = sh_username h \<and> key = expected | _ \<Rightarrow> False)"

datatype handler_call = Channel_Accepted u32 | Channel_Failure u32 | Channel_Success u32 | Channel_Closed u32

definition channel_open_session :: "u32 \<Rightarrow> 'k ssh_handler \<Rightarrow> 'k ssh_handler \<times> handler_call list" where
  "channel_open_session ch h = (if sh_channels h = [] then (h\<lparr>sh_channels := [ch]\<rparr>, [Channel_Accepted ch]) else (h, []))"

text \<open>\<open>sent\<close> tells whether the event queue took the stream; the third component whether a stream was handed over.
  The answers of the session to the calls are not modelled.\<close>

definition subsystem_request :: "bool \<Rightarrow> u32 \<Rightarrow> str \<Rightarrow> 'k ssh_handler \<Rightarrow> 'k ssh_handler \<times> handler_call list \<times> bool" where
  "subsystem_request sent ch name h =
     (if ch \<notin> set (sh_channels h) then (h, [Channel_Failure ch], False)
      else let h1 = h\<lparr>sh_channels := removeAll ch (sh_channels h)\<rparr> in
        if name \<noteq> str_lit ''snolc'' then (h1, [Channel_Failure ch, Channel_Closed ch], False)
        else if \<not> sent then (h1, [Channel_Failure ch, Channel_Closed ch], False)
        else (h1, [Channel_Success ch], True))"

text \<open>Terminals, shells, commands and agents are refused.\<close>

definition pty_request :: "u32 \<Rightarrow> handler_call list" where "pty_request ch = [Channel_Failure ch]"

definition shell_request :: "u32 \<Rightarrow> handler_call list" where "shell_request ch = [Channel_Failure ch]"

definition exec_request :: "u32 \<Rightarrow> handler_call list" where "exec_request ch = [Channel_Failure ch]"

definition agent_request :: "u32 \<Rightarrow> handler_call list" where "agent_request ch = [Channel_Failure ch]"

section \<open>Instances and their workers\<close>

datatype ssh_command = Cmd_Connect | Cmd_Shutdown
datatype 'e ssh_event = Ev_Ready 'e | Ev_Attempt_Failed | Ev_Fatal

text \<open>The channels between the host and the worker thread are part of the instance, with whether the worker still runs and
  its sessions: those of a client that have not reported yet, and the handlers of a server. Capacities beyond what
  the channels admit are not modelled.\<close>

record ('e, 'k) ssh_instance =
  si_options :: ssh_options
  si_capacity :: nat
  si_commands :: "ssh_command list"
  si_events :: "'e ssh_event list"
  si_running :: bool
  si_attempts :: nat
  si_handlers :: "'k ssh_handler list"
  si_ready :: "'e list"
  si_failures :: nat
  si_failed :: bool
  si_connect_pending :: bool
  si_client :: bool
  si_active :: nat
  si_max :: nat
  si_connect_wake :: wake_slot
  si_accept_wake :: wake_slot

record ('e, 'k) ssh_module =
  sm_instances :: "(u64, ('e, 'k) ssh_instance) hashmap"
  sm_streams :: "(u64, 'e tcp_stream) hashmap"
  sm_instance_next :: u64
  sm_stream_next :: u64

definition ssh_initial :: "('e, 'k) ssh_module" where
  "ssh_initial = \<lparr>sm_instances = [], sm_streams = [], sm_instance_next = 1, sm_stream_next = 1\<rparr>"

definition USIZE_MAX :: nat where
  "USIZE_MAX = 2 ^ 64 - 1"

definition ssh_new_instance :: "ssh_options \<Rightarrow> ('e, 'k) ssh_instance" where
  "ssh_new_instance opts = \<lparr>si_options = opts, si_capacity = min (ssh_max_connections opts + 1) USIZE_MAX, si_commands = [], si_events = [],
     si_running = True, si_attempts = 0, si_handlers = [], si_ready = [], si_failures = 0, si_failed = False, si_connect_pending = False,
     si_client = ssh_is_client opts, si_active = 0, si_max = ssh_max_connections opts, si_connect_wake = None, si_accept_wake = None\<rparr>"

definition drop_ssh_instance :: "('e, 'k) ssh_instance \<Rightarrow> wake_call list" where
  "drop_ssh_instance st = snd (slot_clear (si_connect_wake st)) @ snd (slot_clear (si_accept_wake st))"

definition ssh_create ::
  "'k ssh_keys \<Rightarrow> (str \<Rightarrow> (ssh_options, str) result) \<Rightarrow> (bytes, status) result \<Rightarrow> (bytes, status) result \<Rightarrow> (unit, status) result \<Rightarrow>
     bool \<Rightarrow> bool \<Rightarrow> ('e, 'k) ssh_module \<Rightarrow> (status \<times> u64 option) \<times> ('e, 'k) ssh_module \<times> wake_call list" where
  "ssh_create keys toml config base host spawned output_null m = (case config of
     Err e \<Rightarrow> ((e, None), m, [])
   | Ok config \<Rightarrow> (case base of
       Err e \<Rightarrow> ((e, None), m, [])
     | Ok base \<Rightarrow> (case ssh_parse_options keys toml config base of
         Err _ \<Rightarrow> ((STATUS_INVALID, None), m, [])
       | Ok opts \<Rightarrow>
           if output_null then ((STATUS_INVALID, None), m, [])
           else (case host of
             Err e \<Rightarrow> ((e, None), m, [])
           | Ok _ \<Rightarrow>
               if \<not> spawned then ((STATUS_RESOURCE, None), m, [])
               else let handle = sm_instance_next m; m1 = m\<lparr>sm_instance_next := handle + 1\<rparr> in
                 if handle = 0 then ((STATUS_RESOURCE, None), m1, [])
                 else ((STATUS_OK, Some handle), m1\<lparr>sm_instances := hm_insert handle (ssh_new_instance opts) (sm_instances m1)\<rparr>,
                   dropped drop_ssh_instance (hm_get (sm_instances m1) handle))))))"

text \<open>The events that are in the queue, in order; a worker that has ended shows after its last event.\<close>

fun take_event :: "'e ssh_event \<Rightarrow> ('e, 'k) ssh_instance \<Rightarrow> ('e, 'k) ssh_instance" where
  "take_event (Ev_Ready e) st = st\<lparr>si_connect_pending := False, si_ready := si_ready st @ [e]\<rparr>"
| "take_event Ev_Attempt_Failed st = st\<lparr>si_connect_pending := False, si_failures := min (si_failures st + 1) USIZE_MAX\<rparr>"
| "take_event Ev_Fatal st = st\<lparr>si_failed := True\<rparr>"

definition drain_events :: "('e, 'k) ssh_instance \<Rightarrow> ('e, 'k) ssh_instance" where
  "drain_events st =
     (let st1 = fold take_event (si_events st) (st\<lparr>si_events := []\<rparr>) in
      if si_running st then st1 else st1\<lparr>si_failed := True\<rparr>)"

definition ssh_poll :: "u64 \<Rightarrow> ('e, 'k) ssh_module \<Rightarrow> status \<times> ('e, 'k) ssh_module \<times> wake_call list" where
  "ssh_poll inst m = (case hm_get (sm_instances m) inst of
     None \<Rightarrow> (STATUS_INVALID, m, [])
   | Some st0 \<Rightarrow>
       let st = drain_events st0 in
       (case slot_wake (si_connect_wake st) of (s1, calls1) \<Rightarrow> case slot_wake (si_accept_wake st) of
          (s2, calls2) \<Rightarrow> case wake_streams inst (sm_streams m) of
          (streams, calls3) \<Rightarrow>
            (STATUS_PENDING,
             m\<lparr>sm_instances := hm_insert inst (st\<lparr>si_connect_wake := s1, si_accept_wake := s2\<rparr>) (sm_instances m), sm_streams := streams\<rparr>,
             calls1 @ calls2 @ calls3)))"

definition ssh_control :: "u64 \<Rightarrow> bool \<Rightarrow> ('e, 'k) ssh_module \<Rightarrow> status \<times> nat option" where
  "ssh_control inst written_null m =
     (if written_null then (STATUS_INVALID, None)
      else if hm_contains (sm_instances m) inst then (STATUS_UNSUPPORTED, Some 0) else (STATUS_INVALID, Some 0))"

datatype try_sent = Cmd_Sent | Cmd_Full | Cmd_Closed

definition send_command :: "ssh_command \<Rightarrow> ('e, 'k) ssh_instance \<Rightarrow> try_sent \<times> ('e, 'k) ssh_instance" where
  "send_command c st =
     (if \<not> si_running st then (Cmd_Closed, st)
      else if si_capacity st \<le> length (si_commands st) then (Cmd_Full, st)
      else (Cmd_Sent, st\<lparr>si_commands := si_commands st @ [c]\<rparr>))"

definition ssh_shutdown :: "u64 \<Rightarrow> ('e, 'k) ssh_module \<Rightarrow> status \<times> ('e, 'k) ssh_module \<times> wake_call list" where
  "ssh_shutdown inst m = (case hm_get (sm_instances m) inst of
     None \<Rightarrow> (STATUS_INVALID, m, [])
   | Some st \<Rightarrow> (case send_command Cmd_Shutdown st of
       (r, st1) \<Rightarrow> (if r = Cmd_Full then STATUS_RESOURCE else STATUS_OK, m\<lparr>sm_instances := hm_insert inst st1 (sm_instances m)\<rparr>, [])))"

text \<open>The worker is joined before the instance is dropped; a join that returns leaves no trace in the tables.\<close>

definition ssh_destroy :: "u64 \<Rightarrow> ('e, 'k) ssh_module \<Rightarrow> ('e, 'k) ssh_module \<times> wake_call list" where
  "ssh_destroy inst m =
     (m\<lparr>sm_streams := hm_retain (\<lambda>_ s. tst_owner s \<noteq> inst) (sm_streams m), sm_instances := hm_remove inst (sm_instances m)\<rparr>,
      concat (map (\<lambda>(h, s). drop_stream s) (hm_retain (\<lambda>_ s. \<not> tst_owner s \<noteq> inst) (sm_streams m))) @
      dropped drop_ssh_instance (hm_get (sm_instances m) inst))"

definition ssh_finish_stream ::
  "u64 \<Rightarrow> 'e \<Rightarrow> ('e, 'k) ssh_instance \<Rightarrow> bool \<Rightarrow> ('e, 'k) ssh_module \<Rightarrow>
     (status \<times> u64 option) \<times> ('e, 'k) ssh_instance \<times> ('e, 'k) ssh_module \<times> wake_call list" where
  "ssh_finish_stream owner e st output_null m =
     (if output_null then ((STATUS_INVALID, None), st, m, [])
      else let handle = sm_stream_next m; m1 = m\<lparr>sm_stream_next := handle + 1\<rparr> in
        if handle = 0 then ((STATUS_RESOURCE, None), st, m1, [])
        else ((STATUS_OK, Some handle), st\<lparr>si_active := si_active st + 1\<rparr>,
          m1\<lparr>sm_streams := hm_insert handle \<lparr>tst_owner = owner, tst_io = e, tst_read_wake = None, tst_write_wake = None\<rparr> (sm_streams m1)\<rparr>,
          dropped drop_stream (hm_get (sm_streams m1) handle)))"

text \<open>The last part of \<open>take_or_start\<close>: starting an attempt and waiting for its result.\<close>

definition start_and_wait ::
  "bool \<Rightarrow> wake_handle \<Rightarrow> bool \<Rightarrow> ('e, 'k) ssh_instance \<Rightarrow> status \<times> ('e, 'k) ssh_instance \<times> wake_call list" where
  "start_and_wait granted wake connect st =
     (case (if connect \<and> \<not> si_connect_pending st then send_command Cmd_Connect st else (Cmd_Sent, st)) of
        (Cmd_Full, st1) \<Rightarrow> (STATUS_RESOURCE, st1, [])
      | (Cmd_Closed, st1) \<Rightarrow> (STATUS_IO, st1, [])
      | (Cmd_Sent, st1) \<Rightarrow>
          if connect then (case slot_replace granted wake (si_connect_wake st1) of
            (slot, calls) \<Rightarrow> (STATUS_PENDING, st1\<lparr>si_connect_pending := True, si_connect_wake := slot\<rparr>, calls))
          else (case slot_replace granted wake (si_accept_wake st1) of
            (slot, calls) \<Rightarrow> (STATUS_PENDING, st1\<lparr>si_accept_wake := slot\<rparr>, calls)))"

definition take_or_start ::
  "u64 \<Rightarrow> bool \<Rightarrow> wake_handle \<Rightarrow> bool \<Rightarrow> bool \<Rightarrow> ('e, 'k) ssh_instance \<Rightarrow> ('e, 'k) ssh_module \<Rightarrow>
     (status \<times> u64 option) \<times> ('e, 'k) ssh_instance \<times> ('e, 'k) ssh_module \<times> wake_call list" where
  "take_or_start owner granted wake output_null connect st m = (case si_ready st of
     e # ready \<Rightarrow> ssh_finish_stream owner e (st\<lparr>si_ready := ready\<rparr>) output_null m
   | [] \<Rightarrow>
       if si_failures st \<noteq> 0 then ((STATUS_IO, None), st\<lparr>si_failures := si_failures st - 1\<rparr>, m, [])
       else if si_failed st then ((STATUS_IO, None), st, m, [])
       else if si_max st \<le> si_active st then ((STATUS_RESOURCE, None), st, m, [])
       else (case start_and_wait granted wake connect st of (s, st1, calls) \<Rightarrow> ((s, None), st1, m, calls)))"

text \<open>Connecting and accepting differ in the mode they need.\<close>

definition ssh_obtain ::
  "u64 \<Rightarrow> bool \<Rightarrow> wake_handle \<Rightarrow> bool \<Rightarrow> bool \<Rightarrow> ('e, 'k) ssh_module \<Rightarrow> (status \<times> u64 option) \<times> ('e, 'k) ssh_module \<times> wake_call list" where
  "ssh_obtain inst granted wake output_null connect m = (case hm_get (sm_instances m) inst of
     None \<Rightarrow> ((STATUS_INVALID, None), m, [])
   | Some st0 \<Rightarrow>
       let st = drain_events st0 in
       if si_client st \<noteq> connect then ((STATUS_UNSUPPORTED, None), m\<lparr>sm_instances := hm_insert inst st (sm_instances m)\<rparr>, [])
       else (case take_or_start inst granted wake output_null connect st m of
         (answer, st1, m1, calls) \<Rightarrow> (answer, m1\<lparr>sm_instances := hm_insert inst st1 (sm_instances m1)\<rparr>, calls)))"

definition ssh_connect ::
  "u64 \<Rightarrow> (bytes, status) result \<Rightarrow> bool \<Rightarrow> wake_handle \<Rightarrow> bool \<Rightarrow> ('e, 'k) ssh_module \<Rightarrow> (status \<times> u64 option) \<times> ('e, 'k) ssh_module \<times> wake_call list" where
  "ssh_connect inst endpoint granted wake output_null m = (case endpoint of
     Err e \<Rightarrow> ((e, None), m, [])
   | Ok bs \<Rightarrow> if bs \<noteq> [] then ((STATUS_UNSUPPORTED, None), m, []) else ssh_obtain inst granted wake output_null True m)"

definition ssh_accept :: "u64 \<Rightarrow> bool \<Rightarrow> wake_handle \<Rightarrow> bool \<Rightarrow> ('e, 'k) ssh_module \<Rightarrow> (status \<times> u64 option) \<times> ('e, 'k) ssh_module \<times> wake_call list" where
  "ssh_accept inst granted wake output_null m = ssh_obtain inst granted wake output_null False m"

section \<open>Host calls on streams\<close>

definition ssh_put_stream :: "u64 \<Rightarrow> 'e tcp_stream \<Rightarrow> ('e, 'k) ssh_module \<Rightarrow> ('e, 'k) ssh_module" where
  "ssh_put_stream h s m = m\<lparr>sm_streams := hm_insert h s (sm_streams m)\<rparr>"

definition ssh_read ::
  "io_read \<Rightarrow> u64 \<Rightarrow> bool \<Rightarrow> nat \<Rightarrow> bool \<Rightarrow> wake_handle \<Rightarrow> ('e, 'k) ssh_module \<Rightarrow> (io_result \<times> bytes) \<times> ('e, 'k) ssh_module \<times> wake_call list" where
  "ssh_read answer h output_null n granted wake m =
     (if output_null \<and> n \<noteq> 0 then ((Io_Error STATUS_INVALID, []), m, [])
      else (case hm_get (sm_streams m) h of
        None \<Rightarrow> ((Io_Error STATUS_INVALID, []), m, [])
      | Some s \<Rightarrow> (case answer of
          Read_Data bs \<Rightarrow> ((if bs = [] then Io_Eof else Io_Progress (length bs), bs), m, [])
        | Read_Error \<Rightarrow> ((Io_Error STATUS_IO, []), m, [])
        | Read_Pending \<Rightarrow> (case slot_replace granted wake (tst_read_wake s) of
            (slot, calls) \<Rightarrow> ((Io_Pending, []), ssh_put_stream h (s\<lparr>tst_read_wake := slot\<rparr>) m, calls)))))"

definition ssh_wait_write ::
  "u64 \<Rightarrow> 'e tcp_stream \<Rightarrow> bool \<Rightarrow> wake_handle \<Rightarrow> ('e, 'k) ssh_module \<Rightarrow> io_result \<times> ('e, 'k) ssh_module \<times> wake_call list" where
  "ssh_wait_write h s granted wake m = (case slot_replace granted wake (tst_write_wake s) of
     (slot, calls) \<Rightarrow> (Io_Pending, ssh_put_stream h (s\<lparr>tst_write_wake := slot\<rparr>) m, calls))"

definition ssh_write ::
  "(bytes \<Rightarrow> io_write) \<Rightarrow> u64 \<Rightarrow> (bytes, status) result \<Rightarrow> bool \<Rightarrow> wake_handle \<Rightarrow> ('e, 'k) ssh_module \<Rightarrow> io_result \<times> ('e, 'k) ssh_module \<times> wake_call list" where
  "ssh_write answer h input granted wake m = (case input of
     Err e \<Rightarrow> (Io_Error e, m, [])
   | Ok bs \<Rightarrow>
       if bs = [] then (Io_Progress 0, m, [])
       else (case hm_get (sm_streams m) h of
         None \<Rightarrow> (Io_Error STATUS_INVALID, m, [])
       | Some s \<Rightarrow> (case answer bs of
           Write_Count n \<Rightarrow> (if n = 0 then Io_Error STATUS_IO else Io_Progress n, m, [])
         | Write_Error \<Rightarrow> (Io_Error STATUS_IO, m, [])
         | Write_Pending \<Rightarrow> ssh_wait_write h s granted wake m)))"

definition ssh_io_action ::
  "(unit, unit) poll \<Rightarrow> u64 \<Rightarrow> bool \<Rightarrow> wake_handle \<Rightarrow> ('e, 'k) ssh_module \<Rightarrow> io_result \<times> ('e, 'k) ssh_module \<times> wake_call list" where
  "ssh_io_action answer h granted wake m = (case hm_get (sm_streams m) h of
     None \<Rightarrow> (Io_Error STATUS_INVALID, m, [])
   | Some s \<Rightarrow> (case answer of
       Ready (Ok _) \<Rightarrow> (Io_Progress 0, m, [])
     | Ready (Err _) \<Rightarrow> (Io_Error STATUS_IO, m, [])
     | Pending \<Rightarrow> ssh_wait_write h s granted wake m))"

definition ssh_close :: "u64 \<Rightarrow> ('e, 'k) ssh_module \<Rightarrow> status \<times> ('e, 'k) ssh_module \<times> wake_call list" where
  "ssh_close h m = (case hm_get (sm_streams m) h of
     None \<Rightarrow> (STATUS_INVALID, m, [])
   | Some s \<Rightarrow>
       let m1 = m\<lparr>sm_streams := hm_remove h (sm_streams m)\<rparr> in
       (STATUS_OK,
        (case hm_get (sm_instances m1) (tst_owner s) of
           None \<Rightarrow> m1
         | Some st \<Rightarrow> m1\<lparr>sm_instances := hm_insert (tst_owner s) (st\<lparr>si_active := si_active st - 1\<rparr>) (sm_instances m1)\<rparr>),
        drop_stream s))"

section \<open>Steps of the worker\<close>

text \<open>Sending an event fails when the queue is full.\<close>

definition send_event :: "'e ssh_event \<Rightarrow> ('e, 'k) ssh_instance \<Rightarrow> bool \<times> ('e, 'k) ssh_instance" where
  "send_event e st = (if si_capacity st \<le> length (si_events st) then (False, st) else (True, st\<lparr>si_events := si_events st @ [e]\<rparr>))"

definition worker_gone :: "('e, 'k) ssh_instance \<Rightarrow> ('e, 'k) ssh_instance" where
  "worker_gone st = st\<lparr>si_running := False, si_commands := [], si_attempts := 0, si_handlers := []\<rparr>"

text \<open>A command: a client starts a session, a server ignores the command to connect, and both end on shutdown.\<close>

definition worker_command :: "('e, 'k) ssh_instance \<Rightarrow> ('e, 'k) ssh_instance" where
  "worker_command st = (case si_commands st of
     [] \<Rightarrow> st
   | Cmd_Shutdown # cmds \<Rightarrow> worker_gone st
   | Cmd_Connect # cmds \<Rightarrow> if si_client st then st\<lparr>si_commands := cmds, si_attempts := si_attempts st + 1\<rparr> else st\<lparr>si_commands := cmds\<rparr>)"

text \<open>A session of a client reports once: its stream, or that the attempt failed, also when the stream could not be sent.\<close>

definition client_reports :: "'e option \<Rightarrow> ('e, 'k) ssh_instance \<Rightarrow> ('e, 'k) ssh_instance" where
  "client_reports outcome st0 =
     (if si_attempts st0 = 0 then st0
      else let st = st0\<lparr>si_attempts := si_attempts st0 - 1\<rparr> in
        case outcome of
          Some e \<Rightarrow> (case send_event (Ev_Ready e) st of (True, st1) \<Rightarrow> st1 | (False, st1) \<Rightarrow> snd (send_event Ev_Attempt_Failed st1))
        | None \<Rightarrow> snd (send_event Ev_Attempt_Failed st))"

definition server_accepts :: "'k ssh_credential \<Rightarrow> ('e, 'k) ssh_instance \<Rightarrow> ('e, 'k) ssh_instance" where
  "server_accepts credential st = (case si_options st of
     Ssh_Connect _ \<Rightarrow> st
   | Ssh_Listen f \<Rightarrow>
       if \<not> si_running st \<or> sf_max_connections f \<le> length (si_handlers st) then st
       else st\<lparr>si_handlers := si_handlers st @ [\<lparr>sh_username = sf_username f, sh_credential = credential, sh_channels = []\<rparr>]\<rparr>)"

text \<open>What an authenticated peer asks of the handler of its session.\<close>

datatype handler_request = Ask_Channel u32 | Ask_Subsystem u32 str

definition server_asked :: "nat \<Rightarrow> handler_request \<Rightarrow> 'e \<Rightarrow> ('e, 'k) ssh_instance \<Rightarrow> ('e, 'k) ssh_instance" where
  "server_asked k request e st =
     (if length (si_handlers st) \<le> k then st
      else (case request of
        Ask_Channel ch \<Rightarrow> st\<lparr>si_handlers := (si_handlers st)[k := fst (channel_open_session ch (si_handlers st ! k))]\<rparr>
      | Ask_Subsystem ch name \<Rightarrow> (case subsystem_request (fst (send_event (Ev_Ready e) st)) ch name (si_handlers st ! k) of
          (h, calls, handed) \<Rightarrow> (if handed then snd (send_event (Ev_Ready e) st) else st)\<lparr>si_handlers := (si_handlers st)[k := h]\<rparr>)))"

definition server_session_ends :: "nat \<Rightarrow> ('e, 'k) ssh_instance \<Rightarrow> ('e, 'k) ssh_instance" where
  "server_session_ends k st = st\<lparr>si_handlers := take k (si_handlers st) @ drop (Suc k) (si_handlers st)\<rparr>"

text \<open>A worker that cannot go on reports so and ends.\<close>

definition worker_main_fails :: "('e, 'k) ssh_instance \<Rightarrow> ('e, 'k) ssh_instance" where
  "worker_main_fails st = worker_gone (snd (send_event Ev_Fatal st))"

end
