(* ===== verification/Ssh_Bridge.thy ===== *)
theory Ssh_Bridge
  imports Foreign_Io
begin

text \<open>
  The pipe between the host thread and the SSH worker thread (\<^verbatim>\<open>carrier-ssh/src/bridge.rs\<close>). Both threads share a bounded queue
  of chunks and a flag, so reading and writing are modelled as the sequences of their atomic operations: a call
  is at a program point, and every step is one operation on the queue, the flag or a waker. Any interleaving of
  the steps of the two threads is a run. One direction of the pair is modelled; the other one is the same code
  on its own pipe.
\<close>

section \<open>The pipe\<close>

text \<open>\<open>ArrayQueue\<close>, \<open>AtomicBool\<close> and \<open>AtomicWaker\<close>: a waker is registered until it is woken.\<close>

record pipe =
  pp_capacity :: nat
  pp_queue :: "bytes list"
  pp_closed :: bool
  pp_reader :: bool
  pp_writer :: bool

definition pipe_new :: "nat \<Rightarrow> pipe" where
  "pipe_new chunks = \<lparr>pp_capacity = chunks, pp_queue = [], pp_closed = False, pp_reader = False, pp_writer = False\<rparr>"

definition pipe_full :: "pipe \<Rightarrow> bool" where
  "pipe_full p \<longleftrightarrow> length (pp_queue p) = pp_capacity p"

definition pipe_push :: "bytes \<Rightarrow> pipe \<Rightarrow> bool \<times> pipe" where
  "pipe_push chunk p = (if pipe_full p then (False, p) else (True, p\<lparr>pp_queue := pp_queue p @ [chunk]\<rparr>))"

definition pipe_pop :: "pipe \<Rightarrow> bytes option \<times> pipe" where
  "pipe_pop p = (case pp_queue p of [] \<Rightarrow> (None, p) | chunk # chunks \<Rightarrow> (Some chunk, p\<lparr>pp_queue := chunks\<rparr>))"

section \<open>Reading\<close>

text \<open>Where a call of \<open>poll_read\<close> with a buffer of \<open>n\<close> bytes is. The recursive call of the source starts with bytes in
  \<open>current\<close>, so it delivers at once.\<close>

datatype read_point =
    Rd_Start nat | Rd_Wake_Writer nat | Rd_Deliver nat | Rd_Closed nat | Rd_Register nat | Rd_Pop_Again nat | Rd_Wake_Again nat | Rd_Closed_Again nat
  | Rd_Return "(bytes, unit) poll"

fun read_step :: "read_point \<Rightarrow> bytes \<Rightarrow> pipe \<Rightarrow> read_point \<times> bytes \<times> pipe" where
  "read_step (Rd_Start n) current p =
     (if n = 0 then (Rd_Return (Ready (Ok [])), current, p)
      else if current \<noteq> [] then (Rd_Deliver n, current, p)
      else (case pipe_pop p of
        (Some chunk, p') \<Rightarrow> (Rd_Wake_Writer n, chunk, p')
      | (None, p') \<Rightarrow> (Rd_Closed n, current, p')))"
| "read_step (Rd_Wake_Writer n) current p = (Rd_Deliver n, current, p\<lparr>pp_writer := False\<rparr>)"
| "read_step (Rd_Deliver n) current p =
     (if current \<noteq> [] then (Rd_Return (Ready (Ok (take n current))), drop n current, p) else (Rd_Closed n, current, p))"
| "read_step (Rd_Closed n) current p =
     (if pp_closed p then (Rd_Return (Ready (Ok [])), current, p) else (Rd_Register n, current, p))"
| "read_step (Rd_Register n) current p = (Rd_Pop_Again n, current, p\<lparr>pp_reader := True\<rparr>)"
| "read_step (Rd_Pop_Again n) current p = (case pipe_pop p of
     (Some chunk, p') \<Rightarrow> (Rd_Wake_Again n, chunk, p')
   | (None, p') \<Rightarrow> (Rd_Closed_Again n, current, p'))"
| "read_step (Rd_Wake_Again n) current p = (Rd_Start n, current, p\<lparr>pp_writer := False\<rparr>)"
| "read_step (Rd_Closed_Again n) current p =
     (Rd_Return (if pp_closed p then Ready (Ok []) else Pending), current, p)"
| "read_step (Rd_Return r) current p = (Rd_Return r, current, p)"

section \<open>Writing and closing\<close>

text \<open>A call of \<open>poll_write\<close>; \<open>chunk_bytes\<close> bounds what one call accepts. The recursive call of the source is a restart.\<close>

datatype write_point =
    Wr_Start bytes | Wr_Push bytes | Wr_Wake_Reader nat | Wr_Register bytes | Wr_Full bytes | Wr_Return "(nat, unit) poll"

fun write_step :: "nat \<Rightarrow> write_point \<Rightarrow> pipe \<Rightarrow> write_point \<times> pipe" where
  "write_step chunk_bytes (Wr_Start input) p =
     (if input = [] then (Wr_Return (Ready (Ok 0)), p)
      else if pp_closed p then (Wr_Return (Ready (Err ())), p) else (Wr_Push input, p))"
| "write_step chunk_bytes (Wr_Push input) p =
     (let chunk = take chunk_bytes input in
      case pipe_push chunk p of
        (True, p') \<Rightarrow> (Wr_Wake_Reader (length chunk), p') | (False, p') \<Rightarrow> (Wr_Register input, p'))"
| "write_step chunk_bytes (Wr_Wake_Reader count) p = (Wr_Return (Ready (Ok count)), p\<lparr>pp_reader := False\<rparr>)"
| "write_step chunk_bytes (Wr_Register input) p = (Wr_Full input, p\<lparr>pp_writer := True\<rparr>)"
| "write_step chunk_bytes (Wr_Full input) p = (if pipe_full p then (Wr_Return Pending, p) else (Wr_Start input, p))"
| "write_step chunk_bytes (Wr_Return r) p = (Wr_Return r, p)"

datatype close_point = Cl_Store | Cl_Wake_Reader | Cl_Wake_Writer | Cl_Closed

fun close_step :: "close_point \<Rightarrow> pipe \<Rightarrow> close_point \<times> pipe" where
  "close_step Cl_Store p = (Cl_Wake_Reader, p\<lparr>pp_closed := True\<rparr>)"
| "close_step Cl_Wake_Reader p = (Cl_Wake_Writer, p\<lparr>pp_reader := False\<rparr>)"
| "close_step Cl_Wake_Writer p = (Cl_Closed, p\<lparr>pp_writer := False\<rparr>)"
| "close_step Cl_Closed p = (Cl_Closed, p)"

section \<open>Both threads\<close>

text \<open>Each thread is between calls, in a call, or closing the pipe: the writer in \<open>shutdown\<close> or when it is dropped, the
  reader when it is dropped. The accepted and the delivered bytes are recorded.\<close>

datatype reader_state = Reader_Idle | Reader_Pending | Reader_Eof | Reader_At read_point | Reader_Closing close_point
datatype writer_state = Writer_Idle | Writer_Pending | Writer_Failed | Writer_At write_point | Writer_Closing close_point

record bridge =
  br_pipe :: pipe
  br_chunk_bytes :: nat
  br_current :: bytes
  br_reader :: reader_state
  br_writer :: writer_state
  br_accepted :: bytes
  br_delivered :: bytes

definition bridge_new :: "nat \<Rightarrow> nat \<Rightarrow> bridge" where
  "bridge_new queue_chunks chunk_bytes = \<lparr>br_pipe = pipe_new queue_chunks, br_chunk_bytes = chunk_bytes, br_current = [],
     br_reader = Reader_Idle, br_writer = Writer_Idle, br_accepted = [], br_delivered = []\<rparr>"

definition after_read :: "nat \<Rightarrow> (bytes, unit) poll \<Rightarrow> reader_state" where
  "after_read n r = (case r of Pending \<Rightarrow> Reader_Pending | Ready (Ok []) \<Rightarrow> if n = 0 then Reader_Idle else Reader_Eof | _ \<Rightarrow> Reader_Idle)"

definition read_point_size :: "read_point \<Rightarrow> nat" where
  "read_point_size pt = (case pt of Rd_Start n \<Rightarrow> n | Rd_Wake_Writer n \<Rightarrow> n | Rd_Deliver n \<Rightarrow> n | Rd_Closed n \<Rightarrow> n | Rd_Register n \<Rightarrow> n
     | Rd_Pop_Again n \<Rightarrow> n | Rd_Wake_Again n \<Rightarrow> n | Rd_Closed_Again n \<Rightarrow> n | Rd_Return r \<Rightarrow> 0)"

definition read_turn :: "read_point \<Rightarrow> bridge \<Rightarrow> bridge" where
  "read_turn pt b = (case read_step pt (br_current b) (br_pipe b) of
     (Rd_Return r, current, p) \<Rightarrow> b\<lparr>br_pipe := p, br_current := current, br_reader := after_read (read_point_size pt) r,
       br_delivered := br_delivered b @ (case r of Ready (Ok bs) \<Rightarrow> bs | _ \<Rightarrow> [])\<rparr>
   | (pt', current, p) \<Rightarrow> b\<lparr>br_pipe := p, br_current := current, br_reader := Reader_At pt'\<rparr>)"

definition after_write :: "(nat, unit) poll \<Rightarrow> writer_state" where
  "after_write r = (case r of Pending \<Rightarrow> Writer_Pending | Ready (Ok n) \<Rightarrow> Writer_Idle | Ready (Err e) \<Rightarrow> Writer_Failed)"

definition accepted_by :: "write_point \<Rightarrow> write_point \<Rightarrow> nat \<Rightarrow> bytes" where
  "accepted_by pt pt' chunk_bytes = (case (pt, pt') of (Wr_Push input, Wr_Wake_Reader n) \<Rightarrow> take chunk_bytes input | _ \<Rightarrow> [])"

definition write_turn :: "write_point \<Rightarrow> bridge \<Rightarrow> bridge" where
  "write_turn pt b = (case write_step (br_chunk_bytes b) pt (br_pipe b) of (pt', p) \<Rightarrow>
     b\<lparr>br_pipe := p, br_writer := (case pt' of Wr_Return r \<Rightarrow> after_write r | _ \<Rightarrow> Writer_At pt'),
       br_accepted := br_accepted b @ accepted_by pt pt' (br_chunk_bytes b)\<rparr>)"

datatype bridge_action = Call_Read nat | Call_Write bytes | Call_Shutdown | Drop_Reader | Reader_Turn | Writer_Turn

definition between_reads :: "bridge \<Rightarrow> bool" where
  "between_reads b \<longleftrightarrow> br_reader b \<in> {Reader_Idle, Reader_Pending, Reader_Eof}"

definition between_writes :: "bridge \<Rightarrow> bool" where
  "between_writes b \<longleftrightarrow> br_writer b \<in> {Writer_Idle, Writer_Pending, Writer_Failed, Writer_Closing Cl_Closed}"

text \<open>An action that is not possible changes nothing.\<close>

fun bridge_act :: "bridge_action \<Rightarrow> bridge \<Rightarrow> bridge" where
  "bridge_act (Call_Read n) b = (if between_reads b then b\<lparr>br_reader := Reader_At (Rd_Start n)\<rparr> else b)"
| "bridge_act (Call_Write input) b = (if between_writes b then b\<lparr>br_writer := Writer_At (Wr_Start input)\<rparr> else b)"
| "bridge_act Call_Shutdown b = (if between_writes b then b\<lparr>br_writer := Writer_Closing Cl_Store\<rparr> else b)"
| "bridge_act Drop_Reader b = (if between_reads b then b\<lparr>br_reader := Reader_Closing Cl_Store\<rparr> else b)"
| "bridge_act Reader_Turn b = (case br_reader b of
     Reader_At pt \<Rightarrow> read_turn pt b
   | Reader_Closing c \<Rightarrow> (case close_step c (br_pipe b) of (c', p) \<Rightarrow> b\<lparr>br_pipe := p, br_reader := Reader_Closing c'\<rparr>)
   | _ \<Rightarrow> b)"
| "bridge_act Writer_Turn b = (case br_writer b of
     Writer_At pt \<Rightarrow> write_turn pt b
   | Writer_Closing c \<Rightarrow> (case close_step c (br_pipe b) of (c', p) \<Rightarrow> b\<lparr>br_pipe := p, br_writer := Writer_Closing c'\<rparr>)
   | _ \<Rightarrow> b)"

inductive bridge_reachable :: "nat \<Rightarrow> nat \<Rightarrow> bridge \<Rightarrow> bool" for queue_chunks chunk_bytes where
  bridge_start: "bridge_reachable queue_chunks chunk_bytes (bridge_new queue_chunks chunk_bytes)"
| bridge_next: "bridge_reachable queue_chunks chunk_bytes b \<Longrightarrow> bridge_reachable queue_chunks chunk_bytes (bridge_act a b)"

lemma bridge_run_reachable: "bridge_reachable queue_chunks chunk_bytes (fold bridge_act as (bridge_new queue_chunks chunk_bytes))"
  by (induction as rule: rev_induct) (auto intro: bridge_reachable.intros)

section \<open>The stream\<close>

definition stream_exact :: "bridge \<Rightarrow> bool" where
  "stream_exact b \<longleftrightarrow> br_accepted b = br_delivered b @ br_current b @ concat (pp_queue (br_pipe b))"

definition queue_bounded :: "nat \<Rightarrow> nat \<Rightarrow> bridge \<Rightarrow> bool" where
  "queue_bounded queue_chunks chunk_bytes b \<longleftrightarrow> pp_capacity (br_pipe b) = queue_chunks \<and> br_chunk_bytes b = chunk_bytes \<and>
     length (pp_queue (br_pipe b)) \<le> queue_chunks \<and> (\<forall>chunk\<in>set (pp_queue (br_pipe b)). length chunk \<le> chunk_bytes)"

lemma pipe_pop_cases:
  obtains "pp_queue p = []" "pipe_pop p = (None, p)"
  | chunk chunks where "pp_queue p = chunk # chunks" "pipe_pop p = (Some chunk, p\<lparr>pp_queue := chunks\<rparr>)"
  by (cases "pp_queue p") (auto simp: pipe_pop_def)

lemmas bridge_defs = stream_exact_def queue_bounded_def read_turn_def write_turn_def pipe_push_def pipe_full_def accepted_by_def Let_def

text \<open>The program points that occur: a call that has looked for a chunk has none.\<close>

fun reader_point_ok :: "reader_state \<Rightarrow> bytes \<Rightarrow> bool" where
  "reader_point_ok (Reader_At (Rd_Closed n)) current \<longleftrightarrow> current = []"
| "reader_point_ok (Reader_At (Rd_Register n)) current \<longleftrightarrow> current = []"
| "reader_point_ok (Reader_At (Rd_Pop_Again n)) current \<longleftrightarrow> current = []"
| "reader_point_ok (Reader_At (Rd_Closed_Again n)) current \<longleftrightarrow> current = []"
| "reader_point_ok (Reader_At (Rd_Return r)) current \<longleftrightarrow> False"
| "reader_point_ok _ current \<longleftrightarrow> True"

fun writer_point_ok :: "writer_state \<Rightarrow> bool" where
  "writer_point_ok (Writer_At (Wr_Return r)) \<longleftrightarrow> False"
| "writer_point_ok _ \<longleftrightarrow> True"

definition points_ok :: "bridge \<Rightarrow> bool" where
  "points_ok b \<longleftrightarrow> reader_point_ok (br_reader b) (br_current b) \<and> writer_point_ok (br_writer b)"

lemma read_turn_points: "points_ok b \<Longrightarrow> br_reader b = Reader_At pt \<Longrightarrow> points_ok (read_turn pt b)"
  by (cases pt; cases "br_pipe b" rule: pipe_pop_cases)
    (auto simp: points_ok_def read_turn_def after_read_def split: poll.splits result.splits list.splits)

lemma write_turn_points: "points_ok b \<Longrightarrow> points_ok (write_turn pt b)"
  by (cases pt) (auto simp: points_ok_def write_turn_def pipe_push_def after_write_def Let_def split: poll.splits result.splits)

lemma bridge_act_points:
  assumes "points_ok b"
  shows "points_ok (bridge_act a b)"
proof (cases a)
  case Reader_Turn
  then show ?thesis using assms read_turn_points [OF assms]
    by (auto split: reader_state.splits prod.splits) (auto simp: points_ok_def)
next
  case Writer_Turn
  then show ?thesis using assms write_turn_points [OF assms]
    by (auto split: writer_state.splits prod.splits) (auto simp: points_ok_def)
qed (use assms in \<open>auto simp: points_ok_def\<close>)

lemma read_turn_stream: "points_ok b \<Longrightarrow> br_reader b = Reader_At pt \<Longrightarrow> stream_exact b \<Longrightarrow> stream_exact (read_turn pt b)"
  by (cases pt; cases "br_pipe b" rule: pipe_pop_cases) (auto simp: points_ok_def stream_exact_def read_turn_def)

lemma read_turn_bounded: "queue_bounded k n b \<Longrightarrow> queue_bounded k n (read_turn pt b)"
  by (cases pt; cases "br_pipe b" rule: pipe_pop_cases) (auto simp: queue_bounded_def read_turn_def)

lemma write_turn_stream: "stream_exact b \<Longrightarrow> stream_exact (write_turn pt b)"
  by (cases pt) (auto simp: bridge_defs)

lemma write_turn_bounded: "queue_bounded k n b \<Longrightarrow> queue_bounded k n (write_turn pt b)"
  by (cases pt) (auto simp: bridge_defs)

lemma close_step_queue: "close_step c p = (c', p') \<Longrightarrow> pp_queue p' = pp_queue p \<and> pp_capacity p' = pp_capacity p"
  by (cases c) auto

lemma bridge_act_stream:
  assumes "points_ok b" "stream_exact b"
  shows "stream_exact (bridge_act a b)"
proof (cases a)
  case Reader_Turn
  then show ?thesis using assms read_turn_stream [OF assms(1) _ assms(2)]
    by (auto split: reader_state.splits prod.splits) (auto simp: stream_exact_def dest: close_step_queue)
next
  case Writer_Turn
  then show ?thesis using assms write_turn_stream [OF assms(2)]
    by (auto split: writer_state.splits prod.splits) (auto simp: stream_exact_def dest: close_step_queue)
qed (use assms in \<open>auto simp: stream_exact_def\<close>)

lemma bridge_act_bounded: "queue_bounded k n b \<Longrightarrow> queue_bounded k n (bridge_act a b)"
  by (cases a) (auto simp: read_turn_bounded write_turn_bounded split: reader_state.splits writer_state.splits prod.splits,
    auto simp: queue_bounded_def dest: close_step_queue)

lemma bridge_invariant:
  assumes "bridge_reachable queue_chunks chunk_bytes b"
  shows "points_ok b \<and> stream_exact b \<and> queue_bounded queue_chunks chunk_bytes b"
  using assms
proof induction
  case bridge_start
  show ?case by (simp add: points_ok_def stream_exact_def queue_bounded_def bridge_new_def pipe_new_def)
qed (simp add: bridge_act_points bridge_act_stream bridge_act_bounded)

section \<open>Wake-ups\<close>

text \<open>A waiting reader is still registered although there is something to see: then the other thread is about to wake it.\<close>

definition waking_reader :: "bridge \<Rightarrow> bool" where
  "waking_reader b \<longleftrightarrow> (case br_writer b of Writer_At (Wr_Wake_Reader n) \<Rightarrow> True | Writer_Closing Cl_Wake_Reader \<Rightarrow> True | _ \<Rightarrow> False)"

definition waking_writer :: "bridge \<Rightarrow> bool" where
  "waking_writer b \<longleftrightarrow> (case br_reader b of Reader_At (Rd_Wake_Writer n) \<Rightarrow> True | Reader_At (Rd_Wake_Again n) \<Rightarrow> True | _ \<Rightarrow> False)"

definition reader_served :: "bridge \<Rightarrow> bool" where
  "reader_served b \<longleftrightarrow>
     (br_reader b = Reader_Pending \<and> pp_reader (br_pipe b) \<and> (pp_queue (br_pipe b) \<noteq> [] \<or> pp_closed (br_pipe b)) \<longrightarrow> waking_reader b)"

definition writer_served :: "bridge \<Rightarrow> bool" where
  "writer_served b \<longleftrightarrow> (br_writer b = Writer_Pending \<and> pp_writer (br_pipe b) \<and> \<not> pipe_full (br_pipe b) \<longrightarrow> waking_writer b)"

text \<open>The reader has found the queue empty after registering.\<close>

definition reader_rechecked :: "bridge \<Rightarrow> bool" where
  "reader_rechecked b \<longleftrightarrow> (\<forall>n. br_reader b = Reader_At (Rd_Closed_Again n) \<and> pp_reader (br_pipe b) \<and> pp_queue (br_pipe b) \<noteq> [] \<longrightarrow>
     waking_reader b)"

definition wakes_ok :: "bridge \<Rightarrow> bool" where
  "wakes_ok b \<longleftrightarrow> reader_served b \<and> reader_rechecked b \<and> writer_served b"

lemmas wakes_defs = wakes_ok_def reader_served_def writer_served_def reader_rechecked_def waking_reader_def waking_writer_def pipe_full_def

lemma read_turn_wakes: "points_ok b \<Longrightarrow> wakes_ok b \<Longrightarrow> br_reader b = Reader_At pt \<Longrightarrow> wakes_ok (read_turn pt b)"
  by (cases pt; cases "br_pipe b" rule: pipe_pop_cases)
    (auto simp: points_ok_def wakes_defs read_turn_def after_read_def split: poll.splits result.splits list.splits)

lemma write_turn_wakes: "points_ok b \<Longrightarrow> wakes_ok b \<Longrightarrow> br_writer b = Writer_At pt \<Longrightarrow> wakes_ok (write_turn pt b)"
  by (cases pt) (auto simp: points_ok_def wakes_defs write_turn_def pipe_push_def after_write_def Let_def
      split: reader_state.splits read_point.splits poll.splits result.splits)

lemma reader_closing_wakes:
  "wakes_ok b \<Longrightarrow> br_reader b = Reader_Closing c \<Longrightarrow> close_step c (br_pipe b) = (c', p) \<Longrightarrow>
     wakes_ok (b\<lparr>br_pipe := p, br_reader := Reader_Closing c'\<rparr>)"
  by (cases c) (auto simp: wakes_defs)

lemma writer_closing_wakes:
  "wakes_ok b \<Longrightarrow> br_writer b = Writer_Closing c \<Longrightarrow> close_step c (br_pipe b) = (c', p) \<Longrightarrow>
     wakes_ok (b\<lparr>br_pipe := p, br_writer := Writer_Closing c'\<rparr>)"
  by (cases c) (auto simp: wakes_defs split: reader_state.splits read_point.splits)

lemma bridge_act_wakes:
  assumes "points_ok b" "wakes_ok b"
  shows "wakes_ok (bridge_act a b)"
proof (cases a)
  case Reader_Turn
  then show ?thesis using assms
    by (auto split: reader_state.splits prod.splits intro: read_turn_wakes reader_closing_wakes)
next
  case Writer_Turn
  then show ?thesis using assms
    by (auto split: writer_state.splits prod.splits intro: write_turn_wakes writer_closing_wakes)
qed (use assms in \<open>auto simp: wakes_defs between_reads_def between_writes_def\<close>)

lemma bridge_wakes: "bridge_reachable queue_chunks chunk_bytes b \<Longrightarrow> wakes_ok b"
proof (induction rule: bridge_reachable.induct)
  case bridge_start
  show ?case by (simp add: wakes_defs bridge_new_def)
qed (simp add: bridge_act_wakes bridge_invariant)

section \<open>Calls without interference\<close>

text \<open>A call during which the other thread does nothing. Eight steps are enough for any call of \<open>poll_read\<close>, since the recursive
  call delivers at once.\<close>

definition read_alone :: "nat \<Rightarrow> bytes \<Rightarrow> pipe \<Rightarrow> read_point \<times> bytes \<times> pipe" where
  "read_alone n current p = ((\<lambda>(pt, current, p). read_step pt current p) ^^ 8) (Rd_Start n, current, p)"

lemma read_alone_result:
  assumes "0 < n" "\<forall>chunk\<in>set (pp_queue p). chunk \<noteq> []"
  shows "fst (read_alone n current p) = Rd_Return
    (if current \<noteq> [] then Ready (Ok (take n current))
     else if pp_queue p \<noteq> [] then Ready (Ok (take n (hd (pp_queue p))))
     else if pp_closed p then Ready (Ok []) else Pending)"
  using assms by (cases p rule: pipe_pop_cases) (auto simp: read_alone_def numeral_eq_Suc pipe_pop_def)

section \<open>Properties\<close>


text \<open>Two writes of three bytes each, of which the reader takes three.\<close>

definition example_bridge :: bridge where
  "example_bridge = fold bridge_act ([Call_Write [1, 2, 3]] @ replicate 3 Writer_Turn @ [Call_Write [4, 5, 6]] @ replicate 3 Writer_Turn @
     [Call_Read 1] @ replicate 3 Reader_Turn) (bridge_new 2 2)"

lemma example_bridge_state:
  "br_accepted example_bridge = [1, 2, 4, 5]" "br_delivered example_bridge = [1]" "br_current example_bridge = [2]"
  "pp_queue (br_pipe example_bridge) = [[4, 5]]"
  by (simp_all add: example_bridge_def numeral_eq_Suc bridge_new_def pipe_new_def between_writes_def between_reads_def write_turn_def read_turn_def
      pipe_push_def pipe_full_def pipe_pop_def accepted_by_def after_write_def after_read_def)



text \<open>The reader waits, and the writer has just pushed a chunk.\<close>

definition example_waiting :: bridge where
  "example_waiting = fold bridge_act ([Call_Read 1] @ replicate 5 Reader_Turn @ [Call_Write [1]] @ replicate 2 Writer_Turn) (bridge_new 2 2)"

lemmas bridge_eval = numeral_eq_Suc bridge_new_def pipe_new_def between_writes_def between_reads_def write_turn_def read_turn_def
  pipe_push_def pipe_full_def pipe_pop_def accepted_by_def after_write_def after_read_def read_point_size_def

lemma example_waiting_state:
  "br_reader example_waiting = Reader_Pending" "pp_reader (br_pipe example_waiting)" "pp_queue (br_pipe example_waiting) = [[1]]"
  by (simp_all add: example_waiting_def bridge_eval)


text \<open>C39. The end of the stream can be reported too early: between looking at the queue and looking at the flag, the writer may push
  a chunk and close the pipe, and the reader then sees the end although an accepted chunk is still queued.\<close>

theorem bridge_early_eof:
  "\<exists>b. bridge_reachable 2 2 b \<and> br_reader b = Reader_Eof \<and> br_accepted b = [1] \<and> br_delivered b = [] \<and> pp_queue (br_pipe b) = [[1]]"
proof (intro exI conjI)
  let ?as = "[Call_Read 1, Reader_Turn, Call_Write [1], Writer_Turn, Writer_Turn, Writer_Turn, Call_Shutdown, Writer_Turn, Reader_Turn]"
  show "bridge_reachable 2 2 (fold bridge_act ?as (bridge_new 2 2))" by (rule bridge_run_reachable)
qed (simp_all add: bridge_eval)

text \<open>A writer can wait for a reader that is gone: the flag is looked at before the waker is registered and not afterwards.\<close>

lemma bridge_stranded_writer:
  "\<exists>b. bridge_reachable 1 2 b \<and> br_writer b = Writer_Pending \<and> pp_writer (br_pipe b) \<and> pp_closed (br_pipe b) \<and>
     br_reader b = Reader_Closing Cl_Closed"
proof (intro exI conjI)
  let ?as = "[Call_Write [1], Writer_Turn, Writer_Turn, Writer_Turn, Call_Write [2], Writer_Turn, Drop_Reader, Reader_Turn, Reader_Turn, Reader_Turn,
    Writer_Turn, Writer_Turn, Writer_Turn]"
  show "bridge_reachable 1 2 (fold bridge_act ?as (bridge_new 1 2))" by (rule bridge_run_reachable)
qed (simp_all add: bridge_eval)

end
