(* ===== verification/Ssh_Run.thy ===== *)
theory Ssh_Run
  imports Ssh_Carrier Ssh_Bridge
begin

text \<open>
  Sequences of host calls on the SSH carrier, interleaved with the steps of the worker threads: the count of connections of an
  instance is the number of its streams, and a client never has more than it is configured for.
\<close>

datatype ('e, 'k) worker_move =
    Move_Command | Move_Report "'e option" | Move_Accept "'k ssh_credential" | Move_Asked nat handler_request 'e | Move_Session_Ends nat | Move_Fails

definition worker_moves :: "('e, 'k) worker_move \<Rightarrow> ('e, 'k) ssh_instance \<Rightarrow> ('e, 'k) ssh_instance" where
  "worker_moves move st = (if \<not> si_running st then st else (case move of
     Move_Command \<Rightarrow> worker_command st
   | Move_Report outcome \<Rightarrow> client_reports outcome st
   | Move_Accept credential \<Rightarrow> server_accepts credential st
   | Move_Asked k request e \<Rightarrow> if si_client st then st else server_asked k request e st
   | Move_Session_Ends k \<Rightarrow> server_session_ends k st
   | Move_Fails \<Rightarrow> worker_main_fails st))"

datatype ('e, 'k) ssh_op =
    Ssh_Create "'k ssh_keys" "str \<Rightarrow> (ssh_options, str) result" "(bytes, status) result" "(bytes, status) result" "(unit, status) result" bool bool
  | Ssh_Poll u64
  | Ssh_Shutdown u64
  | Ssh_Destroy u64
  | Ssh_Connect_To u64 "(bytes, status) result" bool wake_handle bool
  | Ssh_Accept u64 bool wake_handle bool
  | Ssh_Read io_read u64 bool nat bool wake_handle
  | Ssh_Write "bytes \<Rightarrow> io_write" u64 "(bytes, status) result" bool wake_handle
  | Ssh_Action "(unit, unit) poll" u64 bool wake_handle
  | Ssh_Close u64
  | Ssh_Worker u64 "('e, 'k) worker_move"

fun ssh_step :: "('e, 'k) ssh_op \<Rightarrow> ('e, 'k) ssh_module \<Rightarrow> ('e, 'k) ssh_module" where
  "ssh_step (Ssh_Create keys toml config base host spawned null) m = fst (snd (ssh_create keys toml config base host spawned null m))"
| "ssh_step (Ssh_Poll inst) m = fst (snd (ssh_poll inst m))"
| "ssh_step (Ssh_Shutdown inst) m = fst (snd (ssh_shutdown inst m))"
| "ssh_step (Ssh_Destroy inst) m = fst (ssh_destroy inst m)"
| "ssh_step (Ssh_Connect_To inst endpoint granted wake null) m = fst (snd (ssh_connect inst endpoint granted wake null m))"
| "ssh_step (Ssh_Accept inst granted wake null) m = fst (snd (ssh_accept inst granted wake null m))"
| "ssh_step (Ssh_Read answer h null n granted wake) m = fst (snd (ssh_read answer h null n granted wake m))"
| "ssh_step (Ssh_Write answer h input granted wake) m = fst (snd (ssh_write answer h input granted wake m))"
| "ssh_step (Ssh_Action answer h granted wake) m = fst (snd (ssh_io_action answer h granted wake m))"
| "ssh_step (Ssh_Close h) m = fst (snd (ssh_close h m))"
| "ssh_step (Ssh_Worker inst move) m = (case hm_get (sm_instances m) inst of
     None \<Rightarrow> m | Some st \<Rightarrow> m\<lparr>sm_instances := hm_insert inst (worker_moves move st) (sm_instances m)\<rparr>)"

section \<open>Clients\<close>

text \<open>The attempts of a client that have not been seen by the host: in the command queue, under way, or reported.\<close>

fun reports :: "'e ssh_event list \<Rightarrow> nat" where
  "reports [] = 0"
| "reports (Ev_Fatal # es) = reports es"
| "reports (_ # es) = Suc (reports es)"

definition outstanding :: "('e, 'k) ssh_instance \<Rightarrow> nat" where
  "outstanding st = count_list (si_commands st) Cmd_Connect + si_attempts st + reports (si_events st)"

definition client_ok :: "('e, 'k) ssh_instance \<Rightarrow> bool" where
  "client_ok st \<longleftrightarrow> (si_client st \<longrightarrow>
     outstanding st \<le> (if si_connect_pending st then 1 else 0) \<and> si_active st + length (si_ready st) + outstanding st \<le> si_max st)"

lemma reports_append [simp]: "reports (xs @ ys) = reports xs + reports ys"
  by (induction xs rule: reports.induct) auto

lemma worker_gone_ok: "client_ok st \<Longrightarrow> client_ok (worker_gone st)"
  by (auto simp: client_ok_def outstanding_def worker_gone_def split: if_splits)

lemma worker_command_ok: "client_ok st \<Longrightarrow> client_ok (worker_command st)"
  by (auto simp: worker_command_def worker_gone_ok split: list.splits ssh_command.splits)
    (auto simp: client_ok_def outstanding_def split: if_splits)

lemma client_reports_ok: "client_ok st \<Longrightarrow> client_ok (client_reports outcome st)"
  by (auto simp: client_reports_def send_event_def client_ok_def outstanding_def Let_def split: option.splits if_splits)

lemma server_ok: "\<not> si_client st \<Longrightarrow> client_ok st"
  by (simp add: client_ok_def)

lemma server_moves_ok:
  "client_ok st \<Longrightarrow> client_ok (server_accepts credential st)" "client_ok st \<Longrightarrow> client_ok (server_session_ends k st)"
  "client_ok st \<Longrightarrow> client_ok (worker_main_fails st)"
  by (auto simp: server_accepts_def server_session_ends_def client_ok_def outstanding_def worker_main_fails_def worker_gone_def send_event_def
      split: ssh_options.splits if_splits)

lemma server_asked_client: "si_client (server_asked k request e st) = si_client st" "si_active (server_asked k request e st) = si_active st"
  by (auto simp: server_asked_def send_event_def split: handler_request.splits prod.splits)

lemma worker_moves_ok: "client_ok st \<Longrightarrow> client_ok (worker_moves move st)"
  by (cases move)
    (auto simp: worker_moves_def worker_command_ok client_reports_ok server_moves_ok server_asked_client intro: server_ok)

lemma worker_moves_keep: "si_active (worker_moves move st) = si_active st"
proof (cases move)
  case Move_Command
  then show ?thesis by (auto simp: worker_moves_def worker_command_def worker_gone_def split: list.splits ssh_command.splits)
next
  case (Move_Report outcome)
  then show ?thesis by (auto simp: worker_moves_def client_reports_def send_event_def Let_def split: option.splits)
qed (auto simp: worker_moves_def server_accepts_def server_asked_client server_session_ends_def worker_main_fails_def worker_gone_def send_event_def
    split: ssh_options.splits)

lemma take_event_fields [simp]:
  "si_active (take_event e st) = si_active st" "si_max (take_event e st) = si_max st" "si_client (take_event e st) = si_client st"
  "si_commands (take_event e st) = si_commands st" "si_attempts (take_event e st) = si_attempts st" "si_events (take_event e st) = si_events st"
  by (cases e; simp)+

lemma fold_take_event_fields [simp]:
  "si_active (fold take_event es st) = si_active st" "si_max (fold take_event es st) = si_max st" "si_client (fold take_event es st) = si_client st"
  "si_commands (fold take_event es st) = si_commands st" "si_attempts (fold take_event es st) = si_attempts st"
  "si_events (fold take_event es st) = si_events st"
  by (induction es arbitrary: st) simp_all

lemma fold_take_event_ready: "length (si_ready (fold take_event es st)) \<le> length (si_ready st) + reports es"
proof (induction es arbitrary: st)
  case (Cons e es)
  from Cons.IH [of "take_event e st"] show ?case by (cases e) simp_all
qed simp

lemma fold_take_event_pending: "reports es = 0 \<Longrightarrow> si_connect_pending (fold take_event es st) = si_connect_pending st"
proof (induction es arbitrary: st)
  case (Cons e es)
  then show ?case by (cases e) simp_all
qed simp

lemma drain_events_keeps [simp]: "si_active (drain_events st) = si_active st" "si_client (drain_events st) = si_client st"
  by (simp_all add: drain_events_def Let_def)

lemma drain_events_ok:
  assumes "client_ok st"
  shows "client_ok (drain_events st)"
proof -
  let ?st = "st\<lparr>si_events := []\<rparr>"
  note r = fold_take_event_ready [of "si_events st" ?st] and p = fold_take_event_pending [of "si_events st" ?st]
  show ?thesis
    using assms r p by (cases "reports (si_events st) = 0") (auto simp: client_ok_def drain_events_def Let_def outstanding_def split: if_splits)
qed

lemma send_command_fields:
  assumes "send_command c st = (r, st')"
  shows "si_active st' = si_active st" "si_ready st' = si_ready st" "si_max st' = si_max st" "si_client st' = si_client st"
    "si_attempts st' = si_attempts st" "si_events st' = si_events st" "si_connect_pending st' = si_connect_pending st"
    "r \<noteq> Cmd_Sent \<Longrightarrow> st' = st" "r = Cmd_Sent \<Longrightarrow> si_commands st' = si_commands st @ [c]"
  using assms by (auto simp: send_command_def split: if_splits)

lemma shutdown_command_ok: "client_ok st \<Longrightarrow> client_ok (snd (send_command Cmd_Shutdown st))"
  by (auto simp: send_command_def client_ok_def outstanding_def split: if_splits)

lemma start_and_wait_ok:
  assumes ok: "client_ok st" and room: "si_active st < si_max st" and ready: "si_ready st = []" and mode: "si_client st = connect"
    and s: "start_and_wait granted wake connect st = (s, st', calls)"
  shows "client_ok st' \<and> si_active st' = si_active st"
proof (cases "connect \<and> \<not> si_connect_pending st")
  case True
  obtain r st1 where c: "send_command Cmd_Connect st = (r, st1)" by force
  note f = send_command_fields [OF c]
  obtain slot calls1 where w: "slot_replace granted wake (si_connect_wake st1) = (slot, calls1)" by force
  from True ok mode have o0: "outstanding st = 0" by (simp add: client_ok_def)
  show ?thesis
  proof (cases "r = Cmd_Sent")
    case sent: True
    with s True c w have st': "st' = st1\<lparr>si_connect_pending := True, si_connect_wake := slot\<rparr>" by (simp add: start_and_wait_def)
    from o0 f sent have "outstanding st' = 1" by (simp add: st' outstanding_def)
    with f st' room ready show ?thesis by (simp add: client_ok_def)
  next
    case False
    with s True c f(8) ok show ?thesis by (cases r) (simp_all add: start_and_wait_def)
  qed
next
  case False
  with s ok mode show ?thesis
    by (auto simp: start_and_wait_def client_ok_def outstanding_def split: if_splits prod.splits)
qed

section \<open>Tables\<close>

text \<open>The count of an instance is the number of streams it owns; handles are below the counters.\<close>

definition counted :: "(u64, 'e tcp_stream) hashmap \<Rightarrow> (u64 \<Rightarrow> nat option) \<Rightarrow> u64 \<Rightarrow> u64 \<Rightarrow> bool" where
  "counted streams active i_next s_next \<longleftrightarrow> hm_wf streams \<and>
     (\<forall>h s. hm_get streams h = Some s \<longrightarrow> h < s_next \<and> active (tst_owner s) \<noteq> None) \<and>
     (\<forall>i n. active i = Some n \<longrightarrow> i < i_next \<and> n = owned i streams)"

lemma countedD:
  assumes "counted streams active i_next s_next"
  shows "hm_wf streams" "hm_get streams h = Some s \<Longrightarrow> h < s_next \<and> active (tst_owner s) \<noteq> None"
    "active i = Some n \<Longrightarrow> i < i_next \<and> n = owned i streams"
  using assms by (auto simp: counted_def)

lemma counted_unowned: "counted streams active i_next s_next \<Longrightarrow> active i = None \<Longrightarrow> owned i streams = 0"
  by (rule owned_none) (auto dest: countedD(2) intro: countedD(1))

lemma counted_put:
  assumes "counted streams active i_next s_next" "hm_get streams h = Some s" "tst_owner s' = tst_owner s"
  shows "counted (hm_insert h s' streams) active i_next s_next"
  using countedD [OF assms(1)] assms(2,3) by (auto simp: counted_def owned_put split: if_splits)

lemma counted_same_owners:
  assumes "counted streams active i_next s_next" "map (\<lambda>(h, s). (h, tst_owner s)) streams' = map (\<lambda>(h, s). (h, tst_owner s)) streams"
  shows "counted streams' active i_next s_next"
proof -
  have old: "\<exists>s0. hm_get streams h = Some s0 \<and> tst_owner s0 = tst_owner s" if "hm_get streams' h = Some s" for h s
  proof -
    from that have "map_option tst_owner (hm_get streams h) = Some (tst_owner s)"
      using get_owners [of streams' h] get_owners [of streams h] assms(2) by simp
    then show ?thesis by auto
  qed
  have "hm_wf streams'" using countedD(1) [OF assms(1)] by (simp only: wf_owners assms(2))
  moreover have "owned i streams' = owned i streams" for i by (simp only: owned_owners assms(2))
  moreover have "h < s_next \<and> active (tst_owner s) \<noteq> None" if "hm_get streams' h = Some s" for h s
    using old [OF that] countedD(2) [OF assms(1), of h] by auto
  ultimately show ?thesis using countedD(3) [OF assms(1)] by (simp add: counted_def)
qed

lemma counted_new_stream:
  assumes c: "counted streams active i_next s_next" and n: "active (tst_owner s) = Some n" and x: "\<And>h. h < s_next \<Longrightarrow> h < s_next + 1" "s_next < s_next + 1"
  shows "counted (hm_insert s_next s streams) (active(tst_owner s \<mapsto> Suc n)) i_next (s_next + 1)"
proof -
  have new: "hm_get streams s_next = None" using countedD(2) [OF c, of s_next] by (cases "hm_get streams s_next") auto
  show ?thesis using countedD [OF c] n x by (auto simp: counted_def owned_new [OF new] split: if_splits)
qed

lemma counted_remove:
  assumes c: "counted streams active i_next s_next" and s: "hm_get streams h = Some s" and n: "active (tst_owner s) = Some n"
  shows "counted (hm_remove h streams) (active(tst_owner s \<mapsto> n - 1)) i_next s_next"
proof -
  have less: "owned i (hm_remove h streams) = (if i = tst_owner s then owned i streams - 1 else owned i streams)" for i
    using owned_remove [OF countedD(1) [OF c] s, of i] by (auto split: if_splits)
  show ?thesis using countedD [OF c] n by (auto simp: counted_def less split: if_splits)
qed

lemma counted_destroy:
  assumes c: "counted streams active i_next s_next"
  shows "counted (hm_retain (\<lambda>_ s. tst_owner s \<noteq> i) streams) (active(i := None)) i_next s_next"
  using countedD [OF c] by (auto simp: counted_def hm_get_retain owned_retain split: option.splits if_splits)

lemma counted_new_instance:
  assumes c: "counted streams active i_next s_next" and x: "\<And>h. h < i_next \<Longrightarrow> h < i_next + 1" "i_next < i_next + 1"
  shows "counted streams (active(i_next \<mapsto> 0)) (i_next + 1) s_next"
proof -
  have "active i_next = None" using countedD(3) [OF c, of i_next] by (cases "active i_next") auto
  from counted_unowned [OF c this] countedD [OF c] x show ?thesis by (auto simp: counted_def)
qed

lemma counted_counter:
  assumes "counted streams active i_next s_next"
  shows "(\<And>h. h < i_next \<Longrightarrow> h < i_next') \<Longrightarrow> (\<And>h. h < s_next \<Longrightarrow> h < s_next') \<Longrightarrow> counted streams active i_next' s_next'"
  using countedD [OF assms] by (auto simp: counted_def)

section \<open>Host calls\<close>

definition ssh_active :: "(u64, ('e, 'k) ssh_instance) hashmap \<Rightarrow> u64 \<Rightarrow> nat option" where
  "ssh_active instances i = map_option si_active (hm_get instances i)"

text \<open>What holds after \<open>n\<close> calls.\<close>

definition ssh_ok :: "nat \<Rightarrow> ('e, 'k) ssh_module \<Rightarrow> bool" where
  "ssh_ok n m \<longleftrightarrow> counted (sm_streams m) (ssh_active (sm_instances m)) (sm_instance_next m) (sm_stream_next m) \<and>
     (\<forall>i st. hm_get (sm_instances m) i = Some st \<longrightarrow> client_ok st) \<and>
     unat (sm_instance_next m) \<le> Suc n \<and> unat (sm_stream_next m) \<le> Suc n"

lemma ssh_okD:
  assumes "ssh_ok n m"
  shows "counted (sm_streams m) (ssh_active (sm_instances m)) (sm_instance_next m) (sm_stream_next m)"
    "hm_get (sm_instances m) i = Some st \<Longrightarrow> client_ok st" "unat (sm_instance_next m) \<le> Suc n" "unat (sm_stream_next m) \<le> Suc n"
  using assms by (auto simp: ssh_ok_def)

lemma ssh_ok_Suc: "ssh_ok n m \<Longrightarrow> ssh_ok (Suc n) m"
  by (simp add: ssh_ok_def)

lemma ssh_active_insert [simp]: "ssh_active (hm_insert i st instances) = (ssh_active instances)(i \<mapsto> si_active st)"
  by (simp add: ssh_active_def fun_eq_iff)

lemma ssh_active_same: "hm_get instances i = Some st \<Longrightarrow> (ssh_active instances)(i \<mapsto> si_active st) = ssh_active instances"
  by (simp add: ssh_active_def fun_eq_iff)

lemma put_ssh_instance_ok:
  assumes ok: "ssh_ok n m" and i: "hm_get (sm_instances m) i = Some st" and st': "si_active st' = si_active st" "client_ok st'"
  shows "ssh_ok n (m\<lparr>sm_instances := hm_insert i st' (sm_instances m)\<rparr>)"
  using ok st' ssh_active_same [OF i] by (auto simp: ssh_ok_def split: if_splits)

lemma put_ssh_stream_ok:
  assumes ok: "ssh_ok n m" and h: "hm_get (sm_streams m) h = Some s" "tst_owner s' = tst_owner s"
  shows "ssh_ok n (ssh_put_stream h s' m)"
  using ok counted_put [OF ssh_okD(1) [OF ok] h] by (simp add: ssh_ok_def ssh_put_stream_def)

lemma ssh_new_instance_ok [simp]: "client_ok (ssh_new_instance opts)" "si_active (ssh_new_instance opts) = 0"
  by (simp_all add: client_ok_def outstanding_def ssh_new_instance_def)

lemma ssh_create_ok:
  assumes ok: "ssh_ok n m" and n: "Suc (Suc n) < 2 ^ 64"
  shows "ssh_ok (Suc n) (fst (snd (ssh_create keys toml config base host spawned null m)))"
proof -
  let ?m = "m\<lparr>sm_instance_next := sm_instance_next m + 1\<rparr>"
  note x = next_handle [OF ssh_okD(3) [OF ok] n]
  have skip: "ssh_ok (Suc n) ?m"
    using ok x(1) counted_counter [OF ssh_okD(1) [OF ok] x(2)] by (auto simp: ssh_ok_def)
  have new: "ssh_ok (Suc n) (?m\<lparr>sm_instances := hm_insert (sm_instance_next m) (ssh_new_instance opts) (sm_instances ?m)\<rparr>)" for opts
    using ok x(1) counted_new_instance [OF ssh_okD(1) [OF ok] x(2,3)] by (auto simp: ssh_ok_def split: if_splits)
  have wrapped: "ssh_ok (Suc n) (m\<lparr>sm_instance_next := 1\<rparr>)" if "sm_instance_next m = 0" using skip that by simp
  show ?thesis using ssh_ok_Suc [OF ok] wrapped new
    by (simp add: ssh_create_def Let_def split: result.splits)
qed

lemma ssh_poll_ok:
  assumes ok: "ssh_ok n m"
  shows "ssh_ok n (fst (snd (ssh_poll i m)))"
proof (cases "hm_get (sm_instances m) i")
  case None
  with ok show ?thesis by (simp add: ssh_poll_def)
next
  case (Some st)
  let ?st = "drain_events st"
  obtain s1 c1 s2 c2 streams c3 where w: "slot_wake (si_connect_wake ?st) = (s1, c1)" "slot_wake (si_accept_wake ?st) = (s2, c2)"
    "wake_streams i (sm_streams m) = (streams, c3)" by force
  let ?new = "?st\<lparr>si_connect_wake := s1, si_accept_wake := s2\<rparr>"
  have c: "client_ok ?new" using drain_events_ok [OF ssh_okD(2) [OF ok Some]] by (simp add: client_ok_def outstanding_def)
  have "ssh_ok n (m\<lparr>sm_instances := hm_insert i ?new (sm_instances m)\<rparr>)" by (rule put_ssh_instance_ok [OF ok Some _ c]) simp
  then have "ssh_ok n (m\<lparr>sm_instances := hm_insert i ?new (sm_instances m)\<rparr>\<lparr>sm_streams := streams\<rparr>)"
    using counted_same_owners [OF _ wake_streams_owners [OF w(3)]] by (auto simp: ssh_ok_def)
  with Some w show ?thesis by (simp add: ssh_poll_def Let_def)
qed

lemma ssh_shutdown_ok:
  assumes ok: "ssh_ok n m"
  shows "ssh_ok n (fst (snd (ssh_shutdown i m)))"
proof (cases "hm_get (sm_instances m) i")
  case (Some st)
  obtain r st1 where c: "send_command Cmd_Shutdown st = (r, st1)" by force
  from shutdown_command_ok [OF ssh_okD(2) [OF ok Some]] c have "client_ok st1" by simp
  with put_ssh_instance_ok [OF ok Some send_command_fields(1) [OF c]] Some c show ?thesis by (simp add: ssh_shutdown_def)
qed (use ok in \<open>simp add: ssh_shutdown_def\<close>)

lemma ssh_destroy_ok:
  assumes ok: "ssh_ok n m"
  shows "ssh_ok n (fst (ssh_destroy i m))"
proof -
  have a: "ssh_active (sm_instances (fst (ssh_destroy i m))) = (ssh_active (sm_instances m))(i := None)" by (simp add: ssh_active_def ssh_destroy_def fun_eq_iff)
  show ?thesis using ok counted_destroy [OF ssh_okD(1) [OF ok], of i] unfolding ssh_ok_def a by (auto simp: ssh_destroy_def)
qed

lemma ssh_finish_ok:
  assumes ok: "ssh_ok n m" and n: "Suc (Suc n) < 2 ^ 64" and i: "hm_get (sm_instances m) i = Some st0"
    and st: "si_active st = si_active st0" "client_ok st" "client_ok (st\<lparr>si_active := si_active st + 1\<rparr>)"
    and f: "ssh_finish_stream i e st null m = (answer, st1, m1, calls)"
  shows "ssh_ok (Suc n) (m1\<lparr>sm_instances := hm_insert i st1 (sm_instances m1)\<rparr>)"
proof (cases "null \<or> sm_stream_next m = 0")
  case True
  note x = next_handle [OF ssh_okD(4) [OF ok] n]
  have "ssh_ok (Suc n) (m\<lparr>sm_stream_next := sm_stream_next m + 1\<rparr>)"
    using ok x(1) counted_counter [OF ssh_okD(1) [OF ok] _ x(2)] by (auto simp: ssh_ok_def)
  with ssh_ok_Suc [OF ok] f True have "ssh_ok (Suc n) m1" "st1 = st" "sm_instances m1 = sm_instances m"
    by (auto simp: ssh_finish_stream_def Let_def split: if_splits)
  with put_ssh_instance_ok [of "Suc n" m1 i st0 st] i st show ?thesis by simp
next
  case False
  note x = next_handle [OF ssh_okD(4) [OF ok] n]
  let ?s = "\<lparr>tst_owner = i, tst_io = e, tst_read_wake = None, tst_write_wake = None\<rparr>"
  let ?streams = "hm_insert (sm_stream_next m) ?s (sm_streams m)"
  from f False have m1: "m1 = m\<lparr>sm_stream_next := sm_stream_next m + 1, sm_streams := ?streams\<rparr>"
    and st1: "st1 = st\<lparr>si_active := si_active st + 1\<rparr>" by (auto simp: ssh_finish_stream_def Let_def)
  have a: "ssh_active (sm_instances m) (tst_owner ?s) = Some (si_active st)" using i st(1) by (simp add: ssh_active_def)
  have "counted ?streams ((ssh_active (sm_instances m))(i \<mapsto> Suc (si_active st))) (sm_instance_next m) (sm_stream_next m + 1)"
    using counted_new_stream [OF ssh_okD(1) [OF ok] a x(2,3)] by simp
  with ok st(3) x(1) show ?thesis unfolding m1 st1 by (auto simp: ssh_ok_def split: if_splits)
qed

lemma ssh_obtain_ok:
  assumes ok: "ssh_ok n m" and n: "Suc (Suc n) < 2 ^ 64"
  shows "ssh_ok (Suc n) (fst (snd (ssh_obtain i granted wake null connect m)))"
proof (cases "hm_get (sm_instances m) i")
  case None
  with ssh_ok_Suc [OF ok] show ?thesis by (simp add: ssh_obtain_def)
next
  case (Some st0)
  let ?st = "drain_events st0"
  have c: "client_ok ?st" by (rule drain_events_ok [OF ssh_okD(2) [OF ok Some]])
  have put: "ssh_ok (Suc n) (m\<lparr>sm_instances := hm_insert i st (sm_instances m)\<rparr>)" if "si_active st = si_active st0" "client_ok st" for st
    by (rule put_ssh_instance_ok [OF ssh_ok_Suc [OF ok] Some that])
  show ?thesis
  proof (cases "si_client ?st = connect")
    case False
    with put c Some show ?thesis by (simp add: ssh_obtain_def Let_def)
  next
    case mode: True
    obtain answer st1 m1 calls where t: "take_or_start i granted wake null connect ?st m = (answer, st1, m1, calls)"
      by (cases "take_or_start i granted wake null connect ?st m") auto
    have "ssh_ok (Suc n) (m1\<lparr>sm_instances := hm_insert i st1 (sm_instances m1)\<rparr>)"
    proof (cases "si_ready ?st")
      case (Cons e ready)
      let ?st1 = "?st\<lparr>si_ready := ready\<rparr>"
      have "client_ok ?st1" "client_ok (?st1\<lparr>si_active := si_active ?st1 + 1\<rparr>)"
        using c Cons by (auto simp: client_ok_def outstanding_def split: if_splits)
      with ssh_finish_ok [OF ok n Some, of ?st1 e null] t Cons show ?thesis by (simp add: take_or_start_def)
    next
      case Nil
      obtain s st2 calls2 where w: "start_and_wait granted wake connect ?st = (s, st2, calls2)" by (cases "start_and_wait granted wake connect ?st") auto
      have w2: "client_ok st2 \<and> si_active st2 = si_active st0" if "si_active ?st < si_max ?st"
        using start_and_wait_ok [OF c that Nil mode w] by simp
      have less: "client_ok (?st\<lparr>si_failures := k\<rparr>)" for k using c by (simp add: client_ok_def outstanding_def)
      have "m1 = m \<and> client_ok st1 \<and> si_active st1 = si_active st0"
        using t Nil w w2 less c by (auto simp: take_or_start_def split: if_splits)
      with put show ?thesis by simp
    qed
    with Some mode t show ?thesis by (simp add: ssh_obtain_def Let_def)
  qed
qed

lemma ssh_stream_calls_ok:
  assumes ok: "ssh_ok n m"
  shows "ssh_ok n (fst (snd (ssh_read answer h null k granted wake m)))" "ssh_ok n (fst (snd (ssh_write wr h input granted wake m)))"
    "ssh_ok n (fst (snd (ssh_io_action act h granted wake m)))"
  using ok put_ssh_stream_ok [OF ok]
  by (auto simp: ssh_read_def ssh_write_def ssh_io_action_def ssh_wait_write_def split: option.splits io_read.splits io_write.splits result.splits
      poll.splits prod.splits)

lemma ssh_close_ok:
  assumes ok: "ssh_ok n m"
  shows "ssh_ok n (fst (snd (ssh_close h m)))"
proof (cases "hm_get (sm_streams m) h")
  case None
  with ok show ?thesis by (simp add: ssh_close_def)
next
  case (Some s)
  from countedD(2) [OF ssh_okD(1) [OF ok] Some] obtain st where st: "hm_get (sm_instances m) (tst_owner s) = Some st"
    by (auto simp: ssh_active_def)
  have a: "ssh_active (sm_instances m) (tst_owner s) = Some (si_active st)" using st by (simp add: ssh_active_def)
  have c: "client_ok (st\<lparr>si_active := si_active st - 1\<rparr>)" using ssh_okD(2) [OF ok st] by (auto simp: client_ok_def outstanding_def split: if_splits)
  from ok counted_remove [OF ssh_okD(1) [OF ok] Some a] c Some st show ?thesis by (auto simp: ssh_close_def ssh_ok_def Let_def split: if_splits)
qed

lemma ssh_worker_ok:
  assumes ok: "ssh_ok n m"
  shows "ssh_ok n (ssh_step (Ssh_Worker i move) m)"
  using ok put_ssh_instance_ok [OF ok _ worker_moves_keep worker_moves_ok] ssh_okD(2) [OF ok] by (auto split: option.splits)

lemma ssh_step_ok:
  assumes ok: "ssh_ok n m" and n: "Suc (Suc n) < 2 ^ 64"
  shows "ssh_ok (Suc n) (ssh_step op m)"
proof (cases op)
  case (Ssh_Worker i move)
  then show ?thesis using ssh_worker_ok [OF ssh_ok_Suc [OF ok]] by simp
qed (simp_all add: ssh_create_ok [OF ok n] ssh_obtain_ok [OF ok n] ssh_poll_ok ssh_shutdown_ok ssh_destroy_ok ssh_stream_calls_ok ssh_close_ok
    ssh_ok_Suc [OF ok] ssh_connect_def ssh_accept_def split: result.splits)

lemma ssh_run_ok:
  assumes "ssh_ok n m" "n + length ops + 1 < 2 ^ 64"
  shows "ssh_ok (n + length ops) (fold ssh_step ops m)"
  using assms
proof (induction ops arbitrary: n m)
  case (Cons op ops)
  from ssh_step_ok [OF Cons.prems(1), of op] Cons.prems(2) have "ssh_ok (Suc n) (ssh_step op m)" by simp
  from Cons.IH [OF this] Cons.prems(2) show ?case by simp
qed simp

lemma ssh_initial_ok: "ssh_ok 0 ssh_initial"
  by (simp add: ssh_ok_def ssh_initial_def counted_def ssh_active_def)

section \<open>Properties\<close>

text \<open>C23. After any sequence of fewer than 2^64 - 1 host calls and worker steps on the SSH carrier, the connection count of every
  instance is the number of streams it owns, every stream belongs to an existing instance, and a client
  instance holds at most as many streams, open and ready together, as it is configured for.\<close>

theorem ssh_connections_counted:
  assumes "length ops < 2 ^ 64 - 1" "m = fold ssh_step ops ssh_initial"
  shows "(\<forall>i st. hm_get (sm_instances m) i = Some st \<longrightarrow> si_active st = owned i (sm_streams m) \<and>
      (si_client st \<longrightarrow> owned i (sm_streams m) + length (si_ready st) \<le> si_max st)) \<and>
    (\<forall>h s. hm_get (sm_streams m) h = Some s \<longrightarrow> hm_get (sm_instances m) (tst_owner s) \<noteq> None)"
proof -
  have ok: "ssh_ok (length ops) m" using ssh_run_ok [OF ssh_initial_ok, of ops] assms by simp
  note c = ssh_okD(1) [OF ok]
  have "si_active st = owned i (sm_streams m)" if "hm_get (sm_instances m) i = Some st" for i st
    using countedD(3) [OF c, of i "si_active st"] that by (simp add: ssh_active_def)
  moreover have "si_client st \<Longrightarrow> si_active st + length (si_ready st) \<le> si_max st" if "hm_get (sm_instances m) i = Some st" for i st
    using ssh_okD(2) [OF ok that] by (simp add: client_ok_def)
  moreover have "hm_get (sm_instances m) (tst_owner s) \<noteq> None" if "hm_get (sm_streams m) h = Some s" for h s
    using countedD(2) [OF c that] by (simp add: ssh_active_def)
  ultimately show ?thesis by simp
qed

text \<open>A client that connects once, and a server for one connection. Every key is an Ed25519 key.\<close>

definition example_ssh_keys :: "nat ssh_keys" where
  "example_ssh_keys = \<lparr>sk_public = \<lambda>_. Ok (1, True), sk_secret = \<lambda>_. Ok (2, True)\<rparr>"

definition example_ssh_fields :: "'a \<Rightarrow> 'a ssh_fields" where
  "example_ssh_fields auth = \<lparr>sf_endpoint = Sock_V4 1 22, sf_username = str_lit ''u'', sf_key = str_lit ''/k'', sf_max_connections = 1, sf_queue_chunks = 2,
     sf_chunk_bytes = 8, sf_timeout = 5, sf_auth = auth\<rparr>"

definition example_ssh_wake :: wake_handle where
  "example_ssh_wake = \<lparr>wk_context = 5, wk_retain = True, wk_wake = True, wk_release = True\<rparr>"

definition example_ssh_client :: ssh_options where
  "example_ssh_client = Ssh_Connect (example_ssh_fields (Client_Password (str_lit ''p'')))"

definition example_ssh_server :: ssh_options where
  "example_ssh_server = Ssh_Listen (example_ssh_fields (Server_Password (str_lit ''p'')))"

definition example_ssh_ops :: "(nat, nat) ssh_op list" where
  "example_ssh_ops =
     [Ssh_Create example_ssh_keys (\<lambda>_. Ok example_ssh_client) (Ok []) (Ok []) (Ok ()) True False,
      Ssh_Connect_To 1 (Ok []) True example_ssh_wake False, Ssh_Worker 1 Move_Command, Ssh_Worker 1 (Move_Report (Some 4)),
      Ssh_Connect_To 1 (Ok []) True example_ssh_wake False]"

definition example_server_ops :: "(nat, nat) ssh_op list" where
  "example_server_ops =
     [Ssh_Create example_ssh_keys (\<lambda>_. Ok example_ssh_server) (Ok []) (Ok []) (Ok ()) True False,
      Ssh_Worker 1 (Move_Accept (Credential_Password (str_lit ''p''))),
      Ssh_Worker 1 (Move_Asked 0 (Ask_Channel 1) 4), Ssh_Worker 1 (Move_Asked 0 (Ask_Subsystem 1 (str_lit ''snolc'')) 4),
      Ssh_Worker 1 (Move_Asked 0 (Ask_Channel 2) 6), Ssh_Worker 1 (Move_Asked 0 (Ask_Subsystem 2 (str_lit ''snolc'')) 6),
      Ssh_Accept 1 True example_ssh_wake False, Ssh_Accept 1 True example_ssh_wake False]"

lemma example_ssh_absolute: "is_absolute [47, 107]" "from_utf8 [] = Some []"
  by code_simp+

lemma example_ssh_parsed:
  "ssh_parse_options example_ssh_keys (\<lambda>_. Ok example_ssh_client) [] [] = Ok example_ssh_client"
  "ssh_parse_options example_ssh_keys (\<lambda>_. Ok example_ssh_server) [] [] = Ok example_ssh_server"
  by (simp_all add: ssh_parse_options_def example_ssh_absolute ssh_resolve_def resolve_key_path_def ssh_validate_def ssh_fields_ok_def
      require_ed25519_public_def require_ed25519_private_def example_ssh_client_def example_ssh_server_def example_ssh_fields_def example_ssh_keys_def
      str_lit_def)

lemma example_ssh_options:
  "ssh_max_connections example_ssh_client = 1" "ssh_is_client example_ssh_client" "ssh_max_connections example_ssh_server = 1"
  "\<not> ssh_is_client example_ssh_server"
  "(case example_ssh_server of Ssh_Connect a \<Rightarrow> f a | Ssh_Listen b \<Rightarrow> g b) = g (example_ssh_fields (Server_Password (str_lit ''p'')))"
  "sf_max_connections (example_ssh_fields auth) = 1"
  by (simp_all add: ssh_max_connections_def ssh_is_client_def example_ssh_client_def example_ssh_server_def example_ssh_fields_def)

lemmas ssh_eval = ssh_initial_def ssh_create_def example_ssh_parsed Let_def hm_get_def hm_insert_def dropped_def ssh_new_instance_def example_ssh_options
  ssh_connect_def ssh_accept_def ssh_obtain_def drain_events_def
  take_or_start_def start_and_wait_def send_command_def slot_replace_def slot_clear_def worker_moves_def worker_command_def client_reports_def send_event_def
  ssh_finish_stream_def server_accepts_def server_asked_def channel_open_session_def subsystem_request_def USIZE_MAX_def

lemma example_ssh_run:
  "map fst (sm_streams (fold ssh_step example_ssh_ops ssh_initial)) = [1]"
  "hm_get (sm_instances (fold ssh_step example_ssh_ops ssh_initial)) 1 \<noteq> None"
  "map (\<lambda>(i, st). si_client st) (sm_instances (fold ssh_step example_ssh_ops ssh_initial)) = [True]"
  by (simp_all add: example_ssh_ops_def ssh_eval)

theorem ssh_connections_counted_witness:
  "length example_ssh_ops < 2 ^ 64 - 1 \<and> sm_streams (fold ssh_step example_ssh_ops ssh_initial) \<noteq> [] \<and>
     (\<exists>st. hm_get (sm_instances (fold ssh_step example_ssh_ops ssh_initial)) 1 = Some st \<and>
       si_active st = owned 1 (sm_streams (fold ssh_step example_ssh_ops ssh_initial)))"
proof -
  have l: "length example_ssh_ops < 2 ^ 64 - 1" by (simp add: example_ssh_ops_def)
  from ssh_connections_counted [OF l refl] example_ssh_run(1,2) l show ?thesis by fastforce
qed


end
