(* ===== verification/Spec2Isabelle.thy ===== *)
theory Spec2Isabelle
  imports Frame Accounting Sniff Sequencer Rules Service Storage Socks5_State Policy_Run Noise_Handshake Carrier_Run Http_Connect Dummies Tun_Adapter Direct_Run Ssh_Run
begin

text \<open>
  A verification development for the snolc modules (Rust, under \<^verbatim>\<open>src/modules/\<close>). A module is a shared
  library that a host process loads; the host creates instances of it and calls them through a table of
  functions. A carrier moves bytes between two hosts, a protection module encrypts the stream of a carrier,
  an adapter turns the connections of applications into flows and back, and a policy module decides which
  flows may pass and how much they may transfer.

  \<^bold>\<open>Conventions.\<close> Machine integers are words; \<open>usize\<close> is a natural number with its bound where overflow is
  checked. \<open>Result\<close> is \<open>result\<close>, a value that may panic is an \<open>option\<close>, a method with \<open>&mut self\<close> returns
  its result and the new state. A \<open>str\<close> is its UTF-8 bytes. A \<open>HashMap\<close> is an association list with distinct
  keys (\<open>Hash_Map\<close>: the locale \<open>hash_map\<close> holds its laws and is interpreted on the operations). What the
  operating system, the host and the libraries answer is an argument of the definitions that ask, either a
  function of the number of the call or a record of functions; the theorems hold for all answers, or for all
  that satisfy the named hypotheses. The status codes of the host interface are symbolic and distinct.

  \<^bold>\<open>Shared theories.\<close> \<open>Prelude\<close> (integers, results, slices), \<open>Rust_Text\<close> (UTF-8, splitting, numbers),
  \<open>Net_Addr\<close> and \<open>Socket_Addr\<close> (addresses and their text syntax), \<open>Poll_Io\<close> (non-blocking streams and the
  loop that writes a buffer), \<open>Abi\<close> and \<open>Foreign_Io\<close> (the host interface and the streams that modules hand to
  each other), \<open>Hash_Map\<close>.

  \<^bold>\<open>policy-local.\<close>
  \<open>Frame\<close> (\<^verbatim>\<open>frame.rs\<close>): any segmentation of encoded frames is decoded to the same frames.
  \<open>Accounting\<close> (\<^verbatim>\<open>accounting.rs\<close>): a quota account never hands out more than its limit, whatever the order of
  requests, commits and failures; a token bucket never exceeds its rate plus its burst, and the waiting time
  it announces is enough.
  \<open>Sniff\<close> (\<^verbatim>\<open>sniff.rs\<close>): a decision of the classifier does not change when more bytes arrive, and the server
  name of a well-formed ClientHello is found.
  \<open>Users\<close> and \<open>Sequencer\<close> (\<^verbatim>\<open>admin.rs\<close>): identifiers, weekly access, the stored form of users; requests of
  an administrator are numbered consecutively and repeated requests get the response of the first.
  \<open>Config\<close> (\<^verbatim>\<open>config.rs\<close>), \<open>Rules\<close> (\<open>destination_policy\<close> and the matching of addresses): the first rule that
  matches decides.
  \<open>Service\<close> (\<^verbatim>\<open>service.rs\<close>): a session channel delivers the queued responses in order.
  \<open>Storage\<close> (\<^verbatim>\<open>storage.rs\<close>): the worker thread with its queue is linearizable: every reply is the one of a map
  that executes the requests in the order of the queue.
  \<open>Policy_State\<close>, \<open>Policy_Flow\<close>, \<open>Traffic\<close>, \<open>Session_Auth\<close>, \<open>Admin_Control\<close>, \<open>Policy_Poll\<close>, \<open>Policy_Host\<close> and
  \<open>Policy_Run\<close> (\<^verbatim>\<open>lib.rs\<close>): the state of an instance, flows that are held back until the classifier has
  decided, quota and rate grants, authentication of sessions, control requests, one poll, the calls of the
  host, and all interleavings of these. The properties say that nothing passes before the verdict, that
  accounts follow the stored records, that a session is authenticated only by a stored credential, that a
  request changes the instance only after its write was committed, that withdrawn access ends flows and
  sessions, that a restart restores the receipts, and that every flow carries the identity under which it
  was admitted.

  \<^bold>\<open>adapter-socks5.\<close> \<open>Socks5_Codec\<close>, \<open>Socks5_Client\<close>, \<open>Socks5_Flow\<close>, \<open>Socks5_State\<close> (\<^verbatim>\<open>lib.rs\<close>): the messages
  and their round trips; the handshake of a client does not depend on segmentation; clients, flows and UDP
  associations stay within the configured limits under all host calls.

  \<^bold>\<open>protection-noise.\<close> \<open>Noise_Frame\<close>, \<open>Noise_Channel\<close>, \<open>Noise_Host\<close> (\<^verbatim>\<open>lib.rs\<close>): records, the handshake and the
  encrypted stream, keys, instances and host calls. \<open>Noise_Stream\<close> shows that what one end accepts arrives at
  the other end, in order and completely, over any pipe; \<open>Noise_Handshake\<close> that client and server agree on
  linked transport states. snow is a record of functions with the laws \<open>snow_ok\<close> and \<open>nk_ok\<close>.

  \<^bold>\<open>carrier-tcp.\<close> \<open>Wake_Slot\<close>, \<open>Carrier_Tcp\<close>, \<open>Carrier_Run\<close> (\<^verbatim>\<open>lib.rs\<close>): wake handles, connecting and listening
  instances, streams and host calls. The tables stay well formed and within the configured number of
  connections, and every retained wake handle is released exactly once.

  \<^bold>\<open>carrier-ssh.\<close> \<open>Ssh_Bridge\<close> (\<^verbatim>\<open>bridge.rs\<close>): the lock-free pipe between the host thread and the SSH worker, at the level of
  its atomic operations, with all interleavings of the two threads as an inductive predicate. The stream is
  exact and no wake-up is lost in use; two interleavings are shown in which the end of the stream is reported
  too early and in which a writer waits for a reader that is gone. \<open>Ssh_Carrier\<close> and \<open>Ssh_Run\<close> (\<^verbatim>\<open>lib.rs\<close>):
  options, the decisions of client and server, instances, host calls and the steps of the workers on their
  channels. Connection counts are exact and clients stay within their limit; a server does not.

  \<^bold>\<open>adapter-http-connect.\<close> \<open>Http_Connect\<close> (\<^verbatim>\<open>lib.rs\<close>): the request parser, clients, flows and host calls. The
  request of a client does not depend on segmentation, and clients and flows stay within the limit.

  \<^bold>\<open>adapter-tun.\<close> \<open>Tun_Adapter\<close> (\<^verbatim>\<open>lib.rs\<close>): the device, one poll and the host calls. No packet is lost, repeated
  or reordered in either direction.

  \<^bold>\<open>adapter-direct.\<close> \<open>Direct_Connect\<close> (name lookup, TCP and UDP connections, the worker thread and its channel),
  \<open>Direct_Adapter\<close> (options, flows, instances, host calls) and \<open>Direct_Run\<close> (\<^verbatim>\<open>lib.rs\<close>): all interleavings of host
  calls with the worker threads. The locale \<open>sound_turn\<close> is the contract of a step on one instance and is
  interpreted for every call and worker step. Only addresses that were answered for an operation are dialed,
  wake handles are released exactly once, and pending operations stay within the limit.

  \<^bold>\<open>protection-dummy and policy-dummy.\<close> \<open>Dummies\<close>: both modules, and a state in which a failed flow blocks the
  polls of its policy.

  \<^bold>\<open>Termination and bounds.\<close> Loops of the source are recursive functions with a measure; none of the models
  uses fuel. The loop that waits for a connection (\<open>wait_loop\<close>) may be interrupted forever: it is a partial
  function with value \<open>None\<close> then, and \<open>wait_loop_ends\<close> shows that it returns once the clock reaches the deadline
  or a call is not interrupted. The join of a worker takes as many steps as it has requests. Statements about handle counters assume fewer than \<open>2 ^ 64 - 1\<close> calls, since the counters
  of the source wrap around.

  \<^bold>\<open>Not modelled.\<close> \<open>describe\<close> and \<open>validate_config\<close> of the modules, which pass a constant or the result of the
  parser to the module kit; raw pointers and the functions of the module kit (\<^verbatim>\<open>snolc_sdk\<close>), which appear as
  answers; TOML, postcard, SHA-256, redb and snow, which are parameters. The file handling of \<^verbatim>\<open>storage.rs\<close>
  (permissions, backup files). The TCP connection of adapter-direct on systems other than Linux and Android.
  The SSH library russh and the tokio runtime: the select loops of the two workers of carrier-ssh and the copying
  between an SSH channel and the bridge are theirs, and only the effects on the shared channels are modelled.
  Tests, fuzz targets, packaging and configuration templates.
\<close>

end
